(* ===== verification/Prelude.thy ===== *)
theory Prelude
  imports Main "HOL-Library.Word"
begin

unbundle bit_operations_syntax

text \<open>
  Shared vocabulary of the development: the machine types of \<^verbatim>\<open>include/net.h\<close>, the
  byte-order macros through which every packet field and every bindery record is read and
  written, and the generic facts on lists, options and words that the component theories use.
  C's \<^verbatim>\<open>int\<close> is \<^typ>\<open>int\<close> where no computation of the code can leave its range and a word
  where the width matters; a C array is a list of fixed length; a pointer that may be
  \<^verbatim>\<open>NULL\<close> is an \<open>option\<close>; a request buffer is a function from offsets to bytes, so that a
  handler may read any offset it likes, as the C code does.
\<close>

section \<open>Types and collections of facts\<close>

type_synonym u8 = "8 word"
type_synonym u16 = "16 word"
type_synonym u32 = "32 word"
type_synonym buffer = "nat \<Rightarrow> u8"

named_theorems layout_simps "byte-order round trips and buffer reads"
named_theorems slot_simps "slots of fixed-length C arrays"

section \<open>Byte order (net.h)\<close>

text \<open>\<^verbatim>\<open>U16_TO_BE16\<close>, \<^verbatim>\<open>U32_TO_BE32\<close>, \<^verbatim>\<open>U16_TO_16\<close>, \<^verbatim>\<open>U32_TO_32\<close>: the bytes the
  macros store, first byte first, on a little-endian machine.\<close>

definition u16_to_be16 :: "u16 \<Rightarrow> u8 list" where
  "u16_to_be16 a = [ucast (drop_bit 8 a), ucast a]"

definition u32_to_be32 :: "u32 \<Rightarrow> u8 list" where
  "u32_to_be32 a = [ucast (drop_bit 24 a), ucast (drop_bit 16 a), ucast (drop_bit 8 a), ucast a]"

definition u16_to_16 :: "u16 \<Rightarrow> u8 list" where
  "u16_to_16 a = [ucast a, ucast (drop_bit 8 a)]"

definition u32_to_32 :: "u32 \<Rightarrow> u8 list" where
  "u32_to_32 a = [ucast a, ucast (drop_bit 8 a), ucast (drop_bit 16 a), ucast (drop_bit 24 a)]"

text \<open>The reading macros look at two or four bytes and ignore what follows.\<close>

fun get_be16 :: "u8 list \<Rightarrow> u16" where
  "get_be16 (b0 # b1 # _) = ucast b1 OR push_bit 8 (ucast b0)"
| "get_be16 _ = 0"

fun get_be32 :: "u8 list \<Rightarrow> u32" where
  "get_be32 (b0 # b1 # b2 # b3 # _) =
     ucast b3 OR push_bit 8 (ucast b2) OR push_bit 16 (ucast b1) OR push_bit 24 (ucast b0)"
| "get_be32 _ = 0"

fun get_16 :: "u8 list \<Rightarrow> u16" where
  "get_16 (b0 # b1 # _) = ucast b0 OR push_bit 8 (ucast b1)"
| "get_16 _ = 0"

fun get_32 :: "u8 list \<Rightarrow> u32" where
  "get_32 (b0 # b1 # b2 # b3 # _) =
     ucast b0 OR push_bit 8 (ucast b1) OR push_bit 16 (ucast b2) OR push_bit 24 (ucast b3)"
| "get_32 _ = 0"

definition bytes_at :: "buffer \<Rightarrow> nat \<Rightarrow> nat \<Rightarrow> u8 list" where
  "bytes_at p k n = map p [k..<k + n]"

lemma length_bytes_at [simp, layout_simps]: "length (bytes_at p k n) = n"
  by (simp add: bytes_at_def)

lemma get_be16_u16_to_be16 [simp, layout_simps]: "get_be16 (u16_to_be16 a @ r) = a"
  by (rule bit_word_eqI) (auto simp: u16_to_be16_def bit_simps)

lemma get_be32_u32_to_be32 [simp, layout_simps]: "get_be32 (u32_to_be32 a @ r) = a"
proof (rule bit_word_eqI)
  fix n assume "n < LENGTH(32)"
  then show "bit (get_be32 (u32_to_be32 a @ r)) n = bit a n"
    by (cases "n < 8"; cases "n < 16"; cases "n < 24") (auto simp: u32_to_be32_def bit_simps)
qed

lemma get_16_u16_to_16 [simp, layout_simps]: "get_16 (u16_to_16 a @ r) = a"
  by (rule bit_word_eqI) (auto simp: u16_to_16_def bit_simps)

lemma get_32_u32_to_32 [simp, layout_simps]: "get_32 (u32_to_32 a @ r) = a"
proof (rule bit_word_eqI)
  fix n assume "n < LENGTH(32)"
  then show "bit (get_32 (u32_to_32 a @ r)) n = bit a n"
    by (cases "n < 8"; cases "n < 16"; cases "n < 24") (auto simp: u32_to_32_def bit_simps)
qed

lemma u8_high_bits [simp]:
  "\<not> bit (b :: u8) (8 + n)" "\<not> bit (b :: u8) (16 + n)" "\<not> bit (b :: u8) (24 + n)"
  by (auto dest: bit_imp_le_length)

lemma u32_to_be32_get_be32:
  "u32_to_be32 (get_be32 [b0, b1, b2, b3]) = [b0, b1, b2, b3]"
  by (auto simp: u32_to_be32_def bit_simps intro!: bit_word_eqI)

lemma length_u32_to_be32 [simp, layout_simps]: "length (u32_to_be32 a) = 4"
  by (simp add: u32_to_be32_def)

section \<open>Arrays of slots\<close>

lemma nth_update_other [slot_simps]: "i \<noteq> j \<Longrightarrow> xs[i := v] ! j = xs ! j"
  by simp

lemma list_eq_by_nth:
  "length xs = n \<Longrightarrow> length ys = n \<Longrightarrow> (\<And>i. i < n \<Longrightarrow> xs ! i = ys ! i) \<Longrightarrow> xs = ys"
  by (auto intro: nth_equalityI)

section \<open>Loops that fill an array\<close>

lemma fold_update_other:
  "j \<notin> f ` set ks \<Longrightarrow> fold (\<lambda>k xs. xs[f k := g k]) ks xs ! j = xs ! j"
  by (induction ks arbitrary: xs) auto

lemma length_fold_update [simp]: "length (fold (\<lambda>k xs. xs[f k := g k]) ks xs) = length xs"
  by (induction ks arbitrary: xs) auto

lemma fold_update_nth:
  assumes "distinct ks" and "inj_on f (set ks)" and "k \<in> set ks" and "f k < length xs"
  shows "fold (\<lambda>k xs. xs[f k := g k]) ks xs ! f k = g k"
  using assms
proof (induction ks arbitrary: xs)
  case (Cons a ks)
  show ?case
  proof (cases "k = a")
    case True
    with Cons.prems have "f k \<notin> f ` set ks" by (auto dest: inj_onD)
    with True Cons.prems(4) show ?thesis by (simp add: fold_update_other)
  qed (use Cons in auto)
qed simp

section \<open>Sums over slots\<close>

lemma sum_list_update_map:
  fixes f :: "'a \<Rightarrow> int"
  shows "k < length xs \<Longrightarrow>
    sum_list (map f (xs[k := v])) = sum_list (map f xs) + f v - f (xs ! k)"
  by (induction xs arbitrary: k) (auto split: nat.splits)

lemma set_take_update:
  "s \<in> set (take n (xs[k := v])) \<Longrightarrow> s = v \<or> s \<in> set (take n xs)"
  unfolding take_update_swap using set_update_subset_insert by fastforce

section \<open>Removing one element\<close>

lemma length_filter_remove1:
  "x \<in> set xs \<Longrightarrow> length (filter P (remove1 x xs)) = length (filter P xs) - of_bool (P x)"
proof -
  assume "x \<in> set xs"
  then obtain ys zs where "xs = ys @ x # zs" "x \<notin> set ys" using split_list_first by fastforce
  then show ?thesis by (simp add: remove1_append)
qed

lemma sorted_wrt_remove1: "sorted_wrt R xs \<Longrightarrow> sorted_wrt R (remove1 x xs)"
  by (induction xs) (auto dest: notin_set_remove1 set_remove1_subset [THEN subsetD])

section \<open>Keyed chains\<close>

text \<open>The singly linked lists of the source, searched by a key: the first entry with the key is
  found, replaced in place or unlinked; a new entry goes to the end of the chain.\<close>

fun chain_find :: "('a \<Rightarrow> 'k) \<Rightarrow> 'k \<Rightarrow> 'a list \<Rightarrow> 'a option" where
  "chain_find key k [] = None"
| "chain_find key k (x # xs) = (if key x = k then Some x else chain_find key k xs)"

fun chain_put :: "('a \<Rightarrow> 'k) \<Rightarrow> 'a \<Rightarrow> 'a list \<Rightarrow> 'a list" where
  "chain_put key y [] = [y]"
| "chain_put key y (x # xs) = (if key x = key y then y # xs else x # chain_put key y xs)"

fun chain_del :: "('a \<Rightarrow> 'k) \<Rightarrow> 'k \<Rightarrow> 'a list \<Rightarrow> 'a list" where
  "chain_del key k [] = []"
| "chain_del key k (x # xs) = (if key x = k then xs else x # chain_del key k xs)"

lemma chain_find_put [simp]:
  "chain_find key k (chain_put key y xs) = (if k = key y then Some y else chain_find key k xs)"
  by (induction xs) auto

lemma chain_find_None: "chain_find key k xs = None \<longleftrightarrow> k \<notin> key ` set xs"
  by (induction xs) auto

lemma chain_find_key: "chain_find key k xs = Some x \<Longrightarrow> key x = k \<and> x \<in> set xs"
  by (induction xs) (auto split: if_splits)

lemma chain_find_del [simp]:
  "distinct (map key xs) \<Longrightarrow>
     chain_find key k' (chain_del key k xs) = (if k' = k then None else chain_find key k' xs)"
  by (induction xs) (auto simp: chain_find_None)

lemma keys_put: "key ` set (chain_put key y xs) = insert (key y) (key ` set xs)"
  by (induction xs) auto

lemma keys_del: "key ` set (chain_del key k xs) \<subseteq> key ` set xs"
  by (induction xs) auto

lemma set_put: "set (chain_put key y xs) \<subseteq> insert y (set xs)"
  by (induction xs) auto

lemma set_del: "set (chain_del key k xs) \<subseteq> set xs"
  by (induction xs) auto

lemma distinct_put [intro]: "distinct (map key xs) \<Longrightarrow> distinct (map key (chain_put key y xs))"
proof (induction xs)
  case (Cons x xs)
  then show ?case using keys_put [of key y xs] by (auto simp: image_iff)
qed simp

lemma distinct_del [intro]: "distinct (map key xs) \<Longrightarrow> distinct (map key (chain_del key k xs))"
proof (induction xs)
  case (Cons x xs)
  then show ?case using keys_del [of key k xs] by (auto simp: image_iff)
qed simp

lemma chain_del_Nil: "chain_del key k xs = [] \<Longrightarrow> xs = [] \<or> (\<exists>x. xs = [x] \<and> key x = k)"
  by (cases xs) (auto split: if_splits)

section \<open>Small arrays, bytes and digits\<close>

lemma length_8_cases:
  assumes "length xs = 8"
  obtains a b c d e f g h where "xs = [a, b, c, d, e, f, g, h]"
  using assms by (auto simp: numeral_eq_Suc length_Suc_conv)

lemma upt_8: "[0..<8] = [0, 1, 2, 3, 4, 5, 6, 7::nat]" by (simp add: upt_rec)

lemma replicate_8: "replicate 8 x = [x, x, x, x, x, x, x, x]" by (simp add: numeral_eq_Suc)

lemma upt_16: "[0..<16] = [0, 1, 2, 3, 4, 5, 6, 7, 8, 9, 10, 11, 12, 13, 14, 15::nat]" by (simp add: upt_rec)

lemma u8_unat_less: "unat (x :: u8) < 256"
  using unsigned_less [of x] by simp

lemma base16_unique:
  "(x::nat) < 16 \<Longrightarrow> y < 16 \<Longrightarrow> 16 * a + x = 16 * b + y \<Longrightarrow> a = b \<and> x = y"
  by presburger

section \<open>Interface: a cipher made of invertible rounds\<close>

text \<open>\<open>enc\<close> and \<open>dec\<close> are one round in each direction on the states that satisfy \<open>ok\<close>; any
  number of rounds is then undone by the same number of inverse rounds.\<close>

locale round_cipher =
  fixes enc :: "'s \<Rightarrow> 's" and dec :: "'s \<Rightarrow> 's" and ok :: "'s \<Rightarrow> bool"
  assumes dec_enc: "ok s \<Longrightarrow> dec (enc s) = s"
    and ok_enc: "ok s \<Longrightarrow> ok (enc s)"
begin

lemma ok_rounds: "ok s \<Longrightarrow> ok ((enc ^^ n) s)"
  by (induction n) (simp_all add: ok_enc)

lemma unrounds: "ok s \<Longrightarrow> (dec ^^ n) ((enc ^^ n) s) = s"
  by (induction n) (simp_all add: funpow_swap1 [of dec] dec_enc ok_rounds)

end

section \<open>Interface: reference counts\<close>

text \<open>A table of shared objects: \<open>cnt\<close> counts the references to a handle and \<open>drop_ref\<close> gives
  one back.\<close>

locale refcounted =
  fixes inv :: "'t \<Rightarrow> bool" and cnt :: "'t \<Rightarrow> 'h \<Rightarrow> int" and drop_ref :: "'h \<Rightarrow> 't \<Rightarrow> 't"
  assumes drop_inv: "inv t \<Longrightarrow> 0 < cnt t h \<Longrightarrow> inv (drop_ref h t)"
    and drop_cnt: "inv t \<Longrightarrow> 0 < cnt t h \<Longrightarrow> cnt (drop_ref h t) = (cnt t)(h := cnt t h - 1)"
begin

lemma drop_times:
  "inv t \<Longrightarrow> int n \<le> cnt t h \<Longrightarrow>
     inv ((drop_ref h ^^ n) t) \<and> cnt ((drop_ref h ^^ n) t) = (cnt t)(h := cnt t h - int n)"
proof (induction n)
  case (Suc n)
  let ?x = "(drop_ref h ^^ n) t"
  have "int n \<le> cnt t h" using Suc.prems(2) by linarith
  note IH = Suc.IH [OF Suc.prems(1) this]
  note x = IH [THEN conjunct1] and c = IH [THEN conjunct2]
  then have pos: "0 < cnt ?x h" using Suc.prems by simp
  show ?case using drop_inv [OF x pos] drop_cnt [OF x pos] by (auto simp: c fun_eq_iff)
qed simp

end

end
