(* ===== verification/Nwcrypt.thy ===== *)
theory Nwcrypt
  imports Prelude
begin

text \<open>
  The password routines of \<^verbatim>\<open>src/nwcrypt.c\<close>: the one-way \<open>shuffle\<close> (with its final stage
  \<open>shuffle1\<close>), the challenge response \<open>nw_encrypt\<close>, and the reversible cipher with which a
  client sends a new password (\<open>newpassencrypt\<close> and its inverse \<open>nw_decrypt_newpass\<close>).
  Fixed C arrays are lists of bytes; the routines that write through pointers return what they
  write.  \<^verbatim>\<open>char\<close> cells are bytes, since every use in the source masks a nibble.
\<close>

section \<open>Tables\<close>

definition encrypttable :: "u8 list" where
  "encrypttable =
    [7, 8, 0, 8, 6, 4, 14, 4, 5, 12, 1, 7, 11, 15, 10, 8,
     15, 8, 12, 12, 9, 4, 1, 14, 4, 6, 2, 4, 0, 10, 11, 9,
     2, 15, 11, 1, 13, 2, 1, 9, 5, 14, 7, 0, 0, 2, 6, 6,
     0, 7, 3, 8, 2, 9, 3, 15, 7, 15, 12, 15, 6, 4, 10, 0,
     2, 3, 10, 11, 13, 8, 3, 10, 1, 7, 12, 15, 1, 8, 9, 13,
     9, 1, 9, 4, 14, 4, 12, 5, 5, 12, 8, 11, 2, 3, 9, 14,
     7, 7, 6, 9, 14, 15, 12, 8, 13, 1, 10, 6, 14, 13, 0, 7,
     7, 10, 0, 1, 15, 5, 4, 11, 7, 11, 14, 12, 9, 5, 13, 1,
     11, 13, 1, 3, 5, 13, 14, 6, 3, 0, 11, 11, 15, 3, 6, 4,
     9, 13, 10, 3, 1, 4, 9, 4, 8, 3, 11, 14, 5, 0, 5, 2,
     12, 11, 13, 5, 13, 5, 13, 2, 13, 9, 10, 12, 10, 0, 11, 3,
     5, 3, 6, 9, 5, 1, 14, 14, 0, 14, 8, 2, 13, 2, 2, 0,
     4, 15, 8, 5, 9, 6, 8, 6, 11, 10, 11, 15, 0, 7, 2, 8,
     12, 7, 3, 10, 1, 4, 2, 5, 15, 7, 10, 12, 14, 5, 9, 3,
     14, 7, 1, 2, 14, 1, 15, 4, 10, 6, 12, 6, 15, 4, 3, 0,
     12, 0, 3, 6, 15, 8, 7, 11, 2, 13, 12, 6, 10, 10, 8, 13]"

definition encryptkeys :: "u8 list" where
  "encryptkeys =
    [72, 147, 70, 103, 152, 61, 230, 141, 183, 16, 122, 38, 90, 185, 177, 53,
     107, 15, 213, 112, 174, 251, 173, 17, 244, 71, 220, 167, 236, 207, 80, 192]"

definition newshuffle :: "u8 list" where
  "newshuffle =
    [15, 8, 5, 7, 12, 2, 14, 9, 0, 1, 6, 13, 3, 4, 11, 10,
     2, 12, 14, 6, 15, 0, 1, 8, 13, 3, 10, 4, 9, 11, 5, 7,
     5, 2, 9, 15, 12, 4, 13, 0, 14, 10, 6, 8, 11, 1, 3, 7,
     15, 13, 2, 6, 7, 8, 5, 9, 0, 4, 12, 3, 1, 10, 11, 14,
     5, 14, 2, 11, 13, 10, 7, 0, 8, 6, 4, 1, 15, 12, 3, 9,
     8, 2, 15, 10, 5, 9, 6, 12, 0, 11, 1, 13, 7, 3, 4, 14,
     14, 8, 0, 9, 4, 11, 2, 7, 12, 3, 10, 5, 13, 1, 6, 15,
     1, 4, 8, 10, 13, 11, 7, 14, 5, 15, 3, 9, 0, 2, 6, 12,
     5, 3, 12, 8, 11, 2, 14, 10, 4, 1, 13, 0, 6, 7, 15, 9,
     6, 0, 11, 14, 13, 4, 12, 15, 7, 2, 8, 10, 1, 5, 3, 9,
     11, 5, 10, 14, 15, 1, 12, 0, 6, 4, 2, 9, 3, 13, 7, 8,
     7, 2, 10, 0, 14, 8, 15, 4, 12, 11, 9, 1, 5, 13, 3, 6,
     7, 4, 15, 9, 5, 1, 12, 11, 0, 3, 8, 14, 2, 10, 6, 13,
     9, 4, 8, 0, 10, 3, 1, 12, 5, 15, 7, 2, 11, 14, 6, 13,
     9, 5, 4, 7, 14, 8, 3, 1, 13, 11, 12, 2, 0, 15, 6, 10,
     9, 10, 11, 13, 5, 3, 15, 0, 1, 12, 8, 7, 6, 4, 14, 2,
     3, 14, 15, 2, 13, 12, 4, 5, 9, 6, 0, 1, 11, 7, 10, 8]"

section \<open>The one-way hash\<close>

text \<open>One iteration of the inner loop of \<open>shuffle1\<close>.  The C variable \<^verbatim>\<open>b4\<close> is a
  \<^verbatim>\<open>short\<close>; it is a \<^typ>\<open>nat\<close> here, and \<open>shuffle1_loop_b4\<close> shows that it stays in range.\<close>

definition shuffle1_step :: "nat \<Rightarrow> u8 list \<times> nat \<Rightarrow> u8 list \<times> nat" where
  "shuffle1_step s tb =
     (let temp = fst tb; b4 = snd tb;
          b3 = (temp ! s + of_nat b4) XOR (temp ! ((s + b4) mod 32) - encryptkeys ! s)
      in (temp[s := b3], b4 + unat b3))"

definition shuffle1_loop :: "u8 list \<Rightarrow> u8 list \<times> nat" where
  "shuffle1_loop temp = fold shuffle1_step ([0..<32] @ [0..<32]) (temp, 0)"

definition shuffle1 :: "u8 list \<Rightarrow> u8 list" where
  "shuffle1 temp0 =
     (let temp = fst (shuffle1_loop temp0)
      in map (\<lambda>i. encrypttable ! unat (temp ! (2 * i))
                   OR push_bit 4 (encrypttable ! unat (temp ! (2 * i + 1)))) [0..<16])"

text \<open>\<open>shuffle\<close>: trailing zero bytes are dropped, whole blocks of 32 are folded in, the
  rest is folded in cyclically with a key byte after each pass over it, and \<^verbatim>\<open>lon\<close> is
  folded in last.\<close>

fun strip_zeros :: "u8 list \<Rightarrow> nat \<Rightarrow> nat" where
  "strip_zeros buf 0 = 0"
| "strip_zeros buf (Suc n) = (if buf ! n = 0 then strip_zeros buf n else Suc n)"

function shuffle_blocks :: "u8 list \<Rightarrow> u8 list \<Rightarrow> nat \<Rightarrow> nat \<Rightarrow> u8 list \<times> nat \<times> nat" where
  "shuffle_blocks buf temp d buflen =
     (if 32 \<le> buflen
      then shuffle_blocks buf (map (\<lambda>s. temp ! s XOR buf ! (d + s)) [0..<32]) (d + 32) (buflen - 32)
      else (temp, d, buflen))"
  by pat_completeness auto
termination
  by (relation "measure (\<lambda>(buf, temp, d, buflen). buflen)") auto

declare shuffle_blocks.simps [simp del]

definition shuffle_rest_step ::
  "u8 list \<Rightarrow> nat \<Rightarrow> nat \<Rightarrow> nat \<Rightarrow> u8 list \<times> nat \<Rightarrow> u8 list \<times> nat" where
  "shuffle_rest_step buf d buflen s tb =
     (let temp = fst tb; b2 = snd tb
      in if d + buflen = b2
         then (temp[s := temp ! s XOR encryptkeys ! s], d)
         else (temp[s := temp ! s XOR buf ! b2], b2 + 1))"

definition shuffle_rest :: "u8 list \<Rightarrow> nat \<Rightarrow> nat \<Rightarrow> u8 list \<Rightarrow> u8 list" where
  "shuffle_rest buf d buflen temp =
     (if 0 < buflen then fst (fold (shuffle_rest_step buf d buflen) [0..<32] (temp, d)) else temp)"

definition shuffle :: "u8 list \<Rightarrow> u8 list \<Rightarrow> nat \<Rightarrow> u8 list" where
  "shuffle lon buf buflen0 =
     (let n = strip_zeros buf buflen0;
          (temp, d, r) = shuffle_blocks buf (replicate 32 0) 0 n;
          temp' = shuffle_rest buf d r temp
      in shuffle1 (map (\<lambda>s. temp' ! s XOR lon ! (s mod 4)) [0..<32]))"

definition nw_encrypt :: "u8 list \<Rightarrow> u8 list \<Rightarrow> u8 list" where
  "nw_encrypt fra buf =
     (let k0 = shuffle fra buf 16 @ shuffle (drop 4 fra) buf 16;
          k = fold (\<lambda>s k. k[s := k ! s XOR k ! (31 - s)]) [0..<16] k0
      in map (\<lambda>s. k ! s XOR k ! (15 - s)) [0..<8])"

section \<open>The new-password cipher\<close>

text \<open>Low and high nibble, as the masks of the source read them.\<close>

definition lo4 :: "u8 \<Rightarrow> u8" where "lo4 x = x AND 15"
definition hi4 :: "u8 \<Rightarrow> u8" where "hi4 x = drop_bit 4 x AND 15"

definition subst_nibbles :: "u8 list \<Rightarrow> u8 list \<Rightarrow> u8 list" where
  "subst_nibbles old copy =
     map (\<lambda>di. let x = copy ! di XOR old ! di;
                   cl = push_bit 4 (newshuffle ! (unat (hi4 x) + 32 * di + 16));
                   dl = newshuffle ! (unat (lo4 x) + 32 * di)
               in cl OR dl) [0..<8]"

definition rotate_old_left :: "u8 list \<Rightarrow> u8 list" where
  "rotate_old_left old =
     map (\<lambda>b. if b = 0 then hi4 (old ! 7) OR push_bit 4 (old ! 0)
              else hi4 (old ! (b - 1)) OR push_bit 4 (old ! b)) [0..<8]"

definition permute_step :: "u8 list \<Rightarrow> nat \<Rightarrow> u8 list \<Rightarrow> u8 list" where
  "permute_step copy di out =
     (let n = unat (newshuffle ! (di + 256));
          ch = (if odd n then hi4 (copy ! (n div 2)) else lo4 (copy ! (n div 2)))
      in out[di div 2 := out ! (di div 2) OR (if odd di then push_bit 4 ch else ch)])"

definition permute_nibbles :: "u8 list \<Rightarrow> u8 list" where
  "permute_nibbles copy = fold (permute_step copy) [0..<16] (replicate 8 0)"

definition newpass_round :: "u8 list \<times> u8 list \<Rightarrow> u8 list \<times> u8 list" where
  "newpass_round oc =
     (rotate_old_left (fst oc), permute_nibbles (subst_nibbles (fst oc) (snd oc)))"

text \<open>The routine writes the cipher text to \<^verbatim>\<open>out\<close> and leaves the rotated key in
  \<^verbatim>\<open>old\<close>; both are returned.\<close>

definition newpassencrypt :: "u8 list \<Rightarrow> u8 list \<Rightarrow> u8 list \<times> u8 list" where
  "newpassencrypt old new = (newpass_round ^^ 16) (old, take 8 new)"

definition invshuffle :: "u8 list" where
  "invshuffle =
     fold (\<lambda>k inv. let i = 16 * (k div 16); j = k mod 16
                   in inv[i + unat (newshuffle ! (i + j)) := of_nat j])
       [0..<272] (replicate 272 0)"

definition unpermute_step :: "u8 list \<Rightarrow> nat \<Rightarrow> u8 list \<Rightarrow> u8 list" where
  "unpermute_step newpwd j copy =
     (let n = unat (newshuffle ! (j + 256));
          ch = (if odd j then hi4 (newpwd ! (j div 2)) else lo4 (newpwd ! (j div 2)))
      in copy[n div 2 := copy ! (n div 2) OR (if odd n then push_bit 4 ch else ch)])"

definition unpermute_nibbles :: "u8 list \<Rightarrow> u8 list" where
  "unpermute_nibbles newpwd = fold (unpermute_step newpwd) [0..<16] (replicate 8 0)"

definition rotate_old_right :: "u8 list \<Rightarrow> u8 list" where
  "rotate_old_right old =
     map (\<lambda>j. if j < 7 then push_bit 4 (old ! (j + 1)) OR hi4 (old ! j)
              else push_bit 4 (old ! 0) OR hi4 (old ! 7)) [0..<8]"

definition unsubst_nibbles :: "u8 list \<Rightarrow> u8 list \<Rightarrow> u8 list" where
  "unsubst_nibbles old copy =
     map (\<lambda>j. let cl = invshuffle ! (unat (lo4 (copy ! j)) + j * 32);
                  ch = push_bit 4 (invshuffle ! (unat (hi4 (copy ! j)) + j * 32 + 16))
              in (ch OR cl) XOR old ! j) [0..<8]"

definition decrypt_round :: "u8 list \<times> u8 list \<Rightarrow> u8 list \<times> u8 list" where
  "decrypt_round oc =
     (let old = rotate_old_right (fst oc)
      in (old, unsubst_nibbles old (unpermute_nibbles (snd oc))))"

definition nw_decrypt_newpass :: "u8 list \<Rightarrow> u8 list \<Rightarrow> u8 list \<times> u8 list" where
  "nw_decrypt_newpass oldpwd newpwd = (decrypt_round ^^ 16) (oldpwd, newpwd)"

section \<open>Nibbles and tables\<close>

lemma nibble_mask: "lo4 x = x AND mask 4" "hi4 x = drop_bit 4 x AND mask 4"
  by (simp_all add: lo4_def hi4_def mask_eq_exp_minus_1)

lemma lo4_hi4_simps [simp]:
  "lo4 (lo4 y) = lo4 y" "hi4 (lo4 y) = 0" "lo4 (hi4 y) = hi4 y" "hi4 (hi4 y) = 0"
  "lo4 (push_bit 4 x) = 0" "hi4 (push_bit 4 x) = lo4 x"
  "lo4 (x OR y) = lo4 x OR lo4 y"  "hi4 (x OR y) = hi4 x OR hi4 y"
  "lo4 0 = 0" "hi4 0 = 0"
  by (auto simp: nibble_mask bit_simps intro!: bit_word_eqI)

lemma nibble_join [simp]: "push_bit 4 (hi4 x) OR lo4 x = x" "lo4 x OR push_bit 4 (hi4 x) = x"
  by (auto simp: nibble_mask bit_simps intro!: bit_word_eqI)

lemma unat_lo4: "unat (lo4 x) = unat x mod 16"
  by (simp add: nibble_mask take_bit_eq_mod unat_mod flip: take_bit_eq_mask)

lemma lo4_bound: "unat (lo4 x) < 16" "unat (hi4 x) < 16"
  by (simp_all add: nibble_mask take_bit_eq_mod unat_mod flip: take_bit_eq_mask)

lemma lo4_eq: "unat x < 16 \<Longrightarrow> lo4 x = x"
  by (simp add: unat_lo4 word_unat_eq_iff)

lemma hi4_eq: "unat x < 16 \<Longrightarrow> hi4 x = 0"
  by (metis lo4_eq lo4_hi4_simps(2))

lemma newshuffle_small: "list_all (\<lambda>x. unat x < 16) newshuffle"
  by (simp add: newshuffle_def)

lemma newshuffle_blocks:
  "list_all (\<lambda>b. distinct (take 16 (drop (16 * b) newshuffle))) [0..<17]"
  by code_simp

lemma shuffle_block_inj:
  assumes "k < 272" and "k' < 272" and "k div 16 = k' div 16"
    and "newshuffle ! k = newshuffle ! k'"
  shows "k = k'"
proof -
  let ?b = "k div 16" and ?xs = "take 16 (drop (16 * (k div 16)) newshuffle)"
  have len: "length newshuffle = 272" by (simp add: newshuffle_def)
  have "?b < 17" using assms(1) by simp
  then have d: "distinct ?xs" using newshuffle_blocks by (auto simp: list_all_iff)
  have lxs: "length ?xs = 16" using \<open>?b < 17\<close> len by simp
  have "k = 16 * ?b + k mod 16" "k' = 16 * ?b + k' mod 16"
    using assms(3) by (metis mult_div_mod_eq)+
  then have "?xs ! (k mod 16) = newshuffle ! k" "?xs ! (k' mod 16) = newshuffle ! k'"
    using \<open>?b < 17\<close> len by simp_all
  then have "?xs ! (k mod 16) = ?xs ! (k' mod 16)" by (simp add: assms(4))
  then have "k mod 16 = k' mod 16"
    using d lxs by (subst (asm) nth_eq_iff_index_eq) auto
  then show ?thesis using assms(3) by (metis div_mult_mod_eq)
qed

lemma newshuffle_lt: "k < 272 \<Longrightarrow> unat (newshuffle ! k) < 16"
  using newshuffle_small by (simp add: list_all_length newshuffle_def)

lemma invshuffle_newshuffle:
  assumes "k < 272"
  shows "invshuffle ! (16 * (k div 16) + unat (newshuffle ! k)) = of_nat (k mod 16)"
proof -
  let ?f = "\<lambda>k. 16 * (k div 16) + unat (newshuffle ! k)"
  have inj: "inj_on ?f (set [0..<272])"
  proof (rule inj_onI)
    fix k k' assume kk: "k \<in> set [0..<272]" "k' \<in> set [0..<272]" and eq: "?f k = ?f k'"
    then have "unat (newshuffle ! k) < 16" "unat (newshuffle ! k') < 16"
      by (simp_all add: newshuffle_lt)
    with eq have "k div 16 = k' div 16" "unat (newshuffle ! k) = unat (newshuffle ! k')"
      using base16_unique by blast+
    with kk show "k = k'" by (auto intro: shuffle_block_inj simp: word_unat_eq_iff [THEN iffD2])
  qed
  have "k div 16 < 17" using assms by simp
  then have "?f k < 272" using newshuffle_lt [OF assms] by linarith
  then have "fold (\<lambda>k xs. xs[?f k := of_nat (k mod 16)]) [0..<272] (replicate 272 (0 :: u8)) ! ?f k
      = of_nat (k mod 16)"
    by (intro fold_update_nth [OF _ inj]) (use assms in simp_all)
  moreover have "invshuffle =
      fold (\<lambda>k xs. xs[?f k := of_nat (k mod 16)]) [0..<272] (replicate 272 0)"
    by (simp only: invshuffle_def Let_def mult_div_mod_eq)
  ultimately show ?thesis by simp
qed

lemma rotate_right_left: "length old = 8 \<Longrightarrow> rotate_old_right (rotate_old_left old) = old"
  by (erule length_8_cases) (simp add: rotate_old_right_def rotate_old_left_def upt_8)

lemma permutation_row:
  "newshuffle ! 256 = 3"
  "newshuffle ! 257 = 14"
  "newshuffle ! 258 = 15"
  "newshuffle ! 259 = 2"
  "newshuffle ! 260 = 13"
  "newshuffle ! 261 = 12"
  "newshuffle ! 262 = 4"
  "newshuffle ! 263 = 5"
  "newshuffle ! 264 = 9"
  "newshuffle ! 265 = 6"
  "newshuffle ! 266 = 0"
  "newshuffle ! 267 = 1"
  "newshuffle ! 268 = 11"
  "newshuffle ! 269 = 7"
  "newshuffle ! 270 = 10"
  "newshuffle ! 271 = 8"
  by (simp_all add: newshuffle_def)

lemma unpermute_permute: "length c = 8 \<Longrightarrow> unpermute_nibbles (permute_nibbles c) = c"
  by (erule length_8_cases) (simp add: unpermute_nibbles_def permute_nibbles_def upt_16
  permute_step_def unpermute_step_def permutation_row replicate_8)

lemma nibble_index:
  assumes "(x::nat) < 16"
  shows "(x + 32 * j + 16) div 16 = 2 * j + 1" "(x + 32 * j) div 16 = 2 * j"
    "(x + 32 * j + 16) mod 16 = x" "(x + 32 * j) mod 16 = x"
proof -
  have *: "x + 32 * j + 16 = x + 16 * (2 * j + 1)" "x + 32 * j = x + 16 * (2 * j)" by simp_all
  show "(x + 32 * j + 16) div 16 = 2 * j + 1" "(x + 32 * j + 16) mod 16 = x"
    unfolding *(1) using assms by (simp_all only: div_mult_self2 mod_mult_self2) simp_all
  show "(x + 32 * j) div 16 = 2 * j" "(x + 32 * j) mod 16 = x"
    unfolding *(2) using assms by (simp_all only: div_mult_self2 mod_mult_self2) simp_all
qed

lemma unsubst_subst:
  assumes "length old = 8" and "length c = 8"
  shows "unsubst_nibbles old (subst_nibbles old c) = c"
proof (rule list_eq_by_nth [of _ 8])
  fix j :: nat assume j: "j < 8"
  let ?x = "c ! j XOR old ! j"
  let ?h = "unat (hi4 ?x) + 32 * j + 16" and ?l = "unat (lo4 ?x) + 32 * j"
  have hl: "unat (hi4 ?x) < 16" "unat (lo4 ?x) < 16" by (simp_all add: lo4_bound)
  with j have lt: "?h < 272" "?l < 272" by linarith+
  have div: "?h div 16 = 2 * j + 1" "?l div 16 = 2 * j" and mod: "?h mod 16 = unat (hi4 ?x)"
    "?l mod 16 = unat (lo4 ?x)"
    using nibble_index [OF hl(1)] nibble_index [OF hl(2)] by blast+
  have inv: "invshuffle ! (unat (newshuffle ! ?h) + j * 32 + 16) = hi4 ?x"
    "invshuffle ! (unat (newshuffle ! ?l) + j * 32) = lo4 ?x"
    using invshuffle_newshuffle [OF lt(1)] invshuffle_newshuffle [OF lt(2)]
    unfolding div mod by (simp_all add: ac_simps)
  have sm: "lo4 (newshuffle ! ?h) = newshuffle ! ?h" "lo4 (newshuffle ! ?l) = newshuffle ! ?l"
    "hi4 (newshuffle ! ?l) = 0"
    using lt by (simp_all add: lo4_eq hi4_eq newshuffle_lt)
  show "unsubst_nibbles old (subst_nibbles old c) ! j = c ! j"
    using j by (simp add: unsubst_nibbles_def subst_nibbles_def Let_def sm inv xor.assoc)
qed (simp_all add: unsubst_nibbles_def assms)

lemma length_fold_permute [simp]:
  "length (fold (permute_step c) ks xs) = length xs"
  "length (fold (unpermute_step c) ks xs) = length xs"
  by (induction ks arbitrary: xs) (simp_all add: permute_step_def unpermute_step_def Let_def)

lemma length_permute [simp]: "length (permute_nibbles c) = 8" "length (unpermute_nibbles c) = 8"
  by (simp_all add: permute_nibbles_def unpermute_nibbles_def)

lemma lengths [simp]: "length (subst_nibbles o' c) = 8" "length (rotate_old_left o') = 8"
  by (simp_all add: subst_nibbles_def rotate_old_left_def)

lemma decrypt_round_newpass_round:
  "length (fst oc) = 8 \<Longrightarrow> length (snd oc) = 8 \<Longrightarrow> decrypt_round (newpass_round oc) = oc"
  by (cases oc) (simp add: decrypt_round_def newpass_round_def rotate_right_left unpermute_permute unsubst_subst)

lemma push_push [simp]: "push_bit 4 (push_bit 4 (x::u8)) = 0"  "push_bit 4 ((x::u8) OR y) = push_bit 4 x OR push_bit 4 y"
  by (auto simp: bit_simps intro!: bit_word_eqI)

lemma rotate_2: "rotate_old_left (rotate_old_left [a, b, c, d, e, f, g, h]) = [h, a, b, c, d, e, f, g]"
  by (simp add: rotate_old_left_def upt_8)

lemma rotate_16:
  assumes "length old = 8" shows "(rotate_old_left ^^ 16) old = old"
proof -
  obtain a b c d e f g h where "old = [a, b, c, d, e, f, g, h]"
    using assms by (rule length_8_cases)
  then show ?thesis by (simp add: numeral_eq_Suc rotate_2)
qed

lemma newpass_rounds_fst: "fst ((newpass_round ^^ n) oc) = (rotate_old_left ^^ n) (fst oc)"
  by (induction n) (simp_all add: newpass_round_def)

interpretation newpass: round_cipher newpass_round decrypt_round
  "\<lambda>oc. length (fst oc) = 8 \<and> length (snd oc) = 8"
  by unfold_locales (auto simp: decrypt_round_newpass_round, simp_all add: newpass_round_def)

lemma decrypt_newpass_block:
  assumes "length old = 8" and "length new = 8"
  shows "nw_decrypt_newpass old (snd (newpassencrypt old new)) = (old, new)"
proof -
  have "fst ((newpass_round ^^ 16) (old, new)) = old"
    using assms(1) by (simp add: newpass_rounds_fst rotate_16)
  then have "(old, snd (newpassencrypt old new)) = (newpass_round ^^ 16) (old, new)"
    using assms(2) by (simp add: newpassencrypt_def prod_eq_iff)
  then show ?thesis
    using newpass.unrounds [of "(old, new)" 16] assms
    by (simp add: nw_decrypt_newpass_def)
qed

text \<open>C11. Round trip of the new-password cipher: for an eight-byte key and an eight-byte
  block, \<^verbatim>\<open>nw_decrypt_newpass\<close> recovers exactly the block that \<^verbatim>\<open>newpassencrypt\<close>
  encrypted, and leaves the key buffer as it was (the sixteen nibble rotations cancel).\<close>

theorem decrypt_newpassencrypt:
  assumes "length old = 8" and "length new = 8"
  shows "nw_decrypt_newpass old (snd (newpassencrypt old new)) = (old, new)"
  using assms by (rule decrypt_newpass_block)

theorem decrypt_newpassencrypt_witness:
  "nw_decrypt_newpass [1, 2, 3, 4, 5, 6, 7, 8]
     (snd (newpassencrypt [1, 2, 3, 4, 5, 6, 7, 8] [83, 69, 67, 82, 69, 84, 0, 255]))
   = ([1, 2, 3, 4, 5, 6, 7, 8], [83, 69, 67, 82, 69, 84, 0, 255])"
  by (rule decrypt_newpassencrypt) simp_all

lemma shuffle1_fold_b4: "snd (fold shuffle1_step ks tb) \<le> snd tb + 255 * length ks"
proof (induction ks arbitrary: tb)
  case (Cons s ks)
  have "snd (shuffle1_step s tb) \<le> snd tb + 255"
    using u8_unat_less [of "(fst tb ! s + of_nat (snd tb)) XOR
        (fst tb ! ((s + snd tb) mod 32) - encryptkeys ! s)"]
    by (simp add: shuffle1_step_def Let_def)
  with Cons [of "shuffle1_step s tb"] show ?case by simp
qed simp

text \<open>The running sum \<^verbatim>\<open>b4\<close> of \<^verbatim>\<open>shuffle1\<close> is a C \<^verbatim>\<open>short\<close>; after any number of
  iterations of the two passes over the 32 cells it is still below \<^verbatim>\<open>0x8000\<close>, so the
  addition never overflows.\<close>

theorem shuffle1_b4_in_range:
  "snd (fold shuffle1_step (take n ([0..<32] @ [0..<32])) (temp, 0)) < 2 ^ 15"
proof -
  have "snd (fold shuffle1_step (take n ([0..<32] @ [0..<32])) (temp, 0)) \<le> 255 * min n 64"
    using shuffle1_fold_b4 [of "take n ([0..<32] @ [0..<32])" "(temp, 0)"]
    by (simp add: min.commute)
  also have "\<dots> < 2 ^ 15" by (simp add: min_def)
  finally show ?thesis .
qed

lemma shuffle_rest_fold:
  assumes "0 < r" and "length temp = 32" and "n \<le> 32"
  shows "snd (fold (shuffle_rest_step buf d r) [0..<n] (temp, d)) = d + n mod Suc r \<and>
    length (fst (fold (shuffle_rest_step buf d r) [0..<n] (temp, d))) = 32 \<and>
    (\<forall>s < 32. fst (fold (shuffle_rest_step buf d r) [0..<n] (temp, d)) ! s =
       (if s < n then temp ! s XOR
          (if s mod Suc r = r then encryptkeys ! s else buf ! (d + s mod Suc r))
        else temp ! s))"
  using assms(3)
proof (induction n)
  case (Suc n)
  have m: "Suc n mod Suc r = (if n mod Suc r = r then 0 else Suc (n mod Suc r))"
    by (simp add: mod_Suc)
  obtain t b where F: "fold (shuffle_rest_step buf d r) [0..<n] (temp, d) = (t, b)"
    by fastforce
  show ?case using Suc
    by (simp add: F shuffle_rest_step_def [of buf d r n] Let_def m nth_list_update less_Suc_eq)
qed (simp add: assms)

lemma strip_zeros_le: "strip_zeros buf n \<le> n"
  by (induction n) auto

lemma strip_zeros_cong:
  "\<forall>i < n. buf ! i = buf' ! i \<Longrightarrow> strip_zeros buf n = strip_zeros buf' n"
  by (induction n) auto

lemma strip_zeros_padding:
  "\<forall>i < k. buf ! (n + i) = 0 \<Longrightarrow> strip_zeros buf (n + k) = strip_zeros buf n"
  by (induction k) auto

lemma shuffle_blocks_cong:
  "\<forall>i < d + n. buf ! i = buf' ! i \<Longrightarrow> shuffle_blocks buf temp d n = shuffle_blocks buf' temp d n"
proof (induction buf temp d n rule: shuffle_blocks.induct)
  case (1 buf temp d n)
  show ?case
  proof (cases "32 \<le> n")
    case True
    then have "map (\<lambda>s. temp ! s XOR buf ! (d + s)) [0..<32]
        = map (\<lambda>s. temp ! s XOR buf' ! (d + s)) [0..<32]"
      using 1(2) by (intro map_cong) simp_all
    with 1 True show ?thesis
      by (simp add: shuffle_blocks.simps [of _ temp d n] del: map_eq_conv)
  qed (simp add: shuffle_blocks.simps [of _ temp d n])
qed

lemma shuffle_blocks_result:
  "length temp = 32 \<Longrightarrow> shuffle_blocks buf temp d n = (t, d', r) \<Longrightarrow>
     length t = 32 \<and> d' + r = d + n \<and> r < 32"
proof (induction buf temp d n rule: shuffle_blocks.induct)
  case (1 buf temp d n)
  then show ?case
    by (cases "32 \<le> n") (auto simp: shuffle_blocks.simps [of buf temp d n])
qed

lemma shuffle_rest_nth:
  assumes "length temp = 32" and "s < 32"
  shows "shuffle_rest buf d r temp ! s =
    (if r = 0 then temp ! s
     else temp ! s XOR (if s mod Suc r = r then encryptkeys ! s else buf ! (d + s mod Suc r)))"
  using shuffle_rest_fold [of r temp 32 buf d] assms by (simp add: shuffle_rest_def)

lemma shuffle_cong:
  assumes strip: "strip_zeros buf n = strip_zeros buf' n'"
    and eq: "\<forall>i < strip_zeros buf n. buf ! i = buf' ! i"
  shows "shuffle lon buf n = shuffle lon buf' n'"
proof -
  obtain t d r where b: "shuffle_blocks buf (replicate 32 0) 0 (strip_zeros buf n) = (t, d, r)"
    by (metis prod_cases3)
  moreover have "shuffle_blocks buf' (replicate 32 0) 0 (strip_zeros buf n) = (t, d, r)"
    using shuffle_blocks_cong [of 0 "strip_zeros buf n" buf buf'] eq b by simp
  moreover have l: "length t = 32" "d + r = strip_zeros buf n"
    using shuffle_blocks_result [OF _ b] by auto
  have "shuffle_rest buf d r t ! s = shuffle_rest buf' d r t ! s" if "s < 32" for s
  proof (cases "s mod Suc r = r")
    case False
    then have "d + s mod Suc r < d + r"
      using mod_less_divisor [of "Suc r" s] by linarith
    with eq l that show ?thesis by (simp add: shuffle_rest_nth)
  qed (use l that in \<open>simp add: shuffle_rest_nth\<close>)
  then have "map (\<lambda>s. shuffle_rest buf d r t ! s XOR lon ! (s mod 4)) [0..<32]
      = map (\<lambda>s. shuffle_rest buf' d r t ! s XOR lon ! (s mod 4)) [0..<32]"
    by (intro map_cong) simp_all
  ultimately show ?thesis using strip by (simp add: shuffle_def Let_def del: map_eq_conv)
qed

text \<open>Trailing zero bytes of the password do not change its hash, and \<^verbatim>\<open>shuffle\<close>
  never reads past the given length: the hash of a padded password in a longer buffer is the
  hash of the password itself.\<close>

theorem shuffle_ignores_padding:
  "shuffle lon (buf @ replicate k 0 @ junk) (length buf + k) = shuffle lon buf (length buf)"
proof (rule shuffle_cong)
  show eq: "strip_zeros (buf @ replicate k 0 @ junk) (length buf + k) = strip_zeros buf (length buf)"
    using strip_zeros_cong [of "length buf" "buf @ replicate k 0 @ junk" buf]
    by (simp add: strip_zeros_padding nth_append)
  show "\<forall>i < strip_zeros (buf @ replicate k 0 @ junk) (length buf + k).
      (buf @ replicate k 0 @ junk) ! i = buf ! i"
    using strip_zeros_le [of buf "length buf"] unfolding eq by (simp add: nth_append)
qed

text \<open>The loop of \<^verbatim>\<open>shuffle\<close> over the last, incomplete block computes a periodic
  mask: cell \<open>s\<close> is combined with byte \<open>s mod (r + 1)\<close> of the \<open>r\<close> remaining bytes, and with
  the key byte of that cell where the period ends.\<close>

theorem shuffle_rest_periodic:
  assumes "length temp = 32"
  shows "map ((!) (shuffle_rest buf d r temp)) [0..<32] =
    map (\<lambda>s. if r = 0 then temp ! s
             else temp ! s XOR (if s mod (r + 1) = r then encryptkeys ! s
                                else buf ! (d + s mod (r + 1)))) [0..<32]"
  using assms by (simp add: shuffle_rest_nth)

theorem shuffle_rest_periodic_witness:
  "map ((!) (shuffle_rest [7, 9] 0 2 (replicate 32 0))) [0..<32] =
    map (\<lambda>s. if (2::nat) = 0 then replicate 32 0 ! s
             else replicate 32 0 ! s XOR (if s mod (2 + 1) = 2 then encryptkeys ! s
                                else [7, 9] ! (0 + s mod (2 + 1)))) [0..<32]"
  by (rule shuffle_rest_periodic) simp

end
