(* ===== verification/Sema.thy ===== *)
theory Sema
  imports Prelude
begin

text \<open>
  The semaphore service of \<^verbatim>\<open>src/sema.c\<close> (NCP function 0x20), which the bindery process
  runs for all connections.  The global table \<open>semas\<close> is the C array with its fill count, a
  free slot being \<open>None\<close>; each connection keeps the handles it has open in the array
  \<^verbatim>\<open>CONNECTION.semas\<close> of \<^verbatim>\<open>include/nwbind.h\<close>.  Operations return the C result code (negative
  for an error) with the new state.  The last part combines the table and a list of
  connections into one state with the requests of all clients as steps.
\<close>

section \<open>State\<close>

record SEMA =
  se_name :: "u8 list"
  se_opencount :: int
  se_value :: int

record sema_table =
  count_semas :: nat
  semas :: "SEMA option list"

record SEMA_CONN =
  sc_handle :: int
  sc_opencount :: int

record conn_semas =
  c_count :: nat
  c_semas :: "SEMA_CONN list"

definition MAX_SEMAPHORES :: nat where "MAX_SEMAPHORES = 100"
definition MAX_SEMA_CONN :: nat where "MAX_SEMA_CONN = 10"

definition init_table :: sema_table where
  "init_table = \<lparr>count_semas = 0, semas = replicate MAX_SEMAPHORES None\<rparr>"

definition init_conn :: conn_semas where
  "init_conn = \<lparr>c_count = 0,
     c_semas = replicate MAX_SEMA_CONN \<lparr>sc_handle = 0, sc_opencount = 0\<rparr>\<rparr>"

section \<open>Operations on the global table\<close>

text \<open>The scan of \<^verbatim>\<open>open_sema\<close>: the slot that already has the name, or the first free one.\<close>

fun sema_scan :: "u8 list \<Rightarrow> nat \<Rightarrow> SEMA option list \<Rightarrow> nat option \<Rightarrow> nat + nat option" where
  "sema_scan name k [] isfree = Inr isfree"
| "sema_scan name k (Some se # xs) isfree =
     (if se_name se = name then Inl k else sema_scan name (Suc k) xs isfree)"
| "sema_scan name k (None # xs) isfree =
     sema_scan name (Suc k) xs (case isfree of None \<Rightarrow> Some k | Some f \<Rightarrow> Some f)"

text \<open>Result code (the handle, or \<open>-0x96\<close>), open count, new table.\<close>

definition open_sema :: "u8 list \<Rightarrow> int \<Rightarrow> sema_table \<Rightarrow> int \<times> int \<times> sema_table" where
  "open_sema name value t =
     (case sema_scan name 0 (take (count_semas t) (semas t)) None of
        Inl k \<Rightarrow>
          (case semas t ! k of
             Some se \<Rightarrow>
               let oc = se_opencount se + 1
               in (int k + 1, oc, t\<lparr>semas := (semas t)[k := Some (se\<lparr>se_opencount := oc\<rparr>)]\<rparr>)
           | None \<Rightarrow> (-0x96, 0, t))
      | Inr isfree \<Rightarrow>
          let (isfree', count') =
                (case isfree of
                   Some k \<Rightarrow> (Some k, count_semas t)
                 | None \<Rightarrow> if count_semas t < MAX_SEMAPHORES
                           then (Some (count_semas t), count_semas t + 1)
                           else (None, count_semas t))
          in case isfree' of
               None \<Rightarrow> (-0x96, 0, t)
             | Some k \<Rightarrow>
                 (int k + 1, 1,
                  \<lparr>count_semas = count',
                   semas = (semas t)[k :=
                     Some \<lparr>se_name = name, se_opencount = 1, se_value = value\<rparr>]\<rparr>))"

text \<open>The entry a handle refers to: \<open>handle > 0 && --handle < count_semas && semas[handle]\<close>.\<close>

definition sema_at :: "sema_table \<Rightarrow> int \<Rightarrow> SEMA option" where
  "sema_at t handle =
     (if 0 < handle \<and> nat (handle - 1) < count_semas t then semas t ! nat (handle - 1) else None)"

text \<open>The loop of \<^verbatim>\<open>close_sema\<close> that gives back free slots at the end of the array:
  arguments are the array, the freed slot and the count.\<close>

fun sema_trim :: "SEMA option list \<Rightarrow> nat \<Rightarrow> nat \<Rightarrow> nat" where
  "sema_trim sm 0 count = (if count = 1 then 0 else count)"
| "sema_trim sm (Suc h) count =
     (if Suc (Suc h) = count
      then (if sm ! h \<noteq> None then count - 1 else sema_trim sm h (count - 1))
      else count)"

definition close_sema :: "int \<Rightarrow> sema_table \<Rightarrow> int \<times> sema_table" where
  "close_sema handle t =
     (case sema_at t handle of
        None \<Rightarrow> (-0xff, t)
      | Some se \<Rightarrow>
          let h = nat (handle - 1); oc = se_opencount se - 1
          in if oc = 0
             then let sm = (semas t)[h := None]
                  in (0, \<lparr>count_semas = sema_trim sm h (count_semas t), semas = sm\<rparr>)
             else (0, t\<lparr>semas := (semas t)[h := Some (se\<lparr>se_opencount := oc\<rparr>)]\<rparr>))"

definition wait_sema :: "int \<Rightarrow> sema_table \<Rightarrow> int \<times> sema_table" where
  "wait_sema handle t =
     (case sema_at t handle of
        None \<Rightarrow> (-0xff, t)
      | Some se \<Rightarrow>
          if se_value se < 1 then (-0xfe, t)
          else (0, t\<lparr>semas := (semas t)[nat (handle - 1) :=
                        Some (se\<lparr>se_value := se_value se - 1\<rparr>)]\<rparr>))"

definition signal_sema :: "int \<Rightarrow> sema_table \<Rightarrow> int \<times> sema_table" where
  "signal_sema handle t =
     (case sema_at t handle of
        None \<Rightarrow> (-0xff, t)
      | Some se \<Rightarrow>
          (0, t\<lparr>semas := (semas t)[nat (handle - 1) :=
                  Some (se\<lparr>se_value := se_value se + 1\<rparr>)]\<rparr>))"

text \<open>Result code, value and open count.\<close>

definition examine_sema :: "int \<Rightarrow> sema_table \<Rightarrow> int \<times> int \<times> int" where
  "examine_sema handle t =
     (case sema_at t handle of
        None \<Rightarrow> (-0xff, 0, 0)
      | Some se \<Rightarrow> (0, se_value se, se_opencount se))"

section \<open>Operations on a connection\<close>

text \<open>The loop \<^verbatim>\<open>while (k--)\<close> of \<^verbatim>\<open>open_conn_sema\<close>, from the end of the array.\<close>

fun conn_scan :: "SEMA_CONN list \<Rightarrow> int \<Rightarrow> nat \<Rightarrow> nat option \<Rightarrow> nat + nat option" where
  "conn_scan cs handle 0 isfree = Inr isfree"
| "conn_scan cs handle (Suc k) isfree =
     (if sc_handle (cs ! k) = handle then Inl k
      else conn_scan cs handle k (if sc_handle (cs ! k) = 0 then Some k else isfree))"

definition open_conn_sema :: "conn_semas \<Rightarrow> int \<Rightarrow> int \<times> conn_semas" where
  "open_conn_sema c handle =
     (case conn_scan (c_semas c) handle (c_count c) None of
        Inl k \<Rightarrow>
          (handle, c\<lparr>c_semas := (c_semas c)[k := (c_semas c ! k)
                       \<lparr>sc_opencount := sc_opencount (c_semas c ! k) + 1\<rparr>]\<rparr>)
      | Inr isfree \<Rightarrow>
          let (isfree', count') =
                (case isfree of
                   Some k \<Rightarrow> (Some k, c_count c)
                 | None \<Rightarrow> if c_count c < MAX_SEMA_CONN then (Some (c_count c), c_count c + 1)
                           else (None, c_count c))
          in case isfree' of
               None \<Rightarrow> (-0x96, c)
             | Some k \<Rightarrow>
                 (handle, \<lparr>c_count = count',
                   c_semas = (c_semas c)[k := \<lparr>sc_handle = handle, sc_opencount = 1\<rparr>]\<rparr>))"

fun conn_trim :: "SEMA_CONN list \<Rightarrow> nat \<Rightarrow> nat" where
  "conn_trim cs 0 = 0"
| "conn_trim cs (Suc n) = (if sc_handle (cs ! n) = 0 then conn_trim cs n else Suc n)"

definition close_conn_sema :: "conn_semas \<Rightarrow> int \<Rightarrow> int \<times> conn_semas" where
  "close_conn_sema c handle =
     (case conn_scan (c_semas c) handle (c_count c) None of
        Inr _ \<Rightarrow> (-0xff, c)
      | Inl k \<Rightarrow>
          let oc = sc_opencount (c_semas c ! k) - 1
          in if oc = 0
             then let cs = (c_semas c)[k := \<lparr>sc_handle = 0, sc_opencount = 0\<rparr>]
                  in (0, \<lparr>c_count = (if k = c_count c - 1 then conn_trim cs (c_count c)
                                     else c_count c),
                          c_semas = cs\<rparr>)
             else (0, c\<lparr>c_semas := (c_semas c)[k := (c_semas c ! k)\<lparr>sc_opencount := oc\<rparr>]\<rparr>))"

text \<open>\<^verbatim>\<open>clear_conn_semas\<close>: every handle the connection holds is closed as often as it was
  opened; the slot keeps its stale handle with open count \<open>-1\<close> and the count becomes 0.\<close>

fun close_sema_times :: "nat \<Rightarrow> int \<Rightarrow> sema_table \<Rightarrow> sema_table" where
  "close_sema_times 0 handle t = t"
| "close_sema_times (Suc n) handle t = close_sema_times n handle (snd (close_sema handle t))"

fun clear_slots :: "nat \<Rightarrow> SEMA_CONN list \<Rightarrow> sema_table \<Rightarrow> SEMA_CONN list \<times> sema_table" where
  "clear_slots 0 cs t = (cs, t)"
| "clear_slots (Suc k) cs t =
     (if 0 < sc_handle (cs ! k) \<and> 0 < sc_opencount (cs ! k)
      then clear_slots k (cs[k := (cs ! k)\<lparr>sc_opencount := -1\<rparr>])
             (close_sema_times (nat (sc_opencount (cs ! k))) (sc_handle (cs ! k)) t)
      else clear_slots k cs t)"

definition clear_conn_semas :: "conn_semas \<Rightarrow> sema_table \<Rightarrow> conn_semas \<times> sema_table" where
  "clear_conn_semas c t =
     (let (cs, t') = clear_slots (c_count c) (c_semas c) t
      in (\<lparr>c_count = 0, c_semas = cs\<rparr>, t'))"

section \<open>The request handler\<close>

text \<open>\<^verbatim>\<open>int handle = GET_BE32(p)\<close>: four bytes, read as a signed 32-bit integer.\<close>

definition request_handle :: "buffer \<Rightarrow> int" where
  "request_handle p = sint (get_be32 (bytes_at p 0 4))"

text \<open>The handler returns the result code, the response bytes it stored, and both states.
  When the connection has no free slot the source calls \<^verbatim>\<open>close_sema(result)\<close> with the
  error code as handle; the model does the same.\<close>

definition handle_func_0x20 ::
  "conn_semas \<Rightarrow> buffer \<Rightarrow> nat \<Rightarrow> sema_table \<Rightarrow> int \<times> u8 list \<times> conn_semas \<times> sema_table" where
  "handle_func_0x20 c p ufunc t =
     (if ufunc = 0 then
        let value = int (unat (p 0)); namlen = unat (p 1); name = bytes_at p 2 namlen
        in if namlen < 1 \<or> 127 < namlen then (-0xfe, [], c, t)
           else if 127 < value then (-0xff, [], c, t)
           else let (result, opencount, t1) = open_sema name value t
                in if result > -1
                   then let (result2, c1) = open_conn_sema c result
                        in if result2 < 0 then (result2, [], c1, snd (close_sema result2 t1))
                           else (5, u32_to_be32 (of_int result2) @ [of_int opencount], c1, t1)
                   else (result, [], c, t1)
      else if ufunc = 1 then
        let (result, value, opencount) = examine_sema (request_handle p) t
        in if result > -1 then (2, [of_int value, of_int opencount], c, t) else (result, [], c, t)
      else if ufunc = 2 then
        let (result, t1) = wait_sema (request_handle p) t in (result, [], c, t1)
      else if ufunc = 3 then
        let (result, t1) = signal_sema (request_handle p) t in (result, [], c, t1)
      else if ufunc = 4 then
        let (result, c1) = close_conn_sema c (request_handle p)
        in if result = 0
           then let (result2, t1) = close_sema (request_handle p) t in (result2, [], c1, t1)
           else (result, [], c1, t)
      else (-0xfb, [], c, t))"

section \<open>All connections together\<close>

record sema_sys =
  table :: sema_table
  conns :: "conn_semas list"

datatype sema_event = Request nat buffer nat | Clear nat

inductive sema_step :: "sema_sys \<Rightarrow> sema_event \<Rightarrow> sema_sys \<Rightarrow> bool" where
  request: "i < length (conns s) \<Longrightarrow>
     handle_func_0x20 (conns s ! i) p ufunc (table s) = (result, response, c', t') \<Longrightarrow>
     sema_step s (Request i p ufunc) (s\<lparr>table := t', conns := (conns s)[i := c']\<rparr>)"
| clear: "i < length (conns s) \<Longrightarrow>
     clear_conn_semas (conns s ! i) (table s) = (c', t') \<Longrightarrow>
     sema_step s (Clear i) (s\<lparr>table := t', conns := (conns s)[i := c']\<rparr>)"

inductive sema_reachable :: "nat \<Rightarrow> sema_sys \<Rightarrow> bool" where
  start: "sema_reachable n \<lparr>table = init_table, conns = replicate n init_conn\<rparr>"
| step: "sema_reachable n s \<Longrightarrow> sema_step s e s' \<Longrightarrow> sema_reachable n s'"

inductive_cases sema_step_cases: "sema_step s e s'"

section \<open>Invariant of the table\<close>

definition table_shape :: "sema_table \<Rightarrow> bool" where
  "table_shape t \<longleftrightarrow> length (semas t) = MAX_SEMAPHORES \<and> count_semas t \<le> MAX_SEMAPHORES \<and>
     (\<forall>k. count_semas t \<le> k \<and> k < MAX_SEMAPHORES \<longrightarrow> semas t ! k = None) \<and>
     (0 < count_semas t \<longrightarrow> semas t ! (count_semas t - 1) \<noteq> None)"

definition entries_ok :: "(int \<Rightarrow> SEMA option) \<Rightarrow> bool" where
  "entries_ok m \<longleftrightarrow> (\<forall>h se. m h = Some se \<longrightarrow> 0 < se_opencount se \<and> 0 \<le> se_value se) \<and>
     (\<forall>h h' se se'. m h = Some se \<and> m h' = Some se' \<and> se_name se = se_name se' \<longrightarrow> h = h')"

definition table_inv :: "sema_table \<Rightarrow> bool" where
  "table_inv t \<longleftrightarrow> table_shape t \<and> entries_ok (sema_at t)"

definition sema_cnt :: "sema_table \<Rightarrow> int \<Rightarrow> int" where
  "sema_cnt t h = (case sema_at t h of Some se \<Rightarrow> se_opencount se | None \<Rightarrow> 0)"

lemma sema_at_shape:
  "table_shape t \<Longrightarrow> sema_at t h =
     (if 0 < h \<and> nat (h - 1) < MAX_SEMAPHORES then semas t ! nat (h - 1) else None)"
  by (auto simp: sema_at_def table_shape_def)

lemma sema_scan_Inl:
  "sema_scan name (length pre) xs fr = Inl j \<Longrightarrow>
     j < length (pre @ xs) \<and> (\<exists>se. (pre @ xs) ! j = Some se \<and> se_name se = name)"
proof (induction xs arbitrary: pre fr)
  case (Cons x xs)
  show ?case
  proof (cases "\<exists>se. x = Some se \<and> se_name se = name")
    case True
    with Cons.prems show ?thesis by auto
  next
    case False
    with Cons.prems Cons.IH [of "pre @ [x]"] show ?thesis by (cases x) auto
  qed
qed simp

lemma sema_scan_Inr:
  "sema_scan name (length pre) xs fr = Inr fr' \<Longrightarrow>
     (\<forall>se. Some se \<in> set xs \<longrightarrow> se_name se \<noteq> name) \<and>
     (fr' = fr \<or> (\<exists>j < length (pre @ xs). fr' = Some j \<and> (pre @ xs) ! j = None)) \<and>
     (fr' = None \<longrightarrow> None \<notin> set xs)"
proof (induction xs arbitrary: pre fr)
  case (Cons x xs)
  show ?case
  proof (cases x)
    case None
    let ?fr = "case fr of None \<Rightarrow> Some (length pre) | Some f \<Rightarrow> Some f"
    from None Cons.prems have "sema_scan name (length (pre @ [x])) xs ?fr = Inr fr'" by simp
    from Cons.IH [OF this] None show ?thesis
      by (cases fr) (auto simp: nth_append)
  next
    case (Some se)
    with Cons.prems Cons.IH [of "pre @ [x]"] show ?thesis by (auto split: if_splits)
  qed
qed simp

lemma sema_trim_spec:
  assumes "h < count" and "sm ! h = None" and "count - 1 \<noteq> h \<longrightarrow> sm ! (count - 1) \<noteq> None"
  shows "sema_trim sm h count \<le> count \<and>
     (\<forall>k. sema_trim sm h count \<le> k \<and> k < count \<longrightarrow> sm ! k = None) \<and>
     (0 < sema_trim sm h count \<longrightarrow> sm ! (sema_trim sm h count - 1) \<noteq> None)"
  using assms
proof (induction sm h count rule: sema_trim.induct)
  case (1 sm count)
  then show ?case by (cases "count = 1") auto
next
  case (2 sm h count)
  consider (stop) "Suc (Suc h) \<noteq> count" | (last) "Suc (Suc h) = count" "sm ! h \<noteq> None"
    | (go) "Suc (Suc h) = count" "sm ! h = None" by blast
  then show ?case
  proof cases
    case stop
    with "2.prems" show ?thesis by auto
  next
    case last
    then have t: "sema_trim sm (Suc h) count = Suc h" by (simp add: last(1) [symmetric])
    show ?thesis unfolding t using last "2.prems"(2) by (auto simp: le_less_Suc_eq)
  next
    case go
    then have c: "count - 1 = Suc h" and t: "sema_trim sm (Suc h) count = sema_trim sm h (Suc h)"
      by auto
    have IH: "sema_trim sm h (Suc h) \<le> Suc h \<and>
       (\<forall>k. sema_trim sm h (Suc h) \<le> k \<and> k < Suc h \<longrightarrow> sm ! k = None) \<and>
       (0 < sema_trim sm h (Suc h) \<longrightarrow> sm ! (sema_trim sm h (Suc h) - 1) \<noteq> None)"
      using "2.IH" [OF go(1), unfolded c] go(2) by simp
    have "sm ! k = None" if "sema_trim sm h (Suc h) \<le> k" "k < count" for k
    proof (cases "k = Suc h")
      case False
      with that go(1) have "k < Suc h" by linarith
      with IH that show ?thesis by blast
    qed (use "2.prems"(2) in simp)
    then show ?thesis unfolding t using IH go(1) by auto
  qed
qed

lemma entries_ok_upd:
  assumes "entries_ok m"
    and "\<And>se. x = Some se \<Longrightarrow> 0 < se_opencount se \<and> 0 \<le> se_value se \<and>
      (\<forall>h' se'. h' \<noteq> h \<and> m h' = Some se' \<longrightarrow> se_name se' \<noteq> se_name se)"
  shows "entries_ok (m(h := x))"
  using assms unfolding entries_ok_def by (auto split: if_splits) metis+

lemma shape_set:
  "table_shape t \<Longrightarrow> k < count_semas t \<Longrightarrow> table_shape (t\<lparr>semas := (semas t)[k := Some se]\<rparr>)"
  by (auto simp: table_shape_def nth_list_update)

lemma sema_at_set:
  assumes "table_shape t" and "k < count_semas t"
  shows "sema_at (t\<lparr>semas := (semas t)[k := x]\<rparr>) = (sema_at t)(int k + 1 := x)"
  using assms by (auto simp: fun_eq_iff sema_at_def table_shape_def nth_list_update)

lemma sema_at_SomeD:
  "sema_at t h = Some se \<Longrightarrow>
     \<exists>k. h = int k + 1 \<and> k < count_semas t \<and> semas t ! k = Some se"
  by (rule exI [of _ "nat (h - 1)"]) (auto simp: sema_at_def split: if_splits)

text \<open>Overwriting an entry by one with the same name and a positive open count.\<close>

lemma table_inv_update:
  assumes inv: "table_inv t" and k: "k < count_semas t" "semas t ! k = Some se"
    and se': "se_name se' = se_name se" "0 < se_opencount se'" "0 \<le> se_value se'"
  shows "table_inv (t\<lparr>semas := (semas t)[k := Some se']\<rparr>)"
proof -
  have at: "sema_at t (int k + 1) = Some se" using k by (simp add: sema_at_def)
  have "entries_ok ((sema_at t)(int k + 1 := Some se'))"
    using inv at se' by (intro entries_ok_upd) (auto simp: table_inv_def entries_ok_def)
  with inv k show ?thesis by (simp add: table_inv_def shape_set sema_at_set)
qed

lemma close_sema_spec:
  assumes inv: "table_inv t" and h: "sema_at t h = Some se"
  shows "fst (close_sema h t) = 0" and "table_inv (snd (close_sema h t))"
    and "sema_at (snd (close_sema h t)) = (sema_at t)(h :=
       (if se_opencount se = 1 then None else Some (se\<lparr>se_opencount := se_opencount se - 1\<rparr>)))"
proof -
  obtain k where k: "h = int k + 1" "k < count_semas t" "semas t ! k = Some se"
    using sema_at_SomeD [OF h] by blast
  let ?sm = "(semas t)[k := None]"
  let ?n = "sema_trim ?sm k (count_semas t)"
  have pos: "0 < se_opencount se" "0 \<le> se_value se" using inv h by (auto simp: table_inv_def entries_ok_def)
  have sh: "table_shape t" using inv by (simp add: table_inv_def)
  have "?sm ! k = None" "count_semas t - 1 \<noteq> k \<longrightarrow> ?sm ! (count_semas t - 1) \<noteq> None"
    using k sh by (auto simp: table_shape_def)
  note trim = sema_trim_spec [OF k(2) this]
  have none: "?sm ! j = None" if "?n \<le> j" "j < MAX_SEMAPHORES" for j
  proof (cases "j < count_semas t")
    case True
    with trim that show ?thesis by blast
  next
    case False
    then have "j \<noteq> k" "semas t ! j = None" using k(2) sh that by (auto simp: table_shape_def)
    then show ?thesis by simp
  qed
  have sh': "table_shape \<lparr>count_semas = ?n, semas = ?sm\<rparr>"
    using sh trim none unfolding table_shape_def by simp
  have at': "sema_at \<lparr>count_semas = ?n, semas = ?sm\<rparr> = (sema_at t)(h := None)"
  proof
    fix h'
    show "sema_at \<lparr>count_semas = ?n, semas = ?sm\<rparr> h' = ((sema_at t)(h := None)) h'"
      using sema_at_shape [OF sh] sema_at_shape [OF sh'] sh k(1,2)
      by (auto simp: nth_list_update table_shape_def)
  qed
  show "fst (close_sema h t) = 0" using h by (simp add: close_sema_def Let_def)
  have ok: "entries_ok ((sema_at t)(h := None))"
    using inv by (intro entries_ok_upd) (auto simp: table_inv_def)
  show "table_inv (snd (close_sema h t))"
    using pos h k sh' at' ok
      table_inv_update [OF inv k(2,3), of "se\<lparr>se_opencount := se_opencount se - 1\<rparr>"]
    by (auto simp: close_sema_def Let_def table_inv_def)
  show "sema_at (snd (close_sema h t)) = (sema_at t)(h :=
       (if se_opencount se = 1 then None else Some (se\<lparr>se_opencount := se_opencount se - 1\<rparr>)))"
    using h k at' sema_at_set [OF sh k(2)] by (auto simp: close_sema_def Let_def)
qed

lemma wait_sema_spec:
  assumes inv: "table_inv t" and h: "sema_at t h = Some se"
  shows "table_inv (snd (wait_sema h t))"
    and "sema_at (snd (wait_sema h t)) = (sema_at t)(h :=
       Some (se\<lparr>se_value := (if se_value se < 1 then se_value se else se_value se - 1)\<rparr>))"
proof -
  obtain k where k: "h = int k + 1" "k < count_semas t" "semas t ! k = Some se"
    using sema_at_SomeD [OF h] by blast
  have sh: "table_shape t" and pos: "0 < se_opencount se" "0 \<le> se_value se"
    using inv h by (auto simp: table_inv_def entries_ok_def)
  show "table_inv (snd (wait_sema h t))"
    using inv h k pos table_inv_update [OF inv k(2,3), of "se\<lparr>se_value := se_value se - 1\<rparr>"]
    by (simp add: wait_sema_def)
  show "sema_at (snd (wait_sema h t)) = (sema_at t)(h :=
       Some (se\<lparr>se_value := (if se_value se < 1 then se_value se else se_value se - 1)\<rparr>))"
    using h k sema_at_set [OF sh k(2)] by (auto simp: wait_sema_def)
qed

lemma signal_sema_spec:
  assumes inv: "table_inv t" and h: "sema_at t h = Some se"
  shows "table_inv (snd (signal_sema h t))"
    and "sema_at (snd (signal_sema h t)) = (sema_at t)(h := Some (se\<lparr>se_value := se_value se + 1\<rparr>))"
proof -
  obtain k where k: "h = int k + 1" "k < count_semas t" "semas t ! k = Some se"
    using sema_at_SomeD [OF h] by blast
  have sh: "table_shape t" and pos: "0 < se_opencount se" "0 \<le> se_value se"
    using inv h by (auto simp: table_inv_def entries_ok_def)
  show "table_inv (snd (signal_sema h t))"
    using inv h k pos table_inv_update [OF inv k(2,3), of "se\<lparr>se_value := se_value se + 1\<rparr>"]
    by (simp add: signal_sema_def)
  show "sema_at (snd (signal_sema h t)) = (sema_at t)(h := Some (se\<lparr>se_value := se_value se + 1\<rparr>))"
    using h k sema_at_set [OF sh k(2)] by (auto simp: signal_sema_def)
qed


text \<open>What \<open>open_sema\<close> promises, on the map from handles to entries.\<close>

inductive spec_open ::
  "u8 list \<Rightarrow> int \<Rightarrow> (int \<Rightarrow> SEMA option) \<Rightarrow> int \<Rightarrow> int \<Rightarrow> (int \<Rightarrow> SEMA option) \<Rightarrow> bool"
  for name :: "u8 list" and v :: int and m :: "int \<Rightarrow> SEMA option" where
  reopen: "m h = Some se \<Longrightarrow> se_name se = name \<Longrightarrow> oc = se_opencount se + 1 \<Longrightarrow>
     spec_open name v m h oc (m(h := Some (se\<lparr>se_opencount := oc\<rparr>)))"
| create: "1 \<le> h \<Longrightarrow> h \<le> 100 \<Longrightarrow> m h = None \<Longrightarrow>
     (\<And>h' se. m h' = Some se \<Longrightarrow> se_name se \<noteq> name) \<Longrightarrow>
     spec_open name v m h 1 (m(h := Some \<lparr>se_name = name, se_opencount = 1, se_value = v\<rparr>))"
| no_slot: "(\<And>h. 1 \<le> h \<Longrightarrow> h \<le> 100 \<Longrightarrow> \<exists>se. m h = Some se \<and> se_name se \<noteq> name) \<Longrightarrow>
     spec_open name v m (-0x96) 0 m"

lemma open_sema_new:
  assumes inv: "table_inv t" and v: "0 \<le> v"
    and k: "k \<le> count_semas t" "k < MAX_SEMAPHORES" "semas t ! k = None"
    and new: "\<And>h se. sema_at t h = Some se \<Longrightarrow> se_name se \<noteq> name"
    and t': "t' = \<lparr>count_semas = max (count_semas t) (k + 1),
       semas = (semas t)[k := Some \<lparr>se_name = name, se_opencount = 1, se_value = v\<rparr>]\<rparr>"
  shows "table_inv t' \<and> spec_open name v (sema_at t) (int k + 1) 1 (sema_at t')"
proof -
  let ?e = "\<lparr>se_name = name, se_opencount = 1, se_value = v\<rparr>"
  have sh: "table_shape t" using inv by (simp add: table_inv_def)
  then have "table_shape t'" using k unfolding t' table_shape_def
    by (auto simp: nth_list_update max_def)
  moreover have at: "sema_at t' = (sema_at t)(int k + 1 := Some ?e)"
    using k sh by (auto simp: t' fun_eq_iff sema_at_def table_shape_def nth_list_update max_def)
  moreover have "entries_ok (sema_at t')"
    unfolding at using inv new v by (intro entries_ok_upd) (auto simp: table_inv_def)
  moreover have "sema_at t (int k + 1) = None" using k by (simp add: sema_at_def)
  ultimately show ?thesis
    using k new by (auto simp: table_inv_def MAX_SEMAPHORES_def intro!: spec_open.create)
qed

lemma scan_names:
  assumes "table_shape t" and "sema_scan name 0 (take (count_semas t) (semas t)) None = Inr fr"
  shows "sema_at t h = Some se \<Longrightarrow> se_name se \<noteq> name"
proof -
  assume "sema_at t h = Some se"
  then obtain k where "k < count_semas t" "semas t ! k = Some se" using sema_at_SomeD by blast
  then have "Some se \<in> set (take (count_semas t) (semas t))"
    using assms(1) by (force simp: in_set_conv_nth table_shape_def)
  with sema_scan_Inr [of name "[]" "take (count_semas t) (semas t)" None fr] assms(2)
  show ?thesis by auto
qed

lemma open_sema_found:
  assumes inv: "table_inv t" and scan: "sema_scan name 0 (take (count_semas t) (semas t)) None = Inl k"
    and op: "open_sema name v t = (r, oc, t')"
  shows "table_inv t' \<and> spec_open name v (sema_at t) r oc (sema_at t')"
proof -
  have sh: "table_shape t" using inv by (simp add: table_inv_def)
  obtain se where se: "k < count_semas t" "semas t ! k = Some se" "se_name se = name"
    using sema_scan_Inl [of name "[]" "take (count_semas t) (semas t)" None k] sh scan
    by (auto simp: table_shape_def)
  have at: "sema_at t (int k + 1) = Some se" using se by (simp add: sema_at_def)
  then have pos: "0 < se_opencount se" "0 \<le> se_value se" using inv by (auto simp: table_inv_def entries_ok_def)
  have r: "r = int k + 1" "oc = se_opencount se + 1"
    and t': "t' = t\<lparr>semas := (semas t)[k := Some (se\<lparr>se_opencount := oc\<rparr>)]\<rparr>"
    using op scan se by (auto simp: open_sema_def Let_def)
  have "sema_at t' = (sema_at t)(r := Some (se\<lparr>se_opencount := oc\<rparr>))"
    using sema_at_set [OF sh se(1)] r t' by simp
  moreover have "table_inv t'"
    using pos r unfolding t' by (intro table_inv_update [OF inv se(1,2)]) auto
  ultimately show ?thesis using at se r by (auto intro!: spec_open.reopen)
qed

lemma open_sema_refines:
  assumes inv: "table_inv t" and v: "0 \<le> v" and op: "open_sema name v t = (r, oc, t')"
  shows "table_inv t' \<and> spec_open name v (sema_at t) r oc (sema_at t')"
proof (cases "sema_scan name 0 (take (count_semas t) (semas t)) None")
  case (Inl k)
  then show ?thesis by (rule open_sema_found [OF inv _ op])
next
  case (Inr fr)
  have sh: "table_shape t" using inv by (simp add: table_inv_def)
  note new = scan_names [OF sh Inr]
  note scan = sema_scan_Inr [of name "[]" "take (count_semas t) (semas t)" None fr]
  show ?thesis
  proof (cases fr)
    case (Some k)
    with scan Inr have "k < count_semas t" "semas t ! k = None" by auto
    with op Inr Some sh show ?thesis
      by (intro open_sema_new [OF inv v _ _ _ new, of k, THEN conj_forward])
         (auto simp: open_sema_def Let_def table_shape_def max_def)
  next
    case None
    show ?thesis
    proof (cases "count_semas t < MAX_SEMAPHORES")
      case True
      then show ?thesis
        using op Inr None sh
        by (intro open_sema_new [OF inv v _ _ _ new, of "count_semas t", THEN conj_forward])
           (auto simp: open_sema_def Let_def table_shape_def)
    next
      case False
      then have c: "count_semas t = 100" "length (semas t) = 100"
        using sh by (auto simp: table_shape_def MAX_SEMAPHORES_def)
      have "\<exists>se. sema_at t h = Some se \<and> se_name se \<noteq> name" if "1 \<le> h" "h \<le> 100" for h
      proof -
        have "semas t ! nat (h - 1) \<noteq> None"
          using scan Inr None c that by (auto simp: in_set_conv_nth)
        with new [of h] c that show ?thesis by (auto simp: sema_at_def)
      qed
      then have "spec_open name v (sema_at t) (-0x96) 0 (sema_at t)" by (rule spec_open.no_slot)
      with op Inr None False inv show ?thesis by (auto simp: open_sema_def Let_def)
    qed
  qed
qed

section \<open>Connections\<close>

definition conn_inv :: "conn_semas \<Rightarrow> bool" where
  "conn_inv c \<longleftrightarrow> length (c_semas c) = MAX_SEMA_CONN \<and> c_count c \<le> MAX_SEMA_CONN \<and>
     (\<forall>s \<in> set (take (c_count c) (c_semas c)).
        0 \<le> sc_handle s \<and> (0 < sc_handle s \<longleftrightarrow> 0 < sc_opencount s))"

definition slot_refs :: "int \<Rightarrow> SEMA_CONN \<Rightarrow> int" where
  "slot_refs h s = (if sc_handle s = h then sc_opencount s else 0)"

definition conn_refs :: "conn_semas \<Rightarrow> int \<Rightarrow> int" where
  "conn_refs c h = sum_list (map (slot_refs h) (take (c_count c) (c_semas c)))"

lemma conn_scan_Inl: "conn_scan cs h n fr = Inl k \<Longrightarrow> k < n \<and> sc_handle (cs ! k) = h"
  by (induction cs h n fr rule: conn_scan.induct) (auto split: if_splits)

lemma conn_scan_Inr:
  "conn_scan cs h n fr = Inr fr' \<Longrightarrow>
     fr' = fr \<or> (\<exists>k < n. fr' = Some k \<and> sc_handle (cs ! k) = 0)"
proof (induction cs h n fr rule: conn_scan.induct)
  case (2 cs h k fr)
  then have "fr' = (if sc_handle (cs ! k) = 0 then Some k else fr) \<or>
      (\<exists>j < k. fr' = Some j \<and> sc_handle (cs ! j) = 0)"
    by (simp split: if_splits)
  then show ?case by (auto split: if_splits)
qed simp

lemma conn_refs_update:
  assumes "k < c_count c" and "conn_inv c"
  shows "conn_refs (c\<lparr>c_semas := (c_semas c)[k := v]\<rparr>) h =
    conn_refs c h + slot_refs h v - slot_refs h (c_semas c ! k)"
proof -
  have "k < length (take (c_count c) (c_semas c))" using assms by (simp add: conn_inv_def)
  from sum_list_update_map [OF this, of "slot_refs h" v] assms(1)
  show ?thesis by (simp add: conn_refs_def take_update_swap)
qed

lemma conn_inv_update:
  assumes "conn_inv c" and "0 \<le> sc_handle v" and "0 < sc_handle v \<longleftrightarrow> 0 < sc_opencount v"
  shows "conn_inv (c\<lparr>c_semas := (c_semas c)[k := v]\<rparr>)"
proof -
  have "s = v \<or> s \<in> set (take (c_count c) (c_semas c))"
    if "s \<in> set (take (c_count c) ((c_semas c)[k := v]))" for s
    using set_take_update [OF that] .
  then show ?thesis using assms unfolding conn_inv_def by auto
qed

lemma conn_inv_shrink:
  assumes "conn_inv c" and "n \<le> c_count c"
  shows "conn_inv \<lparr>c_count = n, c_semas = c_semas c\<rparr>"
  using assms set_take_subset_set_take [OF assms(2), of "c_semas c"]
  by (auto simp: conn_inv_def)

lemma conn_slot: "conn_inv c \<Longrightarrow> k < c_count c \<Longrightarrow>
  0 \<le> sc_handle (c_semas c ! k) \<and> (0 < sc_handle (c_semas c ! k) \<longleftrightarrow> 0 < sc_opencount (c_semas c ! k))"
  unfolding conn_inv_def by (metis in_set_conv_nth length_take min.absorb2 nth_take)

lemma open_conn_grow:
  assumes c: "conn_inv c" "c_count c < MAX_SEMA_CONN" and h: "0 < h"
    and c': "c' = \<lparr>c_count = Suc (c_count c),
      c_semas = (c_semas c)[c_count c := \<lparr>sc_handle = h, sc_opencount = 1\<rparr>]\<rparr>"
  shows "conn_inv c' \<and> (\<forall>h'. conn_refs c' h' = conn_refs c h' + (if h' = h then 1 else 0))"
proof -
  have "take (Suc (c_count c)) (c_semas c') = take (c_count c) (c_semas c) @ [\<lparr>sc_handle = h, sc_opencount = 1\<rparr>]"
    using c by (simp add: c' conn_inv_def take_Suc_conv_app_nth)
  then show ?thesis using c h by (auto simp: conn_inv_def c' conn_refs_def slot_refs_def)
qed

lemma open_conn_sema_spec:
  assumes c: "conn_inv c" and h: "0 < h" and op: "open_conn_sema c h = (r, c')"
  shows "conn_inv c' \<and> ((r = h \<and> (\<forall>h' > 0. conn_refs c' h' = conn_refs c h' + (if h' = h then 1 else 0)))
    \<or> (r = -0x96 \<and> c' = c))"
proof (cases "conn_scan (c_semas c) h (c_count c) None")
  case (Inl k)
  let ?v = "(c_semas c ! k)\<lparr>sc_opencount := sc_opencount (c_semas c ! k) + 1\<rparr>"
  have k: "k < c_count c" "sc_handle (c_semas c ! k) = h" using conn_scan_Inl [OF Inl] by auto
  have "r = h" "c' = c\<lparr>c_semas := (c_semas c)[k := ?v]\<rparr>"
    using op Inl by (auto simp: open_conn_sema_def)
  moreover have "conn_inv (c\<lparr>c_semas := (c_semas c)[k := ?v]\<rparr>)"
    using conn_slot [OF c k(1)] k(2) h by (intro conn_inv_update [OF c]) auto
  ultimately show ?thesis using conn_refs_update [OF k(1) c, of ?v] k by (simp add: slot_refs_def)
next
  case (Inr fr)
  let ?v = "\<lparr>sc_handle = h, sc_opencount = 1\<rparr>"
  show ?thesis
  proof (cases fr)
    case (Some k)
    then have k: "k < c_count c" "sc_handle (c_semas c ! k) = 0" using conn_scan_Inr [OF Inr] by auto
    have "r = h" "c' = c\<lparr>c_semas := (c_semas c)[k := ?v]\<rparr>"
      using op Inr Some by (auto simp: open_conn_sema_def)
    moreover have "conn_inv (c\<lparr>c_semas := (c_semas c)[k := ?v]\<rparr>)"
      using h by (intro conn_inv_update [OF c]) auto
    ultimately show ?thesis using conn_refs_update [OF k(1) c, of ?v] k by (simp add: slot_refs_def)
  next
    case None
    show ?thesis
    proof (cases "c_count c < MAX_SEMA_CONN")
      case True
      then have "r = h" "c' = \<lparr>c_count = Suc (c_count c),
          c_semas = (c_semas c)[c_count c := \<lparr>sc_handle = h, sc_opencount = 1\<rparr>]\<rparr>"
        using op Inr None by (auto simp: open_conn_sema_def)
      with open_conn_grow [OF c True h, of c'] show ?thesis by blast
    next
      case False
      then show ?thesis using op Inr None c by (simp add: open_conn_sema_def)
    qed
  qed
qed

lemma conn_trim_spec:
  assumes "n \<le> length cs"
  shows "conn_trim cs n \<le> n \<and> (\<forall>h > 0. sum_list (map (slot_refs h) (take (conn_trim cs n) cs))
     = sum_list (map (slot_refs h) (take n cs)))"
  using assms by (induction n) (auto simp: take_Suc_conv_app_nth slot_refs_def)

lemma close_conn_sema_spec:
  assumes c: "conn_inv c" and cl: "close_conn_sema c h = (r, c')"
  shows "conn_inv c' \<and> ((r = -0xff \<and> c' = c) \<or>
    (r = 0 \<and> h = 0 \<and> (\<forall>h' > 0. conn_refs c' h' = conn_refs c h')) \<or> 
    (r = 0 \<and> 0 < h \<and> (\<forall>h' > 0. conn_refs c' h' = conn_refs c h' - (if h' = h then 1 else 0))))"
proof (cases "conn_scan (c_semas c) h (c_count c) None")
  case (Inr fr)
  then show ?thesis using cl c by (simp add: close_conn_sema_def)
next
  case (Inl k)
  then have k: "k < c_count c" "sc_handle (c_semas c ! k) = h" using conn_scan_Inl [OF Inl] by auto
  note slot = conn_slot [OF c k(1), unfolded k(2)]
  let ?oc = "sc_opencount (c_semas c ! k) - 1"
  show ?thesis
  proof (cases "?oc = 0")
    case False
    let ?v = "(c_semas c ! k)\<lparr>sc_opencount := ?oc\<rparr>"
    have r: "r = 0" "c' = c\<lparr>c_semas := (c_semas c)[k := ?v]\<rparr>"
      using cl Inl False by (auto simp: close_conn_sema_def Let_def)
    have "conn_inv c'" unfolding r(2) using slot k(2) False by (intro conn_inv_update [OF c]) auto
    with r slot show ?thesis using conn_refs_update [OF k(1) c, of ?v] k(2)
      by (auto simp: slot_refs_def)
  next
    case True
    let ?v = "\<lparr>sc_handle = 0, sc_opencount = 0\<rparr>" and ?cs = "(c_semas c)[k := \<lparr>sc_handle = 0, sc_opencount = 0\<rparr>]"
    let ?n = "if k = c_count c - 1 then conn_trim ?cs (c_count c) else c_count c"
    have r: "r = 0" "c' = \<lparr>c_count = ?n, c_semas = ?cs\<rparr>"
      using cl Inl True by (auto simp: close_conn_sema_def Let_def)
    have inv: "conn_inv (c\<lparr>c_semas := ?cs\<rparr>)" by (intro conn_inv_update [OF c]) auto
    then have n: "?n \<le> c_count c" "\<forall>h' > 0. conn_refs c' h' = conn_refs (c\<lparr>c_semas := ?cs\<rparr>) h'"
      using conn_trim_spec [of "c_count c" ?cs] by (auto simp: r conn_refs_def conn_inv_def)
    have "conn_inv c'" using conn_inv_shrink [OF inv, of ?n] n(1) r by simp
    with r n(2) slot True show ?thesis using conn_refs_update [OF k(1) c, of ?v] k(2)
      by (auto simp: slot_refs_def)
  qed
qed

section \<open>Reference counts of the table\<close>

lemma sema_cnt_pos: "table_inv t \<Longrightarrow> 0 < sema_cnt t h \<longleftrightarrow> (\<exists>se. sema_at t h = Some se)"
  by (auto simp: sema_cnt_def table_inv_def entries_ok_def split: option.splits)

lemma sema_cnt_close:
  assumes "table_inv t" and "0 < sema_cnt t h"
  shows "sema_cnt (snd (close_sema h t)) = (sema_cnt t)(h := sema_cnt t h - 1)"
proof -
  obtain se where h: "sema_at t h = Some se" using assms sema_cnt_pos by blast
  show ?thesis
    using close_sema_spec(3) [OF assms(1) h] h by (auto simp: fun_eq_iff sema_cnt_def)
qed

interpretation sema_refs: refcounted table_inv sema_cnt "\<lambda>h t. snd (close_sema h t)"
proof unfold_locales
  fix t :: sema_table and h :: int
  assume t: "table_inv t" "0 < sema_cnt t h"
  then obtain se where "sema_at t h = Some se" using sema_cnt_pos by blast
  then show "table_inv (snd (close_sema h t))" by (rule close_sema_spec(2) [OF t(1)])
  show "sema_cnt (snd (close_sema h t)) = (sema_cnt t)(h := sema_cnt t h - 1)"
    by (rule sema_cnt_close [OF t])
qed

lemma close_sema_times_funpow:
  "close_sema_times n h t = ((\<lambda>t. snd (close_sema h t)) ^^ n) t"
  by (induction n arbitrary: t) (simp_all add: funpow_Suc_right del: funpow.simps(2))

section \<open>Releasing a connection\<close>

lemma slot_refs_nonneg:
  "\<forall>s \<in> set xs. 0 \<le> sc_handle s \<and> (0 < sc_handle s \<longleftrightarrow> 0 < sc_opencount s) \<Longrightarrow> 0 < h \<Longrightarrow>
     0 \<le> sum_list (map (slot_refs h) xs)"
  by (intro sum_list_nonneg) (auto simp: slot_refs_def)

lemma clear_slots_spec:
  assumes "k \<le> length cs" and "table_inv t"
    and "\<forall>s \<in> set (take k cs). 0 \<le> sc_handle s \<and> (0 < sc_handle s \<longleftrightarrow> 0 < sc_opencount s)"
    and "\<forall>h > 0. sum_list (map (slot_refs h) (take k cs)) \<le> sema_cnt t h"
    and "clear_slots k cs t = (cs', t')"
  shows "table_inv t' \<and> length cs' = length cs \<and>
    (\<forall>h > 0. sema_cnt t' h = sema_cnt t h - sum_list (map (slot_refs h) (take k cs)))"
  using assms
proof (induction k arbitrary: cs t)
  case (Suc k)
  let ?s = "cs ! k"
  have k: "k < length cs" and take: "take (Suc k) cs = take k cs @ [?s]"
    using Suc.prems(1) by (simp_all add: take_Suc_conv_app_nth)
  have slots: "\<forall>s \<in> set (take k cs). 0 \<le> sc_handle s \<and> (0 < sc_handle s \<longleftrightarrow> 0 < sc_opencount s)"
    using Suc.prems(3) by (simp add: take)
  have s: "0 \<le> sc_handle ?s" "0 < sc_handle ?s \<longleftrightarrow> 0 < sc_opencount ?s"
    using Suc.prems(3) by (simp_all add: take)
  have sum: "sum_list (map (slot_refs h) (take k cs)) + slot_refs h ?s \<le> sema_cnt t h" if "0 < h" for h
    using Suc.prems(4) that by (simp add: take)
  show ?case
  proof (cases "0 < sc_handle ?s")
    case False
    then have "clear_slots k cs t = (cs', t')" using Suc.prems(5) by simp
    moreover have "slot_refs h ?s = 0" if "0 < h" for h
      using False that by (simp add: slot_refs_def)
    ultimately show ?thesis
      using Suc.IH [of cs t] Suc.prems(2) k slots sum by (simp add: take)
  next
    case True
    let ?n = "nat (sc_opencount ?s)" and ?h = "sc_handle ?s"
    let ?t = "close_sema_times ?n ?h t"
    have "int ?n \<le> sema_cnt t ?h"
      using sum [OF True] slot_refs_nonneg [OF slots True] s True by (simp add: slot_refs_def)
    then have t1: "table_inv ?t" "sema_cnt ?t = (sema_cnt t)(?h := sema_cnt t ?h - int ?n)"
      using sema_refs.drop_times [OF Suc.prems(2)] by (auto simp: close_sema_times_funpow)
    have cnt: "sema_cnt ?t h = sema_cnt t h - slot_refs h ?s" if "0 < h" for h
      using t1(2) s True by (auto simp: slot_refs_def)
    have "clear_slots k (cs[k := ?s\<lparr>sc_opencount := -1\<rparr>]) ?t = (cs', t')"
      using Suc.prems(5) s True by simp
    moreover have "\<forall>h > 0. sum_list (map (slot_refs h) (take k cs)) \<le> sema_cnt ?t h"
      using sum cnt by fastforce
    ultimately show ?thesis
      using Suc.IH [of "cs[k := ?s\<lparr>sc_opencount := -1\<rparr>]" ?t] k slots t1(1) cnt
      by (simp add: take)
  qed
qed auto

lemma clear_conn_semas_spec:
  assumes "conn_inv c" and "table_inv t" and "\<forall>h > 0. conn_refs c h \<le> sema_cnt t h"
    and "clear_conn_semas c t = (c', t')"
  shows "conn_inv c' \<and> table_inv t' \<and> (\<forall>h. conn_refs c' h = 0) \<and>
    (\<forall>h > 0. sema_cnt t' h = sema_cnt t h - conn_refs c h)"
proof -
  obtain cs where cs: "clear_slots (c_count c) (c_semas c) t = (cs, t')"
    and c': "c' = \<lparr>c_count = 0, c_semas = cs\<rparr>"
    using assms(4) by (auto simp: clear_conn_semas_def split: prod.splits)
  from clear_slots_spec [OF _ assms(2) _ _ cs] assms(1,3) show ?thesis
    by (auto simp: c' conn_inv_def conn_refs_def)
qed

section \<open>Requests\<close>

lemma sema_at_pos: "sema_at t h = Some se \<Longrightarrow> 0 < h"
  by (simp add: sema_at_def split: if_splits)

lemma spec_open_cnt:
  assumes "spec_open name v (sema_at t) r oc (sema_at t')" and "r > -1"
  shows "0 < r" and "sema_cnt t' = (sema_cnt t)(r := sema_cnt t r + 1)"
  using assms
  by (cases rule: spec_open.cases, auto simp: fun_eq_iff sema_cnt_def dest: sema_at_pos)+

lemma wait_signal_frame:
  assumes "table_inv t"
  shows "table_inv (snd (wait_sema h t)) \<and> sema_cnt (snd (wait_sema h t)) = sema_cnt t"
    and "table_inv (snd (signal_sema h t)) \<and> sema_cnt (snd (signal_sema h t)) = sema_cnt t"
proof -
  show "table_inv (snd (wait_sema h t)) \<and> sema_cnt (snd (wait_sema h t)) = sema_cnt t"
  proof (cases "sema_at t h")
    case None
    then show ?thesis using assms by (simp add: wait_sema_def)
  next
    case (Some se)
    from wait_sema_spec [OF assms Some] Some show ?thesis by (auto simp: fun_eq_iff sema_cnt_def)
  qed
  show "table_inv (snd (signal_sema h t)) \<and> sema_cnt (snd (signal_sema h t)) = sema_cnt t"
  proof (cases "sema_at t h")
    case None
    then show ?thesis using assms by (simp add: signal_sema_def)
  next
    case (Some se)
    from signal_sema_spec [OF assms Some] Some show ?thesis by (auto simp: fun_eq_iff sema_cnt_def)
  qed
qed

definition refs_kept :: "conn_semas \<Rightarrow> sema_table \<Rightarrow> conn_semas \<Rightarrow> sema_table \<Rightarrow> bool" where
  "refs_kept c t c' t' \<longleftrightarrow> conn_inv c' \<and> table_inv t' \<and>
     (\<forall>h > 0. conn_refs c' h - conn_refs c h \<le> sema_cnt t' h - sema_cnt t h)"

lemma open_request_refs:
  assumes c: "conn_inv c" and t: "table_inv t" and v: "0 \<le> v"
    and op: "open_sema name v t = (r, oc, t1)" and r: "r > -1"
    and oc: "open_conn_sema c r = (r2, c1)"
  shows "refs_kept c t c1 t1" and "r2 < 0 \<Longrightarrow> snd (close_sema r2 t1) = t1"
proof -
  have t1: "table_inv t1" "spec_open name v (sema_at t) r oc (sema_at t1)"
    using open_sema_refines [OF t v op] by auto
  note cnt = spec_open_cnt [OF t1(2) r]
  from open_conn_sema_spec [OF c cnt(1) oc] t1(1) cnt show "refs_kept c t c1 t1"
    by (auto simp: refs_kept_def)
  show "r2 < 0 \<Longrightarrow> snd (close_sema r2 t1) = t1" by (simp add: close_sema_def sema_at_def)
qed

lemma close_request_refs:
  assumes c: "conn_inv c" and t: "table_inv t" and le: "\<forall>h > 0. conn_refs c h \<le> sema_cnt t h"
    and cl: "close_conn_sema c h = (0, c1)"
  shows "refs_kept c t c1 (snd (close_sema h t))"
proof -
  note sp = close_conn_sema_spec [OF c cl]
  show ?thesis
  proof (cases "0 < h")
    case True
    then have c1: "conn_inv c1" "\<forall>h' > 0. conn_refs c1 h' = conn_refs c h' - (if h' = h then 1 else 0)"
      using sp by auto
    then have "0 \<le> conn_refs c h - 1"
      using slot_refs_nonneg [OF _ True, of "take (c_count c1) (c_semas c1)"] True
      by (auto simp: conn_inv_def conn_refs_def)
    then have pos: "0 < sema_cnt t h" using le True by fastforce
    show ?thesis
      using c1 sema_refs.drop_inv [OF t pos] sema_refs.drop_cnt [OF t pos]
      by (simp add: refs_kept_def)
  next
    case False
    then have "snd (close_sema h t) = t" by (simp add: close_sema_def sema_at_def)
    with sp t False show ?thesis by (auto simp: refs_kept_def)
  qed
qed

lemma handle_func_0x20_refs:
  assumes c: "conn_inv c" and t: "table_inv t" and le: "\<forall>h > 0. conn_refs c h \<le> sema_cnt t h"
    and hd: "handle_func_0x20 c p ufunc t = (r, resp, c', t')"
  shows "refs_kept c t c' t'"
proof -
  have same: "refs_kept c t c t" using c t by (simp add: refs_kept_def)
  consider "ufunc = 0" | "ufunc = 1" | "ufunc = 2" | "ufunc = 3" | "ufunc = 4"
    | "ufunc \<notin> {0, 1, 2, 3, 4}" by blast
  then show ?thesis
  proof cases
    case 1
    obtain r1 oc t1 where op:
      "open_sema (bytes_at p 2 (unat (p 1))) (int (unat (p 0))) t = (r1, oc, t1)"
      by (metis prod_cases3)
    obtain r2 c1 where co: "open_conn_sema c r1 = (r2, c1)" by fastforce
    note sp = open_sema_refines [OF t _ op]
    note rf = open_request_refs [OF c t _ op _ co]
    have fail: "\<not> r1 > -1 \<Longrightarrow> sema_cnt t1 = sema_cnt t"
      using sp by (auto elim!: spec_open.cases simp: sema_cnt_def fun_eq_iff dest: sema_at_pos)
    show ?thesis
      using hd 1 op co same rf sp fail c
      by (auto simp: handle_func_0x20_def Let_def refs_kept_def split: if_splits)
  next
    case 2
    with hd same show ?thesis by (auto simp: handle_func_0x20_def split: prod.splits if_splits)
  next
    case 3
    with hd c wait_signal_frame(1) [OF t, of "request_handle p"] show ?thesis
      by (auto simp: handle_func_0x20_def refs_kept_def split: prod.splits)
  next
    case 4
    with hd c wait_signal_frame(2) [OF t, of "request_handle p"] show ?thesis
      by (auto simp: handle_func_0x20_def refs_kept_def split: prod.splits)
  next
    case 5
    obtain r1 c1 where cl: "close_conn_sema c (request_handle p) = (r1, c1)" by fastforce
    show ?thesis
    proof (cases "r1 = 0")
      case True
      with close_request_refs [OF c t le] cl
      have "refs_kept c t c1 (snd (close_sema (request_handle p) t))" by simp
      with True cl hd 5 show ?thesis
        by (auto simp: handle_func_0x20_def split: prod.splits)
    next
      case False
      with close_conn_sema_spec [OF c cl] have "c1 = c" by auto
      with False cl hd 5 same show ?thesis by (auto simp: handle_func_0x20_def)
    qed
  next
    case 6
    with hd same show ?thesis by (auto simp: handle_func_0x20_def)
  qed
qed

section \<open>All connections\<close>

definition total_refs :: "conn_semas list \<Rightarrow> int \<Rightarrow> int" where
  "total_refs cs h = sum_list (map (\<lambda>c. conn_refs c h) cs)"

definition sema_sys_inv :: "sema_sys \<Rightarrow> bool" where
  "sema_sys_inv s \<longleftrightarrow> table_inv (table s) \<and> (\<forall>c \<in> set (conns s). conn_inv c) \<and>
     (\<forall>h > 0. total_refs (conns s) h \<le> sema_cnt (table s) h)"

lemma conn_refs_nonneg: "conn_inv c \<Longrightarrow> 0 < h \<Longrightarrow> 0 \<le> conn_refs c h"
  unfolding conn_refs_def conn_inv_def by (intro slot_refs_nonneg) auto

lemma conn_refs_le_total:
  assumes "\<forall>c \<in> set cs. conn_inv c" and "c \<in> set cs" and "0 < h"
  shows "conn_refs c h \<le> total_refs cs h"
proof -
  obtain xs ys where cs: "cs = xs @ c # ys" using split_list [OF assms(2)] by blast
  have nn: "0 \<le> sum_list (map (\<lambda>c. conn_refs c h) zs)" if "set zs \<subseteq> set cs" for zs
    using assms(1,3) that by (intro sum_list_nonneg) (auto intro: conn_refs_nonneg)
  have "0 \<le> sum_list (map (\<lambda>c. conn_refs c h) xs)" "0 \<le> sum_list (map (\<lambda>c. conn_refs c h) ys)"
    by (rule nn, auto simp: cs)+
  then show ?thesis by (simp add: cs total_refs_def)
qed

lemma sys_inv_replace:
  assumes s: "sema_sys_inv s" and i: "i < length (conns s)"
    and k: "refs_kept (conns s ! i) (table s) c' t'"
  shows "sema_sys_inv (s\<lparr>table := t', conns := (conns s)[i := c']\<rparr>)"
proof -
  have "total_refs ((conns s)[i := c']) h = total_refs (conns s) h + conn_refs c' h - conn_refs (conns s ! i) h" for h
    using sum_list_update_map [OF i] by (simp add: total_refs_def)
  moreover have "conn_inv c" if "c \<in> set ((conns s)[i := c'])" for c
    using set_update_subset_insert [of "conns s" i c'] that s k
    by (auto simp: sema_sys_inv_def refs_kept_def)
  ultimately show ?thesis using s k by (fastforce simp: sema_sys_inv_def refs_kept_def)
qed

lemma sys_inv_conn_le:
  assumes "sema_sys_inv s" and "i < length (conns s)"
  shows "conn_inv (conns s ! i)" and "\<forall>h > 0. conn_refs (conns s ! i) h \<le> sema_cnt (table s) h"
  using assms conn_refs_le_total [of "conns s" "conns s ! i"]
  by (auto simp: sema_sys_inv_def) (meson nth_mem order_trans)

lemma sema_step_inv: "sema_step s e s' \<Longrightarrow> sema_sys_inv s \<Longrightarrow> sema_sys_inv s'"
proof (induction rule: sema_step.induct)
  case (request i s p ufunc result response c' t')
  from handle_func_0x20_refs [OF sys_inv_conn_le(1) [OF request(3,1)] _ sys_inv_conn_le(2) [OF request(3,1)] request(2)]
  show ?case using request by (intro sys_inv_replace) (auto simp: sema_sys_inv_def)
next
  case (clear i s c' t')
  from clear_conn_semas_spec [OF sys_inv_conn_le(1) [OF clear(3,1)] _ sys_inv_conn_le(2) [OF clear(3,1)] clear(2)]
  show ?case using clear by (intro sys_inv_replace) (auto simp: sema_sys_inv_def refs_kept_def)
qed

lemma sema_sys_inv_init: "sema_sys_inv \<lparr>table = init_table, conns = replicate n init_conn\<rparr>"
proof -
  have at: "sema_at init_table h = None" for h by (simp add: sema_at_def init_table_def)
  have "total_refs (replicate n init_conn) h = 0" for h
    by (induction n) (simp_all add: total_refs_def conn_refs_def init_conn_def)
  then show ?thesis using at
    by (auto simp: sema_sys_inv_def table_inv_def table_shape_def entries_ok_def init_table_def
      conn_inv_def init_conn_def sema_cnt_def)
qed

lemma sema_reachable_inv: "sema_reachable n s \<Longrightarrow> sema_sys_inv s"
  by (induction rule: sema_reachable.induct) (auto intro: sema_sys_inv_init sema_step_inv)

section \<open>Properties\<close>

text \<open>A concrete history: one connection opens the semaphore \<open>A\<close> with value 1.\<close>

definition example_open :: buffer where
  "example_open i = [1, 1, 65] ! i"

definition example_sys :: sema_sys where
  "example_sys = \<lparr>
     table = \<lparr>count_semas = 1, semas = (replicate MAX_SEMAPHORES None)[0 :=
       Some \<lparr>se_name = [65], se_opencount = 1, se_value = 1\<rparr>]\<rparr>,
     conns = [\<lparr>c_count = 1, c_semas = (replicate MAX_SEMA_CONN \<lparr>sc_handle = 0, sc_opencount = 0\<rparr>)
       [0 := \<lparr>sc_handle = 1, sc_opencount = 1\<rparr>]\<rparr>]\<rparr>"

lemma example_open_result:
  "open_sema [65] 1 init_table = (1, 1, table example_sys)"
  by (simp add: open_sema_def init_table_def example_sys_def MAX_SEMAPHORES_def)

lemma example_request:
  "handle_func_0x20 init_conn example_open 0 init_table =
     (5, [0, 0, 0, 1, 1], conns example_sys ! 0, table example_sys)"
proof -
  have "bytes_at example_open 2 1 = [65]" by (simp add: bytes_at_def example_open_def)
  moreover have "open_conn_sema init_conn 1 = (1, conns example_sys ! 0)"
    by (simp add: open_conn_sema_def init_conn_def MAX_SEMA_CONN_def example_sys_def)
  ultimately show ?thesis
    using example_open_result
    by (simp add: handle_func_0x20_def Let_def example_open_def u32_to_be32_def)
qed

lemma example_reachable: "sema_reachable 1 example_sys"
proof -
  let ?s = "\<lparr>table = init_table, conns = replicate 1 init_conn\<rparr>"
  have "sema_step ?s (Request 0 example_open 0)
      (?s\<lparr>table := table example_sys, conns := (conns ?s)[0 := conns example_sys ! 0]\<rparr>)"
    by (rule sema_step.request) (simp_all add: example_request)
  moreover have "?s\<lparr>table := table example_sys, conns := (conns ?s)[0 := conns example_sys ! 0]\<rparr>
      = example_sys"
    by (simp add: example_sys_def)
  ultimately show ?thesis using sema_reachable.step [OF sema_reachable.start] by metis
qed

text \<open>C13. \<^verbatim>\<open>open_sema\<close> implements its specification on the map from handles to
  semaphores: an existing name is reopened under its old handle with one more reference, a new
  name gets a fresh handle between 1 and 100, and \<open>-0x96\<close> is returned only when all hundred
  slots hold other names; the table invariant is kept.\<close>

theorem open_sema_meets_spec:
  assumes "table_inv t" and "0 \<le> v" and "open_sema name v t = (r, oc, t')"
  shows "table_inv t' \<and> spec_open name v (sema_at t) r oc (sema_at t')"
  using assms by (rule open_sema_refines)

theorem open_sema_meets_spec_witness:
  "table_inv (table example_sys) \<and>
   spec_open [65] 1 (sema_at init_table) 1 1 (sema_at (table example_sys))"
proof -
  have "table_inv init_table" using sema_sys_inv_init [of 0] by (simp add: sema_sys_inv_def)
  from open_sema_meets_spec [OF this _ example_open_result] show ?thesis by simp
qed

text \<open>C12. In every state that any sequence of requests and disconnects of the clients can
  reach, each handle a connection holds refers to a live semaphore whose global open count is at
  least the number of times this connection has it open: no connection ever holds a dangling
  handle, and closing one connection cannot take a semaphore away from another.\<close>

theorem sema_handles_live:
  assumes "sema_reachable n s" and "c \<in> set (conns s)"
    and "sl \<in> set (take (c_count c) (c_semas c))" and "0 < sc_handle sl"
  shows "\<exists>se. sema_at (table s) (sc_handle sl) = Some se \<and> sc_opencount sl \<le> se_opencount se"
proof -
  let ?h = "sc_handle sl"
  have inv: "sema_sys_inv s" by (rule sema_reachable_inv [OF assms(1)])
  then have c: "conn_inv c" and t: "table_inv (table s)"
    using assms(2) by (auto simp: sema_sys_inv_def)
  then have pos: "0 < sc_opencount sl" using assms(3,4) by (auto simp: conn_inv_def)
  obtain xs ys where "take (c_count c) (c_semas c) = xs @ sl # ys"
    using split_list [OF assms(3)] by blast
  moreover from this c have "0 \<le> sum_list (map (slot_refs ?h) xs)" "0 \<le> sum_list (map (slot_refs ?h) ys)"
    by (auto simp: conn_inv_def intro!: slot_refs_nonneg [OF _ assms(4)])
  ultimately have "sc_opencount sl \<le> conn_refs c ?h"
    by (simp add: conn_refs_def slot_refs_def [of ?h sl])
  also have "\<dots> \<le> sema_cnt (table s) ?h"
    using inv conn_refs_le_total [OF _ assms(2,4)] assms(4) by (fastforce simp: sema_sys_inv_def)
  finally show ?thesis using pos by (auto simp: sema_cnt_def split: option.splits)
qed

theorem sema_handles_live_witness:
  "\<exists>se. sema_at (table example_sys) 1 = Some se \<and> 1 \<le> se_opencount se"
proof -
  let ?c = "conns example_sys ! 0" and ?s = "\<lparr>sc_handle = 1, sc_opencount = 1\<rparr>"
  have "?c \<in> set (conns example_sys)" "?s \<in> set (take (c_count ?c) (c_semas ?c))"
    by (simp_all add: example_sys_def MAX_SEMA_CONN_def eval_nat_numeral)
  from sema_handles_live [OF example_reachable this] show ?thesis by simp
qed

text \<open>In every reachable state each live semaphore has a positive open count and a value
  that is never negative, and no two live semaphores have the same name.\<close>

theorem sema_table_sound:
  assumes "sema_reachable n s" and "sema_at (table s) h = Some se"
  shows "0 < se_opencount se \<and> 0 \<le> se_value se \<and>
    (\<forall>h' se'. sema_at (table s) h' = Some se' \<and> se_name se' = se_name se \<longrightarrow> h' = h)"
  using sema_reachable_inv [OF assms(1)] assms(2)
  unfolding sema_sys_inv_def table_inv_def entries_ok_def by blast

theorem sema_table_sound_witness:
  "0 < (1::int) \<and> 0 \<le> (1::int) \<and>
   {h'. \<exists>se'. sema_at (table example_sys) h' = Some se' \<and> se_name se' = [65]} \<subseteq> {1}"
  using sema_table_sound [OF example_reachable, of 1 "\<lparr>se_name = [65], se_opencount = 1, se_value = 1\<rparr>"]
  by (auto simp: example_sys_def sema_at_def MAX_SEMAPHORES_def)

text \<open>When a connection ends, \<^verbatim>\<open>clear_conn_semas\<close> gives back exactly the references this
  connection held: every open count drops by the connection's own count, and the connection
  holds nothing afterwards.\<close>

theorem clear_releases_own_refs:
  assumes "sema_reachable n s" and "i < length (conns s)"
    and "clear_conn_semas (conns s ! i) (table s) = (c', t')" and "0 < h"
  shows "sema_cnt t' h = sema_cnt (table s) h - conn_refs (conns s ! i) h \<and> conn_refs c' h = 0"
proof -
  have inv: "sema_sys_inv s" by (rule sema_reachable_inv [OF assms(1)])
  from clear_conn_semas_spec [OF sys_inv_conn_le(1) [OF inv assms(2)] _
      sys_inv_conn_le(2) [OF inv assms(2)] assms(3)] inv assms(4)
  show ?thesis by (simp add: sema_sys_inv_def)
qed

theorem clear_releases_own_refs_witness:
  "\<exists>c' t'. clear_conn_semas (conns example_sys ! 0) (table example_sys) = (c', t') \<and>
     sema_cnt t' 1 = sema_cnt (table example_sys) 1 - conn_refs (conns example_sys ! 0) 1"
proof -
  obtain c' t' where cl: "clear_conn_semas (conns example_sys ! 0) (table example_sys) = (c', t')"
    by fastforce
  have "0 < length (conns example_sys)" by (simp add: example_sys_def)
  from clear_releases_own_refs [OF example_reachable this cl, of 1] cl show ?thesis by auto
qed

text \<open>The reference that leaks: when the global open succeeds but the connection has no
  slot left, the handler passes the error code instead of the handle to \<^verbatim>\<open>close_sema\<close>, so
  the request fails with \<open>-0x96\<close> while the global open count stays one too high.\<close>

theorem failed_open_leaks_reference:
  assumes "table_inv t" and "1 \<le> unat (p 1)" and "unat (p 1) \<le> 127" and "unat (p 0) \<le> 127"
    and "open_sema (bytes_at p 2 (unat (p 1))) (int (unat (p 0))) t = (r, oc, t1)" and "r > -1"
    and "open_conn_sema c r = (-0x96, c)"
  shows "handle_func_0x20 c p 0 t = (-0x96, [], c, t1) \<and> sema_cnt t1 r = sema_cnt t r + 1"
proof -
  have "spec_open (bytes_at p 2 (unat (p 1))) (int (unat (p 0))) (sema_at t) r oc (sema_at t1)"
    using open_sema_refines [OF assms(1) _ assms(5)] by simp
  from spec_open_cnt(2) [OF this assms(6)] have "sema_cnt t1 r = sema_cnt t r + 1" by simp
  moreover have "snd (close_sema (-0x96) t1) = t1" by (simp add: close_sema_def sema_at_def)
  moreover have "int (unat (p 0)) \<le> 127" using assms(4) by linarith
  ultimately show ?thesis using assms by (auto simp: handle_func_0x20_def Let_def)
qed

definition full_conn :: conn_semas where
  "full_conn = \<lparr>c_count = 10,
     c_semas = map (\<lambda>k. \<lparr>sc_handle = int k + 11, sc_opencount = 1\<rparr>) [0..<10]\<rparr>"

theorem failed_open_leaks_reference_witness:
  "handle_func_0x20 full_conn example_open 0 init_table = (-0x96, [], full_conn, table example_sys) \<and>
   sema_cnt (table example_sys) 1 = sema_cnt init_table 1 + 1"
proof (rule failed_open_leaks_reference)
  show "table_inv init_table" using sema_sys_inv_init [of 0] by (simp add: sema_sys_inv_def)
  show "open_conn_sema full_conn 1 = (-0x96, full_conn)" by code_simp
  show "open_sema (bytes_at example_open 2 (unat (example_open 1))) (int (unat (example_open 0))) init_table
      = (1, 1, table example_sys)"
    using example_open_result by (simp add: example_open_def bytes_at_def)
qed (simp_all add: example_open_def)

end
