(* ===== verification/Nwshare.thy ===== *)
theory Nwshare
  imports Prelude
begin

unbundle bit_operations_syntax

text \<open>
  File sharing and record locking, \<^verbatim>\<open>src/nwshare.c\<close>.  Every client is served by its own
  process; each process keeps a chain of devices, each with a chain of inodes that count how the
  process has the file open (read, write, deny read, deny write, file lock).  Processes see each
  other only through advisory locks on one byte per inode in five lock files per device.  The
  model has the private chains of a process and the system's table of those advisory locks with
  the three \<^verbatim>\<open>fcntl\<close> commands the source uses; \<^verbatim>\<open>share_file\<close> runs under a semaphore lock
  (\<^verbatim>\<open>fd_sm\<close>), so one call is one step.  Access modes are 32-bit masks.
\<close>

section \<open>Advisory locks\<close>

datatype lkfile = F_or | F_ow | F_dr | F_dw | F_fl

datatype lktype = RDLCK | WRLCK

text \<open>Device, lock file, byte (the inode number).\<close>

type_synonym lkkey = "int \<times> lkfile \<times> int"

text \<open>Lock, owner process, type.\<close>

type_synonym klock = "lkkey \<times> nat \<times> lktype"

text \<open>\<^verbatim>\<open>F_GETLK\<close> for a write lock: the type of a lock another process holds, if any.\<close>

fun fcntl_getlk :: "lkkey \<Rightarrow> nat \<Rightarrow> klock list \<Rightarrow> lktype option" where
  "fcntl_getlk key pid [] = None"
| "fcntl_getlk key pid ((k, q, t) # ks) =
     (if k = key \<and> q \<noteq> pid then Some t else fcntl_getlk key pid ks)"

definition fcntl_unlck :: "lkkey \<Rightarrow> nat \<Rightarrow> klock list \<Rightarrow> klock list" where
  "fcntl_unlck key pid ks = filter (\<lambda>(k, q, t). \<not> (k = key \<and> q = pid)) ks"

text \<open>\<^verbatim>\<open>F_SETLK\<close>: refused, without any change, when another process holds a conflicting lock.\<close>

definition fcntl_setlk :: "lkkey \<Rightarrow> nat \<Rightarrow> lktype \<Rightarrow> klock list \<Rightarrow> klock list" where
  "fcntl_setlk key pid t ks =
     (if list_ex (\<lambda>(k, q, t'). k = key \<and> q \<noteq> pid \<and> (t = WRLCK \<or> t' = WRLCK)) ks then ks
      else (key, pid, t) # fcntl_unlck key pid ks)"

text \<open>Closing the lock files of a device drops all locks the process has in them.\<close>

definition close_dev_files :: "int \<Rightarrow> nat \<Rightarrow> klock list \<Rightarrow> klock list" where
  "close_dev_files dev pid ks = filter (\<lambda>((d, f, i), q, t). \<not> (d = dev \<and> q = pid)) ks"

section \<open>State of one process\<close>

record ShareLock =
  l_start :: int
  l_len :: int
  l_fd :: int
  l_exclusive :: bool

record ShareINode =
  si_inode :: int
  si_or :: nat
  si_ow :: nat
  si_dr :: nat
  si_dw :: nat
  si_fl :: nat
  si_ex :: nat
  first_lock :: "ShareLock list"

record ShareDev =
  sd_dev :: int
  first_inode :: "ShareINode list"

definition new_inode :: "int \<Rightarrow> ShareINode" where
  "new_inode inode = \<lparr>si_inode = inode, si_or = 0, si_ow = 0, si_dr = 0, si_dw = 0,
     si_fl = 0, si_ex = 0, first_lock = []\<rparr>"

section \<open>share\_file\<close>

text \<open>The bits of \<^verbatim>\<open>act_mode\<close>: 0x01, 0x02, 0x04, 0x08, 0x100, 0x200.\<close>

record act_mode =
  a_or :: bool
  a_ow :: bool
  a_dr :: bool
  a_dw :: bool
  a_fl :: bool
  a_ex :: bool

definition share_act_mode ::
  "nat \<Rightarrow> int \<Rightarrow> u32 \<Rightarrow> ShareINode \<Rightarrow> klock list \<Rightarrow> act_mode" where
  "share_act_mode pid dev open_mode si ks =
     (let ino = si_inode si;
          ask = open_mode AND 0xff \<noteq> 0;
          other = (\<lambda>f. fcntl_getlk (dev, f, ino) pid ks);
          flk = (if open_mode AND 0x300 \<noteq> 0 \<and> \<not> si_fl si > 0 then other F_fl else None)
      in \<lparr>a_or = (si_or si > 0 \<or> ask \<and> other F_or \<noteq> None),
          a_ow = (si_ow si > 0 \<or> ask \<and> other F_ow \<noteq> None),
          a_dr = (si_dr si > 0 \<or> ask \<and> other F_dr \<noteq> None),
          a_dw = (si_dw si > 0 \<or> ask \<and> other F_dw \<noteq> None),
          a_fl = (si_fl si > 0 \<or> flk \<noteq> None),
          a_ex = (si_ex si > 0 \<or> flk = Some WRLCK)\<rparr>)"

definition share_conflict :: "u32 \<Rightarrow> act_mode \<Rightarrow> bool" where
  "share_conflict open_mode act =
     (bit open_mode 0 \<and> a_dr act \<or> bit open_mode 1 \<and> a_dw act \<or>
      bit open_mode 2 \<and> a_or act \<or> bit open_mode 3 \<and> a_ow act \<or>
      bit open_mode 8 \<and> a_ex act \<or> bit open_mode 9 \<and> a_fl act)"

text \<open>One counter of the ADD branch: the first user of the process sets the read lock.\<close>

definition add_lock :: "bool \<Rightarrow> nat \<Rightarrow> lkkey \<Rightarrow> nat \<Rightarrow> klock list \<Rightarrow> klock list" where
  "add_lock wanted count key pid ks =
     (if wanted \<and> count = 0 then fcntl_setlk key pid RDLCK ks else ks)"

definition share_add ::
  "nat \<Rightarrow> int \<Rightarrow> u32 \<Rightarrow> ShareINode \<Rightarrow> klock list \<Rightarrow> ShareINode \<times> klock list" where
  "share_add pid dev open_mode si ks =
     (let ino = si_inode si;
          ks1 = add_lock (bit open_mode 0) (si_or si) (dev, F_or, ino) pid ks;
          ks2 = add_lock (bit open_mode 2) (si_dr si) (dev, F_dr, ino) pid ks1;
          ks3 = add_lock (bit open_mode 1) (si_ow si) (dev, F_ow, ino) pid ks2;
          ks4 = add_lock (bit open_mode 3) (si_dw si) (dev, F_dw, ino) pid ks3;
          ks5 = (if bit open_mode 8 \<and> si_fl si = 0
                 then fcntl_setlk (dev, F_fl, ino) pid (if bit open_mode 9 then RDLCK else WRLCK) ks4
                 else ks4)
      in (si\<lparr>si_or := si_or si + of_bool (bit open_mode 0),
             si_dr := si_dr si + of_bool (bit open_mode 2),
             si_ow := si_ow si + of_bool (bit open_mode 1),
             si_dw := si_dw si + of_bool (bit open_mode 3),
             si_fl := si_fl si + of_bool (bit open_mode 8),
             si_ex := si_ex si + of_bool (bit open_mode 8 \<and> \<not> bit open_mode 9)\<rparr>, ks5))"

text \<open>One counter of the REMOVE branch: \<^verbatim>\<open>if (n && !(--n)) fcntl(F_UNLCK)\<close>.\<close>

definition remove_lock :: "bool \<Rightarrow> nat \<Rightarrow> lkkey \<Rightarrow> nat \<Rightarrow> klock list \<Rightarrow> klock list" where
  "remove_lock wanted count key pid ks =
     (if wanted \<and> count = 1 then fcntl_unlck key pid ks else ks)"

definition share_remove ::
  "nat \<Rightarrow> int \<Rightarrow> u32 \<Rightarrow> ShareINode \<Rightarrow> klock list \<Rightarrow> ShareINode \<times> klock list" where
  "share_remove pid dev open_mode si ks =
     (let ino = si_inode si;
          ks1 = remove_lock (bit open_mode 0) (si_or si) (dev, F_or, ino) pid ks;
          ks2 = remove_lock (bit open_mode 2) (si_dr si) (dev, F_dr, ino) pid ks1;
          ks3 = remove_lock (bit open_mode 1) (si_ow si) (dev, F_ow, ino) pid ks2;
          ks4 = remove_lock (bit open_mode 3) (si_dw si) (dev, F_dw, ino) pid ks3;
          ks5 = remove_lock (bit open_mode 8) (si_fl si) (dev, F_fl, ino) pid ks4
      in (si\<lparr>si_or := si_or si - of_bool (bit open_mode 0),
             si_dr := si_dr si - of_bool (bit open_mode 2),
             si_ow := si_ow si - of_bool (bit open_mode 1),
             si_dw := si_dw si - of_bool (bit open_mode 3),
             si_fl := si_fl si - of_bool (bit open_mode 8),
             si_ex := (if bit open_mode 8 \<and> si_fl si = 1 then 0 else si_ex si)\<rparr>, ks5))"

definition inode_unused :: "ShareINode \<Rightarrow> bool" where
  "inode_unused si \<longleftrightarrow> si_or si = 0 \<and> si_ow si = 0 \<and> si_dr si = 0 \<and> si_dw si = 0 \<and> si_fl si = 0"

text \<open>The end of \<^verbatim>\<open>share_file\<close>: an unused inode is released, and then a device with no inodes.\<close>

definition share_store ::
  "nat \<Rightarrow> ShareDev \<Rightarrow> ShareINode \<Rightarrow> ShareDev list \<Rightarrow> klock list \<Rightarrow> ShareDev list \<times> klock list" where
  "share_store pid sd si devs ks =
     (let inodes = (if inode_unused si then chain_del si_inode (si_inode si) (first_inode sd)
                    else chain_put si_inode si (first_inode sd))
      in if inodes = [] then (chain_del sd_dev (sd_dev sd) devs, close_dev_files (sd_dev sd) pid ks)
         else (chain_put sd_dev (sd\<lparr>first_inode := inodes\<rparr>) devs, ks))"

text \<open>\<open>files_ok\<close> tells whether the lock files of a device that is not open yet can be opened.\<close>

definition share_file ::
  "nat \<Rightarrow> int \<Rightarrow> int \<Rightarrow> u32 \<Rightarrow> int \<Rightarrow> bool \<Rightarrow> ShareDev list \<Rightarrow> klock list \<Rightarrow>
     int \<times> ShareDev list \<times> klock list" where
  "share_file pid dev inode open_mode action files_ok devs ks =
     (if open_mode = 0 then (-1, devs, ks)
      else
        let old_sd = chain_find sd_dev dev devs;
            sd = (case old_sd of Some d \<Rightarrow> d | None \<Rightarrow> \<lparr>sd_dev = dev, first_inode = []\<rparr>);
            old_si = chain_find si_inode inode (first_inode sd);
            si = (case old_si of Some i \<Rightarrow> i | None \<Rightarrow> new_inode inode)
        in if action = 0 \<and> old_sd = None then (-1, devs, ks)
           else if action = 0 \<and> old_si = None then
             (-1, (if first_inode sd = [] then chain_del sd_dev dev devs else devs), ks)
           else if old_sd = None \<and> \<not> files_ok then (-1, devs, ks)
           else if action = 1 \<or> action = 2 then
             let result = (if share_conflict open_mode (share_act_mode pid dev open_mode si ks)
                           then -1 else 0);
                 (si', ks') = (if action = 1 \<and> result = 0 then share_add pid dev open_mode si ks
                               else (si, ks))
             in (result, share_store pid sd si' devs ks')
           else if action = 0 then
             let (si', ks') = share_remove pid dev open_mode si ks
             in (0, share_store pid sd si' devs ks')
           else (0, share_store pid sd si devs ks))"

section \<open>Counters and the system's lock table agree\<close>

text \<open>The counter of an inode that corresponds to a lock file, and the mode bit that counts.\<close>

fun fcnt :: "lkfile \<Rightarrow> ShareINode \<Rightarrow> nat" where
  "fcnt F_or si = si_or si" | "fcnt F_ow si = si_ow si" | "fcnt F_dr si = si_dr si"
| "fcnt F_dw si = si_dw si" | "fcnt F_fl si = si_fl si"

fun fbit :: "lkfile \<Rightarrow> u32 \<Rightarrow> bool" where
  "fbit F_or m = bit m 0" | "fbit F_ow m = bit m 1" | "fbit F_dr m = bit m 2"
| "fbit F_dw m = bit m 3" | "fbit F_fl m = bit m 8"

definition holds :: "klock list \<Rightarrow> lkkey \<Rightarrow> nat \<Rightarrow> bool" where
  "holds ks key p \<longleftrightarrow> (\<exists>t. (key, p, t) \<in> set ks)"

text \<open>Only read locks are ever set in the four mode files.\<close>

definition readers_only :: "klock list \<Rightarrow> bool" where
  "readers_only ks \<longleftrightarrow> (\<forall>((d, f, i), p, t) \<in> set ks. f \<noteq> F_fl \<longrightarrow> t = RDLCK)"

definition locks_agree :: "klock list \<Rightarrow> (nat \<times> lkkey \<Rightarrow> nat) \<Rightarrow> bool" where
  "locks_agree ks cnt \<longleftrightarrow> readers_only ks \<and>
     (\<forall>p key. fst (snd key) \<noteq> F_fl \<longrightarrow> holds ks key p = (0 < cnt (p, key)))"

lemma getlk_iff: "fcntl_getlk key p ks \<noteq> None \<longleftrightarrow> (\<exists>q. q \<noteq> p \<and> holds ks key q)"
  by (induction key p ks rule: fcntl_getlk.induct) (auto simp: holds_def)

lemma holds_Cons: "holds ((k, p, t) # ks) key q \<longleftrightarrow> key = k \<and> q = p \<or> holds ks key q"
  by (auto simp: holds_def)

lemma holds_unlck: "holds (fcntl_unlck key p ks) k q \<longleftrightarrow> holds ks k q \<and> \<not> (k = key \<and> q = p)"
  by (auto simp: holds_def fcntl_unlck_def)

lemma holds_close: "holds (close_dev_files d p ks) k q \<longleftrightarrow> holds ks k q \<and> \<not> (fst k = d \<and> q = p)"
  by (cases k) (auto simp: holds_def close_dev_files_def)

lemma readers_only_sub: "readers_only ks \<Longrightarrow> set ks' \<subseteq> set ks \<Longrightarrow> readers_only ks'"
  by (auto simp: readers_only_def)

lemma readers_only_ops:
  "readers_only ks \<Longrightarrow> readers_only (fcntl_unlck key p ks)"
  "readers_only ks \<Longrightarrow> readers_only (close_dev_files d p ks)"
  "readers_only ks \<Longrightarrow> fst (snd key) = F_fl \<or> t = RDLCK \<Longrightarrow> readers_only ((key, p, t) # ks)"
  by (auto simp: readers_only_def fcntl_unlck_def close_dev_files_def)

lemma setlk_read:
  assumes "readers_only ks" and "fst (snd key) \<noteq> F_fl"
  shows "fcntl_setlk key p RDLCK ks = (key, p, RDLCK) # fcntl_unlck key p ks"
proof -
  have "t \<noteq> WRLCK" if "(key, q, t) \<in> set ks" for q t
    using assms that by (cases key) (auto simp: readers_only_def)
  then show ?thesis by (auto simp: fcntl_setlk_def list_ex_iff)
qed

lemma add_lock_agree:
  assumes "locks_agree ks cnt" and "fst (snd key) \<noteq> F_fl"
  shows "locks_agree (add_lock w (cnt (p, key)) key p ks) (cnt((p, key) := cnt (p, key) + of_bool w))"
  using assms
  by (auto simp: locks_agree_def add_lock_def setlk_read readers_only_ops holds_Cons holds_unlck)

lemma remove_lock_agree:
  assumes "locks_agree ks cnt" and "fst (snd key) \<noteq> F_fl"
  shows "locks_agree (remove_lock w (cnt (p, key)) key p ks)
    (cnt((p, key) := cnt (p, key) - of_bool w))"
  using assms by (auto simp: locks_agree_def remove_lock_def readers_only_ops holds_unlck)

lemma fl_lock_agree:
  assumes "locks_agree ks cnt" and "fst (snd key) = F_fl"
  shows "locks_agree (fcntl_setlk key p t ks) cnt"
    and "locks_agree (remove_lock w n key p ks) cnt"
  using assms
  by (auto simp: locks_agree_def fcntl_setlk_def remove_lock_def readers_only_ops holds_Cons holds_unlck)

lemma close_dev_agree:
  assumes "locks_agree ks cnt" and "\<And>key. fst key = d \<Longrightarrow> fst (snd key) \<noteq> F_fl \<Longrightarrow> cnt (p, key) = 0"
  shows "locks_agree (close_dev_files d p ks) cnt"
  using assms by (auto simp: locks_agree_def readers_only_ops holds_close)

definition bump_counts ::
  "(nat \<Rightarrow> bool \<Rightarrow> nat) \<Rightarrow> nat \<Rightarrow> int \<Rightarrow> int \<Rightarrow> u32 \<Rightarrow> (nat \<times> lkkey \<Rightarrow> nat) \<Rightarrow> nat \<times> lkkey \<Rightarrow> nat" where
  "bump_counts g p d i m cnt = (\<lambda>(q, e, f, j).
     if q = p \<and> e = d \<and> j = i \<and> f \<noteq> F_fl then g (cnt (q, e, f, j)) (fbit f m) else cnt (q, e, f, j))"

lemma share_add_agree:
  assumes "locks_agree ks cnt" and "\<And>f. f \<noteq> F_fl \<Longrightarrow> fcnt f si = cnt (p, d, f, si_inode si)"
    and "share_add p d m si ks = (si', ks')"
  shows "locks_agree ks' (bump_counts (\<lambda>n b. n + of_bool b) p d (si_inode si) m cnt)"
    and "\<And>f. f \<noteq> F_fl \<Longrightarrow> fcnt f si' = fcnt f si + of_bool (fbit f m)"
    and "si_inode si' = si_inode si"
proof -
  let ?i = "si_inode si"
  have c: "si_or si = cnt (p, d, F_or, ?i)" "si_dr si = cnt (p, d, F_dr, ?i)"
    "si_ow si = cnt (p, d, F_ow, ?i)" "si_dw si = cnt (p, d, F_dw, ?i)"
    using assms(2)[of F_or] assms(2)[of F_dr] assms(2)[of F_ow] assms(2)[of F_dw] by simp_all
  note l1 = add_lock_agree [OF assms(1), of "(d, F_or, ?i)" "bit m 0" p, simplified]
  note l2 = add_lock_agree [OF l1, of "(d, F_dr, ?i)" "bit m 2" p, simplified]
  note l3 = add_lock_agree [OF l2, of "(d, F_ow, ?i)" "bit m 1" p, simplified]
  note l4 = add_lock_agree [OF l3, of "(d, F_dw, ?i)" "bit m 3" p, simplified]
  have "bump_counts (\<lambda>n b. n + of_bool b) p d ?i m cnt
    = cnt((p, d, F_or, ?i) := cnt (p, d, F_or, ?i) + of_bool (bit m 0),
          (p, d, F_dr, ?i) := cnt (p, d, F_dr, ?i) + of_bool (bit m 2),
          (p, d, F_ow, ?i) := cnt (p, d, F_ow, ?i) + of_bool (bit m 1),
          (p, d, F_dw, ?i) := cnt (p, d, F_dw, ?i) + of_bool (bit m 3))" (is "?l = ?r")
  proof
    fix x :: "nat \<times> lkkey"
    obtain q e f j where "x = (q, e, f, j)" by (metis prod_cases4)
    then show "?l x = ?r x" by (cases f) (simp_all add: bump_counts_def)
  qed
  with l4 assms(3) c fl_lock_agree(1)
  show "locks_agree ks' (bump_counts (\<lambda>n b. n + of_bool b) p d ?i m cnt)"
    by (auto simp: share_add_def Let_def)
  show "fcnt f si' = fcnt f si + of_bool (fbit f m)" if "f \<noteq> F_fl" for f
    using assms(3) that by (cases f) (auto simp: share_add_def Let_def)
  show "si_inode si' = si_inode si" using assms(3) by (auto simp: share_add_def Let_def)
qed

lemma share_remove_agree:
  assumes "locks_agree ks cnt" and "\<And>f. f \<noteq> F_fl \<Longrightarrow> fcnt f si = cnt (p, d, f, si_inode si)"
    and "share_remove p d m si ks = (si', ks')"
  shows "locks_agree ks' (bump_counts (\<lambda>n b. n - of_bool b) p d (si_inode si) m cnt)"
    and "\<And>f. f \<noteq> F_fl \<Longrightarrow> fcnt f si' = fcnt f si - of_bool (fbit f m)"
    and "si_inode si' = si_inode si"
proof -
  let ?i = "si_inode si"
  have c: "si_or si = cnt (p, d, F_or, ?i)" "si_dr si = cnt (p, d, F_dr, ?i)"
    "si_ow si = cnt (p, d, F_ow, ?i)" "si_dw si = cnt (p, d, F_dw, ?i)"
    using assms(2)[of F_or] assms(2)[of F_dr] assms(2)[of F_ow] assms(2)[of F_dw] by simp_all
  note l1 = remove_lock_agree [OF assms(1), of "(d, F_or, ?i)" "bit m 0" p, simplified]
  note l2 = remove_lock_agree [OF l1, of "(d, F_dr, ?i)" "bit m 2" p, simplified]
  note l3 = remove_lock_agree [OF l2, of "(d, F_ow, ?i)" "bit m 1" p, simplified]
  note l4 = remove_lock_agree [OF l3, of "(d, F_dw, ?i)" "bit m 3" p, simplified]
  have "bump_counts (\<lambda>n b. n - of_bool b) p d ?i m cnt
    = cnt((p, d, F_or, ?i) := cnt (p, d, F_or, ?i) - of_bool (bit m 0),
          (p, d, F_dr, ?i) := cnt (p, d, F_dr, ?i) - of_bool (bit m 2),
          (p, d, F_ow, ?i) := cnt (p, d, F_ow, ?i) - of_bool (bit m 1),
          (p, d, F_dw, ?i) := cnt (p, d, F_dw, ?i) - of_bool (bit m 3))" (is "?l = ?r")
  proof
    fix x :: "nat \<times> lkkey"
    obtain q e f j where "x = (q, e, f, j)" by (metis prod_cases4)
    then show "?l x = ?r x" by (cases f) (simp_all add: bump_counts_def)
  qed
  then have "locks_agree ks' (bump_counts (\<lambda>n b. n - of_bool b) p d ?i m cnt) =
      locks_agree (snd (share_remove p d m si ks)) ?r" using assms(3) by simp
  also have "\<dots>" unfolding share_remove_def Let_def c snd_conv
    using fl_lock_agree(2) [OF l4, of "(d, F_fl, ?i)"] by simp
  finally show "locks_agree ks' (bump_counts (\<lambda>n b. n - of_bool b) p d ?i m cnt)" .
  show "fcnt f si' = fcnt f si - of_bool (fbit f m)" if "f \<noteq> F_fl" for f
    using assms(3) that by (cases f) (auto simp: share_remove_def Let_def)
  show "si_inode si' = si_inode si" using assms(3) by (auto simp: share_remove_def Let_def)
qed

section \<open>The chains of a process\<close>

definition chains_ok :: "ShareDev list \<Rightarrow> bool" where
  "chains_ok devs \<longleftrightarrow> distinct (map sd_dev devs) \<and>
     (\<forall>sd \<in> set devs. distinct (map si_inode (first_inode sd)) \<and> first_inode sd \<noteq> [])"

definition inode_at :: "ShareDev list \<Rightarrow> int \<Rightarrow> int \<Rightarrow> ShareINode option" where
  "inode_at devs d i =
     (case chain_find sd_dev d devs of None \<Rightarrow> None | Some sd \<Rightarrow> chain_find si_inode i (first_inode sd))"

definition current :: "ShareDev list \<Rightarrow> int \<Rightarrow> int \<Rightarrow> ShareINode" where
  "current devs d i = (case inode_at devs d i of Some si \<Rightarrow> si | None \<Rightarrow> new_inode i)"

lemma si_inode_current [simp]: "si_inode (current devs d i) = i"
  by (auto simp: current_def inode_at_def new_inode_def dest: chain_find_key split: option.splits)

lemma share_store_spec:
  assumes ok: "chains_ok devs"
    and sd: "sd = (case chain_find sd_dev d devs of Some x \<Rightarrow> x | None \<Rightarrow> \<lparr>sd_dev = d, first_inode = []\<rparr>)"
    and st: "share_store p sd si devs ks = (devs', ks')"
  shows "chains_ok devs'"
    and "fcnt f (current devs' e j) =
      (if e = d \<and> j = si_inode si then fcnt f si else fcnt f (current devs e j))"
    and "ks' = ks \<or> (ks' = close_dev_files d p ks \<and> (\<forall>j f. fcnt f (current devs' d j) = 0))"
proof -
  have d: "sd_dev sd = d" and di: "distinct (map si_inode (first_inode sd))"
    using ok by (auto simp: sd chains_ok_def dest: chain_find_key split: option.splits)
  let ?is = "if inode_unused si then chain_del si_inode (si_inode si) (first_inode sd)
     else chain_put si_inode si (first_inode sd)"
  have fi: "chain_find si_inode j ?is =
    (if j = si_inode si then (if inode_unused si then None else Some si)
     else chain_find si_inode j (first_inode sd))" for j
    using di by simp
  have dis: "distinct (map si_inode ?is)" using di by auto
  have old: "inode_at devs d j = chain_find si_inode j (first_inode sd)" for j
    by (auto simp: inode_at_def sd split: option.splits)
  have dv: "distinct (map sd_dev devs)" using ok by (simp add: chains_ok_def)
  have zero: "fcnt f (new_inode j) = 0" for f j by (cases f) (simp_all add: new_inode_def)
  have unused: "fcnt f si = 0" if "inode_unused si" for f
    using that by (cases f) (simp_all add: inode_unused_def)
  have at': "inode_at devs' e j = (if e = d then (if ?is = [] then None else chain_find si_inode j ?is)
     else inode_at devs e j)" for e j
    using st d dv unfolding share_store_def Let_def by (auto simp: inode_at_def split: if_splits)
  then have at'': "inode_at devs' e j = (if e = d then chain_find si_inode j ?is
     else inode_at devs e j)" for e j
    by (metis chain_find.simps(1))
  show "chains_ok devs'"
    using st ok dis set_put [of sd_dev "sd\<lparr>first_inode := ?is\<rparr>" devs]
      set_del [of sd_dev d devs] dv d
    unfolding share_store_def Let_def chains_ok_def by (auto split: if_splits)
  show "fcnt f (current devs' e j) =
      (if e = d \<and> j = si_inode si then fcnt f si else fcnt f (current devs e j))"
    by (auto simp: current_def at'' fi old zero unused split: option.splits)
  show "ks' = ks \<or> (ks' = close_dev_files d p ks \<and> (\<forall>j f. fcnt f (current devs' d j) = 0))"
    using st d at' unfolding share_store_def Let_def
    by (auto simp: current_def zero split: if_splits)
qed

section \<open>All processes\<close>

text \<open>\<open>grants\<close> records which opens have succeeded and were not yet given back; it is not part of
  the program's state.\<close>

type_synonym grant = "nat \<times> int \<times> int \<times> u32"

record share_sys =
  procs :: "nat \<Rightarrow> ShareDev list"
  klocks :: "klock list"
  grants :: "grant list"

definition share_init :: share_sys where
  "share_init = \<lparr>procs = (\<lambda>_. []), klocks = [], grants = []\<rparr>"

inductive share_step :: "share_sys \<Rightarrow> share_sys \<Rightarrow> bool" where
  add: "share_file p d i m 1 ok (procs s p) (klocks s) = (r, devs', ks') \<Longrightarrow>
     share_step s (s\<lparr>procs := (procs s)(p := devs'), klocks := ks',
       grants := (if r = 0 then (p, d, i, m) # grants s else grants s)\<rparr>)"
| test: "share_file p d i m 2 ok (procs s p) (klocks s) = (r, devs', ks') \<Longrightarrow>
     share_step s (s\<lparr>procs := (procs s)(p := devs'), klocks := ks'\<rparr>)"
| remove: "(p, d, i, m) \<in> set (grants s) \<Longrightarrow>
     share_file p d i m 0 ok (procs s p) (klocks s) = (r, devs', ks') \<Longrightarrow>
     share_step s (s\<lparr>procs := (procs s)(p := devs'), klocks := ks',
       grants := remove1 (p, d, i, m) (grants s)\<rparr>)"
| unlock: "share_file p d i 0x300 0 ok (procs s p) (klocks s) = (r, devs', ks') \<Longrightarrow>
     share_step s (s\<lparr>procs := (procs s)(p := devs'), klocks := ks'\<rparr>)"

inductive share_reachable :: "share_sys \<Rightarrow> bool" where
  init: "share_reachable share_init"
| step: "share_reachable s \<Longrightarrow> share_step s s' \<Longrightarrow> share_reachable s'"

fun at_key :: "nat \<times> lkkey \<Rightarrow> grant \<Rightarrow> bool" where
  "at_key (p, d, f, i) (q, e, j, m) \<longleftrightarrow> q = p \<and> e = d \<and> j = i \<and> fbit f m"

definition grant_count :: "grant list \<Rightarrow> nat \<times> lkkey \<Rightarrow> nat" where
  "grant_count gs k = length (filter (at_key k) gs)"

definition modes_conflict :: "u32 \<Rightarrow> u32 \<Rightarrow> bool" where
  "modes_conflict m n \<longleftrightarrow> bit m 0 \<and> bit n 2 \<or> bit m 2 \<and> bit n 0 \<or> bit m 1 \<and> bit n 3 \<or> bit m 3 \<and> bit n 1"

fun compatible :: "grant \<Rightarrow> grant \<Rightarrow> bool" where
  "compatible (p, d, i, m) (q, e, j, n) \<longleftrightarrow> \<not> (d = e \<and> i = j \<and> modes_conflict m n)"

definition proc_counts :: "(nat \<Rightarrow> ShareDev list) \<Rightarrow> nat \<times> lkkey \<Rightarrow> nat" where
  "proc_counts ps = (\<lambda>(p, d, f, i). fcnt f (current (ps p) d i))"

definition share_inv :: "share_sys \<Rightarrow> bool" where
  "share_inv s \<longleftrightarrow> (\<forall>p. chains_ok (procs s p)) \<and> locks_agree (klocks s) (proc_counts (procs s)) \<and>
     (\<forall>k. fst (snd (snd k)) \<noteq> F_fl \<longrightarrow> proc_counts (procs s) k = grant_count (grants s) k) \<and>
     sorted_wrt compatible (grants s)"

lemma locks_agree_cong:
  "locks_agree ks cnt \<Longrightarrow> (\<And>k. fst (snd (snd k)) \<noteq> F_fl \<Longrightarrow> cnt k = cnt' k) \<Longrightarrow> locks_agree ks cnt'"
  by (simp add: locks_agree_def)

text \<open>What one call does to the chains, the lock table and the counters of the caller.\<close>

definition share_effect ::
  "(nat \<Rightarrow> bool \<Rightarrow> nat) \<Rightarrow> nat \<Rightarrow> int \<Rightarrow> int \<Rightarrow> u32 \<Rightarrow> (nat \<Rightarrow> ShareDev list) \<Rightarrow>
     ShareDev list \<Rightarrow> klock list \<Rightarrow> bool" where
  "share_effect g p d i m ps devs' ks' \<longleftrightarrow> chains_ok devs' \<and>
     locks_agree ks' (proc_counts (ps(p := devs'))) \<and>
     (\<forall>k. fst (snd (snd k)) \<noteq> F_fl \<longrightarrow>
        proc_counts (ps(p := devs')) k = bump_counts g p d i m (proc_counts ps) k)"

lemma bump_id: "bump_counts (\<lambda>n b. n) p d i m cnt = cnt"
  by (auto simp: bump_counts_def fun_eq_iff)

lemma share_store_effect:
  assumes ok: "chains_ok (ps p)" and agree: "locks_agree ks1 (bump_counts g p d i m (proc_counts ps))"
    and sd: "sd = (case chain_find sd_dev d (ps p) of Some x \<Rightarrow> x
                   | None \<Rightarrow> \<lparr>sd_dev = d, first_inode = []\<rparr>)"
    and si: "si_inode si = i" "\<And>f. f \<noteq> F_fl \<Longrightarrow> fcnt f si = g (fcnt f (current (ps p) d i)) (fbit f m)"
    and st: "share_store p sd si (ps p) ks1 = (devs', ks')"
  shows "share_effect g p d i m ps devs' ks'"
proof -
  note sp = share_store_spec [OF ok sd st]
  have cnt: "proc_counts (ps(p := devs')) k = bump_counts g p d i m (proc_counts ps) k"
    if "fst (snd (snd k)) \<noteq> F_fl" for k
    using that sp(2) si by (cases k) (auto simp: proc_counts_def bump_counts_def)
  have "locks_agree ks1 (proc_counts (ps(p := devs')))"
    using agree cnt by (auto intro: locks_agree_cong)
  with sp(3) have "locks_agree ks' (proc_counts (ps(p := devs')))"
    by (auto simp: proc_counts_def intro: close_dev_agree)
  with sp(1) cnt show ?thesis by (simp add: share_effect_def)
qed

lemma share_effect_none:
  assumes "chains_ok (ps p)" and "locks_agree ks (proc_counts ps)"
  shows "share_effect (\<lambda>n b. n) p d i m ps (ps p) ks"
  using assms by (simp add: share_effect_def bump_id)

lemma current_eq:
  "current devs d i =
     (case chain_find si_inode i (first_inode (case chain_find sd_dev d devs of Some x \<Rightarrow> x
          | None \<Rightarrow> \<lparr>sd_dev = d, first_inode = []\<rparr>)) of Some x \<Rightarrow> x | None \<Rightarrow> new_inode i)"
  by (auto simp: current_def inode_at_def split: option.splits)

lemma share_file_add_effect:
  assumes ok: "chains_ok (ps p)" and agree: "locks_agree ks (proc_counts ps)"
    and sf: "share_file p d i m 1 files (ps p) ks = (r, devs', ks')"
  shows "(r = 0 \<and> share_effect (\<lambda>n b. n + of_bool b) p d i m ps devs' ks' \<and>
            \<not> share_conflict m (share_act_mode p d m (current (ps p) d i) ks)) \<or>
         (r = -1 \<and> share_effect (\<lambda>n b. n) p d i m ps devs' ks')"
proof -
  let ?si = "current (ps p) d i"
  let ?sd = "case chain_find sd_dev d (ps p) of Some x \<Rightarrow> x | None \<Rightarrow> \<lparr>sd_dev = d, first_inode = []\<rparr>"
  note none = share_effect_none [where ps = ps and p = p, OF ok agree]
  have cnt: "fcnt f ?si = proc_counts ps (p, d, f, si_inode ?si)" for f
    by (simp add: proc_counts_def)
  consider (early) "r = -1" "devs' = ps p" "ks' = ks"
    | (refuse) "r = -1" "share_store p ?sd ?si (ps p) ks = (devs', ks')"
    | (grant) si' ks1 where "r = 0" "share_add p d m ?si ks = (si', ks1)"
        "share_store p ?sd si' (ps p) ks1 = (devs', ks')"
        "\<not> share_conflict m (share_act_mode p d m ?si ks)"
    using sf unfolding share_file_def Let_def current_eq by (auto split: if_splits prod.splits)
  then show ?thesis
  proof cases
    case early
    with none show ?thesis by simp
  next
    case refuse
    have "share_effect (\<lambda>n b. n) p d i m ps devs' ks'"
      by (rule share_store_effect [where ps = ps and p = p, OF ok _ refl _ _ refuse(2)])
        (simp_all add: bump_id agree)
    with refuse show ?thesis by simp
  next
    case grant
    note ag = share_add_agree [OF agree cnt grant(2)]
    have "share_effect (\<lambda>n b. n + of_bool b) p d i m ps devs' ks'"
      by (rule share_store_effect [where ps = ps and p = p, OF ok _ refl _ _ grant(3)])
        (use ag in simp_all)
    with grant show ?thesis by simp
  qed
qed

lemma share_file_test_effect:
  assumes ok: "chains_ok (ps p)" and agree: "locks_agree ks (proc_counts ps)"
    and sf: "share_file p d i m 2 files (ps p) ks = (r, devs', ks')"
  shows "share_effect (\<lambda>n b. n) p d i m ps devs' ks'"
proof -
  let ?si = "current (ps p) d i"
  let ?sd = "case chain_find sd_dev d (ps p) of Some x \<Rightarrow> x | None \<Rightarrow> \<lparr>sd_dev = d, first_inode = []\<rparr>"
  consider (early) "devs' = ps p" "ks' = ks"
    | (late) "share_store p ?sd ?si (ps p) ks = (devs', ks')"
    using sf unfolding share_file_def Let_def current_eq by (auto split: if_splits prod.splits)
  then show ?thesis
  proof cases
    case early
    with share_effect_none [where ps = ps and p = p, OF ok agree] show ?thesis by simp
  next
    case late
    show ?thesis
      by (rule share_store_effect [where ps = ps and p = p, OF ok _ refl _ _ late])
        (simp_all add: bump_id agree)
  qed
qed

lemma share_file_remove_effect:
  assumes ok: "chains_ok (ps p)" and agree: "locks_agree ks (proc_counts ps)"
    and sf: "share_file p d i m 0 files (ps p) ks = (r, devs', ks')"
  shows "share_effect (\<lambda>n b. n - of_bool b) p d i m ps devs' ks' \<or>
    (devs' = ps p \<and> ks' = ks \<and> (m = 0 \<or> inode_at (ps p) d i = None))"
proof -
  let ?si = "current (ps p) d i"
  let ?sd = "case chain_find sd_dev d (ps p) of Some x \<Rightarrow> x | None \<Rightarrow> \<lparr>sd_dev = d, first_inode = []\<rparr>"
  have cnt: "fcnt f ?si = proc_counts ps (p, d, f, si_inode ?si)" for f
    by (simp add: proc_counts_def)
  have ne: "first_inode sd \<noteq> []" if "chain_find sd_dev d (ps p) = Some sd" for sd
    using ok chain_find_key [OF that] by (auto simp: chains_ok_def)
  consider (early) "devs' = ps p" "ks' = ks" "m = 0 \<or> inode_at (ps p) d i = None"
    | (late) si' ks1 where "share_remove p d m ?si ks = (si', ks1)"
        "share_store p ?sd si' (ps p) ks1 = (devs', ks')"
    using sf ne unfolding share_file_def Let_def current_eq
    by (auto simp: inode_at_def split: if_splits prod.splits option.splits)
  then show ?thesis
  proof cases
    case early
    then show ?thesis by blast
  next
    case late
    note ag = share_remove_agree [OF agree cnt late(1)]
    have "share_effect (\<lambda>n b. n - of_bool b) p d i m ps devs' ks'"
      by (rule share_store_effect [where ps = ps and p = p, OF ok _ refl _ _ late(2)])
        (use ag in simp_all)
    then show ?thesis by blast
  qed
qed

lemma grant_count_Cons: "grant_count ((p, d, i, m) # gs) k =
   (if fst (snd (snd k)) \<noteq> F_fl then bump_counts (\<lambda>n b. n + of_bool b) p d i m (grant_count gs) k
    else grant_count gs k + of_bool (at_key k (p, d, i, m)))"
  by (cases k) (auto simp: grant_count_def bump_counts_def)

lemma grant_count_remove1:
  "(p, d, i, m) \<in> set gs \<Longrightarrow> fst (snd (snd k)) \<noteq> F_fl \<Longrightarrow> grant_count (remove1 (p, d, i, m) gs) k =
     bump_counts (\<lambda>n b. n - of_bool b) p d i m (grant_count gs) k"
  by (cases k) (auto simp: grant_count_def bump_counts_def length_filter_remove1)

lemma low_bits: "m AND 0xff = (0 :: u32) \<Longrightarrow> n < 8 \<Longrightarrow> \<not> bit m n"
proof -
  assume m: "m AND 0xff = (0 :: u32)" and n: "n < 8"
  have "(0xff :: u32) = mask 8" by (simp add: mask_eq_exp_minus_1)
  with m have "\<not> bit (m AND mask 8) n" by simp
  with n show ?thesis by (auto simp: bit_simps)
qed

lemma grant_count_pos: "0 < grant_count gs (p, d, f, i) \<longleftrightarrow> (\<exists>m. (p, d, i, m) \<in> set gs \<and> fbit f m)"
  by (force simp: grant_count_def filter_empty_conv simp flip: neq0_conv)

text \<open>The test branch sees every grant on the file, the caller's own and those of others.\<close>

lemma act_mode_sees_grants:
  assumes inv: "share_inv s" and m: "m AND 0xff \<noteq> 0" and f: "f \<noteq> F_fl"
    and g: "(q, d, i, n) \<in> set (grants s)" "fbit f n"
  shows "0 < fcnt f (current (procs s p) d i) \<or> fcntl_getlk (d, f, i) p (klocks s) \<noteq> None"
proof -
  have "0 < grant_count (grants s) (q, d, f, i)" using g grant_count_pos by blast
  then have q: "0 < proc_counts (procs s) (q, d, f, i)" using inv f by (simp add: share_inv_def)
  show ?thesis
  proof (cases "q = p")
    case True
    with q show ?thesis by (simp add: proc_counts_def)
  next
    case False
    have "holds (klocks s) (d, f, i) q" using q inv f by (auto simp: share_inv_def locks_agree_def)
    with False show ?thesis using getlk_iff by blast
  qed
qed

lemma no_conflict_compatible:
  assumes inv: "share_inv s"
    and nc: "\<not> share_conflict m (share_act_mode p d m (current (procs s p) d i) (klocks s))"
    and g: "(q, e, j, n) \<in> set (grants s)"
  shows "compatible (p, d, i, m) (q, e, j, n)"
proof (cases "d = e \<and> i = j \<and> m AND 0xff \<noteq> 0")
  case True
  then have de: "e = d" "j = i" and m: "m AND 0xff \<noteq> 0" by auto
  note sees = act_mode_sees_grants [OF inv m _ g [unfolded de], of _ p]
  have "\<not> modes_conflict m n"
    using nc m sees [of F_or] sees [of F_ow] sees [of F_dr] sees [of F_dw]
    by (auto simp: modes_conflict_def share_conflict_def share_act_mode_def Let_def)
  then show ?thesis by simp
next
  case False
  then show ?thesis using low_bits [of m] by (auto simp: modes_conflict_def)
qed

lemma share_inv_effect:
  assumes inv: "share_inv s" and eff: "share_effect g p d i m (procs s) devs' ks'"
    and gs: "sorted_wrt compatible gs'"
      "\<And>k. fst (snd (snd k)) \<noteq> F_fl \<Longrightarrow> grant_count gs' k = bump_counts g p d i m (grant_count (grants s)) k"
  shows "share_inv (s\<lparr>procs := (procs s)(p := devs'), klocks := ks', grants := gs'\<rparr>)"
proof -
  have "bump_counts g p d i m (proc_counts (procs s)) k = bump_counts g p d i m (grant_count (grants s)) k"
    if "fst (snd (snd k)) \<noteq> F_fl" for k
    using inv that by (cases k) (auto simp: share_inv_def bump_counts_def)
  then show ?thesis using inv eff gs by (auto simp: share_inv_def share_effect_def)
qed

lemma share_step_inv: "share_step s s' \<Longrightarrow> share_inv s \<Longrightarrow> share_inv s'"
proof (induction rule: share_step.induct)
  case (add p d i m ok s r devs' ks')
  then have c: "chains_ok (procs s p)" "locks_agree (klocks s) (proc_counts (procs s))"
    by (simp_all add: share_inv_def)
  from share_file_add_effect [where ps = "procs s" and p = p, OF c add(1)] consider
    (yes) "r = 0" "share_effect (\<lambda>n b. n + of_bool b) p d i m (procs s) devs' ks'"
      "\<not> share_conflict m (share_act_mode p d m (current (procs s p) d i) (klocks s))"
    | (no) "r = -1" "share_effect (\<lambda>n b. n) p d i m (procs s) devs' ks'" by blast
  then show ?case
  proof cases
    case yes
    have "sorted_wrt compatible ((p, d, i, m) # grants s)"
      using add.prems no_conflict_compatible [OF add.prems yes(3)] by (auto simp: share_inv_def)
    from share_inv_effect [OF add.prems yes(2) this] yes(1) show ?thesis
      by (simp add: grant_count_Cons)
  next
    case no
    from share_inv_effect [OF add.prems no(2), of "grants s"] no(1) add.prems show ?thesis
      by (simp add: bump_id share_inv_def)
  qed
next
  case (test p d i m ok s r devs' ks')
  then have c: "chains_ok (procs s p)" "locks_agree (klocks s) (proc_counts (procs s))"
    by (simp_all add: share_inv_def)
  note eff = share_file_test_effect [where ps = "procs s" and p = p, OF c test(1)]
  from share_inv_effect [OF test.prems eff, of "grants s"] test.prems show ?case
    by (simp add: bump_id share_inv_def)
next
  case (remove p d i m s ok r devs' ks')
  then have c: "chains_ok (procs s p)" "locks_agree (klocks s) (proc_counts (procs s))"
    and srt: "sorted_wrt compatible (remove1 (p, d, i, m) (grants s))"
    by (simp_all add: share_inv_def sorted_wrt_remove1)
  from share_file_remove_effect [where ps = "procs s" and p = p, OF c remove(2)] consider
    (eff) "share_effect (\<lambda>n b. n - of_bool b) p d i m (procs s) devs' ks'"
    | (none) "devs' = procs s p" "ks' = klocks s" "m = 0 \<or> inode_at (procs s p) d i = None" by metis
  then show ?case
  proof cases
    case eff
    from share_inv_effect [OF remove.prems eff srt] grant_count_remove1 [OF remove(1)] show ?thesis
      by simp
  next
    case none
    have "\<not> fbit f m" if "f \<noteq> F_fl" for f
    proof
      assume b: "fbit f m"
      then have "0 < grant_count (grants s) (p, d, f, i)" using remove(1) grant_count_pos by blast
      then have "0 < fcnt f (current (procs s p) d i)"
        using remove.prems that by (auto simp: share_inv_def proc_counts_def)
      with none(3) b show False by (cases f) (auto simp: current_def new_inode_def)
    qed
    then have "bump_counts (\<lambda>n b. n) p d i m (grant_count (grants s)) k =
        grant_count (remove1 (p, d, i, m) (grants s)) k" if "fst (snd (snd k)) \<noteq> F_fl" for k
      using that grant_count_remove1 [OF remove(1) that] by (cases k) (auto simp: bump_counts_def)
    from share_inv_effect [OF remove.prems _ srt, of "\<lambda>n b. n" p d i m devs' ks'] this
      share_effect_none [where ps = "procs s" and p = p, OF c] none show ?thesis by simp
  qed
next
  case (unlock p d i ok s r devs' ks')
  then have c: "chains_ok (procs s p)" "locks_agree (klocks s) (proc_counts (procs s))"
    by (simp_all add: share_inv_def)
  have z: "bump_counts (\<lambda>n b. n - of_bool b) p d i 0x300 cnt k = cnt k" for cnt k
    by (cases k; cases "fst (snd (snd k))") (auto simp: bump_counts_def)
  from share_file_remove_effect [where ps = "procs s" and p = p, OF c unlock(1)] show ?case
  proof
    assume eff: "share_effect (\<lambda>n b. n - of_bool b) p d i 0x300 (procs s) devs' ks'"
    from share_inv_effect [OF unlock.prems eff, of "grants s"] unlock.prems show ?thesis
      by (simp add: z share_inv_def)
  next
    assume "devs' = procs s p \<and> ks' = klocks s \<and> ((0x300::u32) = 0 \<or> inode_at (procs s p) d i = None)"
    then show ?thesis using unlock.prems by (simp add: share_inv_def)
  qed
qed

lemma share_reachable_inv: "share_reachable s \<Longrightarrow> share_inv s"
proof (induction rule: share_reachable.induct)
  case init
  have "fcnt f (new_inode i) = 0" for f i by (cases f) (simp_all add: new_inode_def)
  then show ?case
    by (auto simp: share_inv_def share_init_def chains_ok_def locks_agree_def readers_only_def
      proc_counts_def grant_count_def current_def inode_at_def holds_def)
next
  case (step s s')
  then show ?case by (blast intro: share_step_inv)
qed
section \<open>Properties\<close>

text \<open>A first open of a free file by process 1, for reading with deny write.\<close>

definition example_share :: share_sys where
  "example_share = \<lparr>
     procs = (\<lambda>_. [])(1 := [\<lparr>sd_dev = 8, first_inode =
       [\<lparr>si_inode = 77, si_or = 1, si_ow = 0, si_dr = 0, si_dw = 1, si_fl = 0, si_ex = 0,
         first_lock = []\<rparr>]\<rparr>]),
     klocks = [((8, F_dw, 77), 1, RDLCK), ((8, F_or, 77), 1, RDLCK)],
     grants = [(1, 8, 77, 9)]\<rparr>"

lemma share_file_fresh_add:
  "share_file 1 8 77 9 1 True [] [] = (0, procs example_share 1, klocks example_share)"
  by code_simp

lemma example_share_reachable: "share_reachable example_share"
proof -
  have "share_step share_init (share_init\<lparr>procs := (procs share_init)(1 := procs example_share 1),
      klocks := klocks example_share, grants := [(1, 8, 77, 9)]\<rparr>)"
    using share_step.add [of 1 8 77 9 True share_init 0 "procs example_share 1" "klocks example_share"]
      share_file_fresh_add by (simp add: share_init_def)
  then show ?thesis
    using share_reachable.step [OF share_reachable.init]
    by (simp add: share_init_def example_share_def)
qed

text \<open>C4. Share modes are enforced across all processes: in every reachable state, two opens
  of the same file that are both in force are compatible; whenever one of them denies reading
  (or writing), the other does not read (or write), whichever process each belongs to.\<close>

theorem share_modes_exclude:
  assumes "share_reachable s" and "i < j" and "j < length (grants s)"
  shows "compatible (grants s ! i) (grants s ! j)"
  using share_reachable_inv [OF assms(1)] assms(2,3)
  by (simp add: share_inv_def sorted_wrt_iff_nth_less)

text \<open>The second open must not fail for the witness: process 2 reads and denies nothing.\<close>

definition example_share2 :: share_sys where
  "example_share2 = example_share\<lparr>
     procs := (procs example_share)(2 := [\<lparr>sd_dev = 8, first_inode =
       [\<lparr>si_inode = 77, si_or = 1, si_ow = 0, si_dr = 0, si_dw = 0, si_fl = 0, si_ex = 0,
         first_lock = []\<rparr>]\<rparr>]),
     klocks := ((8, F_or, 77), 2, RDLCK) # klocks example_share,
     grants := (2, 8, 77, 1) # grants example_share\<rparr>"

lemma share_file_second_add:
  "share_file 2 8 77 1 1 True [] (klocks example_share) =
     (0, procs example_share2 2, klocks example_share2)"
  by code_simp

lemma example_share2_reachable: "share_reachable example_share2"
proof -
  have "procs example_share 2 = []" by (simp add: example_share_def)
  then have "share_step example_share (example_share\<lparr>procs := (procs example_share)(2 := procs example_share2 2),
      klocks := klocks example_share2, grants := (2, 8, 77, 1) # grants example_share\<rparr>)"
    using share_step.add [of 2 8 77 1 True example_share 0 "procs example_share2 2" "klocks example_share2"]
      share_file_second_add by simp
  then show ?thesis
    using share_reachable.step [OF example_share_reachable] by (simp add: example_share2_def)
qed

theorem share_modes_exclude_witness:
  "compatible (2, 8, 77, 1) (1, 8, 77, 9)"
proof -
  have g: "grants example_share2 = [(2, 8, 77, 1), (1, 8, 77, 9)]"
    by (simp add: example_share2_def example_share_def)
  show ?thesis using share_modes_exclude [OF example_share2_reachable, of 0 1] by (simp add: g)
qed

text \<open>C14. The private counters, the system's lock table and the opens in force agree in every
  reachable state, for every mode but that of the file locks (an unlock of a file counts down without a lock
  before it): the counter of a mode is the number of opens of this process with that mode
  bit, and the process has the byte of the mode's lock file locked exactly when it is positive.\<close>

theorem share_counters_exact:
  assumes "share_reachable s" and "f \<noteq> F_fl"
  shows "fcnt f (current (procs s p) d i) = grant_count (grants s) (p, d, f, i) \<and>
    holds (klocks s) (d, f, i) p = (0 < grant_count (grants s) (p, d, f, i))"
  using share_reachable_inv [OF assms(1)] assms(2)
  by (auto simp: share_inv_def locks_agree_def proc_counts_def)

theorem share_counters_exact_witness:
  "fcnt F_dw (current (procs example_share 1) 8 77) = grant_count (grants example_share) (1, 8, F_dw, 77) \<and>
    holds (klocks example_share) (8, F_dw, 77) 1 = (0 < grant_count (grants example_share) (1, 8, F_dw, 77))"
  by (rule share_counters_exact [OF example_share_reachable]) simp

text \<open>File locks are tested with the two kinds swapped: with a shared lock (mode 0x300) of
  process 1 in force, an exclusive lock (0x100) of process 2 on the same file is granted, and a
  second shared lock is refused.\<close>

theorem file_lock_kinds_swapped:
  "\<exists>devs1 ks1. share_file 1 d i 0x300 1 True [] [] = (0, devs1, ks1) \<and>
     fst (share_file 2 d i 0x100 1 True [] ks1) = 0 \<and>
     fst (share_file 2 d i 0x300 1 True [] ks1) = -1"
proof -
  have b: "bit (0x300 :: u32) 8" "bit (0x300 :: u32) 9" "bit (0x100 :: u32) 8" "\<not> bit (0x100 :: u32) 9"
    "\<not> bit (0x300 :: u32) 0" "\<not> bit (0x300 :: u32) 1" "\<not> bit (0x300 :: u32) 2" "\<not> bit (0x300 :: u32) 3"
    "\<not> bit (0x100 :: u32) 0" "\<not> bit (0x100 :: u32) 1" "\<not> bit (0x100 :: u32) 2" "\<not> bit (0x100 :: u32) 3"
    by code_simp+
  show ?thesis
    by (simp add: share_file_def share_conflict_def share_act_mode_def new_inode_def Let_def b
      share_add_def add_lock_def fcntl_setlk_def fcntl_unlck_def share_store_def inode_unused_def)
qed

end
