(* ===== verification/Nwlock.thy ===== *)
theory Nwlock
  imports Nwshare
begin

unbundle bit_operations_syntax

text \<open>
  Byte-range locks, lock sets and logical records: \<^verbatim>\<open>share_lock\<close>, \<^verbatim>\<open>share_unlock_all\<close>, the
  \<^verbatim>\<open>SHARESET\<close> functions of \<^verbatim>\<open>src/nwshare.c\<close> and \<^verbatim>\<open>nw_log_logical_record\<close> of \<^verbatim>\<open>src/nwfile.c\<close>.
  The outcome of an \<^verbatim>\<open>fcntl\<close> call on the data file or on a logical lock file depends on other
  processes and is an argument of the operation.
\<close>

section \<open>Byte-range locks\<close>

text \<open>The condition with which \<^verbatim>\<open>share_lock\<close> searches the chain.\<close>

definition lock_match :: "int \<Rightarrow> int \<Rightarrow> int \<Rightarrow> ShareLock \<Rightarrow> bool" where
  "lock_match action start len x \<longleftrightarrow>
     l_start x - start < len \<or>
     (len = 0 \<and> (if action \<noteq> 0 then l_start x \<le> start else l_start x = start))"

text \<open>The outcome of \<^verbatim>\<open>fcntl\<close>: whether the call succeeds, and for \<^verbatim>\<open>F_GETLK\<close> whether the
  range is reported free.\<close>

record fcntl_outcome =
  call_ok :: bool
  range_free :: bool

text \<open>The body of \<^verbatim>\<open>share_lock\<close> on the chain of one inode.\<close>

definition lock_chain ::
  "int \<Rightarrow> int \<Rightarrow> int \<Rightarrow> int \<Rightarrow> int \<Rightarrow> int \<Rightarrow> fcntl_outcome \<Rightarrow> ShareLock list \<Rightarrow>
     int \<times> ShareLock list" where
  "lock_chain fd action lock_flag start len timeout os ls =
     (let before = takeWhile (\<lambda>x. \<not> lock_match action start len x) ls;
          after = dropWhile (\<lambda>x. \<not> lock_match action start len x) ls
      in if action = 0 then
           (case after of
              [] \<Rightarrow> (-0xff, ls)
            | sl # rest \<Rightarrow>
                if l_fd sl = fd \<and> l_start sl = start \<and> (l_len sl = len \<or> len = 0)
                then (0, before @ rest) else (-0xff, ls))
         else if (case after of
                    [] \<Rightarrow> False
                  | sl # _ \<Rightarrow> (start - l_start sl < l_len sl \<or> l_len sl = 0) \<and>
                              (l_exclusive sl \<or> lock_flag = 1))
         then (-0xfd, ls)
         else if \<not> call_ok os then (if timeout = 0 then -0xff else -0xfe, ls)
         else if action = 1 then
           (0, before @ \<lparr>l_start = start, l_len = len, l_fd = fd, l_exclusive = (lock_flag = 1)\<rparr> # after)
         else (if range_free os then 0 else -1, ls))"

definition lock_start :: "u32 \<Rightarrow> int" where "lock_start w = int (unat (w AND 0x7fffffff))"
definition lock_len :: "u32 \<Rightarrow> int" where "lock_len w = (if w = 0xffffffff then 0 else sint w)"

text \<open>Overwriting the lock chain of an inode that \<^verbatim>\<open>_get_inode\<close> found.\<close>

definition set_locks :: "int \<Rightarrow> int \<Rightarrow> ShareLock list \<Rightarrow> ShareDev list \<Rightarrow> ShareDev list" where
  "set_locks dev inode ls devs =
     (case chain_find sd_dev dev devs of
        None \<Rightarrow> devs
      | Some sd \<Rightarrow>
          (case chain_find si_inode inode (first_inode sd) of
             None \<Rightarrow> devs
           | Some si \<Rightarrow>
               chain_put sd_dev
                 (sd\<lparr>first_inode := chain_put si_inode (si\<lparr>first_lock := ls\<rparr>) (first_inode sd)\<rparr>) devs))"

definition share_lock ::
  "int \<Rightarrow> int \<Rightarrow> int \<Rightarrow> int \<Rightarrow> int \<Rightarrow> u32 \<Rightarrow> u32 \<Rightarrow> int \<Rightarrow> fcntl_outcome \<Rightarrow> ShareDev list \<Rightarrow>
     int \<times> ShareDev list" where
  "share_lock dev inode fd action lock_flag start len timeout os devs =
     (case inode_at devs dev inode of
        None \<Rightarrow> (-1, devs)
      | Some si \<Rightarrow>
          let (result, ls) = lock_chain fd action lock_flag (lock_start start) (lock_len len)
                               timeout os (first_lock si)
          in (result, set_locks dev inode ls devs))"

definition share_unlock_all :: "int \<Rightarrow> int \<Rightarrow> int \<Rightarrow> ShareDev list \<Rightarrow> int \<times> ShareDev list" where
  "share_unlock_all dev inode fd devs =
     (case inode_at devs dev inode of
        None \<Rightarrow> (-1, devs)
      | Some si \<Rightarrow> (0, set_locks dev inode (filter (\<lambda>l. l_fd l \<noteq> fd) (first_lock si)) devs))"

section \<open>Lock sets and logical records\<close>

record SHARESET =
  ss_type :: u32
  ss_lock_flag :: int
  ss_locked :: bool
  ss_dev :: int
  ss_inode :: int
  ss_data :: "u8 list"

record LOCK_AREA =
  la_offset :: u32
  la_locks :: int
  la_exclusive :: bool

record LOCK_FILE =
  lf_fn :: "u8 list"
  lock_area :: "LOCK_AREA list"

text \<open>The sharing state of one process: device chains, lock sets, logical lock files; and the
  system's advisory locks.\<close>

record lock_state =
  st_devs :: "ShareDev list"
  st_klocks :: "klock list"
  first_set :: "SHARESET list"
  root_lf :: "LOCK_FILE list"

text \<open>\<^verbatim>\<open>xcmalloc\<close> zeroes the new entry and neither function assigns its \<^verbatim>\<open>type\<close>.  With flag
  \<open>-2\<close> the loop unlinks every entry, whether it is freed or not.\<close>

definition share_set_file_add_rm :: "int \<Rightarrow> int \<Rightarrow> int \<Rightarrow> lock_state \<Rightarrow> int \<times> lock_state" where
  "share_set_file_add_rm lock_flag dev inode s =
     (if lock_flag > -1 then
        (0, s\<lparr>first_set := \<lparr>ss_type = 0, ss_lock_flag = lock_flag, ss_locked = False, ss_dev = dev,
               ss_inode = inode, ss_data = []\<rparr> # first_set s\<rparr>)
      else if lock_flag = -2 then (0, s\<lparr>first_set := []\<rparr>)
      else (0, s))"

definition share_set_logrec_add_rm :: "int \<Rightarrow> u8 list \<Rightarrow> lock_state \<Rightarrow> int \<times> lock_state" where
  "share_set_logrec_add_rm lock_flag data s =
     (if lock_flag > -1 then
        (0, s\<lparr>first_set := \<lparr>ss_type = 0, ss_lock_flag = lock_flag, ss_locked = False, ss_dev = 0,
               ss_inode = 0, ss_data = data\<rparr> # first_set s\<rparr>)
      else if lock_flag = -2 then (0, s\<lparr>first_set := []\<rparr>)
      else (0, s))"

text \<open>The file name of a logical record.  The bound \<^verbatim>\<open>sizeof(fn-1)\<close> in the source is the size of
  a pointer, eight bytes; the loop runs over the bytes it appends as well.\<close>

function escape_name :: "nat \<Rightarrow> u8 list \<Rightarrow> u8 list" where
  "escape_name i fn =
     (if i < length fn
      then if fn ! i = 47
           then escape_name (i + 1) (fn[i := 45] @ (if length fn < 8 then [95] else []))
           else if fn ! i = 0
           then escape_name (i + 1) (fn[i := 95] @ (if length fn < 8 then [95] else []))
           else escape_name (i + 1) fn
      else fn)"
  by pat_completeness auto
termination
  by (relation "measure (\<lambda>(i, fn). max (length fn) 8 - i)") auto

declare escape_name.simps [simp del]

text \<open>\<open>''GENERIC_LOCKFILE''\<close> as bytes.\<close>

definition generic_lockfile :: "u8 list" where
  "generic_lockfile = [71, 69, 78, 69, 82, 73, 67, 95, 76, 79, 67, 75, 70, 73, 76, 69]"

definition record_offset :: "u8 list \<Rightarrow> u32" where
  "record_offset data =
     (if length data < 4 then get_be32 (data @ replicate (4 - length data) 0) else get_be32 data)"

definition record_name :: "u8 list \<Rightarrow> u8 list" where
  "record_name data =
     (let rest = drop 4 data
      in if rest = [] then generic_lockfile
         else escape_name 0 (if 256 < length rest then take 8 rest else rest))"

text \<open>\<open>grantable\<close> tells whether \<^verbatim>\<open>fcntl\<close> gives this process the byte of a lock file.\<close>

definition nw_log_logical_record ::
  "(u8 list \<Rightarrow> u32 \<Rightarrow> bool) \<Rightarrow> int \<Rightarrow> u8 list \<Rightarrow> lock_state \<Rightarrow> int \<times> lock_state" where
  "nw_log_logical_record grantable lock_flag data s0 =
     (let s = (if lock_flag \<noteq> -1 then snd (share_set_logrec_add_rm lock_flag data s0) else s0);
          fn = record_name data; offset = record_offset data;
          old_lf = chain_find lf_fn fn (root_lf s);
          lf = (case old_lf of Some f \<Rightarrow> f | None \<Rightarrow> \<lparr>lf_fn = fn, lock_area = []\<rparr>)
      in if lock_flag = 0 then (0, s)
         else if lock_flag \<notin> {-1, -2, 1, 3} then (-0xfb, s)
         else if old_lf = None \<and> lock_flag < 0 then (-0xff, s)
         else if old_lf = None \<and> \<not> grantable fn offset then (-0xfe, s)
         else
           (case chain_find la_offset offset (lock_area lf) of
              None \<Rightarrow>
                if lock_flag < 0 then (-0xff, s)
                else if \<not> grantable fn offset then (-0xfe, s\<lparr>root_lf := chain_put lf_fn lf (root_lf s)\<rparr>)
                else (0, s\<lparr>root_lf := chain_put lf_fn
                       (lf\<lparr>lock_area := chain_put la_offset
                             \<lparr>la_offset = offset, la_locks = 1, la_exclusive = (lock_flag = 1)\<rparr>
                             (lock_area lf)\<rparr>) (root_lf s)\<rparr>)
            | Some la \<Rightarrow>
                if lock_flag > -1 then
                  if la_exclusive la \<or> lock_flag = 1 then (-0xfe, s)
                  else (0, s\<lparr>root_lf := chain_put lf_fn
                         (lf\<lparr>lock_area := chain_put la_offset
                               (la\<lparr>la_locks := la_locks la + 1\<rparr>) (lock_area lf)\<rparr>) (root_lf s)\<rparr>)
                else if la_locks la - 1 > 0
                then (0, s\<lparr>root_lf := chain_put lf_fn
                       (lf\<lparr>lock_area := chain_put la_offset
                             (la\<lparr>la_locks := la_locks la - 1\<rparr>) (lock_area lf)\<rparr>) (root_lf s)\<rparr>)
                else
                  let areas = chain_del la_offset offset (lock_area lf)
                  in (0, s\<lparr>root_lf := (if areas = [] then chain_del lf_fn fn (root_lf s)
                                     else chain_put lf_fn (lf\<lparr>lock_area := areas\<rparr>) (root_lf s))\<rparr>)))"

definition lock_unlock_pset ::
  "nat \<Rightarrow> (int \<Rightarrow> bool) \<Rightarrow> (u8 list \<Rightarrow> u32 \<Rightarrow> bool) \<Rightarrow> SHARESET \<Rightarrow> int \<Rightarrow> lock_state \<Rightarrow>
     int \<times> lock_state" where
  "lock_unlock_pset pid files_ok grantable ps lock_flag s =
     (let flag = (if lock_flag \<noteq> 0 then lock_flag
                  else if ss_lock_flag ps \<noteq> 0 then ss_lock_flag ps else 1)
      in if ss_type ps = 1 then
           let (result, devs, ks) =
                 (if lock_flag > -1
                  then share_file pid (ss_dev ps) (ss_inode ps) (of_int flag) 1 (files_ok (ss_dev ps))
                         (st_devs s) (st_klocks s)
                  else share_file pid (ss_dev ps) (ss_inode ps) 0x300 0 (files_ok (ss_dev ps))
                         (st_devs s) (st_klocks s))
           in (result, s\<lparr>st_devs := devs, st_klocks := ks\<rparr>)
         else if ss_type ps = 2 then
           nw_log_logical_record grantable (if lock_flag > -1 then flag else -1) (ss_data ps) s
         else (-1, s))"

text \<open>\<^verbatim>\<open>share_handle_lock_sets\<close>: the loop unlinks each entry from \<^verbatim>\<open>first_set\<close> before it looks
  at it, and never links it back; the recursive call
  after a failure goes on with what is left.  The iterations are counted down.\<close>

fun handle_lock_sets ::
  "nat \<Rightarrow> (int \<Rightarrow> bool) \<Rightarrow> (u8 list \<Rightarrow> u32 \<Rightarrow> bool) \<Rightarrow> u32 \<Rightarrow> int \<Rightarrow> nat \<Rightarrow> lock_state \<Rightarrow>
     int \<times> lock_state" where
  "handle_lock_sets pid files_ok grantable type lock_flag 0 s = (0, s)"
| "handle_lock_sets pid files_ok grantable type lock_flag (Suc n) s =
     (case first_set s of
        [] \<Rightarrow> (0, s)
      | ps # rest \<Rightarrow>
          let s1 = s\<lparr>first_set := rest\<rparr>
          in if type AND ss_type ps \<noteq> 0 then
               if ss_locked ps \<and> lock_flag < 0 then
                 let s2 = snd (lock_unlock_pset pid files_ok grantable ps (-1) s1)
                 in handle_lock_sets pid files_ok grantable type lock_flag n s2
               else if \<not> ss_locked ps \<and> lock_flag > -1 then
                 let (r, s2) = lock_unlock_pset pid files_ok grantable ps lock_flag s1
                 in if r \<noteq> 0
                    then (-1, snd (handle_lock_sets pid files_ok grantable type (-1) n s2))
                    else handle_lock_sets pid files_ok grantable type lock_flag n s2
               else handle_lock_sets pid files_ok grantable type lock_flag n s1
             else handle_lock_sets pid files_ok grantable type lock_flag n s1)"

text \<open>A logical record that is locked on the way puts one entry of its own into the set, so
  twice the length of the set bounds the iterations (\<open>handle_lock_sets_empties\<close>).\<close>

definition share_handle_lock_sets ::
  "nat \<Rightarrow> (int \<Rightarrow> bool) \<Rightarrow> (u8 list \<Rightarrow> u32 \<Rightarrow> bool) \<Rightarrow> u32 \<Rightarrow> int \<Rightarrow> lock_state \<Rightarrow>
     int \<times> lock_state" where
  "share_handle_lock_sets pid files_ok grantable type lock_flag s =
     handle_lock_sets pid files_ok grantable type lock_flag (2 * length (first_set s)) s"

section \<open>Exclusive range locks\<close>

definition covers :: "ShareLock \<Rightarrow> int \<Rightarrow> bool" where
  "covers l x \<longleftrightarrow> l_start l \<le> x \<and> (l_len l = 0 \<or> x < l_start l + l_len l)"

definition below :: "ShareLock \<Rightarrow> ShareLock \<Rightarrow> bool" where
  "below b a \<longleftrightarrow> 0 < l_len b \<and> l_start b + l_len b \<le> l_start a"

text \<open>The chain of exclusive locks is ordered from the end of the file downwards, without
  overlaps; only its first element may reach to the end of the file.\<close>

definition excl_chain :: "ShareLock list \<Rightarrow> bool" where
  "excl_chain ls \<longleftrightarrow> (\<forall>l \<in> set ls. l_exclusive l \<and> 0 \<le> l_len l) \<and> sorted_wrt (\<lambda>a b. below b a) ls"

lemma takeWhile_dropWhile_split:
  obtains pre post where "ls = pre @ post" "takeWhile P ls = pre" "dropWhile P ls = post"
    "\<forall>x \<in> set pre. P x" "post \<noteq> [] \<longrightarrow> \<not> P (hd post)"
  by (metis hd_dropWhile set_takeWhileD takeWhile_dropWhile_id)

lemma excl_chain_below:
  assumes "excl_chain (pre @ sl # rest)"
  shows "\<forall>b \<in> set rest. below b sl" and "\<forall>a \<in> set pre. \<forall>b \<in> set (sl # rest). below b a"
  using assms by (auto simp: excl_chain_def sorted_wrt_append)

lemma lock_chain_excl:
  assumes chain: "excl_chain ls" and len: "0 < len"
  shows "fst (lock_chain fd 1 1 start len timeout os ls) = -0xfd \<longleftrightarrow>
      (\<exists>l \<in> set ls. \<exists>x. start \<le> x \<and> x < start + len \<and> covers l x)" (is "?A \<longleftrightarrow> ?B")
    and "excl_chain (snd (lock_chain fd 1 1 start len timeout os ls))"
proof -
  let ?P = "\<lambda>x. \<not> lock_match 1 start len x"
  obtain pre post where ls: "ls = pre @ post" and tw: "takeWhile ?P ls = pre" "dropWhile ?P ls = post"
    and pre: "\<forall>x \<in> set pre. ?P x" and post: "post \<noteq> [] \<longrightarrow> \<not> ?P (hd post)"
    by (rule takeWhile_dropWhile_split)
  have m: "lock_match 1 start len x \<longleftrightarrow> l_start x < start + len" for x
    using len by (auto simp: lock_match_def)
  have above: "\<forall>x \<in> set pre. start + len \<le> l_start x" using pre m by auto
  let ?new = "\<lparr>l_start = start, l_len = len, l_fd = fd, l_exclusive = True\<rparr>"
  show "?A \<longleftrightarrow> ?B"
  proof (cases post)
    case Nil
    then have "\<not> ?B" using above ls by (force simp: covers_def)
    then show ?thesis unfolding lock_chain_def Let_def tw using Nil by simp
  next
    case (Cons sl rest)
    have sl: "l_start sl < start + len" "0 \<le> l_len sl" "l_exclusive sl"
      using post Cons m chain ls by (auto simp: excl_chain_def)
    have rest: "l_start b + l_len b \<le> l_start sl" "0 < l_len b" if "b \<in> set rest" for b
      using excl_chain_below(1) [of pre sl rest] chain ls Cons that by (auto simp: below_def)
    show ?thesis
    proof (cases "start - l_start sl < l_len sl \<or> l_len sl = 0")
      case True
      then have "covers sl (max start (l_start sl))" "max start (l_start sl) < start + len"
        using sl len by (auto simp: covers_def)
      then have ?B using ls Cons by (intro bexI [of _ sl] exI [of _ "max start (l_start sl)"]) auto
      then show ?thesis unfolding lock_chain_def Let_def tw using True sl Cons by simp
    next
      case False
      have "\<not> ?B"
      proof
        assume ?B
        then obtain l x where l: "l \<in> set ls" "start \<le> x" "x < start + len" "covers l x" by blast
        consider "l \<in> set pre" | "l = sl" | "l \<in> set rest" using l(1) ls Cons by auto
        then show False
        proof cases
          case 1
          then have "start + len \<le> l_start l" using above by blast
          then show False using l by (simp add: covers_def)
        next
          case 2
          then show False using l False by (auto simp: covers_def)
        next
          case 3
          then show False using l(2,4) False rest [OF 3] sl by (simp add: covers_def)
        qed
      qed
      then show ?thesis unfolding lock_chain_def Let_def tw using False Cons by simp
    qed
  qed
  show "excl_chain (snd (lock_chain fd 1 1 start len timeout os ls))"
  proof (cases "?A \<or> \<not> call_ok os")
    case True
    then show ?thesis unfolding lock_chain_def Let_def tw using chain
      by (auto split: list.splits if_splits)
  next
    case False
    have fit: "below l ?new" if "l \<in> set post" for l
    proof (cases post)
      case (Cons sl rest)
      have "\<not> (start - l_start sl < l_len sl \<or> l_len sl = 0)"
        using False unfolding lock_chain_def Let_def tw by (auto simp: Cons)
      moreover have "l = sl \<or> l_start l + l_len l \<le> l_start sl \<and> 0 < l_len l"
        using excl_chain_below(1) [of pre sl rest] chain ls Cons that by (auto simp: below_def)
      ultimately show ?thesis using chain ls Cons by (auto simp: below_def excl_chain_def)
    qed (use that in simp)
    have "snd (lock_chain fd 1 1 start len timeout os ls) = pre @ ?new # post"
      using False unfolding lock_chain_def Let_def tw by (auto split: list.splits if_splits)
    moreover have "excl_chain (pre @ ?new # post)"
      using chain ls above fit len by (auto simp: excl_chain_def sorted_wrt_append below_def)
    ultimately show ?thesis by simp
  qed
qed

lemma excl_chain_sub: "excl_chain (pre @ sl # rest) \<Longrightarrow> excl_chain (pre @ rest)"
  by (auto simp: excl_chain_def sorted_wrt_append)

lemma unlock_excl:
  assumes "excl_chain ls"
  shows "excl_chain (snd (lock_chain fd 0 flag start len timeout os ls))"
proof -
  let ?P = "\<lambda>x. \<not> lock_match 0 start len x"
  obtain pre post where ls: "ls = pre @ post" and tw: "takeWhile ?P ls = pre" "dropWhile ?P ls = post"
    by (rule takeWhile_dropWhile_split)
  show ?thesis unfolding lock_chain_def Let_def tw
    using assms excl_chain_sub ls by (cases post) auto
qed

lemma excl_chain_filter: "excl_chain ls \<Longrightarrow> excl_chain (filter P ls)"
  by (auto simp: excl_chain_def sorted_wrt_filter)

lemma excl_disjoint:
  assumes "excl_chain ls" and "i < j" and "j < length ls"
  shows "\<not> (covers (ls ! i) x \<and> covers (ls ! j) x)"
proof -
  have "below (ls ! j) (ls ! i)"
    using assms by (auto simp: excl_chain_def sorted_wrt_iff_nth_less)
  then show ?thesis by (auto simp: below_def covers_def)
qed

inductive excl_reach :: "ShareLock list \<Rightarrow> bool" where
  empty: "excl_reach []"
| lock: "excl_reach ls \<Longrightarrow> 0 < len \<Longrightarrow>
    excl_reach (snd (lock_chain fd 1 1 start len timeout os ls))"
| unlock: "excl_reach ls \<Longrightarrow> excl_reach (snd (lock_chain fd 0 flag start len timeout os ls))"
| unlock_all: "excl_reach ls \<Longrightarrow> excl_reach (filter (\<lambda>l. l_fd l \<noteq> fd) ls)"

lemma excl_reach_chain: "excl_reach ls \<Longrightarrow> excl_chain ls"
proof (induction rule: excl_reach.induct)
  case empty
  show ?case by (simp add: excl_chain_def)
qed (auto intro: lock_chain_excl(2) unlock_excl excl_chain_filter)

section \<open>Names of logical records\<close>

lemma escape_name_clean:
  "\<forall>k < i. k < length fn \<longrightarrow> fn ! k \<noteq> 47 \<and> fn ! k \<noteq> 0 \<Longrightarrow>
     (\<forall>b \<in> set (escape_name i fn). b \<noteq> 47 \<and> b \<noteq> 0) \<and> length fn \<le> length (escape_name i fn)
       \<and> length (escape_name i fn) \<le> max (length fn) 8"
proof (induction i fn rule: escape_name.induct)
  case (1 i fn)
  show ?case
  proof (cases "i < length fn")
    case False
    with "1.prems" show ?thesis by (auto simp: escape_name.simps [of i fn] in_set_conv_nth)
  next
    case True
    let ?t = "if length fn < 8 then [95] else [] :: u8 list"
    have step: "\<forall>k < i + 1. k < length (fn[i := c] @ ?t) \<longrightarrow> (fn[i := c] @ ?t) ! k \<noteq> 47 \<and> (fn[i := c] @ ?t) ! k \<noteq> 0"
      if "c \<noteq> 47" "c \<noteq> 0" for c
      using "1.prems" True that by (auto simp: nth_append nth_list_update less_Suc_eq)
    consider "fn ! i = 47" | "fn ! i \<noteq> 47" "fn ! i = 0" | "fn ! i \<noteq> 47" "fn ! i \<noteq> 0" by blast
    then show ?thesis
    proof cases
      case 1
      with "1.IH"(1) [OF True 1 step] True show ?thesis
        by (auto simp: escape_name.simps [of i fn])
    next
      case 2
      with "1.IH"(2) [OF True 2 step] True show ?thesis
        by (auto simp: escape_name.simps [of i fn])
    next
      case 3
      with "1.IH"(3) [OF True 3] "1.prems" True show ?thesis
        by (auto simp: escape_name.simps [of i fn] less_Suc_eq)
    qed
  qed
qed

section \<open>Lock sets\<close>

definition set_weight :: "SHARESET list \<Rightarrow> nat" where
  "set_weight ps = sum_list (map (\<lambda>p. if ss_type p = 2 then 2 else 1) ps)"

lemma log_record_weight:
  "set_weight (first_set (snd (nw_log_logical_record g lf data s))) \<le> Suc (set_weight (first_set s))"
  by (auto simp: nw_log_logical_record_def Let_def share_set_logrec_add_rm_def set_weight_def
    split: option.splits)

lemma log_record_weight_release:
  "set_weight (first_set (snd (nw_log_logical_record g (-1) data s))) = set_weight (first_set s)"
  by (auto simp: nw_log_logical_record_def Let_def split: option.splits)

lemma pset_weight:
  "set_weight (first_set (snd (lock_unlock_pset p f g ps lf (s\<lparr>first_set := rest\<rparr>))))
     < set_weight (ps # rest)"
  using log_record_weight [of g _ "ss_data ps" "s\<lparr>first_set := rest\<rparr>"]
  by (auto simp: lock_unlock_pset_def Let_def set_weight_def less_Suc_eq_le split: prod.splits)

lemma handle_lock_sets_empties:
  "set_weight (first_set s) \<le> n \<Longrightarrow> first_set (snd (handle_lock_sets p f g type lf n s)) = []"
proof (induction n arbitrary: s lf)
  case 0
  then show ?case by (cases "first_set s") (auto simp: set_weight_def split: if_splits)
next
  case (Suc n)
  show ?case
  proof (cases "first_set s")
    case (Cons ps rest)
    have w: "set_weight (first_set (snd (lock_unlock_pset p f g ps l (s\<lparr>first_set := rest\<rparr>)))) \<le> n" for l
      using pset_weight [of p f g ps l rest s] Suc.prems Cons by simp
    have r: "set_weight rest \<le> n" using Suc.prems Cons by (simp add: set_weight_def split: if_splits)
    show ?thesis using Cons Suc.IH w r by (auto simp: Let_def split: prod.splits) (metis snd_conv)+
  qed simp
qed

lemma set_weight_le: "set_weight ps \<le> 2 * length ps"
  by (induction ps) (auto simp: set_weight_def)

lemma untyped_sets_ignored:
  assumes "\<forall>ps \<in> set (first_set s). ss_type ps = 0" and "length (first_set s) \<le> n"
  shows "handle_lock_sets p f g type lf n s = (0, s\<lparr>first_set := []\<rparr>)"
  using assms
proof (induction n arbitrary: s)
  case (Suc n)
  show ?case
  proof (cases "first_set s")
    case (Cons ps rest)
    with Suc.prems Suc.IH [of "s\<lparr>first_set := rest\<rparr>"] show ?thesis by simp
  qed simp
qed simp
section \<open>Properties\<close>

text \<open>C15. As long as all range locks of a file are exclusive and of positive length (shared locks and locks to the end
  of the file make the code overlook others), the chain that
  \<^verbatim>\<open>share_lock\<close> keeps never holds two locks on the same byte: after any sequence of such
  requests (granted or refused), unlocks and closes, no byte is covered twice.\<close>

theorem exclusive_locks_disjoint:
  assumes "excl_reach ls" and "i < j" and "j < length ls"
  shows "\<not> (covers (ls ! i) x \<and> covers (ls ! j) x)"
  using excl_disjoint [OF excl_reach_chain [OF assms(1)] assms(2,3)] .

definition free_os :: fcntl_outcome where
  "free_os = \<lparr>call_ok = True, range_free = True\<rparr>"

definition two_locks :: "ShareLock list" where
  "two_locks = [\<lparr>l_start = 20, l_len = 5, l_fd = 4, l_exclusive = True\<rparr>,
                \<lparr>l_start = 0, l_len = 10, l_fd = 3, l_exclusive = True\<rparr>]"

lemma two_locks_reach: "excl_reach two_locks"
proof -
  have "excl_reach (snd (lock_chain 4 1 1 20 5 0 free_os (snd (lock_chain 3 1 1 0 10 0 free_os []))))"
    by (intro excl_reach.lock excl_reach.empty) simp_all
  also have "snd (lock_chain 4 1 1 20 5 0 free_os (snd (lock_chain 3 1 1 0 10 0 free_os []))) = two_locks"
    by code_simp
  finally show ?thesis .
qed

theorem exclusive_locks_disjoint_witness:
  "\<not> (covers (two_locks ! 0) 20 \<and> covers (two_locks ! 1) 20)"
  by (rule exclusive_locks_disjoint [OF two_locks_reach]) (simp_all add: two_locks_def)

text \<open>For such chains the search of \<^verbatim>\<open>share_lock\<close>, which looks at one lock only, is exact:
  it reports a collision (\<open>-0xfd\<close>) if and only if some lock of the chain covers a byte of the
  requested range.\<close>

theorem exclusive_collision_exact:
  assumes "excl_reach ls" and "0 < len"
  shows "fst (lock_chain fd 1 1 start len timeout os ls) = -0xfd \<longleftrightarrow>
    (\<exists>l \<in> set ls. \<exists>x. start \<le> x \<and> x < start + len \<and> covers l x)"
  by (rule lock_chain_excl(1) [OF excl_reach_chain [OF assms(1)] assms(2)])

theorem exclusive_collision_exact_witness:
  "fst (lock_chain 5 1 1 9 4 0 free_os two_locks) = -0xfd \<longleftrightarrow>
    (\<exists>l \<in> set two_locks. \<exists>x. 9 \<le> x \<and> x < 9 + 4 \<and> covers l x)"
  by (rule exclusive_collision_exact [OF two_locks_reach]) simp

text \<open>With shared locks the search is not enough: after the shared locks on bytes 0..99 and
  50..59, an exclusive lock on bytes 70..74 is granted to another handle of the same process
  although the first shared lock covers it.\<close>

theorem shared_lock_overlooked:
  "let ls = snd (lock_chain 4 1 3 50 10 0 free_os (snd (lock_chain 3 1 3 0 100 0 free_os [])))
   in fst (lock_chain 5 1 1 70 5 0 free_os ls) = 0 \<and> (\<exists>l \<in> set ls. l_fd l = 3 \<and> covers l 72)"
proof -
  have "snd (lock_chain 4 1 3 50 10 0 free_os (snd (lock_chain 3 1 3 0 100 0 free_os []))) =
    [\<lparr>l_start = 50, l_len = 10, l_fd = 4, l_exclusive = False\<rparr>,
     \<lparr>l_start = 0, l_len = 100, l_fd = 3, l_exclusive = False\<rparr>]" (is "_ = ?ls")
    by code_simp
  moreover have "fst (lock_chain 5 1 1 70 5 0 free_os ?ls) = 0" by code_simp
  ultimately show ?thesis by (simp add: covers_def)
qed

text \<open>A lock to the end of the file (length \<^verbatim>\<open>0xffffffff\<close>) overlooks locks that start
  behind it: with bytes 100..109 locked exclusively, an exclusive lock from byte 0 to the end of
  the file is granted to another handle of the process.\<close>

theorem lock_to_eof_overlooks:
  "fst (lock_chain 4 1 1 (lock_start 0) (lock_len 0xffffffff) 0 free_os
     (snd (lock_chain 3 1 1 100 10 0 free_os []))) = 0"
  by code_simp

text \<open>The lock file of a logical record stays in the lock directory whatever bytes the
  client sends: its name has no slash and no NUL byte, and the loop that builds it stops.\<close>

theorem record_name_clean:
  "b \<in> set (record_name data) \<Longrightarrow> b \<noteq> 47 \<and> b \<noteq> 0"
proof -
  assume b: "b \<in> set (record_name data)"
  show ?thesis
  proof (cases "drop 4 data = []")
    case True
    then have "b \<in> set generic_lockfile" using b by (simp add: record_name_def)
    then show ?thesis by (simp add: generic_lockfile_def) fastforce
  next
    case False
    with b show ?thesis using escape_name_clean [of 0] by (simp add: record_name_def Let_def)
  qed
qed

theorem record_name_clean_witness: "(45 :: u8) \<noteq> 47 \<and> (45 :: u8) \<noteq> 0"
proof -
  have "record_name [0, 0, 0, 1, 46, 46, 47, 97] = [46, 46, 45, 97, 95]"
    by code_simp
  then have "(45 :: u8) \<in> set (record_name [0, 0, 0, 1, 46, 46, 47, 97])" by simp
  then show ?thesis by (rule record_name_clean)
qed

lemma chain_del_put_absent:
  "chain_find key (key y) xs = None \<Longrightarrow> chain_del key (key y) (chain_put key y xs) = xs"
  by (induction xs) (auto split: if_splits)

text \<open>Logical records are locked exclusively and released completely: on a record whose lock
  file this process does not use, an exclusive lock that the system grants succeeds, any further
  lock of the record is refused with \<open>-0xfe\<close>, and the release restores the lock files.\<close>

theorem logical_record_exclusive:
  assumes "chain_find lf_fn (record_name data) (root_lf s) = None"
    and "g (record_name data) (record_offset data)" and "flag = 1 \<or> flag = 3"
  shows "fst (nw_log_logical_record g 1 data s) = 0 \<and>
    fst (nw_log_logical_record g' flag data (snd (nw_log_logical_record g 1 data s))) = -0xfe \<and>
    fst (nw_log_logical_record g' (-1) data (snd (nw_log_logical_record g 1 data s))) = 0 \<and>
    root_lf (snd (nw_log_logical_record g' (-1) data (snd (nw_log_logical_record g 1 data s)))) = root_lf s"
proof -
  let ?la = "\<lparr>la_offset = record_offset data, la_locks = 1, la_exclusive = True\<rparr>"
  let ?lf = "\<lparr>lf_fn = record_name data, lock_area = [?la]\<rparr>"
  obtain s1 where s1: "nw_log_logical_record g 1 data s = (0, s1)"
    "root_lf s1 = chain_put lf_fn ?lf (root_lf s)"
    using assms(1,2) by (auto simp: nw_log_logical_record_def Let_def share_set_logrec_add_rm_def)
  have lf: "chain_find lf_fn (record_name data) (root_lf s1) = Some ?lf" by (simp add: s1(2))
  have "chain_del lf_fn (record_name data) (root_lf s1) = root_lf s"
    using chain_del_put_absent [of lf_fn ?lf "root_lf s"] assms(1) by (simp add: s1(2))
  then have "fst (nw_log_logical_record g' (-1) data s1) = 0 \<and>
      root_lf (snd (nw_log_logical_record g' (-1) data s1)) = root_lf s"
    using lf by (simp add: nw_log_logical_record_def)
  moreover have "fst (nw_log_logical_record g' flag data s1) = -0xfe"
    using lf assms(3) by (elim disjE) (simp_all add: nw_log_logical_record_def share_set_logrec_add_rm_def)
  ultimately show ?thesis by (simp add: s1(1))
qed

definition no_locks :: lock_state where
  "no_locks = \<lparr>st_devs = [], st_klocks = [], first_set = [], root_lf = []\<rparr>"

theorem logical_record_exclusive_witness:
  "fst (nw_log_logical_record (\<lambda>_ _. True) 3 [1, 2, 3, 4, 65]
     (snd (nw_log_logical_record (\<lambda>_ _. True) 1 [1, 2, 3, 4, 65] no_locks))) = -0xfe"
proof -
  have "chain_find lf_fn (record_name [1, 2, 3, 4, 65]) (root_lf no_locks) = None"
    by (simp add: no_locks_def)
  from logical_record_exclusive [OF this, of "\<lambda>_ _. True" 3 "\<lambda>_ _. True"] show ?thesis by simp
qed

text \<open>A lock set never locks anything: the entries that logging a file or a record puts into
  the set carry no type, so \<^verbatim>\<open>share_handle_lock_sets\<close> skips them all, reports success, leaves
  every lock table as it was, and has emptied the set.\<close>

theorem lock_set_has_no_effect:
  assumes "\<forall>ps \<in> set (first_set s). ss_type ps = 0"
    and "s' = snd (share_set_file_add_rm flag dev inode s) \<or> s' = snd (share_set_logrec_add_rm flag data s)"
  shows "share_handle_lock_sets pid files_ok grantable type lock_flag s' = (0, s\<lparr>first_set := []\<rparr>)"
proof -
  have "\<forall>ps \<in> set (first_set s'). ss_type ps = 0" and "s'\<lparr>first_set := []\<rparr> = s\<lparr>first_set := []\<rparr>"
    using assms(2)
    by (elim disjE; simp add: share_set_file_add_rm_def share_set_logrec_add_rm_def assms(1) split: if_splits)+
  then show ?thesis
    using untyped_sets_ignored [of s' "2 * length (first_set s')"]
    by (simp add: share_handle_lock_sets_def)
qed

theorem lock_set_has_no_effect_witness:
  "share_handle_lock_sets 1 (\<lambda>_. True) (\<lambda>_ _. True) 1 1
     (snd (share_set_file_add_rm 1 8 77 no_locks)) = (0, no_locks\<lparr>first_set := []\<rparr>)"
  by (rule lock_set_has_no_effect [of no_locks _ 1 8 77]) (simp_all add: no_locks_def)

text \<open>Whatever the entries of the set are, \<^verbatim>\<open>share_handle_lock_sets\<close> ends and leaves an
  empty set: a later call to release or to clear the set finds nothing to release.\<close>

theorem lock_set_always_lost:
  "first_set (snd (share_handle_lock_sets pid files_ok grantable type lock_flag s)) = []"
  unfolding share_handle_lock_sets_def
  by (rule handle_lock_sets_empties) (rule set_weight_le)

end
