(* ===== verification/Strings.thy ===== *)
theory Strings
  imports Prelude
begin

text \<open>The string routines of \<^verbatim>\<open>src/tools.c\<close> and the character tables of
  \<^verbatim>\<open>src/nwfname.c\<close>.  A C string is the list of its bytes before the terminating NUL.  The
  theory holds the bounded copy, the case conversion, the wildcard match of bindery names, the
  reader of the configuration file, and the proofs that the match agrees with the usual meaning of
  \<open>?\<close> and \<open>*\<close> and that a written configuration line is read back.\<close>

section \<open>Copying and case conversion (tools.c, nwfname.c)\<close>

type_synonym cstring = "u8 list"

definition strmaxcpy :: "cstring \<Rightarrow> nat \<Rightarrow> cstring" where
  "strmaxcpy source len = take len source"

definition down_char :: "u8 \<Rightarrow> u8" where
  "down_char ch =
     (if 64 < ch \<and> ch < 91 then ch + 32
      else if ch = 142 then 132 else if ch = 153 then 148 else if ch = 154 then 129 else ch)"

definition up_char :: "u8 \<Rightarrow> u8" where
  "up_char ch =
     (if 96 < ch \<and> ch < 123 then ch - 32
      else if ch = 132 then 142 else if ch = 148 then 153 else if ch = 129 then 154 else ch)"

definition upstr :: "cstring \<Rightarrow> cstring" where "upstr s = map up_char s"
definition downstr :: "cstring \<Rightarrow> cstring" where "downstr s = map down_char s"

text \<open>The conversion tables are read from a file: at least four tables of 256 bytes, the fifth is
  computed from the others when the file does not have it.  The computing loop starts at index 1,
  so index 0 keeps the 0 of \<^verbatim>\<open>xcmalloc\<close>.\<close>

type_synonym chartables = "u8 list list"

definition init_nwfname :: "chartables \<Rightarrow> chartables option" where
  "init_nwfname tables =
     (if length tables < 4 then None
      else if length tables = 4 then
        Some (tables @ [map (\<lambda>i. if i = 0 then 0
           else (tables ! 0) ! unat ((tables ! 3) ! unat ((tables ! 1) ! i))) [0..<256]])
      else Some (take 5 tables))"

definition convert :: "nat \<Rightarrow> chartables \<Rightarrow> u8 \<Rightarrow> u8" where
  "convert n ct c = (ct ! n) ! unat c"

definition up_fn :: "chartables option \<Rightarrow> cstring \<Rightarrow> cstring" where
  "up_fn conversiontable s =
     (case conversiontable of Some ct \<Rightarrow> map (convert 2 ct) s | None \<Rightarrow> map up_char s)"

definition down_fn :: "chartables option \<Rightarrow> cstring \<Rightarrow> cstring" where
  "down_fn conversiontable s =
     (case conversiontable of Some ct \<Rightarrow> map (convert 3 ct) s | None \<Rightarrow> map down_char s)"

definition dos2unixcharset :: "chartables option \<Rightarrow> cstring \<Rightarrow> cstring" where
  "dos2unixcharset conversiontable s =
     (case conversiontable of Some ct \<Rightarrow> map (convert 0 ct) s | None \<Rightarrow> s)"

definition unix2doscharset :: "chartables option \<Rightarrow> cstring \<Rightarrow> cstring" where
  "unix2doscharset conversiontable s =
     (case conversiontable of Some ct \<Rightarrow> map (convert 1 ct) s | None \<Rightarrow> s)"

definition dfn_imatch :: "chartables option \<Rightarrow> u8 \<Rightarrow> u8 \<Rightarrow> bool" where
  "dfn_imatch conversiontable a b =
     (if a = b then True
      else case conversiontable of
        None \<Rightarrow> down_char a = down_char b
      | Some ct \<Rightarrow> convert 3 ct a = convert 3 ct b)"

definition ufn_imatch :: "chartables option \<Rightarrow> u8 \<Rightarrow> u8 \<Rightarrow> bool" where
  "ufn_imatch conversiontable a b =
     (if a = b then True
      else case conversiontable of
        None \<Rightarrow> down_char a = down_char b
      | Some ct \<Rightarrow> convert 4 ct a = convert 4 ct b)"

section \<open>Wildcard match (tools.c: name\_match)\<close>

text \<open>\<open>name_star\<close> is the inner loop over the remaining string after a star.\<close>

function name_match :: "cstring \<Rightarrow> cstring \<Rightarrow> bool" and name_star :: "cstring \<Rightarrow> cstring \<Rightarrow> bool" where
  "name_match s [] = (s = [])"
| "name_match s (pc # p) =
     (if pc = 63 then (case s of [] \<Rightarrow> False | c # s' \<Rightarrow> name_match s' p)
      else if pc = 42 then (if p = [] then True else name_star s p)
      else (case s of [] \<Rightarrow> False | c # s' \<Rightarrow> pc = c \<and> name_match s' p))"
| "name_star [] p = False"
| "name_star (c # s) p = (name_match (c # s) p \<or> name_star s p)"
  by pat_completeness auto
termination
  by (relation "measures [\<lambda>x. case x of Inl (s, p) \<Rightarrow> 2 * length p | Inr (s, p) \<Rightarrow> 2 * length p + 1,
                          \<lambda>x. case x of Inl (s, p) \<Rightarrow> length s | Inr (s, p) \<Rightarrow> length s]") auto

section \<open>Configuration file (tools.c: get\_ini\_entry)\<close>

fun atoi_digits :: "cstring \<Rightarrow> int \<Rightarrow> int" where
  "atoi_digits [] n = n"
| "atoi_digits (c # cs) n = (if 48 \<le> c \<and> c \<le> 57 then atoi_digits cs (n * 10 + int (unat c) - 48) else n)"

definition atoi :: "cstring \<Rightarrow> int" where
  "atoi s = (case dropWhile (\<lambda>c. c = 32 \<or> 9 \<le> c \<and> c \<le> 13) s of
     [] \<Rightarrow> 0
   | c # cs \<Rightarrow> if c = 45 then - atoi_digits cs 0
               else if c = 43 then atoi_digits cs 0 else atoi_digits (c # cs) 0)"

text \<open>The scanning loop: position \<open>j\<close>, first blank \<open>se\<close>, first byte of the value \<open>ppi\<close>, last
  byte that is not blank \<open>ppe\<close>.  The result is the new length and the three marks.\<close>

fun ini_scan :: "cstring \<Rightarrow> nat \<Rightarrow> nat \<Rightarrow> nat option \<Rightarrow> nat option \<Rightarrow>
    nat \<times> nat \<times> nat option \<times> nat option" where
  "ini_scan [] j se ppi ppe = (j, se, ppi, ppe)"
| "ini_scan (c # cs) j se ppi ppe =
     (if c = 35 \<or> c = 13 \<or> c = 10 then (j, se, ppi, ppe)
      else if c = 32 \<or> c = 9 then ini_scan cs (Suc j) (if se = 0 then j else se) ppi ppe
      else ini_scan cs (Suc j) se (if ppi = None \<and> se \<noteq> 0 then Some j else ppi) (Some j))"

definition parse_ini_line :: "int \<Rightarrow> nat \<Rightarrow> cstring \<Rightarrow> (int \<times> cstring) option" where
  "parse_ini_line entry strsize line =
     (let p_buff = dropWhile (\<lambda>c. c = 9 \<or> c = 32) line;
          (len, se, ppi, ppe) = ini_scan p_buff 0 0 None None
      in case ppi of
           None \<Rightarrow> None
         | Some i \<Rightarrow>
             if len > se + 1 \<and> se > 0 \<and> se < 4 then
               let fentry = atoi (strmaxcpy p_buff se);
                   last = (case ppe of Some e \<Rightarrow> e + 1 | None \<Rightarrow> length p_buff)
               in if fentry > 0 \<and> (entry = 0 \<or> entry = fentry)
                  then Some (fentry, strmaxcpy (drop i (take last p_buff)) (strsize - 1))
                  else None
             else None)"

text \<open>The call reads on from the file position: it returns the entry with its value, and the lines
  that are left.\<close>

fun get_ini_entry :: "int \<Rightarrow> nat \<Rightarrow> cstring list \<Rightarrow> int \<times> cstring \<times> cstring list" where
  "get_ini_entry entry strsize [] = (0, [], [])"
| "get_ini_entry entry strsize (line # f) =
     (case parse_ini_line entry strsize line of
        Some (fentry, str) \<Rightarrow> (fentry, str, f)
      | None \<Rightarrow> get_ini_entry entry strsize f)"

section \<open>The match and its specification\<close>

fun glob :: "cstring \<Rightarrow> cstring \<Rightarrow> bool" where
  "glob [] s = (s = [])"
| "glob (c # p) s =
     (if c = 63 then s \<noteq> [] \<and> glob p (tl s)
      else if c = 42 then \<exists>k \<le> length s. glob p (drop k s)
      else s \<noteq> [] \<and> hd s = c \<and> glob p (tl s))"

definition ends_in_two_stars :: "cstring \<Rightarrow> bool" where
  "ends_in_two_stars p = (2 \<le> length p \<and> last p = 42 \<and> last (butlast p) = 42)"

lemma glob_empty: "glob p [] \<longleftrightarrow> (\<forall>c \<in> set p. c = 42)"
  by (induction p) auto

lemma ends_in_two_stars_tl: "ends_in_two_stars p \<Longrightarrow> ends_in_two_stars (c # p)"
  by (cases p) (auto simp: ends_in_two_stars_def)

lemma all_stars_ends:
  assumes "p \<noteq> []" and "\<forall>c \<in> set p. c = 42" shows "ends_in_two_stars (42 # p)"
proof (cases "butlast p = []")
  case True
  with assms show ?thesis by (cases p rule: rev_cases) (auto simp: ends_in_two_stars_def)
next
  case False
  with assms have "last (butlast p) = 42" by (meson in_set_butlastD last_in_set)
  with assms False show ?thesis by (auto simp: ends_in_two_stars_def Suc_le_eq)
qed

lemma name_star_nth: "name_star s p \<longleftrightarrow> (\<exists>k < length s. name_match (drop k s) p)"
proof (induction s)
  case (Cons c s)
  have "(\<exists>k < Suc (length s). name_match (drop k (c # s)) p) \<longleftrightarrow>
    name_match (c # s) p \<or> (\<exists>k < length s. name_match (drop k s) p)"
    by (metis (no_types, lifting) Suc_less_eq drop0 drop_Suc_Cons gr0_conv_Suc not0_implies_Suc zero_less_Suc)
  with Cons show ?case by simp
qed simp

lemma glob_star:
  assumes "p \<noteq> []" and "\<not> ends_in_two_stars (42 # p)"
  shows "glob (42 # p) s \<longleftrightarrow> (\<exists>k < length s. glob p (drop k s))"
proof -
  have "\<not> glob p []" using assms all_stars_ends glob_empty by blast
  then show ?thesis by (auto simp: le_less)
qed

lemma name_match_eq_glob: "\<not> ends_in_two_stars p \<Longrightarrow> name_match s p = glob p s"
proof (induction p arbitrary: s)
  case (Cons c p)
  then have IH: "name_match t p = glob p t" for t using ends_in_two_stars_tl by blast
  show ?case
  proof (cases "c = 42 \<and> p \<noteq> []")
    case True
    with Cons.prems have "name_match s (c # p) \<longleftrightarrow> (\<exists>k < length s. glob p (drop k s))"
      by (simp add: name_star_nth IH)
    with True Cons.prems glob_star show ?thesis by simp
  next
    case False
    have "glob [42] s" by (auto intro: exI [of _ "length s"])
    with False show ?thesis by (cases s) (auto simp: IH simp del: glob.simps(2), auto)
  qed
qed simp

section \<open>Reading the configuration file\<close>

definition ini_plain :: "u8 \<Rightarrow> bool" where
  "ini_plain c = (c \<noteq> 35 \<and> c \<noteq> 13 \<and> c \<noteq> 10)"
definition ini_word :: "u8 \<Rightarrow> bool" where
  "ini_word c = (ini_plain c \<and> c \<noteq> 32 \<and> c \<noteq> 9)"

lemma ini_scan_word:
  assumes "\<forall>c \<in> set w. ini_word c" and "w \<noteq> []"
  shows "ini_scan (w @ r) j 0 None ppe = ini_scan r (j + length w) 0 None (Some (j + length w - 1))"
  using assms
proof (induction w arbitrary: j ppe)
  case (Cons c w)
  then show ?case by (cases w) (auto simp: ini_word_def ini_plain_def)
qed simp

lemma ini_scan_value:
  assumes "\<forall>c \<in> set v. ini_plain c" and "0 < se" and "v \<noteq> []" and "ini_word (last v)"
  shows "ini_scan (v @ [10]) j se (Some i) ppe = (j + length v, se, Some i, Some (j + length v - 1))"
  using assms
proof (induction v arbitrary: j ppe)
  case (Cons c v)
  then show ?case by (cases "v = []") (auto simp: ini_word_def ini_plain_def)
qed simp

lemma ini_scan_line:
  assumes "\<forall>c \<in> set w. ini_word c" "w \<noteq> []" and "\<forall>c \<in> set v. ini_plain c" "v \<noteq> []"
    and "ini_word (hd v)" "ini_word (last v)"
  shows "ini_scan (w @ 32 # v @ [10]) 0 0 None None =
    (length w + 1 + length v, length w, Some (length w + 1), Some (length w + length v))"
proof -
  obtain c v' where v: "v = c # v'" using assms(4) by (cases v) auto
  have c: "ini_word c" using assms(5) v by simp
  have "ini_scan (32 # v @ [10]) (length w) 0 None (Some (length w - 1)) =
      ini_scan (v' @ [10]) (length w + 2) (length w) (Some (length w + 1)) (Some (length w + 1))"
    using assms(2) c by (simp add: v ini_word_def ini_plain_def)
  also have "\<dots> = (length w + 1 + length v, length w, Some (length w + 1), Some (length w + length v))"
  proof (cases "v' = []")
    case False
    with assms v show ?thesis by (simp add: ini_scan_value)
  qed (simp add: v)
  finally show ?thesis using ini_scan_word [OF assms(1,2), of "32 # v @ [10]" 0 None] by simp
qed

definition digit :: "nat \<Rightarrow> u8" where "digit d = word_of_nat (48 + d)"

text \<open>An entry number as it is written in the file: up to three decimal digits.\<close>

definition ini_number :: "nat \<Rightarrow> cstring" where
  "ini_number n =
     (if n < 10 then [digit n]
      else if n < 100 then [digit (n div 10), digit (n mod 10)]
      else [digit (n div 100), digit (n div 10 mod 10), digit (n mod 10)])"

lemma digit_props: 
  assumes "d < 10"
  shows "unat (digit d) = 48 + d" and "48 \<le> digit d" and "digit d \<le> 57" and "ini_word (digit d)"
    and "digit d \<noteq> 45" "digit d \<noteq> 43" "\<not> (digit d = 32 \<or> 9 \<le> digit d \<and> digit d \<le> 13)"
proof -
  show u: "unat (digit d) = 48 + d" unfolding digit_def using assms
    by (subst unat_of_nat) simp
  show "48 \<le> digit d" "digit d \<le> 57" using u assms by (simp_all add: word_le_nat_alt)
  have ne: "digit d \<noteq> c" if "unat c < 48" for c using u that by auto
  show "ini_word (digit d)" by (auto simp: ini_word_def ini_plain_def intro!: ne)
  show "digit d \<noteq> 45" "digit d \<noteq> 43" by (rule ne, simp)+
  show "\<not> (digit d = 32 \<or> 9 \<le> digit d \<and> digit d \<le> 13)" using u by (auto simp: word_le_nat_alt)
qed

lemma ini_number_word:
  assumes "0 < n" "n < 1000"
  shows "\<forall>c \<in> set (ini_number n). ini_word c" and "0 < length (ini_number n)"
    and "length (ini_number n) < 4"
  using assms by (auto simp: ini_number_def digit_props)

lemma atoi_ini_number:
  assumes "n < 1000" shows "atoi (ini_number n) = int n"
proof -
  have a: "atoi (digit d # cs) = atoi_digits cs (int d)" if "d < 10" for d cs
    using digit_props [OF that] that by (auto simp: atoi_def)
  have b: "atoi_digits (digit d # cs) k = atoi_digits cs (k * 10 + int d)" if "d < 10" for d cs k
    using digit_props [OF that] by simp
  consider "n < 10" | "10 \<le> n" "n < 100" | "100 \<le> n" by linarith
  then show ?thesis
  proof cases
    case 1
    then show ?thesis by (simp add: ini_number_def a)
  next
    case 2
    moreover have "int (n div 10) * 10 + int (n mod 10) = int n" by presburger
    ultimately show ?thesis by (simp add: ini_number_def a b del: atoi_digits.simps(2))
  next
    case 3
    have "(n div 100 * 10 + n div 10 mod 10) * 10 + n mod 10 = n"
      using div_mult2_eq [of n 10 10] div_mult_mod_eq [of "n div 10" 10] div_mult_mod_eq [of n 10] by simp
    from arg_cong [OF this, of int]
    have "(int (n div 100) * 10 + int (n div 10 mod 10)) * 10 + int (n mod 10) = int n"
      by (simp only: of_nat_add of_nat_mult of_nat_numeral)
    moreover have "n div 100 < 10" using assms by simp
    ultimately show ?thesis using 3
      by (simp only: ini_number_def a b if_not_P not_less mod_less_divisor) (simp add: a b del: atoi_digits.simps(2))
  qed
qed

section \<open>Properties\<close>

text \<open>C16. \<^verbatim>\<open>name_match\<close> decides the usual wildcard match, \<open>?\<close> for one character and \<open>*\<close> for any
  run of characters, for every name and every pattern that does not end in two stars.\<close>

theorem name_match_correct:
  assumes "\<not> ends_in_two_stars p"
  shows "name_match s p \<longleftrightarrow> glob p s"
  by (rule name_match_eq_glob [OF assms])

theorem name_match_correct_witness:
  "name_match [83, 89, 83] [83, 42, 83] \<longleftrightarrow> glob [83, 42, 83] [83, 89, 83]"
  by (rule name_match_correct) (simp add: ends_in_two_stars_def)

text \<open>A configuration line \<open>number value\<close> is read back: whatever the value is, as long as it has
  no comment sign and no line end and does not begin or end with a blank, \<^verbatim>\<open>get_ini_entry\<close> finds
  the entry and returns the whole value, cut only at the size of the caller's buffer.\<close>

theorem get_ini_entry_reads_line:
  assumes "0 < n" "n < 1000" and "\<forall>c \<in> set v. ini_plain c" and "v \<noteq> []"
    and "ini_word (hd v)" "ini_word (last v)" and "entry = 0 \<or> entry = int n"
  shows "get_ini_entry entry strsize ((ini_number n @ 32 # v @ [10]) # rest) =
    (int n, take (strsize - 1) v, rest)"
proof -
  let ?w = "ini_number n" and ?line = "ini_number n @ 32 # v @ [10]"
  note w = ini_number_word [OF assms(1,2)]
  have d: "dropWhile (\<lambda>c. c = 9 \<or> c = 32) ?line = ?line"
    using w by (cases ?w) (auto simp: ini_word_def)
  have "?w \<noteq> []" using w(2) by auto
  note scan = ini_scan_line [OF w(1) this assms(3-6)]
  have "parse_ini_line entry strsize ?line = Some (int n, take (strsize - 1) v)"
    using w assms atoi_ini_number [OF assms(2)]
    by (simp add: parse_ini_line_def d scan strmaxcpy_def)
  then show ?thesis by simp
qed

theorem get_ini_entry_reads_line_witness:
  "get_ini_entry 0 256 [ini_number 41 @ 32 # [47, 118, 97, 114] @ [10]] = (41, [47, 118, 97, 114], [])"
  using get_ini_entry_reads_line [of 41 "[47, 118, 97, 114]" 0 256 "[]"]
  by (simp add: ini_plain_def ini_word_def)

end
