(* ===== verification/Volume.thy ===== *)
theory Volume
  imports Strings
begin

text \<open>The volume table of \<^verbatim>\<open>src/nwvolume.c\<close> (\<^verbatim>\<open>include/nwvolume.h\<close>): how the volume lines of the
  configuration become table entries, how a login sets the home volumes, and how an inode of a
  device in a name space is packed into the 32-bit handle that clients keep.  The proofs show that
  the table stays well formed and that a handle, once given out, keeps naming the same inode.  The
  kernel's \<^verbatim>\<open>stat\<close>, \<^verbatim>\<open>lstat\<close> and \<^verbatim>\<open>access\<close> are the functions of an \<open>fsview\<close>.\<close>

section \<open>Files as the kernel shows them\<close>

type_synonym u64 = "64 word"

record stat =
  st_dev :: int
  st_ino :: u64
  st_mode :: u32
  st_uid :: int
  st_gid :: int

record fsview =
  fs_stat :: "cstring \<Rightarrow> stat option"
  fs_lstat :: "cstring \<Rightarrow> stat option"
  fs_access :: "cstring \<Rightarrow> u32 \<Rightarrow> bool"

definition S_ISDIR :: "u32 \<Rightarrow> bool" where "S_ISDIR m = (m AND 0xf000 = 0x4000)"
definition S_ISLNK :: "u32 \<Rightarrow> bool" where "S_ISLNK m = (m AND 0xf000 = 0xa000)"
definition S_ISFIFO :: "u32 \<Rightarrow> bool" where "S_ISFIFO m = (m AND 0xf000 = 0x1000)"

section \<open>Volumes (nwvolume.h)\<close>

abbreviation VOL_OPTION_DOWNSHIFT :: u32 where "VOL_OPTION_DOWNSHIFT \<equiv> 0x0001"
abbreviation VOL_OPTION_IS_PIPE :: u32 where "VOL_OPTION_IS_PIPE \<equiv> 0x0002"
abbreviation VOL_OPTION_REMOUNT :: u32 where "VOL_OPTION_REMOUNT \<equiv> 0x0004"
abbreviation VOL_OPTION_IS_HOME :: u32 where "VOL_OPTION_IS_HOME \<equiv> 0x0008"
abbreviation VOL_OPTION_ONE_DEV :: u32 where "VOL_OPTION_ONE_DEV \<equiv> 0x0010"
abbreviation VOL_OPTION_READONLY :: u32 where "VOL_OPTION_READONLY \<equiv> 0x0020"
abbreviation VOL_OPTION_IGNCASE :: u32 where "VOL_OPTION_IGNCASE \<equiv> 0x0040"
abbreviation VOL_OPTION_NO_INODES :: u32 where "VOL_OPTION_NO_INODES \<equiv> 0x0080"
abbreviation VOL_OPTION_TRUSTEES :: u32 where "VOL_OPTION_TRUSTEES \<equiv> 0x0100"
abbreviation VOL_OPTION_ATTRIBUTES :: u32 where "VOL_OPTION_ATTRIBUTES \<equiv> 0x0200"
abbreviation VOL_OPTION_IGNUNXRIGHT :: u32 where "VOL_OPTION_IGNUNXRIGHT \<equiv> 0x0400"
abbreviation VOL_OPTION_UNX_RIGHT :: u32 where "VOL_OPTION_UNX_RIGHT \<equiv> 0x0800"
abbreviation VOL_NAMESPACE_DOS :: u32 where "VOL_NAMESPACE_DOS \<equiv> 0x1000"
abbreviation VOL_NAMESPACE_OS2 :: u32 where "VOL_NAMESPACE_OS2 \<equiv> 0x2000"
abbreviation VOL_NAMESPACE_NFS :: u32 where "VOL_NAMESPACE_NFS \<equiv> 0x4000"

record DEV_NAMESPACE_MAP =
  dnm_dev :: int
  dnm_namespace :: int

record VOLUME_TRUSTEE =
  vt_path :: cstring
  vt_trustee :: u32

text \<open>\<^verbatim>\<open>unixnamlen\<close>, \<^verbatim>\<open>addonlen\<close>, \<^verbatim>\<open>maps_count\<close> and \<^verbatim>\<open>count_trustees\<close> are the lengths of
  the lists; the allocation size of the trustee array has no counterpart.\<close>

record NW_VOL =
  sysname :: cstring
  unixname :: cstring
  v_dev :: int
  v_inode :: u64
  homeaddon :: cstring
  dev_namespace_maps :: "DEV_NAMESPACE_MAP list"
  max_maps_count :: nat
  high_inode :: u32
  options :: u32
  umode_dir :: int
  umode_file :: int
  v_trustees :: "VOLUME_TRUSTEE list"
  trustee_id :: u32
  trustee_namespace :: int
  trustee_sernum :: u32
  trustee_last_test_time :: int

definition MAX_DEV_NAMESPACE_MAPS :: nat where "MAX_DEV_NAMESPACE_MAPS = 16"

definition has :: "u32 \<Rightarrow> u32 \<Rightarrow> bool" where "has flags b = (flags AND b \<noteq> 0)"

definition empty_vol :: NW_VOL where
  "empty_vol = \<lparr>sysname = [], unixname = [], v_dev = 0, v_inode = 0, homeaddon = [],
     dev_namespace_maps = [], max_maps_count = 0, high_inode = 0, options = 0, umode_dir = 0,
     umode_file = 0, v_trustees = [], trustee_id = 0, trustee_namespace = 0, trustee_sernum = 0,
     trustee_last_test_time = 0\<rparr>"

record volumes =
  nw_volumes :: "NW_VOL list"
  used_nw_volumes :: nat
  loaded_namespaces :: u32
  path_vol_inodes_cache :: cstring
  path_attributes :: cstring
  path_trustees :: cstring

definition valid_vol :: "volumes \<Rightarrow> int \<Rightarrow> bool" where
  "valid_vol vs volnr = (volnr > -1 \<and> volnr < int (used_nw_volumes vs))"

definition vol_at :: "volumes \<Rightarrow> int \<Rightarrow> NW_VOL" where
  "vol_at vs volnr = nw_volumes vs ! nat volnr"

definition put_vol :: "int \<Rightarrow> NW_VOL \<Rightarrow> volumes \<Rightarrow> volumes" where
  "put_vol volnr v vs = vs\<lparr>nw_volumes := (nw_volumes vs)[nat volnr := v]\<rparr>"

section \<open>Volume trustee lists\<close>

definition free_vol_trustee :: "NW_VOL \<Rightarrow> NW_VOL" where
  "free_vol_trustee v = v\<lparr>v_trustees := [], trustee_id := 0, trustee_last_test_time := 0\<rparr>"

definition add_vol_trustee :: "NW_VOL \<Rightarrow> cstring \<Rightarrow> nat \<Rightarrow> u32 \<Rightarrow> NW_VOL" where
  "add_vol_trustee v path len trustee =
     v\<lparr>v_trustees := v_trustees v @ [\<lparr>vt_path = take len path, vt_trustee = trustee\<rparr>]\<rparr>"

section \<open>Inodes and handles\<close>

fun find_map :: "DEV_NAMESPACE_MAP \<Rightarrow> DEV_NAMESPACE_MAP list \<Rightarrow> nat \<Rightarrow> nat option" where
  "find_map dnm [] k = None"
| "find_map dnm (mp # mps) k =
     (if dnm_dev mp = dnm_dev dnm \<and> dnm_namespace mp = dnm_namespace dnm then Some k
      else find_map dnm mps (Suc k))"

definition look_name_space_map ::
  "NW_VOL \<Rightarrow> DEV_NAMESPACE_MAP \<Rightarrow> bool \<Rightarrow> int \<times> NW_VOL" where
  "look_name_space_map v dnm do_insert =
     (case find_map dnm (dev_namespace_maps v) 0 of
        Some k \<Rightarrow> (int k, v)
      | None \<Rightarrow>
          if do_insert \<and> length (dev_namespace_maps v) < max_maps_count v
          then (int (length (dev_namespace_maps v)),
                v\<lparr>dev_namespace_maps := dev_namespace_maps v @ [dnm]\<rparr>)
          else (-1, v))"

definition vol_inode_to_handle :: "NW_VOL \<Rightarrow> u64 \<Rightarrow> DEV_NAMESPACE_MAP \<Rightarrow> u32 \<times> NW_VOL" where
  "vol_inode_to_handle v inode dnm =
     (if inode > 0 \<and> inode \<le> ucast (high_inode v) then
        (let (result, v') = look_name_space_map v dnm True
         in if result > -1 then
              (if has (options v) VOL_OPTION_ONE_DEV then ucast inode
               else push_bit 28 (word_of_int result) OR ucast inode, v')
            else (0, v'))
      else (0, v))"

definition nw_vol_inode_to_handle ::
  "volumes \<Rightarrow> int \<Rightarrow> u64 \<Rightarrow> DEV_NAMESPACE_MAP \<Rightarrow> u32 \<times> volumes" where
  "nw_vol_inode_to_handle vs volume inode dnm =
     (if valid_vol vs volume then
        (let (h, v) = vol_inode_to_handle (vol_at vs volume) inode dnm in (h, put_vol volume v vs))
      else (0, vs))"

definition nw_vol_handle_to_inode ::
  "volumes \<Rightarrow> int \<Rightarrow> u32 \<Rightarrow> (u64 \<times> DEV_NAMESPACE_MAP) option" where
  "nw_vol_handle_to_inode vs volume handle =
     (if handle > 0 \<and> valid_vol vs volume then
        (let v = vol_at vs volume;
             entry = (if has (options v) VOL_OPTION_ONE_DEV then 0
                      else unat (drop_bit 28 handle AND 0xf))
         in if entry < length (dev_namespace_maps v)
            then Some (ucast (handle AND high_inode v), dev_namespace_maps v ! entry)
            else None)
      else None)"

definition volume_to_namespace_map :: "fsview \<Rightarrow> NW_VOL \<Rightarrow> NW_VOL" where
  "volume_to_namespace_map fs v =
     (case fs_stat fs (unixname v) of
        None \<Rightarrow> v
      | Some st \<Rightarrow>
          snd (vol_inode_to_handle (v\<lparr>v_dev := st_dev st, v_inode := st_ino st\<rparr>) (st_ino st)
                 \<lparr>dnm_dev = st_dev st, dnm_namespace = 0\<rparr>))"

section \<open>Reading the configuration (nw\_init\_volumes)\<close>

fun words :: "cstring \<Rightarrow> cstring \<Rightarrow> cstring list" where
  "words [] w = (if w = [] then [] else [w])"
| "words (c # cs) w =
     (if c = 32 \<or> 9 \<le> c \<and> c \<le> 13 then (if w = [] then words cs [] else w # words cs [])
      else words cs (w @ [c]))"

fun oct_digits :: "cstring \<Rightarrow> int \<Rightarrow> int" where
  "oct_digits [] n = n"
| "oct_digits (c # cs) n = (if 48 \<le> c \<and> c \<le> 55 then oct_digits cs (n * 8 + int (unat c) - 48) else n)"

definition scan_oct :: "cstring \<Rightarrow> int option" where
  "scan_oct s =
     (let (sign, t) = (case s of c # cs \<Rightarrow> if c = 45 then (-1, cs) else if c = 43 then (1, cs) else (1, s)
                               | [] \<Rightarrow> (1, []))
      in case t of
           c # cs \<Rightarrow> if 48 \<le> c \<and> c \<le> 55 then Some (sign * oct_digits t 0) else None
         | [] \<Rightarrow> None)"

definition octtoi :: "cstring \<Rightarrow> int" where
  "octtoi buf =
     (let (m, b) = (case buf of c # cs \<Rightarrow> if c = 45 then (True, cs) else (False, buf) | [] \<Rightarrow> (False, []))
      in case scan_oct b of None \<Rightarrow> 0 | Some i \<Rightarrow> if m then - i else i)"

definition option_letter :: "u8 \<Rightarrow> u32" where
  "option_letter p =
     (if p = 105 then VOL_OPTION_IGNCASE
      else if p = 107 then VOL_OPTION_DOWNSHIFT
      else if p = 110 then VOL_OPTION_NO_INODES
      else if p = 109 then VOL_OPTION_REMOUNT
      else if p = 111 then VOL_OPTION_ONE_DEV
      else if p = 112 then VOL_OPTION_IS_PIPE
      else if p = 114 then VOL_OPTION_READONLY
      else if p = 116 then VOL_OPTION_TRUSTEES
      else if p = 84 then VOL_OPTION_TRUSTEES OR VOL_OPTION_IGNUNXRIGHT
      else if p = 120 then VOL_OPTION_UNX_RIGHT
      else if p = 79 then VOL_NAMESPACE_OS2
      else if p = 78 then VOL_NAMESPACE_NFS
      else 0)"

definition read_options :: "cstring \<Rightarrow> u32 \<Rightarrow> u32" where
  "read_options optionstr = fold (\<lambda>p opts. opts OR option_letter p) optionstr"

text \<open>The directory of a volume: \<open>(is_home, unixname, homeaddon)\<close>.  A path that begins with
  \<^verbatim>\<open>~\<close> or \<^verbatim>\<open>~/\<close> is a home volume and keeps only its tail.\<close>

definition add_slash :: "cstring \<Rightarrow> cstring" where
  "add_slash s = (if s \<noteq> [] \<and> last s \<noteq> 47 then s @ [47] else s)"

definition volume_path :: "cstring \<Rightarrow> bool \<times> cstring \<times> cstring" where
  "volume_path name =
     (if name \<noteq> [] \<and> hd name = 126 \<and> (tl name = [] \<or> hd (tl name) = 47)
      then (True, [], if length name > 2 then drop 2 (add_slash name) else [])
      else (False, add_slash name, []))"

definition check_options :: "u32 \<Rightarrow> u32" where
  "check_options opts =
     (let o1 = (if has opts VOL_OPTION_IS_HOME then opts OR VOL_OPTION_REMOUNT else opts)
      in if has o1 VOL_OPTION_NO_INODES
         then o1 AND NOT VOL_OPTION_TRUSTEES AND NOT VOL_OPTION_IGNUNXRIGHT AND NOT VOL_OPTION_ATTRIBUTES
         else o1)"

definition read_vol :: "chartables option \<Rightarrow> NW_VOL \<Rightarrow> cstring list \<Rightarrow> NW_VOL" where
  "read_vol ct vol ws =
     (let founds = length ws;
          (is_home, path, addon) = volume_path (ws ! 1);
          opts0 = VOL_OPTION_ATTRIBUTES OR VOL_NAMESPACE_DOS OR (if is_home then VOL_OPTION_IS_HOME else 0);
          opts = (if founds > 2 then read_options (ws ! 2) opts0 else opts0);
          one = has opts VOL_OPTION_ONE_DEV
      in vol\<lparr>sysname := up_fn ct (ws ! 0), unixname := path,
             homeaddon := (if is_home then addon else homeaddon vol), options := opts,
             umode_dir := (if founds > 3 then octtoi (ws ! 3) else 0),
             umode_file := (if founds > 4 then octtoi (ws ! 4) else 0),
             max_maps_count := (if one then 1 else MAX_DEV_NAMESPACE_MAPS),
             high_inode := (if one then 0xffffffff else 0xfffffff)\<rparr>)"

definition init_vol :: "fsview \<Rightarrow> chartables option \<Rightarrow> NW_VOL \<Rightarrow> cstring list \<Rightarrow> NW_VOL" where
  "init_vol fs ct vol ws =
     (let v = read_vol ct vol ws;
          v1 = (if unixname v \<noteq> [] then volume_to_namespace_map fs v else v)
      in v1\<lparr>options := check_options (options v1)\<rparr>)"

definition namespaces_of :: "cstring list \<Rightarrow> u32" where
  "namespaces_of ws =
     VOL_NAMESPACE_DOS OR
     (if length ws > 2 then read_options (ws ! 2) 0 AND (VOL_NAMESPACE_OS2 OR VOL_NAMESPACE_NFS) else 0)"

definition init_entry :: "fsview \<Rightarrow> chartables option \<Rightarrow> int \<times> cstring \<Rightarrow> volumes \<Rightarrow> volumes" where
  "init_entry fs ct e vs =
     (let (what, buff) = e; ws = take 5 (words buff [])
      in if what = 1 \<and> used_nw_volumes vs < length (nw_volumes vs) \<and> length buff > 3 then
           if length ws > 1 then
             (put_vol (int (used_nw_volumes vs))
                (init_vol fs ct (nw_volumes vs ! used_nw_volumes vs) ws) vs)
               \<lparr>used_nw_volumes := Suc (used_nw_volumes vs),
                loaded_namespaces := loaded_namespaces vs OR namespaces_of ws\<rparr>
           else vs
         else if what = 40 then vs\<lparr>path_vol_inodes_cache := buff\<rparr>
         else if what = 46 then vs\<lparr>path_attributes := buff\<rparr>
         else if what = 47 then vs\<lparr>path_trustees := buff\<rparr>
         else vs)"

definition cstr :: "string \<Rightarrow> cstring" where "cstr s = map of_char s"

definition ini_entries :: "cstring list \<Rightarrow> (int \<times> cstring) list" where
  "ini_entries f = List.map_filter (parse_ini_line 0 256) f"

definition volume_count :: "nat \<Rightarrow> cstring list \<Rightarrow> nat" where
  "volume_count max_nw_vols f =
     (let (what, buff, rest) = get_ini_entry 61 256 f
      in if what \<noteq> 0 then (if atoi buff < 2 then max_nw_vols else nat (atoi buff)) else max_nw_vols)"

text \<open>\<open>None\<close> is the state before the first call (\<^verbatim>\<open>volumes_is_init\<close>); a later call keeps the
  array and empties the name-space maps and the trustee lists.\<close>

definition nw_init_volumes ::
  "fsview \<Rightarrow> chartables option \<Rightarrow> nat \<Rightarrow> cstring list \<Rightarrow> volumes option \<Rightarrow> volumes" where
  "nw_init_volumes fs ct max_nw_vols f old =
     (let vols = (case old of
            None \<Rightarrow> replicate (volume_count max_nw_vols f) empty_vol
          | Some vs \<Rightarrow> map (\<lambda>v. free_vol_trustee (v\<lparr>dev_namespace_maps := []\<rparr>)) (nw_volumes vs))
      in fold (init_entry fs ct) (ini_entries f)
           \<lparr>nw_volumes = vols, used_nw_volumes = 0, loaded_namespaces = 0,
            path_vol_inodes_cache = cstr ''/var/spool/nwserv/.volcache'',
            path_attributes = cstr ''/var/nwserv/attrib'',
            path_trustees = cstr ''/var/nwserv/trustees''\<rparr>)"

section \<open>Home volumes after a login\<close>

text \<open>\<open>pw_dir\<close> is the home directory that \<^verbatim>\<open>getpwnam\<close> finds for the login name, if any.\<close>

definition get_unx_home_dir :: "(cstring \<Rightarrow> cstring option) \<Rightarrow> cstring \<Rightarrow> cstring" where
  "get_unx_home_dir getpwnam unxlogin =
     (if unxlogin = [] then []
      else case getpwnam unxlogin of
             None \<Rightarrow> []
           | Some pw_dir \<Rightarrow> if pw_dir = [] then [47] else take 255 pw_dir)"

definition setup_vol :: "fsview \<Rightarrow> cstring \<Rightarrow> int \<Rightarrow> int \<Rightarrow> NW_VOL \<Rightarrow> NW_VOL" where
  "setup_vol fs home act_umode_dir act_umode_file v =
     (let v1 = (if has (options v) VOL_OPTION_IS_HOME then
             (let fname = (if home \<noteq> [] \<and> homeaddon v \<noteq> []
                           then if length home + length (homeaddon v) > 256 then [] else home @ homeaddon v
                           else home);
                  v2 = v\<lparr>dev_namespace_maps := [], unixname := fname\<rparr>
              in if fname \<noteq> [] then volume_to_namespace_map fs v2 else v2)
           else v)
      in v1\<lparr>umode_dir := (if umode_dir v1 = 0 then act_umode_dir else umode_dir v1),
            umode_file := (if umode_file v1 = 0 then act_umode_file else umode_file v1)\<rparr>)"

definition nw_setup_vol_opts ::
  "fsview \<Rightarrow> (cstring \<Rightarrow> cstring option) \<Rightarrow> int \<Rightarrow> int \<Rightarrow> cstring \<Rightarrow> volumes \<Rightarrow> volumes" where
  "nw_setup_vol_opts fs getpwnam act_umode_dir act_umode_file unxlogin vs =
     (let home = add_slash (get_unx_home_dir getpwnam unxlogin); n = used_nw_volumes vs
      in vs\<lparr>nw_volumes := map (setup_vol fs home act_umode_dir act_umode_file) (take n (nw_volumes vs))
              @ drop n (nw_volumes vs)\<rparr>)"

section \<open>Queries\<close>

text \<open>The search of \<^verbatim>\<open>nw_get_volume_number\<close> runs from the last volume to the first.\<close>

fun find_vol :: "cstring \<Rightarrow> NW_VOL list \<Rightarrow> nat \<Rightarrow> int" where
  "find_vol vname vols 0 = -0x98"
| "find_vol vname vols (Suc j) = (if sysname (vols ! j) = vname then int j else find_vol vname vols j)"

definition nw_get_volume_number :: "chartables option \<Rightarrow> volumes \<Rightarrow> cstring \<Rightarrow> nat \<Rightarrow> int" where
  "nw_get_volume_number ct vs volname namelen =
     find_vol (up_fn ct (strmaxcpy volname namelen)) (nw_volumes vs) (used_nw_volumes vs)"

definition nw_get_volume_name :: "volumes \<Rightarrow> int \<Rightarrow> nat \<Rightarrow> int \<times> cstring" where
  "nw_get_volume_name vs volnr size_volname =
     (if valid_vol vs volnr then
        (let volname = strmaxcpy (sysname (vol_at vs volnr)) (size_volname - 1)
         in (int (length volname), volname))
      else (if volnr < int (length (nw_volumes vs)) then 0 else -0x98, []))"

definition get_volume_umode_dir :: "volumes \<Rightarrow> int \<Rightarrow> int" where
  "get_volume_umode_dir vs volnr = (if valid_vol vs volnr then umode_dir (vol_at vs volnr) else 0)"

definition get_volume_umode_file :: "volumes \<Rightarrow> int \<Rightarrow> int" where
  "get_volume_umode_file vs volnr = (if valid_vol vs volnr then umode_file (vol_at vs volnr) else 0)"

definition get_volume_options :: "volumes \<Rightarrow> int \<Rightarrow> u32" where
  "get_volume_options vs volnr = (if valid_vol vs volnr then options (vol_at vs volnr) else 0)"

definition get_volume_inode :: "fsview \<Rightarrow> volumes \<Rightarrow> int \<Rightarrow> stat option" where
  "get_volume_inode fs vs volnr =
     (if valid_vol vs volnr then fs_stat fs (unixname (vol_at vs volnr)) else None)"

definition get_volume_unixnamlen :: "volumes \<Rightarrow> int \<Rightarrow> nat" where
  "get_volume_unixnamlen vs volnr =
     (if valid_vol vs volnr then length (unixname (vol_at vs volnr)) else 0)"

section \<open>The table stays well formed\<close>

definition vol_ok :: "NW_VOL \<Rightarrow> bool" where
  "vol_ok v =
     (max_maps_count v = (if has (options v) VOL_OPTION_ONE_DEV then 1 else 16) \<and>
      high_inode v = (if has (options v) VOL_OPTION_ONE_DEV then 0xffffffff else 0xfffffff) \<and>
      length (dev_namespace_maps v) \<le> max_maps_count v)"

definition vol_sound :: "NW_VOL \<Rightarrow> bool" where
  "vol_sound v =
     (vol_ok v \<and> (unixname v = [] \<or> last (unixname v) = 47) \<and>
      (has (options v) VOL_OPTION_NO_INODES \<longrightarrow> \<not> has (options v) VOL_OPTION_TRUSTEES \<and>
         \<not> has (options v) VOL_OPTION_ATTRIBUTES) \<and>
      (has (options v) VOL_OPTION_IS_HOME \<longrightarrow> has (options v) VOL_OPTION_REMOUNT))"

definition vols_ok :: "volumes \<Rightarrow> bool" where
  "vols_ok vs =
     (used_nw_volumes vs \<le> length (nw_volumes vs) \<and>
      (\<forall>i < used_nw_volumes vs. vol_sound (nw_volumes vs ! i)))"

lemma find_map_lower: "find_map dnm mps k = Some j \<Longrightarrow> k \<le> j \<and> j - k < length mps"
  by (induction mps arbitrary: k) (auto split: if_splits, fastforce+)

lemma find_map_nth:
  "find_map dnm mps k = Some j \<Longrightarrow> mps ! (j - k) = dnm"
proof (induction mps arbitrary: k)
  case (Cons mp mps)
  show ?case
  proof (cases "dnm_dev mp = dnm_dev dnm \<and> dnm_namespace mp = dnm_namespace dnm")
    case True
    with Cons.prems show ?thesis by (simp add: DEV_NAMESPACE_MAP.equality)
  next
    case False
    with Cons.prems have "find_map dnm mps (Suc k) = Some j" by auto
    with Cons.IH [of "Suc k"] find_map_lower [of dnm mps "Suc k" j] show ?thesis
      by (metis Suc_diff_le diff_Suc_Suc nth_Cons_Suc)
  qed
qed simp

lemma look_map_spec:
  assumes "look_name_space_map v dnm b = (r, v')"
  shows "\<exists>xs. dev_namespace_maps v' = dev_namespace_maps v @ xs \<and>
      v' = v\<lparr>dev_namespace_maps := dev_namespace_maps v @ xs\<rparr> \<and>
      (length (dev_namespace_maps v) \<le> max_maps_count v \<longrightarrow> length (dev_namespace_maps v') \<le> max_maps_count v)"
    and "r > -1 \<Longrightarrow> nat r < length (dev_namespace_maps v') \<and> dev_namespace_maps v' ! nat r = dnm"
  using assms find_map_lower [of dnm "dev_namespace_maps v" 0] find_map_nth [of dnm "dev_namespace_maps v" 0]
  by (auto simp: look_name_space_map_def split: option.splits if_splits)

text \<open>What a call leaves of a volume: everything but the maps, which only grow at their end.\<close>

definition extends :: "NW_VOL \<Rightarrow> NW_VOL \<Rightarrow> bool" where
  "extends v v' = (\<exists>xs. v' = v\<lparr>dev_namespace_maps := dev_namespace_maps v @ xs\<rparr> \<and>
     (length (dev_namespace_maps v) \<le> max_maps_count v \<longrightarrow> length (dev_namespace_maps v @ xs) \<le> max_maps_count v))"

lemma extends_refl: "extends v v"
  unfolding extends_def by (rule exI [of _ "[]"]) simp

lemma extends_trans: "extends u v \<Longrightarrow> extends v w \<Longrightarrow> extends u w"
  unfolding extends_def by fastforce

lemma extends_sound: "extends v v' \<Longrightarrow> vol_sound v \<Longrightarrow> vol_sound v'"
  by (auto simp: extends_def vol_sound_def vol_ok_def)

lemma inode_to_handle_extends: "extends v (snd (vol_inode_to_handle v inode dnm))"
proof -
  obtain r v' where l: "look_name_space_map v dnm True = (r, v')" by fastforce
  have "extends v v'" using look_map_spec(1) [OF l] unfolding extends_def by auto
  then show ?thesis by (simp add: vol_inode_to_handle_def l extends_refl)
qed


lemma take_bit_small: "unat (i :: 'a::len word) < 2 ^ n \<Longrightarrow> take_bit n i = i"
  by (metis take_bit_nat_eq_self unsigned_take_bit_eq word_unat_eq_iff)

lemma bit_small: "unat (i :: 'a::len word) < 2 ^ n \<Longrightarrow> bit i k \<Longrightarrow> k < n"
  by (metis bit_take_bit_iff take_bit_small)

lemma unat_ucast_u64: "unat (ucast (h :: u32) :: u64) = unat h"
  using unsigned_less [of h, where 'a = nat] by (simp add: unsigned_ucast_eq take_bit_nat_eq_self)

lemma ucast_ucast_u64:
  assumes "unat (i :: u64) < 2 ^ 32" shows "ucast (ucast i :: u32) = i"
  using bit_small [OF assms] by (auto intro!: bit_word_eqI simp: bit_simps)

lemma unat_ucast_u32: 
  assumes "unat (i :: u64) < 2 ^ 32" shows "unat (ucast i :: u32) = unat i"
  using ucast_ucast_u64 [OF assms] unat_ucast_u64 by metis

lemma handle_low: "unat i < 2 ^ 28 \<Longrightarrow> (push_bit 28 r OR i) AND mask 28 = (i :: u32)"
  using bit_small [of i 28] by (auto intro!: bit_word_eqI simp: bit_simps)

lemma handle_high:
  "unat i < 2 ^ 28 \<Longrightarrow> drop_bit 28 (push_bit 28 r OR i) AND mask 4 = (r AND mask 4 :: u32)"
proof -
  assume "unat i < 2 ^ 28"
  then have "\<not> bit i (28 + n)" for n using bit_small [of i 28 "28 + n"] by auto
  then show ?thesis by (auto intro!: bit_word_eqI simp: bit_simps)
qed

lemma and_all_ones: "h AND 0xffffffff = (h :: u32)"
proof -
  have "(0xffffffff :: u32) = -1" by simp
  then show ?thesis by (simp only: bit.conj_one_right)
qed
    
lemma mask_28: "(mask 28 :: u32) = 0xfffffff" "(mask 4 :: u32) = 0xf"
  by (simp_all add: mask_eq_exp_minus_1)

lemma index_and_15: assumes "r < 16" shows "unat ((word_of_nat r :: u32) AND 0xf) = r"
proof -
  have "unat (word_of_nat r :: u32) = r" using assms by (subst unat_of_nat) simp
  then show ?thesis using assms by (simp add: take_bit_small flip: mask_28 take_bit_eq_mask)
qed

text \<open>A handle that was issued names the inode and the map entry it was issued for.\<close>

lemma issued_handle:
  assumes "vol_ok v" and "vol_inode_to_handle v inode dnm = (h, v')" and "h \<noteq> 0"
  shows "(let entry = (if has (options v') VOL_OPTION_ONE_DEV then 0 else unat (drop_bit 28 h AND 0xf))
    in entry < length (dev_namespace_maps v') \<and> dev_namespace_maps v' ! entry = dnm \<and>
       ucast (h AND high_inode v') = inode)"
proof -
  obtain r w where l: "look_name_space_map v dnm True = (r, w)" by fastforce
  from assms(2,3) l have inode: "inode \<le> ucast (high_inode v)" and r: "r > -1" and v': "v' = w"
    and h: "h = (if has (options v) VOL_OPTION_ONE_DEV then ucast inode
                 else push_bit 28 (word_of_int r) OR ucast inode)"
    by (auto simp: vol_inode_to_handle_def split: if_splits)
  obtain xs where w: "w = v\<lparr>dev_namespace_maps := dev_namespace_maps v @ xs\<rparr>"
    and len: "length (dev_namespace_maps w) \<le> max_maps_count v"
    using look_map_spec(1) [OF l] assms(1) by (auto simp: vol_ok_def)
  have idx: "nat r < length (dev_namespace_maps w)" "dev_namespace_maps w ! nat r = dnm"
    using look_map_spec(2) [OF l r] by auto
  have le: "unat inode \<le> unat (high_inode v)" using inode by (simp add: word_le_nat_alt unat_ucast_u64)
  show ?thesis
  proof (cases "has (options v) VOL_OPTION_ONE_DEV")
    case True
    then have "r = 0" and "unat inode < 2 ^ 32"
      using idx len r assms(1) le unsigned_less [of "high_inode v", where 'a = nat] by (auto simp: vol_ok_def)
    moreover have "h AND high_inode v = h" using assms(1) True and_all_ones by (simp add: vol_ok_def) 
    ultimately show ?thesis using True idx h v' w by (simp add: ucast_ucast_u64)
  next
    case False
    then have small: "unat inode < 2 ^ 28" and r16: "nat r < 16"
      using idx len assms(1) le by (auto simp: vol_ok_def)
    then have s32: "unat inode < 2 ^ 32" by simp
    have i28: "unat (ucast inode :: u32) < 2 ^ 28" using small unat_ucast_u32 [OF s32] by simp
    have rw: "word_of_int r = (word_of_nat (nat r) :: u32)" using r by simp
    have "h AND high_inode v = ucast inode"
      using False assms(1) h handle_low [OF i28] by (simp add: vol_ok_def mask_28)
    moreover have "unat (drop_bit 28 h AND 0xf) = nat r"
      using False h handle_high [OF i28, of "word_of_nat (nat r)"] index_and_15 [OF r16] rw
      by (simp add: mask_28)
    ultimately show ?thesis using False idx v' w ucast_ucast_u64 [OF s32] by simp
  qed
qed

lemma put_vol_simps [simp]:
  "used_nw_volumes (put_vol n v vs) = used_nw_volumes vs"
  "valid_vol (put_vol n v vs) m = valid_vol vs m"
  "length (nw_volumes (put_vol n v vs)) = length (nw_volumes vs)"
  by (simp_all add: put_vol_def valid_vol_def)

lemma vol_at_put:
  "vols_ok vs \<Longrightarrow> valid_vol vs n \<Longrightarrow> valid_vol vs m \<Longrightarrow>
     vol_at (put_vol n v vs) m = (if n = m then v else vol_at vs m)"
  by (auto simp: vol_at_def put_vol_def valid_vol_def vols_ok_def nth_list_update nat_eq_iff)

lemma vol_at_sound: "vols_ok vs \<Longrightarrow> valid_vol vs n \<Longrightarrow> vol_sound (vol_at vs n)"
  by (auto simp: vols_ok_def valid_vol_def vol_at_def)

text \<open>A later table: the same volumes, each with at least the maps it had.\<close>

definition later :: "volumes \<Rightarrow> volumes \<Rightarrow> bool" where
  "later vs vs' = ((\<forall>n. valid_vol vs' n = valid_vol vs n) \<and>
     (\<forall>n. valid_vol vs n \<longrightarrow> extends (vol_at vs n) (vol_at vs' n)))"

lemma inode_to_handle_later:
  assumes "vols_ok vs"
  shows "later vs (snd (nw_vol_inode_to_handle vs volume inode dnm))"
    and "vols_ok (snd (nw_vol_inode_to_handle vs volume inode dnm))"
proof -
  obtain h v where v: "vol_inode_to_handle (vol_at vs volume) inode dnm = (h, v)" by fastforce
  have ext: "extends (vol_at vs volume) v" using inode_to_handle_extends v by (metis snd_conv)
  show "later vs (snd (nw_vol_inode_to_handle vs volume inode dnm))"
    using assms v ext by (auto simp: nw_vol_inode_to_handle_def later_def vol_at_put extends_refl)
  show "vols_ok (snd (nw_vol_inode_to_handle vs volume inode dnm))"
  proof (cases "valid_vol vs volume")
    case True
    then have "vol_sound v" using extends_sound [OF ext] vol_at_sound [OF assms] by blast
    with assms True v show ?thesis
      by (auto simp: nw_vol_inode_to_handle_def vols_ok_def put_vol_def valid_vol_def nth_list_update)
  qed (use assms in \<open>simp add: nw_vol_inode_to_handle_def\<close>)
qed

lemma later_handle:
  assumes "later vs vs'" and "nw_vol_handle_to_inode vs volume h = Some r"
  shows "nw_vol_handle_to_inode vs' volume h = Some r"
proof -
  have val: "valid_vol vs volume" using assms(2) by (auto simp: nw_vol_handle_to_inode_def split: if_splits)
  with assms(1) obtain xs where "vol_at vs' volume = (vol_at vs volume)
      \<lparr>dev_namespace_maps := dev_namespace_maps (vol_at vs volume) @ xs\<rparr>"
    by (auto simp: later_def extends_def)
  with assms val show ?thesis
    by (auto simp: nw_vol_handle_to_inode_def later_def Let_def nth_append split: if_splits)
qed

lemma handle_roundtrip_now:
  assumes "vols_ok vs" and "nw_vol_inode_to_handle vs volume inode dnm = (h, vs')" and "h \<noteq> 0"
  shows "nw_vol_handle_to_inode vs' volume h = Some (inode, dnm)"
proof -
  have val: "valid_vol vs volume" using assms(2,3) by (auto simp: nw_vol_inode_to_handle_def split: if_splits)
  obtain v where v: "vol_inode_to_handle (vol_at vs volume) inode dnm = (h, v)"
    and vs': "vs' = put_vol volume v vs"
    using assms(2) val by (auto simp: nw_vol_inode_to_handle_def split: prod.splits)
  have "vol_ok (vol_at vs volume)" using vol_at_sound [OF assms(1) val] by (simp add: vol_sound_def)
  from issued_handle [OF this v assms(3)] val assms(1,3) show ?thesis
    by (simp add: nw_vol_handle_to_inode_def vs' vol_at_put Let_def word_gt_0)
qed

section \<open>The configuration and the login establish it\<close>

lemma volume_to_namespace_map_sound:
  "vol_sound v \<Longrightarrow> vol_sound (volume_to_namespace_map fs v)"
proof -
  assume v: "vol_sound v"
  have "vol_sound (v\<lparr>v_dev := d, v_inode := i\<rparr>)" for d i
    using v by (simp add: vol_sound_def vol_ok_def)
  then show ?thesis using v extends_sound [OF inode_to_handle_extends]
    by (auto simp: volume_to_namespace_map_def split: option.splits)
qed

lemma volume_to_namespace_map_fields:
  "options (volume_to_namespace_map fs v) = options v \<and> unixname (volume_to_namespace_map fs v) = unixname v \<and>
   max_maps_count (volume_to_namespace_map fs v) = max_maps_count v \<and>
   high_inode (volume_to_namespace_map fs v) = high_inode v \<and>
   (length (dev_namespace_maps v) \<le> max_maps_count v \<longrightarrow>
     length (dev_namespace_maps (volume_to_namespace_map fs v)) \<le> max_maps_count v)"
proof (cases "fs_stat fs (unixname v)")
  case (Some st)
  have "extends (v\<lparr>v_dev := st_dev st, v_inode := st_ino st\<rparr>) (volume_to_namespace_map fs v)"
    using inode_to_handle_extends by (simp add: volume_to_namespace_map_def Some)
  then show ?thesis by (auto simp: extends_def)
qed (simp add: volume_to_namespace_map_def)

lemma add_slash_last: "add_slash s = [] \<or> last (add_slash s) = 47"
  by (auto simp: add_slash_def)

lemma has_bit: "has w (2 ^ n) \<longleftrightarrow> bit w n"
  by (simp add: has_def and_exp_eq_0_iff_not_bit)

lemmas has_bits = has_bit [of _ 2, simplified] has_bit [of _ 3, simplified] has_bit [of _ 4, simplified]
  has_bit [of _ 7, simplified] has_bit [of _ 8, simplified] has_bit [of _ 9, simplified]

lemma set_clear_bits:
  "x OR 0x0004 = set_bit 2 (x :: u32)" "x AND NOT 0x0100 = unset_bit 8 (x :: u32)"
  "x AND NOT 0x0400 = unset_bit 10 (x :: u32)" "x AND NOT 0x0200 = unset_bit 9 (x :: u32)"
  by (simp_all add: set_bit_eq_or unset_bit_eq_and_not)

lemma check_options_has:
  "has (check_options opts) VOL_OPTION_ONE_DEV = has opts VOL_OPTION_ONE_DEV"
  "has (check_options opts) VOL_OPTION_NO_INODES \<Longrightarrow>
     \<not> has (check_options opts) VOL_OPTION_TRUSTEES \<and> \<not> has (check_options opts) VOL_OPTION_ATTRIBUTES"
  "has (check_options opts) VOL_OPTION_IS_HOME \<Longrightarrow> has (check_options opts) VOL_OPTION_REMOUNT"
  unfolding check_options_def Let_def set_clear_bits has_bits
  by (auto simp: bit_simps split: if_splits)

lemma read_vol_fields:
  fixes ct vol ws
  defines "v \<equiv> read_vol ct vol ws"
  shows "unixname v = [] \<or> last (unixname v) = 47" and "vol_ok (v\<lparr>dev_namespace_maps := []\<rparr>)"
    and "dev_namespace_maps v = dev_namespace_maps vol"
proof -
  obtain is_home path addon where p: "volume_path (ws ! 1) = (is_home, path, addon)"
    by (cases "volume_path (ws ! 1)")
  then have "path = [] \<or> last path = 47"
    using add_slash_last [of "ws ! 1"] by (auto simp: volume_path_def split: if_splits)
  then show "unixname v = [] \<or> last (unixname v) = 47" unfolding v_def read_vol_def p Let_def case_prod_conv by simp
  show "vol_ok (v\<lparr>dev_namespace_maps := []\<rparr>)"
    unfolding v_def read_vol_def p Let_def case_prod_conv
    by (simp add: vol_ok_def MAX_DEV_NAMESPACE_MAPS_def)
  show "dev_namespace_maps v = dev_namespace_maps vol" unfolding v_def read_vol_def p Let_def case_prod_conv by simp
qed

lemma checked_sound:
  "vol_ok w \<Longrightarrow> unixname w = [] \<or> last (unixname w) = 47 \<Longrightarrow>
     vol_sound (w\<lparr>options := check_options (options w)\<rparr>)"
  using check_options_has [of "options w"] by (simp add: vol_sound_def vol_ok_def)

lemma umode_irrelevant:
  "vol_sound (w\<lparr>umode_dir := a, umode_file := b\<rparr>) = vol_sound w"
  by (simp add: vol_sound_def vol_ok_def)

lemma init_vol_sound:
  assumes "dev_namespace_maps vol = []" shows "vol_sound (init_vol fs ct vol ws)"
proof -
  let ?v = "read_vol ct vol ws"
  let ?w = "if unixname ?v \<noteq> [] then volume_to_namespace_map fs ?v else ?v"
  have maps: "?v\<lparr>dev_namespace_maps := []\<rparr> = ?v" using read_vol_fields(3) [of ct vol ws] assms by simp
  have "vol_ok ?v" using read_vol_fields(2) [of ct vol ws] maps by simp
  then have "vol_ok ?w" using volume_to_namespace_map_fields [of fs ?v]
    by (cases "has (options ?v) VOL_OPTION_ONE_DEV") (simp_all add: vol_ok_def)
  moreover have "unixname ?w = [] \<or> last (unixname ?w) = 47"
    using read_vol_fields(1) [of ct vol ws] volume_to_namespace_map_fields [of fs ?v] by auto
  ultimately have "vol_sound (?w\<lparr>options := check_options (options ?w)\<rparr>)" by (rule checked_sound)
  then show ?thesis by (simp only: init_vol_def Let_def)
qed

definition home_ok :: "NW_VOL \<Rightarrow> bool" where
  "home_ok v = (homeaddon v = [] \<or> last (homeaddon v) = 47)"

lemma extends_home: "extends v v' \<Longrightarrow> home_ok v' = home_ok v"
  by (auto simp: extends_def home_ok_def)

lemma volume_to_namespace_map_home: "home_ok (volume_to_namespace_map fs v) = home_ok v"
proof (cases "fs_stat fs (unixname v)")
  case (Some st)
  have "extends (v\<lparr>v_dev := st_dev st, v_inode := st_ino st\<rparr>) (volume_to_namespace_map fs v)"
    using inode_to_handle_extends by (simp add: volume_to_namespace_map_def Some)
  then show ?thesis by (auto simp: extends_def home_ok_def)
qed (simp add: volume_to_namespace_map_def)

lemma volume_path_home: "volume_path name = (h, p, a) \<Longrightarrow> a = [] \<or> last a = 47"
  using add_slash_last [of name] by (auto simp: volume_path_def add_slash_def split: if_splits)

lemma init_vol_home: assumes "home_ok vol" shows "home_ok (init_vol fs ct vol ws)"
proof -
  obtain is_home path addon where p: "volume_path (ws ! 1) = (is_home, path, addon)"
    by (cases "volume_path (ws ! 1)")
  have "home_ok (read_vol ct vol ws)"
    using assms volume_path_home [OF p] unfolding read_vol_def p Let_def case_prod_conv by (auto simp: home_ok_def)
  moreover have "home_ok (w\<lparr>options := x\<rparr>) = home_ok w" for w x by (simp add: home_ok_def)
  ultimately show ?thesis by (simp add: init_vol_def Let_def volume_to_namespace_map_home)
qed

definition vols_inv :: "volumes \<Rightarrow> bool" where
  "vols_inv vs = (vols_ok vs \<and> (\<forall>i < length (nw_volumes vs). home_ok (nw_volumes vs ! i)))"

definition init_inv :: "volumes \<Rightarrow> bool" where
  "init_inv vs = (vols_inv vs \<and>
     (\<forall>i < length (nw_volumes vs). used_nw_volumes vs \<le> i \<longrightarrow> dev_namespace_maps (nw_volumes vs ! i) = []))"

lemma init_entry_inv: "init_inv vs \<Longrightarrow> init_inv (init_entry fs ct e vs)"
  using init_vol_sound [of "nw_volumes vs ! used_nw_volumes vs"] init_vol_home [of "nw_volumes vs ! used_nw_volumes vs"]
  by (cases e)
    (auto simp: init_entry_def init_inv_def vols_inv_def vols_ok_def put_vol_def Let_def less_Suc_eq nth_list_update)

lemma init_entries_inv: "init_inv vs \<Longrightarrow> init_inv (fold (init_entry fs ct) es vs)"
  by (induction es arbitrary: vs) (simp_all add: init_entry_inv)

lemma nw_init_volumes_inv:
  assumes "\<forall>vs. old = Some vs \<longrightarrow> vols_inv vs" shows "vols_inv (nw_init_volumes fs ct n f old)"
proof -
  have "init_inv (nw_init_volumes fs ct n f old)"
    unfolding nw_init_volumes_def Let_def
    by (rule init_entries_inv)
      (use assms in \<open>auto simp: init_inv_def vols_inv_def vols_ok_def empty_vol_def free_vol_trustee_def
         home_ok_def split: option.splits\<close>)
  then show ?thesis by (simp add: init_inv_def)
qed

lemma setup_vol_sound:
  assumes "vol_sound v" and "home = [] \<or> last home = 47" and "home_ok v"
  shows "vol_sound (setup_vol fs home ud uf v) \<and> home_ok (setup_vol fs home ud uf v)"
proof -
  let ?n = "if home \<noteq> [] \<and> homeaddon v \<noteq> []
    then if length home + length (homeaddon v) > 256 then [] else home @ homeaddon v else home"
  let ?v2 = "v\<lparr>dev_namespace_maps := [], unixname := ?n\<rparr>"
  let ?v1 = "if has (options v) VOL_OPTION_IS_HOME
    then if ?n \<noteq> [] then volume_to_namespace_map fs ?v2 else ?v2 else v"
  have "?n = [] \<or> last ?n = 47" using assms by (auto simp: home_ok_def)
  then have "vol_sound ?v2" using assms(1) by (simp add: vol_sound_def vol_ok_def)
  moreover have "home_ok ?v2" using assms(3) by (simp add: home_ok_def)
  ultimately have "vol_sound ?v1" "home_ok ?v1"
    using assms volume_to_namespace_map_sound volume_to_namespace_map_home by auto
  moreover have "home_ok (w\<lparr>umode_dir := a, umode_file := b\<rparr>) = home_ok w" for w a b
    by (simp add: home_ok_def)
  ultimately show ?thesis by (simp only: setup_vol_def Let_def umode_irrelevant)
qed

lemma setup_inv:
  assumes "vols_inv vs" shows "vols_inv (nw_setup_vol_opts fs pw ud uf login vs)"
  using assms setup_vol_sound [OF _ add_slash_last]
  by (auto simp: vols_inv_def vols_ok_def nw_setup_vol_opts_def Let_def nth_append min_def)

inductive vols_reachable :: "volumes \<Rightarrow> bool" where
  first_init: "vols_reachable (nw_init_volumes fs ct n f None)"
| next_init: "vols_reachable vs \<Longrightarrow> vols_reachable (nw_init_volumes fs ct n f (Some vs))"
| login: "vols_reachable vs \<Longrightarrow> vols_reachable (nw_setup_vol_opts fs pw ud uf name vs)"
| handle: "vols_reachable vs \<Longrightarrow> vols_reachable (snd (nw_vol_inode_to_handle vs volume inode dnm))"

lemma handle_inv:
  assumes "vols_inv vs" shows "vols_inv (snd (nw_vol_inode_to_handle vs volume inode dnm))"
proof -
  have "home_ok (snd (vol_inode_to_handle v inode dnm)) = home_ok v" for v
    by (rule extends_home [OF inode_to_handle_extends])
  then show ?thesis using assms inode_to_handle_later(2) [of vs volume inode dnm]
    by (auto simp: vols_inv_def nw_vol_inode_to_handle_def put_vol_def valid_vol_def vols_ok_def vol_at_def
        nth_list_update split: prod.splits) (metis snd_conv)
qed

lemma vols_reachable_inv: "vols_reachable vs \<Longrightarrow> vols_inv vs"
  by (induction rule: vols_reachable.induct) (simp_all add: nw_init_volumes_inv setup_inv handle_inv)

section \<open>Properties\<close>

text \<open>C17. Handles are sound: whatever configuration was read, whoever logged in and whatever
  handles were given out before, a handle that \<^verbatim>\<open>nw_vol_inode_to_handle\<close> gives out is turned back
  by \<^verbatim>\<open>nw_vol_handle_to_inode\<close> into the inode, device and name space it was made for, also after
  any number of further handles on any volumes.\<close>

fun issue_handles :: "(int \<times> u64 \<times> DEV_NAMESPACE_MAP) list \<Rightarrow> volumes \<Rightarrow> volumes" where
  "issue_handles [] vs = vs"
| "issue_handles ((volume, inode, dnm) # rs) vs =
     issue_handles rs (snd (nw_vol_inode_to_handle vs volume inode dnm))"

lemma issue_handles_keep:
  "vols_ok vs \<Longrightarrow> nw_vol_handle_to_inode vs volume h = Some r \<Longrightarrow>
     nw_vol_handle_to_inode (issue_handles rs vs) volume h = Some r"
  by (induction rs vs rule: issue_handles.induct)
    (auto intro: later_handle inode_to_handle_later)

theorem handle_names_inode:
  assumes "vols_reachable vs" and "nw_vol_inode_to_handle vs volume inode dnm = (h, vs')" and "h \<noteq> 0"
  shows "nw_vol_handle_to_inode (issue_handles rs vs') volume h = Some (inode, dnm)"
proof -
  have ok: "vols_ok vs" using vols_reachable_inv [OF assms(1)] by (simp add: vols_inv_def)
  have "vols_ok vs'" using inode_to_handle_later(2) [OF ok, of volume inode dnm] assms(2) by simp
  from issue_handles_keep [OF this handle_roundtrip_now [OF ok assms(2,3)]] show ?thesis .
qed


definition example_fs :: fsview where
  "example_fs = \<lparr>fs_stat = (\<lambda>_. Some \<lparr>st_dev = 8, st_ino = 2, st_mode = 0x41ed, st_uid = 0, st_gid = 0\<rparr>),
     fs_lstat = (\<lambda>_. None), fs_access = (\<lambda>_ _. True)\<rparr>"

definition example_vols :: volumes where
  "example_vols = nw_init_volumes example_fs None 2 [cstr ''1 SYS /sys kn'' @ [10], cstr ''1 HOME ~/pub ot'' @ [10]] None"

theorem handle_names_inode_witness:
  "nw_vol_handle_to_inode (issue_handles [(0, 9, \<lparr>dnm_dev = 9, dnm_namespace = 0\<rparr>)]
      (snd (nw_vol_inode_to_handle example_vols 0 77 \<lparr>dnm_dev = 8, dnm_namespace = 4\<rparr>))) 0 0x1000004d
   = Some (77, \<lparr>dnm_dev = 8, dnm_namespace = 4\<rparr>)"
proof -
  have "vols_reachable example_vols" unfolding example_vols_def by (rule first_init)
  moreover have "fst (nw_vol_inode_to_handle example_vols 0 77 \<lparr>dnm_dev = 8, dnm_namespace = 4\<rparr>) = 0x1000004d"
    by code_simp
  ultimately show ?thesis by (intro handle_names_inode [of example_vols]) (simp_all add: prod_eq_iff)
qed

text \<open>C18. Every volume of the table is usable: its directory is empty or ends in a slash, the
  name-space maps never exceed the sixteen entries a handle can number (one on a single-device
  volume), a volume without stable inodes has neither trustees nor attributes, and a home volume can
  be remounted.\<close>

theorem volume_table_sound:
  assumes "vols_reachable vs" and "valid_vol vs n"
  shows "(unixname (vol_at vs n) = [] \<or> last (unixname (vol_at vs n)) = 47) \<and>
    length (dev_namespace_maps (vol_at vs n)) \<le> (if has (get_volume_options vs n) VOL_OPTION_ONE_DEV then 1 else 16) \<and>
    (has (get_volume_options vs n) VOL_OPTION_NO_INODES \<longrightarrow>
      \<not> has (get_volume_options vs n) VOL_OPTION_TRUSTEES \<and> \<not> has (get_volume_options vs n) VOL_OPTION_ATTRIBUTES) \<and>
    (has (get_volume_options vs n) VOL_OPTION_IS_HOME \<longrightarrow> has (get_volume_options vs n) VOL_OPTION_REMOUNT)"
  using vols_reachable_inv [OF assms(1)] vol_at_sound [of vs n] assms(2)
  by (auto simp: vols_inv_def vol_sound_def vol_ok_def get_volume_options_def split: if_splits)

theorem volume_table_sound_witness:
  "length (dev_namespace_maps (vol_at example_vols 0)) \<le> 16 \<and>
   \<not> has (get_volume_options example_vols 0) VOL_OPTION_ATTRIBUTES"
proof -
  have "vols_reachable example_vols" unfolding example_vols_def by (rule first_init)
  moreover have "valid_vol example_vols 0" by code_simp
  moreover have "has (get_volume_options example_vols 0) VOL_OPTION_NO_INODES" by code_simp
  moreover have "\<not> has (get_volume_options example_vols 0) VOL_OPTION_ONE_DEV" by code_simp
  ultimately show ?thesis using volume_table_sound [of example_vols 0] by simp
qed

end
