(* ===== verification/Trustee.thy ===== *)
theory Trustee
  imports Volume
begin

text \<open>Access rights: \<^verbatim>\<open>src/trustee.c\<close> with the Unix rights of \<^verbatim>\<open>src/connect.c\<close>.  The theory
  holds the trustee entries on disk, the cache of trustee nodes, the computation of a user's
  effective rights along a path, and the operations that read and change trustees and inherited
  rights masks.  Nodes live on a heap of their own: the cache holds addresses, freeing a node takes
  it off the heap, and an operation that follows an address that was freed has no result
  (\<open>None\<close>).\<close>

section \<open>Rights from the Unix side (connect.c, un\_nw\_rights)\<close>

abbreviation TRUSTEE_R :: u32 where "TRUSTEE_R \<equiv> 0x01"
abbreviation TRUSTEE_W :: u32 where "TRUSTEE_W \<equiv> 0x02"
abbreviation TRUSTEE_O :: u32 where "TRUSTEE_O \<equiv> 0x04"
abbreviation TRUSTEE_C :: u32 where "TRUSTEE_C \<equiv> 0x08"
abbreviation TRUSTEE_E :: u32 where "TRUSTEE_E \<equiv> 0x10"
abbreviation TRUSTEE_A :: u32 where "TRUSTEE_A \<equiv> 0x20"
abbreviation TRUSTEE_F :: u32 where "TRUSTEE_F \<equiv> 0x40"
abbreviation TRUSTEE_M :: u32 where "TRUSTEE_M \<equiv> 0x80"
abbreviation TRUSTEE_S :: u32 where "TRUSTEE_S \<equiv> 0x100"
abbreviation TRUSTEE_T :: u32 where "TRUSTEE_T \<equiv> 0x200"
abbreviation MAX_TRUSTEE_MASK :: u32 where "MAX_TRUSTEE_MASK \<equiv> 0x1ff"

abbreviation R_OK :: u32 where "R_OK \<equiv> 4"
abbreviation W_OK :: u32 where "W_OK \<equiv> 2"
abbreviation X_OK :: u32 where "X_OK \<equiv> 1"

record user =
  act_uid :: int
  act_gid :: int
  act_grouplist :: "int list"
  act_obj_id :: u32
  act_id_flags :: u32
  default_uid :: int

definition in_act_groups :: "user \<Rightarrow> int \<Rightarrow> bool" where
  "in_act_groups u gid = (gid \<in> set (act_grouplist u))"

text \<open>The three permission bits of a class, \<open>sh\<close> bits from the right: read 4, write 2, execute 1
  (the values of \<^verbatim>\<open>R_OK\<close>, \<^verbatim>\<open>W_OK\<close>, \<^verbatim>\<open>X_OK\<close>).\<close>

definition class_bits :: "nat \<Rightarrow> u32 \<Rightarrow> u32" where
  "class_bits sh m =
     (if has m (push_bit sh 1) then X_OK else 0) OR
     (if has m (push_bit (sh + 2) 1) then R_OK else 0) OR
     (if has m (push_bit (sh + 1) 1) then W_OK else 0)"

definition get_unix_eff_rights :: "user \<Rightarrow> stat \<Rightarrow> u32" where
  "get_unix_eff_rights u stb =
     (if act_uid u = 0 then 0x10 OR R_OK OR W_OK OR X_OK
      else if act_uid u = st_uid stb then 0x10 OR class_bits 6 (st_mode stb)
      else if act_gid u = st_gid stb \<or> in_act_groups u (st_gid stb) then 0x20 OR class_bits 3 (st_mode stb)
      else class_bits 0 (st_mode stb))"

text \<open>\<open>fs_access\<close> is the kernel's answer to \<^verbatim>\<open>access\<close> for the real ids of the user, which the
  code sets around the calls.\<close>

definition get_unix_access_rights :: "fsview \<Rightarrow> cstring \<Rightarrow> u32" where
  "get_unix_access_rights fs name =
     (if fs_access fs name 0 then
        (if fs_access fs name R_OK then R_OK else 0) OR
        (if fs_access fs name W_OK then W_OK OR 0x20 else 0) OR
        (if fs_access fs name X_OK then X_OK else 0)
      else 0)"

fun back_while :: "(u8 \<Rightarrow> bool) \<Rightarrow> cstring \<Rightarrow> nat \<Rightarrow> nat" where
  "back_while P s 0 = 0"
| "back_while P s (Suc i) = (if P (s ! Suc i) then back_while P s i else Suc i)"

definition parent_end :: "cstring \<Rightarrow> nat" where
  "parent_end s =
     back_while (\<lambda>c. c = 47) s (back_while (\<lambda>c. c \<noteq> 47) s (back_while (\<lambda>c. c = 47) s (length s - 1)))"

definition unix_access :: "user \<Rightarrow> fsview \<Rightarrow> u32 \<Rightarrow> stat \<Rightarrow> cstring \<Rightarrow> u32" where
  "unix_access u fs voloptions stb name =
     (if has voloptions VOL_OPTION_UNX_RIGHT then get_unix_access_rights fs name
      else get_unix_eff_rights u stb)"

text \<open>Access to the parent directory; \<open>None\<close> is \<^verbatim>\<open>isaccp == 0\<close>.\<close>

definition parent_access :: "user \<Rightarrow> fsview \<Rightarrow> u32 \<Rightarrow> cstring \<Rightarrow> stat \<Rightarrow> u32 option" where
  "parent_access u fs voloptions name stb =
     (if name = [] then None
      else let p = parent_end name
           in if p > 0 then
                let parent = take (p + 1) name
                in case fs_stat fs parent of
                     None \<Rightarrow> None
                   | Some stbp \<Rightarrow>
                       if st_dev stbp = st_dev stb \<and> st_ino stbp = st_ino stb \<or> \<not> S_ISDIR (st_mode stbp)
                       then None else Some (unix_access u fs voloptions stbp parent)
              else (case fs_stat fs [47, 46] of
                      None \<Rightarrow> None
                    | Some stbp \<Rightarrow> Some (unix_access u fs voloptions stbp [47, 46])))"

definition norights_parent :: "bool \<Rightarrow> u32 option \<Rightarrow> u32" where
  "norights_parent is_dir accp =
     (case accp of
        None \<Rightarrow> 0xff
      | Some a \<Rightarrow>
          let n = (if \<not> has a X_OK then 0xff
                   else if \<not> has a W_OK then TRUSTEE_A OR TRUSTEE_E OR TRUSTEE_M else TRUSTEE_A)
          in if \<not> is_dir \<and> \<not> has a R_OK then n OR TRUSTEE_F else n)"

definition norights_volume :: "u32 \<Rightarrow> bool \<Rightarrow> bool \<Rightarrow> u32 \<Rightarrow> u32 \<Rightarrow> u32" where
  "norights_volume voloptions is_dir is_pipe_command acc n =
     (if has voloptions VOL_OPTION_READONLY then n OR TRUSTEE_E OR TRUSTEE_M OR TRUSTEE_C
      else if (acc = 0 \<or> is_dir \<or> is_pipe_command) \<and> \<not> has acc X_OK then 0xff
      else if is_pipe_command then n OR TRUSTEE_E OR TRUSTEE_M OR TRUSTEE_C
      else n)"

definition norights_file :: "bool \<Rightarrow> u32 \<Rightarrow> bool \<Rightarrow> u32 \<Rightarrow> u32" where
  "norights_file is_dir acc is_default n =
     (let n1 = (if \<not> has acc 0x30 then n OR TRUSTEE_M else n);
          n2 = (if \<not> has acc W_OK
                then (if \<not> has acc 0x10 \<or> is_default then n1 OR TRUSTEE_M else n1)
                       OR TRUSTEE_E OR TRUSTEE_C OR TRUSTEE_W
                else n1)
      in if \<not> has acc R_OK then n2 OR TRUSTEE_R OR (if is_dir then TRUSTEE_F else 0) else n2)"

definition un_nw_rights :: "user \<Rightarrow> fsview \<Rightarrow> u32 \<Rightarrow> cstring \<Rightarrow> stat \<Rightarrow> u32" where
  "un_nw_rights u fs voloptions name stb =
     (let is_pipe_command = (has voloptions VOL_OPTION_IS_PIPE \<and> \<not> S_ISFIFO (st_mode stb))
      in if act_uid u \<noteq> 0 \<or> is_pipe_command \<or> has voloptions VOL_OPTION_READONLY then
           let is_dir = S_ISDIR (st_mode stb);
               acc = unix_access u fs voloptions stb name;
               n = norights_parent is_dir (parent_access u fs voloptions name stb);
               n' = norights_volume voloptions is_dir is_pipe_command acc n
           in 0xff AND NOT (norights_file is_dir acc (st_uid stb = default_uid u) n')
         else 0xff OR TRUSTEE_S)"

section \<open>Trustee nodes, cache and disk\<close>

definition MAX_TRUSTEES :: nat where "MAX_TRUSTEES = 100"
definition MAX_TRUSTEE_CACHE :: nat where "MAX_TRUSTEE_CACHE = 50"

record IDS_TRUSTEE =
  it_id :: u32
  it_trustee :: u32

text \<open>Flag bits of a node: 1 directory, 2 volume root, 4 symbolic link, 8 device changes here,
  16 device differs from the volume's.  \<open>eff_rights\<close> is \<open>-1\<close> until it is computed.\<close>

record FILE_TRUSTEE_NODE =
  tn_volume :: int
  tn_dev :: int
  tn_inode :: u32
  tn_idle :: nat
  mode_flags :: u32
  inherited_mask :: u32
  eff_rights :: u32
  tn_trustees :: "IDS_TRUSTEE list"

text \<open>The files under \<^verbatim>\<open>path_trustees\<close>: per volume name, device and low 32 bits of the inode a
  directory of links from ids to rights (id 0: the inherited rights mask) in the order of
  \<^verbatim>\<open>readdir\<close>, the path of the file, and per volume the serial number of the trustees.\<close>

type_synonym tkey = "cstring \<times> int \<times> u32"

record trustee_disk =
  t_dirs :: "tkey \<Rightarrow> (u32 \<times> u32) list"
  t_names :: "tkey \<Rightarrow> cstring option"
  t_sernum :: "cstring \<Rightarrow> u32 option"

record tru_state =
  tr_cache :: "nat option list"
  nodes :: "nat \<Rightarrow> FILE_TRUSTEE_NODE option"
  next_node :: nat
  grps_grps :: "u32 list"
  tdisk :: trustee_disk
  tvols :: volumes

text \<open>What a request sees of its surroundings: the user, the files, the clock, and whether a link
  can be made.\<close>

record tru_env =
  usr :: user
  files :: fsview
  act_time :: int
  link_ok :: "tkey \<Rightarrow> u32 \<Rightarrow> bool"
  sernum_ok :: bool

definition inode32 :: "u64 \<Rightarrow> u32" where "inode32 i = ucast i"

definition free_trustee_node :: "nat \<Rightarrow> tru_state \<Rightarrow> tru_state" where
  "free_trustee_node a s = s\<lparr>nodes := (nodes s)(a := None)\<rparr>"

fun free_slots :: "int \<Rightarrow> nat \<Rightarrow> tru_state \<Rightarrow> tru_state" where
  "free_slots volume 0 s = s"
| "free_slots volume (Suc i) s = free_slots volume i
     (case tr_cache s ! i of
        None \<Rightarrow> s
      | Some a \<Rightarrow>
          (case nodes s a of
             None \<Rightarrow> s
           | Some tr \<Rightarrow>
               if volume = -1 \<or> tn_volume tr = volume then
                 (free_trustee_node a s)
                   \<lparr>tr_cache := (if i + 1 = length (tr_cache s) then butlast (tr_cache s)
                                 else (tr_cache s)[i := None])\<rparr>
               else s))"

definition tru_free_cache :: "int \<Rightarrow> tru_state \<Rightarrow> tru_state" where
  "tru_free_cache volume s =
     (let s1 = free_slots volume (length (tr_cache s)) s
      in if volume = -1 then s1\<lparr>tr_cache := []\<rparr> else s1)"

text \<open>The ageing loop of \<^verbatim>\<open>add_trustee_node\<close>: largest idle count so far, its slot, first free
  slot.\<close>

fun age_slots :: "nat option list \<Rightarrow> nat \<Rightarrow> (nat \<Rightarrow> FILE_TRUSTEE_NODE option) \<Rightarrow> nat \<Rightarrow> nat option \<Rightarrow>
    nat option \<Rightarrow> (nat \<Rightarrow> FILE_TRUSTEE_NODE option) \<times> nat option \<times> nat option" where
  "age_slots [] i ns max_idle found_idle to_use = (ns, found_idle, to_use)"
| "age_slots (None # cs) i ns max_idle found_idle to_use =
     age_slots cs (Suc i) ns max_idle found_idle (if to_use = None then Some i else to_use)"
| "age_slots (Some a # cs) i ns max_idle found_idle to_use =
     (case ns a of
        None \<Rightarrow> age_slots cs (Suc i) ns max_idle found_idle to_use
      | Some tr \<Rightarrow>
          let idle = tn_idle tr + (if has (mode_flags tr) 1 then 1 else 10)
          in age_slots cs (Suc i) (ns(a \<mapsto> tr\<lparr>tn_idle := idle\<rparr>)) (if idle > max_idle then idle else max_idle)
               (if idle > max_idle then Some i else found_idle) to_use)"

definition add_trustee_node :: "nat \<Rightarrow> tru_state \<Rightarrow> tru_state" where
  "add_trustee_node trn s =
     (let (ns, found_idle, to_use) = age_slots (tr_cache s) 0 (nodes s) 0 None None;
          s1 = s\<lparr>nodes := ns\<rparr>
      in case to_use of
           Some i \<Rightarrow> s1\<lparr>tr_cache := (tr_cache s)[i := Some trn]\<rparr>
         | None \<Rightarrow>
             if length (tr_cache s) < MAX_TRUSTEE_CACHE then s1\<lparr>tr_cache := tr_cache s @ [Some trn]\<rparr>
             else (case found_idle of
                     None \<Rightarrow> s1
                   | Some i \<Rightarrow>
                       (case tr_cache s ! i of None \<Rightarrow> s1 | Some old \<Rightarrow> free_trustee_node old s1)
                         \<lparr>tr_cache := (tr_cache s)[i := Some trn]\<rparr>))"

section \<open>Disk operations\<close>

definition volname :: "tru_state \<Rightarrow> int \<Rightarrow> cstring option" where
  "volname s volume =
     (let (l, name) = nw_get_volume_name (tvols s) volume 100 in if l < 1 then None else Some name)"

definition set_dir :: "tkey \<Rightarrow> (u32 \<times> u32) list \<Rightarrow> tru_state \<Rightarrow> tru_state" where
  "set_dir k es s = s\<lparr>tdisk := (tdisk s)\<lparr>t_dirs := (t_dirs (tdisk s))(k := es)\<rparr>\<rparr>"

definition dir_of :: "tru_state \<Rightarrow> tkey \<Rightarrow> (u32 \<times> u32) list" where
  "dir_of s k = t_dirs (tdisk s) k"

definition creat_trustee_path :: "int \<Rightarrow> int \<Rightarrow> u64 \<Rightarrow> cstring \<Rightarrow> tru_state \<Rightarrow> tru_state" where
  "creat_trustee_path volume dev inode path s =
     (case volname s volume of
        None \<Rightarrow> s
      | Some vn \<Rightarrow> s\<lparr>tdisk := (tdisk s)\<lparr>t_names := (t_names (tdisk s))((vn, dev, inode32 inode) := Some path)\<rparr>\<rparr>)"

definition put_trustee_to_disk ::
  "tru_env \<Rightarrow> int \<Rightarrow> int \<Rightarrow> u64 \<Rightarrow> u32 \<Rightarrow> u32 \<Rightarrow> tru_state \<Rightarrow> int \<times> tru_state" where
  "put_trustee_to_disk env volume dev inode ident trustee s =
     (case volname s volume of
        None \<Rightarrow> (-0xff, s)
      | Some vn \<Rightarrow>
          let k = (vn, dev, inode32 inode); rest = filter (\<lambda>e. fst e \<noteq> ident) (dir_of s k)
          in if link_ok env k ident then (0, set_dir k (rest @ [(ident, trustee)]) s)
             else (-0xff, set_dir k rest s))"

definition get_trustee_from_disk :: "int \<Rightarrow> int \<Rightarrow> u64 \<Rightarrow> u32 \<Rightarrow> tru_state \<Rightarrow> u32 option" where
  "get_trustee_from_disk volume dev inode ident s =
     (case volname s volume of
        None \<Rightarrow> None
      | Some vn \<Rightarrow> map_of (dir_of s (vn, dev, inode32 inode)) ident)"

definition del_trustee_from_disk ::
  "int \<Rightarrow> int \<Rightarrow> u64 \<Rightarrow> u32 \<Rightarrow> tru_state \<Rightarrow> int \<times> tru_state" where
  "del_trustee_from_disk volume dev inode ident s =
     (case volname s volume of
        None \<Rightarrow> (-0xfe, s)
      | Some vn \<Rightarrow>
          let k = (vn, dev, inode32 inode)
          in if map_of (dir_of s k) ident = None then (-0xfe, s)
             else (0, set_dir k (filter (\<lambda>e. fst e \<noteq> ident) (dir_of s k)) s))"

definition read_sernum :: "tru_state \<Rightarrow> cstring \<Rightarrow> u32" where
  "read_sernum s vn = (case t_sernum (tdisk s) vn of None \<Rightarrow> 0 | Some n \<Rightarrow> n)"

definition tru_vol_sernum :: "tru_env \<Rightarrow> int \<Rightarrow> bool \<Rightarrow> tru_state \<Rightarrow> u32 \<times> tru_state" where
  "tru_vol_sernum env volume change s =
     (case volname s volume of
        None \<Rightarrow> (-1, s)
      | Some vn \<Rightarrow>
          let sernum = read_sernum s vn
          in if change then
               let new = (if sernum + 1 = 0xffffffff then 1 else sernum + 1)
               in (new, tru_free_cache volume
                     (s\<lparr>tdisk := (tdisk s)\<lparr>t_sernum := (t_sernum (tdisk s))
                          (vn := (if sernum_ok env then Some new else None))\<rparr>\<rparr>))
             else (sernum, s))"

definition tru_free_file_trustees_from_disk :: "int \<Rightarrow> int \<Rightarrow> u64 \<Rightarrow> tru_state \<Rightarrow> tru_state" where
  "tru_free_file_trustees_from_disk volume dev inode s =
     (case volname s volume of
        None \<Rightarrow> s
      | Some vn \<Rightarrow>
          let k = (vn, dev, inode32 inode)
          in (set_dir k [] s)\<lparr>tdisk := (tdisk (set_dir k [] s))\<lparr>t_names := (t_names (tdisk s))(k := None)\<rparr>\<rparr>)"

section \<open>Finding and creating nodes\<close>

text \<open>\<^verbatim>\<open>vol_trustees_were_changed\<close> of nwvolume.c.\<close>

definition vol_trustees_were_changed :: "tru_env \<Rightarrow> int \<Rightarrow> tru_state \<Rightarrow> bool \<times> tru_state" where
  "vol_trustees_were_changed env volume s =
     (let v = vol_at (tvols s) volume
      in if act_time env > trustee_last_test_time v + 60 then
           let new_sernum = fst (tru_vol_sernum env volume False s)
           in if trustee_sernum v \<noteq> new_sernum then
                let s1 = tru_free_cache volume s
                in (True, s1\<lparr>tvols := put_vol volume ((free_vol_trustee v)\<lparr>trustee_sernum := new_sernum\<rparr>) (tvols s1)\<rparr>)
              else (False, s\<lparr>tvols := put_vol volume (v\<lparr>trustee_last_test_time := act_time env\<rparr>) (tvols s)\<rparr>)
         else (False, s))"

fun find_slot :: "int \<Rightarrow> int \<Rightarrow> u32 \<Rightarrow> nat option list \<Rightarrow> (nat \<Rightarrow> FILE_TRUSTEE_NODE option) \<Rightarrow> nat option" where
  "find_slot volume dev inode [] ns = None"
| "find_slot volume dev inode (None # cs) ns = find_slot volume dev inode cs ns"
| "find_slot volume dev inode (Some a # cs) ns =
     (case ns a of
        Some tr \<Rightarrow> if tn_volume tr = volume \<and> tn_dev tr = dev \<and> tn_inode tr = inode then Some a
                   else find_slot volume dev inode cs ns
      | None \<Rightarrow> find_slot volume dev inode cs ns)"

definition update_node :: "nat \<Rightarrow> (FILE_TRUSTEE_NODE \<Rightarrow> FILE_TRUSTEE_NODE) \<Rightarrow> tru_state \<Rightarrow> tru_state" where
  "update_node a f s = s\<lparr>nodes := (nodes s)(a := map_option f (nodes s a))\<rparr>"

definition find_trustee_node ::
  "tru_env \<Rightarrow> int \<Rightarrow> int \<Rightarrow> u64 \<Rightarrow> tru_state \<Rightarrow> nat option \<times> tru_state" where
  "find_trustee_node env volume dev inode s =
     (let (changed, s1) = vol_trustees_were_changed env volume s
      in if changed then (None, s1)
         else case find_slot volume dev (inode32 inode) (tr_cache s1) (nodes s1) of
                None \<Rightarrow> (None, s1)
              | Some a \<Rightarrow> (Some a, update_node a (\<lambda>tr. tr\<lparr>tn_idle := 0\<rparr>) s1))"

fun find_id_trustee :: "IDS_TRUSTEE list \<Rightarrow> u32 \<Rightarrow> u32" where
  "find_id_trustee [] ident = -1"
| "find_id_trustee (t # ts) ident = (if it_id t = ident then it_trustee t else find_id_trustee ts ident)"

definition grp_exist :: "tru_state \<Rightarrow> u32 \<Rightarrow> bool" where
  "grp_exist s ident = (ident \<in> set (grps_grps s))"

definition tru_init_trustees :: "u32 list \<Rightarrow> tru_state \<Rightarrow> tru_state" where
  "tru_init_trustees grps s = (tru_free_cache (-1) s)\<lparr>grps_grps := sort grps\<rparr>"

fun read_trustees :: "(u32 \<times> u32) list \<Rightarrow> IDS_TRUSTEE list \<Rightarrow> u32 \<Rightarrow> IDS_TRUSTEE list \<times> u32" where
  "read_trustees [] ts msk = (ts, msk)"
| "read_trustees ((ident, utrustee) # es) ts msk =
     (if length ts < MAX_TRUSTEES then
        if ident \<noteq> 0 then read_trustees es (ts @ [\<lparr>it_id = ident, it_trustee = utrustee\<rparr>]) msk
        else read_trustees es ts utrustee
      else (ts, msk))"

definition new_node :: "int \<Rightarrow> int \<Rightarrow> u64 \<Rightarrow> u32 \<Rightarrow> (u32 \<times> u32) list \<Rightarrow> FILE_TRUSTEE_NODE" where
  "new_node volume dev inode flags es =
     (let (ts, msk) = read_trustees es [] (if has flags 0xe then 0 else MAX_TRUSTEE_MASK)
      in \<lparr>tn_volume = volume, tn_dev = dev, tn_inode = inode32 inode, tn_idle = 0, mode_flags = flags,
          inherited_mask = msk, eff_rights = -1, tn_trustees = ts\<rparr>)"

definition create_trustee_node ::
  "int \<Rightarrow> int \<Rightarrow> u64 \<Rightarrow> u32 \<Rightarrow> tru_state \<Rightarrow> nat \<times> tru_state" where
  "create_trustee_node volume dev inode flags s =
     (let vn = snd (nw_get_volume_name (tvols s) volume 100);
          a = next_node s;
          tr = new_node volume dev inode flags (dir_of s (vn, dev, inode32 inode))
      in (a, s\<lparr>nodes := (nodes s)(a \<mapsto> tr), next_node := Suc a\<rparr>))"

definition link_flag :: "fsview \<Rightarrow> cstring \<Rightarrow> stat \<Rightarrow> u32" where
  "link_flag fs name stb =
     (case fs_lstat fs name of
        None \<Rightarrow> 4
      | Some l \<Rightarrow> if st_dev l \<noteq> st_dev stb \<or> st_ino l \<noteq> st_ino stb \<or> S_ISLNK (st_mode l) then 4 else 0)"

definition dir_flag :: "stat \<Rightarrow> u32" where
  "dir_flag stb = (if S_ISDIR (st_mode stb) then 1 else 0)"

definition find_creat_add_trustee_node ::
  "tru_env \<Rightarrow> int \<Rightarrow> cstring \<Rightarrow> stat \<Rightarrow> tru_state \<Rightarrow> nat \<times> tru_state" where
  "find_creat_add_trustee_node env volume name stb s =
     (case find_trustee_node env volume (st_dev stb) (st_ino stb) s of
        (Some a, s1) \<Rightarrow> (a, s1)
      | (None, s1) \<Rightarrow>
          let (a, s2) = create_trustee_node volume (st_dev stb) (st_ino stb)
                          (dir_flag stb OR link_flag (files env) name stb) s1
          in (a, add_trustee_node a s2))"

definition tru_get_id_trustee ::
  "tru_env \<Rightarrow> int \<Rightarrow> cstring \<Rightarrow> stat \<Rightarrow> u32 \<Rightarrow> tru_state \<Rightarrow> (u32 \<times> tru_state) option" where
  "tru_get_id_trustee env volume name stb ident s =
     (if has (get_volume_options (tvols s) volume) VOL_OPTION_TRUSTEES then
        (let (a, s1) = find_creat_add_trustee_node env volume name stb s
         in map_option (\<lambda>tr. (find_id_trustee (tn_trustees tr) ident, s1)) (nodes s1 a))
      else Some (- 0x85, s))"

section \<open>Effective rights along a path\<close>

fun insert_ugid_trustee :: "IDS_TRUSTEE list \<Rightarrow> u32 \<Rightarrow> u32 \<Rightarrow> IDS_TRUSTEE list" where
  "insert_ugid_trustee [] ident trustee = [\<lparr>it_id = ident, it_trustee = trustee\<rparr>]"
| "insert_ugid_trustee (u # us) ident trustee =
     (if it_id u = ident then u\<lparr>it_trustee := trustee\<rparr> # us else u # insert_ugid_trustee us ident trustee)"

definition concerns :: "user \<Rightarrow> u32 list \<Rightarrow> u32 \<Rightarrow> bool" where
  "concerns u grps ident = (ident = act_obj_id u \<or> ident \<in> set grps)"

text \<open>The node with its new rights, and the list of ids that the walk carries to the leaf.\<close>

definition pass_rights :: "user \<Rightarrow> FILE_TRUSTEE_NODE \<Rightarrow> IDS_TRUSTEE list \<Rightarrow> IDS_TRUSTEE list" where
  "pass_rights u tr ug =
     (if has (mode_flags tr) 0xe then
        if has (mode_flags tr) 2 \<and> has (act_id_flags u) 1
        then insert_ugid_trustee ug (act_obj_id u) MAX_TRUSTEE_MASK
        else map (\<lambda>t. t\<lparr>it_trustee := 0\<rparr>) ug
      else map (\<lambda>t. t\<lparr>it_trustee := it_trustee t AND inherited_mask tr\<rparr>) ug)"

definition add_explicit :: "user \<Rightarrow> u32 list \<Rightarrow> IDS_TRUSTEE \<Rightarrow> IDS_TRUSTEE list \<Rightarrow> IDS_TRUSTEE list" where
  "add_explicit u grps t ug =
     (if concerns u grps (it_id t) then insert_ugid_trustee ug (it_id t) (it_trustee t) else ug)"

definition build_trustee_rights ::
  "user \<Rightarrow> u32 list \<Rightarrow> FILE_TRUSTEE_NODE \<Rightarrow> IDS_TRUSTEE list \<Rightarrow> FILE_TRUSTEE_NODE \<times> IDS_TRUSTEE list" where
  "build_trustee_rights u grps tr ug =
     (let ug' = fold (add_explicit u grps) (tn_trustees tr) (pass_rights u tr ug)
      in (tr\<lparr>inherited_mask := (if has (mode_flags tr) 0xe then 0 else inherited_mask tr),
             eff_rights := fold (\<lambda>t r. r OR it_trustee t) ug' 0\<rparr>, ug'))"

definition build_at ::
  "tru_env \<Rightarrow> nat \<Rightarrow> IDS_TRUSTEE list \<Rightarrow> tru_state \<Rightarrow> (IDS_TRUSTEE list \<times> tru_state) option" where
  "build_at env a ug s =
     (case nodes s a of
        None \<Rightarrow> None
      | Some tr \<Rightarrow>
          let (tr', ug') = build_trustee_rights (usr env) (grps_grps s) tr ug
          in Some (ug', s\<lparr>nodes := (nodes s)(a \<mapsto> tr')\<rparr>))"

definition add_flags :: "nat \<Rightarrow> u32 \<Rightarrow> tru_state \<Rightarrow> tru_state" where
  "add_flags a flags s = update_node a (\<lambda>tr. tr\<lparr>mode_flags := mode_flags tr OR flags\<rparr>) s"

text \<open>The directories between the volume's directory and the file: the prefixes of the name that
  end before a slash, runs of slashes counting as one.\<close>

fun dir_prefixes :: "bool \<Rightarrow> cstring \<Rightarrow> cstring \<Rightarrow> cstring list" where
  "dir_prefixes skip pre [] = []"
| "dir_prefixes skip pre (c # cs) =
     (if c = 47 then (if skip then [] else [pre]) @ dir_prefixes True (pre @ [c]) cs
      else dir_prefixes False (pre @ [c]) cs)"

fun walk_dirs :: "tru_env \<Rightarrow> int \<Rightarrow> stat \<Rightarrow> int \<Rightarrow> cstring list \<Rightarrow> int \<Rightarrow> IDS_TRUSTEE list \<Rightarrow> tru_state \<Rightarrow>
    (bool \<times> int \<times> IDS_TRUSTEE list \<times> tru_state) option" where
  "walk_dirs env volume stb volumes_dev [] last_dev ug s = Some (True, last_dev, ug, s)"
| "walk_dirs env volume stb volumes_dev (p # ps) last_dev ug s =
     (case fs_stat (files env) p of
        None \<Rightarrow> Some (False, last_dev, ug, s)
      | Some stb1 \<Rightarrow>
          if st_ino stb1 = st_ino stb \<and> st_dev stb1 = st_dev stb then Some (True, last_dev, ug, s)
          else
            let (found, s1) = find_trustee_node env volume (st_dev stb1) (st_ino stb1) s;
                flags = dir_flag stb1 OR (if last_dev \<noteq> st_dev stb1 then 8 else 0)
                          OR (if volumes_dev \<noteq> st_dev stb1 then 0x10 else 0);
                (a, s2) = (case found of
                   Some a \<Rightarrow> (a, add_flags a flags s1)
                 | None \<Rightarrow>
                     let (a, s') = create_trustee_node volume (st_dev stb1) (st_ino stb1)
                                     (flags OR link_flag (files env) p stb1) s1
                     in (a, add_trustee_node a s'))
            in case build_at env a ug s2 of
                 None \<Rightarrow> None
               | Some (ug', s3) \<Rightarrow> walk_dirs env volume stb volumes_dev ps (st_dev stb1) ug' s3)"

text \<open>The volume's own directory; when it cannot be read the code goes on with inode 0.\<close>

definition volume_stat :: "tru_env \<Rightarrow> int \<Rightarrow> tru_state \<Rightarrow> stat" where
  "volume_stat env volume s =
     (case get_volume_inode (files env) (tvols s) volume of
        Some st \<Rightarrow> st
      | None \<Rightarrow> \<lparr>st_dev = 0, st_ino = 0, st_mode = 0, st_uid = 0, st_gid = 0\<rparr>)"

definition root_node :: "tru_env \<Rightarrow> int \<Rightarrow> stat \<Rightarrow> tru_state \<Rightarrow> nat \<times> tru_state" where
  "root_node env volume stb1 s =
     (case find_trustee_node env volume (st_dev stb1) (st_ino stb1) s of
        (Some a, s1) \<Rightarrow> (a, add_flags a 3 s1)
      | (None, s1) \<Rightarrow>
          let (a, s2) = create_trustee_node volume (st_dev stb1) (st_ino stb1) 3 s1
          in (a, add_trustee_node a s2))"

definition walk_path ::
  "tru_env \<Rightarrow> int \<Rightarrow> cstring \<Rightarrow> stat \<Rightarrow> stat \<Rightarrow> tru_state \<Rightarrow>
     (bool \<times> int \<times> IDS_TRUSTEE list \<times> tru_state) option" where
  "walk_path env volume name stb root s =
     (let (r, s1) = root_node env volume root s; n = get_volume_unixnamlen (tvols s) volume
      in case build_at env r [] s1 of
           None \<Rightarrow> None
         | Some (ug, s2) \<Rightarrow>
             walk_dirs env volume stb (st_dev root) (dir_prefixes True (take n name) (drop n name))
               (st_dev root) ug s2)"

text \<open>\<open>None\<close>: a freed node was used; \<open>Some (None, s)\<close>: the call returns NULL.\<close>

definition find_build_trustee_node ::
  "tru_env \<Rightarrow> int \<Rightarrow> cstring \<Rightarrow> stat \<Rightarrow> tru_state \<Rightarrow> (nat option \<times> tru_state) option" where
  "find_build_trustee_node env volume name stb s =
     (let (a, s1) = find_creat_add_trustee_node env volume name stb s
      in case nodes s1 a of
           None \<Rightarrow> None
         | Some tr \<Rightarrow>
             if sint (eff_rights tr) < 0 then
               let root = volume_stat env volume s1
               in if st_ino root = st_ino stb \<and> st_dev root = st_dev stb then
                    map_option (\<lambda>(ug, s2). (Some a, s2)) (build_at env a [] (add_flags a 3 s1))
                  else
                    case walk_path env volume name stb root s1 of
                      None \<Rightarrow> None
                    | Some (ok, last_dev, ug, s2) \<Rightarrow>
                        if \<not> ok then Some (None, s2)
                        else map_option (\<lambda>(ug', s3). (Some a, s3))
                               (build_at env a ug
                                 (add_flags a ((if last_dev \<noteq> st_dev stb then 8 else 0) OR
                                               (if st_dev root \<noteq> st_dev stb then 0x10 else 0)) s2))
             else Some (Some a, s1))"

definition get_eff_rights_by_trustees ::
  "tru_env \<Rightarrow> int \<Rightarrow> cstring \<Rightarrow> stat \<Rightarrow> tru_state \<Rightarrow> (u32 \<times> tru_state) option" where
  "get_eff_rights_by_trustees env volume name stb s =
     (if act_obj_id (usr env) = 1 \<and> has (act_id_flags (usr env)) 1 then Some (MAX_TRUSTEE_MASK, s)
      else case find_build_trustee_node env volume name stb s of
             None \<Rightarrow> None
           | Some (None, s1) \<Rightarrow> Some (0, s1)
           | Some (Some a, s1) \<Rightarrow>
               map_option (\<lambda>tr. (if sint (eff_rights tr) > -1 then eff_rights tr else 0, s1)) (nodes s1 a))"

definition trustee_part ::
  "tru_env \<Rightarrow> int \<Rightarrow> cstring \<Rightarrow> stat \<Rightarrow> tru_state \<Rightarrow> (u32 \<times> tru_state) option" where
  "trustee_part env volume name stb s =
     (if has (get_volume_options (tvols s) volume) VOL_OPTION_TRUSTEES
      then get_eff_rights_by_trustees env volume name stb s else Some (0, s))"

definition unix_part :: "tru_env \<Rightarrow> int \<Rightarrow> cstring \<Rightarrow> stat \<Rightarrow> tru_state \<Rightarrow> u32" where
  "unix_part env volume name stb s =
     (let voloptions = get_volume_options (tvols s) volume
      in if has voloptions VOL_OPTION_IGNUNXRIGHT then 0
         else un_nw_rights (usr env) (files env) voloptions name stb)"

definition tru_get_eff_rights ::
  "tru_env \<Rightarrow> int \<Rightarrow> cstring \<Rightarrow> stat \<Rightarrow> tru_state \<Rightarrow> (u32 \<times> tru_state) option" where
  "tru_get_eff_rights env volume name stb s =
     map_option (\<lambda>(rights, s1). (rights AND MAX_TRUSTEE_MASK OR unix_part env volume name stb s, s1))
       (trustee_part env volume name stb s)"

definition enough :: "u32 \<Rightarrow> u32 \<Rightarrow> bool" where
  "enough rights lookfor = (has rights TRUSTEE_S \<or> rights AND lookfor = lookfor)"

text \<open>The result is 0 when the rights are there, otherwise the rights the user has, or
  \<^verbatim>\<open>1 << 31\<close> when there are none.\<close>

definition tru_eff_rights_exists ::
  "tru_env \<Rightarrow> int \<Rightarrow> cstring \<Rightarrow> stat \<Rightarrow> u32 \<Rightarrow> tru_state \<Rightarrow> (u32 \<times> tru_state) option" where
  "tru_eff_rights_exists env volume name stb lookfor s =
     map_option (\<lambda>(rights, s1).
       let found = has (get_volume_options (tvols s) volume) VOL_OPTION_TRUSTEES \<and>
                     (enough rights lookfor \<or> lookfor = TRUSTEE_T \<and> has rights TRUSTEE_F);
           all = rights OR unix_part env volume name stb s
       in (if found then 0
           else if lookfor = TRUSTEE_T \<and> has all TRUSTEE_F then 0
           else if all \<noteq> 0 then (if enough all lookfor then 0 else all)
           else 0x80000000, s1))
     (trustee_part env volume name stb s)"

section \<open>Changing trustees\<close>

abbreviation no_privileges :: int where "no_privileges \<equiv> -0x85"

definition may_control :: "tru_env \<Rightarrow> u32 \<Rightarrow> bool" where
  "may_control env own = (has own TRUSTEE_A \<or> has (act_id_flags (usr env)) 1)"

definition tru_del_trustee ::
  "tru_env \<Rightarrow> int \<Rightarrow> cstring \<Rightarrow> stat \<Rightarrow> u32 \<Rightarrow> tru_state \<Rightarrow> (int \<times> tru_state) option" where
  "tru_del_trustee env volume name stb ident s =
     (if has (get_volume_options (tvols s) volume) VOL_OPTION_TRUSTEES then
        map_option (\<lambda>(own, s1).
          if may_control env own then
            let (result, s2) = del_trustee_from_disk volume (st_dev stb) (st_ino stb) ident s1
            in (result, if result = 0 then snd (tru_vol_sernum env volume True s2) else s2)
          else (no_privileges, s1))
        (tru_get_eff_rights env volume name stb s)
      else Some (no_privileges, s))"

record NW_OIC =
  oic_id :: u32
  oic_trustee :: u32

fun put_oics :: "tru_env \<Rightarrow> int \<Rightarrow> stat \<Rightarrow> bool \<Rightarrow> NW_OIC list \<Rightarrow> tru_state \<Rightarrow> int \<times> tru_state" where
  "put_oics env volume stb may_s [] s = (0, s)"
| "put_oics env volume stb may_s (o1 # os) s =
     (let t = (if may_s then oic_trustee o1 else oic_trustee o1 AND NOT TRUSTEE_S);
          (result, s1) = put_trustee_to_disk env volume (st_dev stb) (st_ino stb) (oic_id o1) t s
      in if result \<noteq> 0 then (result, s1) else put_oics env volume stb may_s os s1)"

definition volume_relative :: "tru_state \<Rightarrow> int \<Rightarrow> cstring \<Rightarrow> cstring" where
  "volume_relative s volume name =
     (let ufn = drop (get_volume_unixnamlen (tvols s) volume) name in if ufn = [] then [46] else ufn)"

text \<open>Every failure drops the whole cache.\<close>

definition local_tru_add_trustee_set ::
  "tru_env \<Rightarrow> int \<Rightarrow> cstring \<Rightarrow> stat \<Rightarrow> NW_OIC list \<Rightarrow> tru_state \<Rightarrow> (int \<times> tru_state) option" where
  "local_tru_add_trustee_set env volume name stb nwoic s =
     (if \<not> has (get_volume_options (tvols s) volume) VOL_OPTION_TRUSTEES
      then Some (no_privileges, tru_free_cache (-1) s)
      else case tru_get_eff_rights env volume name stb s of
        None \<Rightarrow> None
      | Some (own, s1) \<Rightarrow>
          if \<not> may_control env own then Some (no_privileges, tru_free_cache (-1) s1)
          else case find_build_trustee_node env volume name stb s1 of
            None \<Rightarrow> None
          | Some (None, s2) \<Rightarrow> Some (no_privileges, tru_free_cache (-1) s2)
          | Some (Some a, s2) \<Rightarrow>
              (case nodes s2 a of
                 None \<Rightarrow> None
               | Some tr \<Rightarrow>
                   if \<not> has (mode_flags tr) 0x18 \<or> act_uid (usr env) = 0 then
                     let (result, s3) = put_oics env volume stb
                           (has own TRUSTEE_S \<or> has (act_id_flags (usr env)) 1) nwoic s2
                     in if result \<noteq> 0 then Some (result, tru_free_cache (-1) s3)
                        else Some (0, creat_trustee_path volume (st_dev stb) (st_ino stb)
                                        (volume_relative s3 volume name) s3)
                   else Some (no_privileges, tru_free_cache (-1) s2)))"

text \<open>The directories above the file, from the file upwards to below the volume's directory, in
  which the new trustees are made visible.\<close>

definition upper_dirs :: "cstring \<Rightarrow> nat \<Rightarrow> cstring list" where
  "upper_dirs name vollen = map (\<lambda>p. take p name) (filter (\<lambda>p. name ! p = 47) (rev [Suc vollen..<length name]))"

definition show_dir :: "tru_env \<Rightarrow> int \<Rightarrow> stat \<Rightarrow> NW_OIC \<Rightarrow> tru_state \<Rightarrow> tru_state" where
  "show_dir env volume statb o1 s =
     (if oic_id o1 = 0 then s
      else let trustee = (case get_trustee_from_disk volume (st_dev statb) (st_ino statb) (oic_id o1) s of
                            Some t \<Rightarrow> t | None \<Rightarrow> 0)
           in if \<not> has trustee (TRUSTEE_T OR TRUSTEE_F)
              then snd (put_trustee_to_disk env volume (st_dev statb) (st_ino statb) (oic_id o1)
                          (trustee OR TRUSTEE_T) s)
              else s)"

definition show_dirs :: "tru_env \<Rightarrow> int \<Rightarrow> NW_OIC list \<Rightarrow> cstring list \<Rightarrow> tru_state \<Rightarrow> tru_state" where
  "show_dirs env volume nwoic =
     fold (\<lambda>d s. case fs_stat (files env) d of
              None \<Rightarrow> s
            | Some statb \<Rightarrow> fold (show_dir env volume statb) nwoic s)"

definition tru_add_trustee_set ::
  "tru_env \<Rightarrow> int \<Rightarrow> cstring \<Rightarrow> stat \<Rightarrow> NW_OIC list \<Rightarrow> tru_state \<Rightarrow> (int \<times> tru_state) option" where
  "tru_add_trustee_set env volume name stb nwoic s =
     (case local_tru_add_trustee_set env volume name stb nwoic s of
        None \<Rightarrow> None
      | Some (result, s1) \<Rightarrow>
          if result = 0 then
            Some (0, snd (tru_vol_sernum env volume True
                      (show_dirs env volume nwoic (upper_dirs name (get_volume_unixnamlen (tvols s1) volume)) s1)))
          else Some (result, s1))"

definition tru_get_trustee_set ::
  "tru_env \<Rightarrow> int \<Rightarrow> cstring \<Rightarrow> stat \<Rightarrow> nat \<Rightarrow> nat \<Rightarrow> tru_state \<Rightarrow>
     (int \<times> IDS_TRUSTEE list \<times> tru_state) option" where
  "tru_get_trustee_set env volume name stb seqn maxcount s =
     (if has (get_volume_options (tvols s) volume) VOL_OPTION_TRUSTEES then
        (let (a, s1) = find_creat_add_trustee_node env volume name stb s
         in map_option (\<lambda>tr.
              let ts = take maxcount (drop (seqn * maxcount) (tn_trustees tr))
              in (if ts \<noteq> [] then int (length ts) else -0x9c, ts, s1)) (nodes s1 a))
      else Some (-0x9c, [], s))"

definition tru_set_inherited_mask ::
  "tru_env \<Rightarrow> int \<Rightarrow> cstring \<Rightarrow> stat \<Rightarrow> u32 \<Rightarrow> tru_state \<Rightarrow> (int \<times> tru_state) option" where
  "tru_set_inherited_mask env volume name stb new_mask s =
     (if \<not> has (get_volume_options (tvols s) volume) VOL_OPTION_TRUSTEES then Some (no_privileges, s)
      else case tru_get_eff_rights env volume name stb s of
        None \<Rightarrow> None
      | Some (own, s1) \<Rightarrow>
          if \<not> may_control env own then Some (no_privileges, s1)
          else case find_trustee_node env volume (st_dev stb) (st_ino stb) s1 of
            (None, s2) \<Rightarrow> Some (no_privileges, s2)
          | (Some a, s2) \<Rightarrow>
              (case nodes s2 a of
                 None \<Rightarrow> None
               | Some tr \<Rightarrow>
                   if \<not> has (mode_flags tr) 0x1e \<or> act_uid (usr env) = 0 then
                     let (result, s3) = put_trustee_to_disk env volume (st_dev stb) (st_ino stb) 0 new_mask s2
                     in Some (result, if result = 0 then snd (tru_vol_sernum env volume True s3) else s3)
                   else Some (no_privileges, s2)))"

definition tru_get_inherited_mask ::
  "tru_env \<Rightarrow> int \<Rightarrow> cstring \<Rightarrow> stat \<Rightarrow> tru_state \<Rightarrow> (u32 \<times> tru_state) option" where
  "tru_get_inherited_mask env volume name stb s =
     (if has (get_volume_options (tvols s) volume) VOL_OPTION_TRUSTEES then
        (let (a, s1) = find_creat_add_trustee_node env volume name stb s
         in map_option (\<lambda>tr. (inherited_mask tr, s1)) (nodes s1 a))
      else Some (0x01ff, s))"

section \<open>What the walk computes\<close>

text \<open>The specification: the rights an id has at the last node of a path, nodes listed from the leaf
  upwards.  An entry at the node decides; without one the rights come from above, cut by the
  inherited rights mask; a symbolic link, a change of device and the volume's root stop the
  inheritance, and at the root the supervisor equivalent user gets everything.\<close>

definition explicit :: "FILE_TRUSTEE_NODE \<Rightarrow> u32 \<Rightarrow> u32 option" where
  "explicit n = map_of (rev (map (\<lambda>t. (it_id t, it_trustee t)) (tn_trustees n)))"

fun granted :: "user \<Rightarrow> FILE_TRUSTEE_NODE list \<Rightarrow> u32 \<Rightarrow> u32" where
  "granted u [] i = 0"
| "granted u (n # up) i =
     (case explicit n i of
        Some t \<Rightarrow> t
      | None \<Rightarrow>
          if has (mode_flags n) 0xe then
            if has (mode_flags n) 2 \<and> has (act_id_flags u) 1
            then (if i = act_obj_id u then MAX_TRUSTEE_MASK else granted u up i)
            else 0
          else granted u up i AND inherited_mask n)"

definition ug_get :: "IDS_TRUSTEE list \<Rightarrow> u32 \<Rightarrow> u32 option" where
  "ug_get ug = map_of (map (\<lambda>t. (it_id t, it_trustee t)) ug)"

lemma ug_get_insert: "ug_get (insert_ugid_trustee ug i t) = (ug_get ug)(i \<mapsto> t)"
  by (induction ug) (auto simp: ug_get_def)

lemma ids_insert: "it_id ` set (insert_ugid_trustee ug i t) = insert i (it_id ` set ug)"
  by (induction ug) auto

lemma distinct_insert:
  "distinct (map it_id ug) \<Longrightarrow> distinct (map it_id (insert_ugid_trustee ug i t))"
  by (induction ug) (auto simp: ids_insert)

lemma ug_get_map:
  "ug_get (map (\<lambda>t. t\<lparr>it_trustee := f (it_trustee t)\<rparr>) ug) i = map_option f (ug_get ug i)"
  by (induction ug) (auto simp: ug_get_def)

lemma ug_get_explicit:
  "concerns u grps i \<Longrightarrow> ug_get (fold (add_explicit u grps) ts ug) i =
     (case map_of (rev (map (\<lambda>t. (it_id t, it_trustee t)) ts)) i of Some t \<Rightarrow> Some t | None \<Rightarrow> ug_get ug i)"
  by (induction ts rule: rev_induct) (auto simp: add_explicit_def ug_get_insert)

text \<open>The list of ids that the walk carries: no id twice, only ids of the user, and for each of
  them the rights of the specification.\<close>

definition ug_ok :: "user \<Rightarrow> u32 list \<Rightarrow> IDS_TRUSTEE list \<Rightarrow> bool" where
  "ug_ok u grps ug = (distinct (map it_id ug) \<and> (\<forall>t \<in> set ug. concerns u grps (it_id t)))"

definition carries :: "user \<Rightarrow> u32 list \<Rightarrow> FILE_TRUSTEE_NODE list \<Rightarrow> IDS_TRUSTEE list \<Rightarrow> bool" where
  "carries u grps up ug = (ug_ok u grps ug \<and>
     (\<forall>i. concerns u grps i \<longrightarrow> (case ug_get ug i of Some t \<Rightarrow> t | None \<Rightarrow> 0) = granted u up i))"

lemma ug_ok_insert: "ug_ok u grps ug \<Longrightarrow> concerns u grps i \<Longrightarrow> ug_ok u grps (insert_ugid_trustee ug i t)"
proof -
  assume a: "ug_ok u grps ug" "concerns u grps i"
  have "concerns u grps j" if "j \<in> it_id ` set (insert_ugid_trustee ug i t)" for j
    using that a by (auto simp: ids_insert ug_ok_def)
  with a show ?thesis by (simp add: ug_ok_def distinct_insert)
qed

lemma ug_ok_explicit: "ug_ok u grps ug \<Longrightarrow> ug_ok u grps (fold (add_explicit u grps) ts ug)"
  by (induction ts arbitrary: ug) (auto simp: add_explicit_def ug_ok_insert)

lemma ug_ok_map: "ug_ok u grps ug \<Longrightarrow> ug_ok u grps (map (\<lambda>t. t\<lparr>it_trustee := f (it_trustee t)\<rparr>) ug)"
  by (simp add: ug_ok_def o_def)

lemma ug_ok_pass: "ug_ok u grps ug \<Longrightarrow> ug_ok u grps (pass_rights u n ug)"
  using ug_ok_map [of u grps ug "\<lambda>_. 0"] ug_ok_map [of u grps ug "\<lambda>t. t AND inherited_mask n"]
  by (auto simp: pass_rights_def concerns_def intro: ug_ok_insert)

lemma build_fold:
  "build_trustee_rights u grps n ug = (n', ug') \<Longrightarrow>
     ug' = fold (add_explicit u grps) (tn_trustees n) (pass_rights u n ug) \<and>
     eff_rights n' = fold (\<lambda>t r. r OR it_trustee t) ug' 0"
  by (auto simp: build_trustee_rights_def Let_def)

lemma carries_step:
  assumes "carries u grps up ug" and "build_trustee_rights u grps n ug = (n', ug')"
  shows "carries u grps (n # up) ug'"
proof -
  let ?val = "\<lambda>ug i. case ug_get ug i of Some t \<Rightarrow> t | None \<Rightarrow> (0 :: u32)"
  have ug': "ug' = fold (add_explicit u grps) (tn_trustees n) (pass_rights u n ug)"
    using build_fold [OF assms(2)] by simp
  have ok: "ug_ok u grps ug" and v: "?val ug i = granted u up i" if "concerns u grps i" for i
    using assms(1) that by (auto simp: carries_def)
  have pass: "?val (pass_rights u n ug) i =
      (if has (mode_flags n) 0xe then
         if has (mode_flags n) 2 \<and> has (act_id_flags u) 1
         then (if i = act_obj_id u then MAX_TRUSTEE_MASK else granted u up i) else 0
       else granted u up i AND inherited_mask n)" if c: "concerns u grps i" for i
    using v [OF c] ug_get_map [of "\<lambda>_. 0" ug i] ug_get_map [of "\<lambda>t. t AND inherited_mask n" ug i]
    by (auto simp: pass_rights_def ug_get_insert split: option.splits)
  have "?val ug' i = granted u (n # up) i" if c: "concerns u grps i" for i
    using pass [OF c] by (auto simp: ug' ug_get_explicit [OF c] explicit_def split: option.splits)
  moreover have "ug_ok u grps ug'"
    using assms(1) by (simp add: ug' carries_def ug_ok_explicit ug_ok_pass)
  ultimately show ?thesis by (simp add: carries_def)
qed

lemma bit_fold_or: "bit (fold (\<lambda>t r. r OR it_trustee t) ug r0) k \<longleftrightarrow> bit r0 k \<or> (\<exists>t \<in> set ug. bit (it_trustee t) k)"
  by (induction ug arbitrary: r0) (auto simp: bit_simps)

lemma ug_get_mem: "distinct (map it_id ug) \<Longrightarrow> t \<in> set ug \<Longrightarrow> ug_get ug (it_id t) = Some (it_trustee t)"
  unfolding ug_get_def by (rule map_of_is_SomeI) (auto simp: o_def)

lemma ug_get_ex: "ug_get ug i = Some r \<Longrightarrow> \<exists>t \<in> set ug. it_id t = i \<and> it_trustee t = r"
  unfolding ug_get_def by (auto dest!: map_of_SomeD)

text \<open>The rights of the user: those of any of the user's ids.\<close>

lemma eff_rights_bit:
  assumes "carries u grps up ug" and "build_trustee_rights u grps n ug = (n', ug')"
  shows "bit (eff_rights n') k \<longleftrightarrow> (\<exists>i. concerns u grps i \<and> bit (granted u (n # up) i) k)"
proof -
  have c: "carries u grps (n # up) ug'" by (rule carries_step [OF assms])
  have "bit (eff_rights n') k \<longleftrightarrow> (\<exists>t \<in> set ug'. bit (it_trustee t) k)"
    using build_fold [OF assms(2)] by (simp add: bit_fold_or)
  also have "\<dots> \<longleftrightarrow> (\<exists>i. concerns u grps i \<and> bit (granted u (n # up) i) k)"
  proof
    assume "\<exists>t \<in> set ug'. bit (it_trustee t) k"
    then obtain t where t: "t \<in> set ug'" "bit (it_trustee t) k" by blast
    then have "concerns u grps (it_id t)" "ug_get ug' (it_id t) = Some (it_trustee t)"
      using c by (auto simp: carries_def ug_ok_def intro: ug_get_mem)
    with c t show "\<exists>i. concerns u grps i \<and> bit (granted u (n # up) i) k"
      unfolding carries_def by (metis option.simps(5))
  next
    assume "\<exists>i. concerns u grps i \<and> bit (granted u (n # up) i) k"
    then obtain i where i: "concerns u grps i" "bit (granted u (n # up) i) k" by blast
    then have "bit (case ug_get ug' i of Some t \<Rightarrow> t | None \<Rightarrow> 0) k" using c by (metis carries_def)
    then obtain r where "ug_get ug' i = Some r" "bit r k" by (auto split: option.splits)
    then show "\<exists>t \<in> set ug'. bit (it_trustee t) k" using ug_get_ex by blast
  qed
  finally show ?thesis .
qed

text \<open>The array \<^verbatim>\<open>ugid_trustees\<close> has room for one entry per group and one for the user.\<close>

lemma ug_ok_length: "ug_ok u grps ug \<Longrightarrow> length ug \<le> length grps + 1"
proof -
  assume ok: "ug_ok u grps ug"
  then have "length ug = card (it_id ` set ug)"
    by (metis distinct_card length_map list.set_map ug_ok_def)
  also have "\<dots> \<le> card (insert (act_obj_id u) (set grps))"
    using ok by (intro card_mono) (auto simp: ug_ok_def concerns_def)
  also have "\<dots> \<le> Suc (card (set grps))" by (simp add: card_insert_if)
  also have "\<dots> \<le> length grps + 1" by (simp add: card_length)
  finally show ?thesis .
qed

section \<open>The cache without evictions\<close>

definition shape :: "(nat \<Rightarrow> FILE_TRUSTEE_NODE option) \<Rightarrow> nat \<Rightarrow> FILE_TRUSTEE_NODE option" where
  "shape ns a = map_option (\<lambda>n. n\<lparr>tn_idle := 0\<rparr>) (ns a)"

lemma age_slots_shape:
  "age_slots cs i ns mx f t = (ns', f', t') \<Longrightarrow> shape ns' = shape ns"
proof (induction cs arbitrary: i ns mx f t)
  case (Cons c cs)
  show ?case
  proof (cases c)
    case (Some a)
    show ?thesis
    proof (cases "ns a")
      case (Some tr)
      have "shape (ns(a \<mapsto> tr\<lparr>tn_idle := x\<rparr>)) = shape ns" for x using Some by (auto simp: shape_def)
      moreover obtain x j g where
        "age_slots cs (Suc i) (ns(a \<mapsto> tr\<lparr>tn_idle := x\<rparr>)) j g t = (ns', f', t')"
        using Cons.prems Some \<open>c = Some a\<close> by (simp add: Let_def)
      ultimately show ?thesis using Cons.IH by metis
    qed (use Cons Some in auto)
  qed (use Cons in auto)
qed simp

lemma age_slots_packed:
  "age_slots (map Some as) i ns mx f t = (ns', f', t') \<Longrightarrow> t' = t"
  by (induction as arbitrary: i ns mx f) (auto simp: Let_def split: option.splits)

definition packed :: "nat list \<Rightarrow> tru_state \<Rightarrow> bool" where
  "packed as s = (tr_cache s = map Some as \<and> (\<forall>a \<in> set as. nodes s a \<noteq> None \<and> a < next_node s))"

lemma shape_None: "shape ns a = None \<longleftrightarrow> ns a = None"
  by (simp add: shape_def)

lemma create_add:
  assumes "packed as s" and "length as < 50"
    and "create_trustee_node volume dev inode flags s = (a, s2)"
  shows "packed (as @ [a]) (add_trustee_node a s2)"
    and "a = next_node s"
    and "shape (nodes (add_trustee_node a s2)) =
      (shape (nodes s))(a \<mapsto> new_node volume dev inode flags
         (dir_of s (snd (nw_get_volume_name (tvols s) volume 100), dev, inode32 inode)))"
    and "tvols (add_trustee_node a s2) = tvols s" "tdisk (add_trustee_node a s2) = tdisk s"
      "grps_grps (add_trustee_node a s2) = grps_grps s"
proof -
  let ?n = "new_node volume dev inode flags
    (dir_of s (snd (nw_get_volume_name (tvols s) volume 100), dev, inode32 inode))"
  have s2: "s2 = s\<lparr>nodes := (nodes s)(a \<mapsto> ?n), next_node := Suc a\<rparr>" and a: "a = next_node s"
    using assms(3) by (auto simp: create_trustee_node_def Let_def)
  obtain ns f t where age: "age_slots (tr_cache s2) 0 (nodes s2) 0 None None = (ns, f, t)"
    by (metis surj_pair)
  have t: "t = None" using age assms(1) by (auto simp: s2 packed_def dest: age_slots_packed)
  have sh: "shape ns = shape (nodes s2)" by (rule age_slots_shape [OF age])
  have add: "add_trustee_node a s2 = s2\<lparr>nodes := ns, tr_cache := map Some (as @ [a])\<rparr>"
    using age t assms(1,2) by (simp add: add_trustee_node_def packed_def s2 MAX_TRUSTEE_CACHE_def)
  have idle: "?n\<lparr>tn_idle := 0\<rparr> = ?n" by (simp add: new_node_def split: prod.splits)
  show "a = next_node s" by (rule a)
  show shape_new: "shape (nodes (add_trustee_node a s2)) = (shape (nodes s))(a \<mapsto> ?n)"
  proof -
    have "nodes (add_trustee_node a s2) = ns" by (simp add: add)
    then show ?thesis using sh idle by (auto simp: s2 shape_def)
  qed
  show "packed (as @ [a]) (add_trustee_node a s2)"
  proof -
    have "nodes (add_trustee_node a s2) b \<noteq> None" if "b \<in> set as \<or> b = a" for b
    proof -
      have "shape (nodes (add_trustee_node a s2)) b \<noteq> None"
        using that assms(1) by (auto simp: shape_new packed_def shape_def)
      then show ?thesis by (simp add: shape_None)
    qed
    moreover have "tr_cache (add_trustee_node a s2) = map Some (as @ [a])"
      "next_node (add_trustee_node a s2) = Suc a" unfolding add by (simp_all add: s2)
    ultimately show ?thesis using assms(1) a by (auto simp: packed_def less_Suc_eq)
  qed
  show "tvols (add_trustee_node a s2) = tvols s" "tdisk (add_trustee_node a s2) = tdisk s"
    "grps_grps (add_trustee_node a s2) = grps_grps s" unfolding add by (simp_all add: s2)
qed

definition node_key :: "FILE_TRUSTEE_NODE \<Rightarrow> int \<times> int \<times> u32" where
  "node_key n = (tn_volume n, tn_dev n, tn_inode n)"

definition cached_keys :: "nat list \<Rightarrow> tru_state \<Rightarrow> (int \<times> int \<times> u32) set" where
  "cached_keys as s = {node_key n | n a. a \<in> set as \<and> shape (nodes s) a = Some n}"

lemma find_slot_absent:
  "(volume, dev, inode) \<notin> cached_keys as s \<Longrightarrow> find_slot volume dev inode (map Some as) (nodes s) = None"
proof (induction as)
  case (Cons a as)
  have "(volume, dev, inode) \<notin> cached_keys as s"
    using Cons.prems by (auto simp: cached_keys_def)
  with Cons.IH have IH: "find_slot volume dev inode (map Some as) (nodes s) = None" .
  show ?case
  proof (cases "nodes s a")
    case (Some n)
    have "node_key n \<in> cached_keys (a # as) s"
      unfolding cached_keys_def
      by (rule CollectI, rule exI [of _ "n\<lparr>tn_idle := 0\<rparr>"], rule exI [of _ a]) (simp add: shape_def Some node_key_def)
    with Cons.prems IH Some show ?thesis by (auto simp: node_key_def)
  qed (simp add: IH)
qed simp

definition settled :: "tru_env \<Rightarrow> int \<Rightarrow> tru_state \<Rightarrow> bool" where
  "settled env volume s = (act_time env \<le> trustee_last_test_time (vol_at (tvols s) volume) + 60)"

lemma find_absent:
  assumes "packed as s" "settled env volume s" "(volume, dev, inode32 inode) \<notin> cached_keys as s"
  shows "find_trustee_node env volume dev inode s = (None, s)"
  using assms find_slot_absent
  by (simp add: find_trustee_node_def vol_trustees_were_changed_def settled_def packed_def Let_def)

lemma build_idle:
  "build_trustee_rights u grps (n\<lparr>tn_idle := x\<rparr>) ug =
     ((fst (build_trustee_rights u grps n ug))\<lparr>tn_idle := x\<rparr>, snd (build_trustee_rights u grps n ug))"
  by (simp add: build_trustee_rights_def pass_rights_def Let_def)

lemma build_at_shape:
  assumes "shape (nodes s) a = Some n"
    and "build_trustee_rights (usr env) (grps_grps s) n ug = (n', ug')"
  shows "\<exists>s'. build_at env a ug s = Some (ug', s') \<and>
    shape (nodes s') = (shape (nodes s))(a \<mapsto> n'\<lparr>tn_idle := 0\<rparr>) \<and>
    tr_cache s' = tr_cache s \<and> next_node s' = next_node s \<and> tvols s' = tvols s \<and> tdisk s' = tdisk s \<and>
    grps_grps s' = grps_grps s"
proof -
  obtain m where m: "nodes s a = Some m" "n = m\<lparr>tn_idle := 0\<rparr>" using assms(1) by (auto simp: shape_def)
  obtain m' ug2 where b: "build_trustee_rights (usr env) (grps_grps s) m ug = (m', ug2)" by fastforce
  have "n' = m'\<lparr>tn_idle := 0\<rparr>" "ug' = ug2"
    using assms(2) b build_idle [of "usr env" "grps_grps s" 0 m ug] by (simp_all add: m(2))
  with m(1) b show ?thesis by (auto simp: build_at_def shape_def)
qed

section \<open>A walk on an empty cache\<close>

text \<open>The nodes of the directories on the way, as they are on disk.\<close>

definition disk_node :: "tru_state \<Rightarrow> int \<Rightarrow> u32 \<Rightarrow> stat \<Rightarrow> FILE_TRUSTEE_NODE" where
  "disk_node s volume flags st = new_node volume (st_dev st) (st_ino st) flags
     (dir_of s (snd (nw_get_volume_name (tvols s) volume 100), st_dev st, inode32 (st_ino st)))"

fun way :: "tru_env \<Rightarrow> tru_state \<Rightarrow> int \<Rightarrow> int \<Rightarrow> int \<Rightarrow> cstring list \<Rightarrow> stat list \<Rightarrow> FILE_TRUSTEE_NODE list" where
  "way env s volume vdev last_dev (p # ps) (st # sts) =
     disk_node s volume (dir_flag st OR (if last_dev \<noteq> st_dev st then 8 else 0)
        OR (if vdev \<noteq> st_dev st then 0x10 else 0) OR link_flag (files env) p st) st
       # way env s volume vdev (st_dev st) ps sts"
| "way env s volume vdev last_dev _ _ = []"

definition st_key :: "int \<Rightarrow> stat \<Rightarrow> int \<times> int \<times> u32" where
  "st_key volume st = (volume, st_dev st, inode32 (st_ino st))"

lemma node_key_disk: "node_key (disk_node s volume flags st) = st_key volume st"
  by (simp add: node_key_def disk_node_def new_node_def st_key_def split: prod.splits)

lemma disk_node_cong:
  "tvols s' = tvols s \<Longrightarrow> tdisk s' = tdisk s \<Longrightarrow> disk_node s' = disk_node s"
  by (intro ext) (simp add: disk_node_def dir_of_def)

lemma way_cong:
  "tvols s' = tvols s \<Longrightarrow> tdisk s' = tdisk s \<Longrightarrow> way env s' volume vdev l ps sts = way env s volume vdev l ps sts"
  by (induction ps sts arbitrary: l rule: list_induct2') (simp_all add: disk_node_cong [of s' s])

lemma build_key: "build_trustee_rights u grps n ug = (n', ug') \<Longrightarrow> node_key (n'\<lparr>tn_idle := 0\<rparr>) = node_key n"
  by (auto simp: build_trustee_rights_def node_key_def Let_def)

definition same_disk :: "tru_state \<Rightarrow> tru_state \<Rightarrow> bool" where
  "same_disk s s' = (tvols s' = tvols s \<and> tdisk s' = tdisk s \<and> grps_grps s' = grps_grps s)"

text \<open>One step: a node that is not cached is created, cached and built.\<close>

lemma step_new:
  assumes "packed as s" and "length as < 50" and "st_key volume st \<notin> cached_keys as s"
    and "carries (usr env) (grps_grps s) up ug"
    and "create_trustee_node volume (st_dev st) (st_ino st) flags s = (a, s2)"
  shows "\<exists>ug' s'. build_at env a ug (add_trustee_node a s2) = Some (ug', s') \<and> packed (as @ [a]) s' \<and>
    same_disk s s' \<and> cached_keys (as @ [a]) s' = insert (st_key volume st) (cached_keys as s) \<and>
    carries (usr env) (grps_grps s) (disk_node s volume flags st # up) ug' \<and>
    (\<forall>b \<in> set as. shape (nodes s') b = shape (nodes s) b) \<and> a \<notin> set as"
proof -
  let ?s3 = "add_trustee_node a s2" and ?n = "disk_node s volume flags st"
  note c = create_add [OF assms(1,2,5)]
  obtain n' ug' where b: "build_trustee_rights (usr env) (grps_grps ?s3) ?n ug = (n', ug')" by fastforce
  have sh: "shape (nodes ?s3) = (shape (nodes s))(a \<mapsto> ?n)" using c(3) by (simp add: disk_node_def)
  then have "shape (nodes ?s3) a = Some ?n" by simp
  from build_at_shape [OF this b] obtain s' where
    s': "build_at env a ug ?s3 = Some (ug', s')" "shape (nodes s') = (shape (nodes ?s3))(a \<mapsto> n'\<lparr>tn_idle := 0\<rparr>)"
      "tr_cache s' = tr_cache ?s3" "next_node s' = next_node ?s3" "tvols s' = tvols ?s3" "tdisk s' = tdisk ?s3"
      "grps_grps s' = grps_grps ?s3" by blast
  have fresh: "a \<notin> set as" using assms(1) c(2) by (auto simp: packed_def)
  have shape': "shape (nodes s') = (shape (nodes s))(a \<mapsto> n'\<lparr>tn_idle := 0\<rparr>)" by (simp add: s'(2) sh)
  have "nodes s' x \<noteq> None" if "x \<in> set (as @ [a])" for x
    using c(1) that by (metis s'(2) packed_def fun_upd_apply option.distinct(1) shape_None)
  then have "packed (as @ [a]) s'" using c(1) s'(3,4) by (simp add: packed_def)
  moreover have "cached_keys (as @ [a]) s' = insert (st_key volume st) (cached_keys as s)"
  proof -
    have new: "node_key (n'\<lparr>tn_idle := 0\<rparr>) = st_key volume st" using build_key [OF b] node_key_disk by simp
    have "cached_keys (as @ [a]) s' = {node_key n | n b. b \<in> set as \<and> shape (nodes s) b = Some n}
        \<union> {node_key (n'\<lparr>tn_idle := 0\<rparr>)}"
      unfolding cached_keys_def shape' using fresh by (simp add: set_eq_iff) metis
    then show ?thesis unfolding cached_keys_def new by simp
  qed
  moreover have "carries (usr env) (grps_grps s) (?n # up) ug'"
    using carries_step [OF assms(4)] b c(6) by simp
  ultimately show ?thesis using s' c fresh by (auto simp: same_disk_def shape')
qed

lemma walk_fresh:
  assumes "packed as s" "settled env volume s" and "length as + length sts \<le> 50"
    and "map (fs_stat (files env)) ps = map Some sts"
    and "distinct (map (st_key volume) sts)" and "st_key volume ` set sts \<inter> cached_keys as s = {}"
    and "st_key volume stb \<notin> st_key volume ` set sts"
    and "carries (usr env) (grps_grps s) up ug"
  shows "\<exists>as' ug' s'. walk_dirs env volume stb vdev ps last_dev ug s =
      Some (True, (if sts = [] then last_dev else st_dev (last sts)), ug', s') \<and> packed as' s' \<and>
    same_disk s s' \<and> carries (usr env) (grps_grps s) (rev (way env s volume vdev last_dev ps sts) @ up) ug' \<and>
    (\<forall>b \<in> set as. b \<in> set as' \<and> shape (nodes s') b = shape (nodes s) b)"
  using assms
proof (induction sts arbitrary: ps as s up ug last_dev)
  case Nil
  then show ?case by (auto simp: same_disk_def)
next
  case (Cons st sts)
  then obtain p ps' where ps: "ps = p # ps'" "fs_stat (files env) p = Some st"
    "map (fs_stat (files env)) ps' = map Some sts" by (cases ps) auto
  let ?flags = "dir_flag st OR (if last_dev \<noteq> st_dev st then 8 else 0) OR (if vdev \<noteq> st_dev st then 0x10 else 0)"
  let ?fl = "?flags OR link_flag (files env) p st"
  have key: "st_key volume st \<notin> cached_keys as s" using Cons.prems(6) by auto
  have other: "\<not> (st_ino st = st_ino stb \<and> st_dev st = st_dev stb)"
    using Cons.prems(7) by (auto simp: st_key_def)
  have find: "find_trustee_node env volume (st_dev st) (st_ino st) s = (None, s)"
    using find_absent [OF Cons.prems(1,2)] key by (simp add: st_key_def)
  obtain a s2 where cr: "create_trustee_node volume (st_dev st) (st_ino st) ?fl s = (a, s2)" by fastforce
  have len: "length as < 50" using Cons.prems(3) by simp
  from step_new [OF Cons.prems(1) len key Cons.prems(8) cr] obtain ug1 s1 where
    s1: "build_at env a ug (add_trustee_node a s2) = Some (ug1, s1)" "packed (as @ [a]) s1" "same_disk s s1"
      "cached_keys (as @ [a]) s1 = insert (st_key volume st) (cached_keys as s)"
      "carries (usr env) (grps_grps s) (disk_node s volume ?fl st # up) ug1"
      "\<forall>b \<in> set as. shape (nodes s1) b = shape (nodes s) b"
    by - (elim exE conjE, rule that, assumption+)
  have sd: "tvols s1 = tvols s" "tdisk s1 = tdisk s" "grps_grps s1 = grps_grps s"
    using s1(3) by (auto simp: same_disk_def)
  have "settled env volume s1" using Cons.prems(2) by (simp add: settled_def sd)
  moreover have "st_key volume ` set sts \<inter> cached_keys (as @ [a]) s1 = {}"
    using Cons.prems(5,6) s1(4) by auto
  ultimately obtain as' ug' s' where
    w: "walk_dirs env volume stb vdev ps' (st_dev st) ug1 s1 =
      Some (True, (if sts = [] then st_dev st else st_dev (last sts)), ug', s')" "packed as' s'" "same_disk s1 s'"
      "carries (usr env) (grps_grps s) (rev (way env s volume vdev (st_dev st) ps' sts) @ disk_node s volume ?fl st # up) ug'"
      "\<forall>b \<in> set (as @ [a]). b \<in> set as' \<and> shape (nodes s') b = shape (nodes s1) b"
    using Cons.IH [OF s1(2), of ps' "disk_node s volume ?fl st # up" ug1 "st_dev st"] Cons.prems(3,5,7) ps(3) s1(5)
    by (auto simp: sd way_cong [OF sd(1,2)])
  have "walk_dirs env volume stb vdev ps last_dev ug s = walk_dirs env volume stb vdev ps' (st_dev st) ug1 s1"
    using s1(1) cr other by (auto simp: ps find Let_def)
  moreover have "way env s volume vdev last_dev ps (st # sts) =
      disk_node s volume ?fl st # way env s volume vdev (st_dev st) ps' sts" by (simp only: ps way.simps or.assoc)
  moreover have "\<forall>b \<in> set as. b \<in> set as' \<and> shape (nodes s') b = shape (nodes s) b" using w(5) s1(6) by simp
  moreover have "same_disk s s'" using w(3) by (simp add: same_disk_def sd)
  ultimately show ?case using w(1,2,4) by auto
qed


definition leaf_node :: "tru_env \<Rightarrow> tru_state \<Rightarrow> int \<Rightarrow> cstring \<Rightarrow> stat \<Rightarrow> int \<Rightarrow> stat \<Rightarrow> FILE_TRUSTEE_NODE" where
  "leaf_node env s volume name stb last_dev root =
     (let n = disk_node s volume (dir_flag stb OR link_flag (files env) name stb) stb
      in n\<lparr>mode_flags := mode_flags n OR ((if last_dev \<noteq> st_dev stb then 8 else 0) OR
              (if st_dev root \<noteq> st_dev stb then 0x10 else 0))\<rparr>)"

lemma carries_Nil: "carries u grps [] []"
  by (simp add: carries_def ug_ok_def ug_get_def)

lemma add_flags_shape:
  "shape (nodes s) a = Some n \<Longrightarrow>
     shape (nodes (add_flags a f s)) a = Some (n\<lparr>mode_flags := mode_flags n OR f\<rparr>)"
  by (auto simp: shape_def add_flags_def update_node_def)

lemma shape_eff: "shape ns a = Some n \<Longrightarrow> \<exists>m. ns a = Some m \<and> eff_rights m = eff_rights n"
  by (auto simp: shape_def)

lemma disk_node_unset: "sint (eff_rights (disk_node s volume flags st)) < 0"
  by (simp add: disk_node_def new_node_def split: prod.splits)

lemma packed_add_flags: "grps_grps (add_flags a f s) = grps_grps s"
  by (simp add: add_flags_def update_node_def)

lemma walk_path_fresh:
  assumes "packed [a] s" "settled env volume s" and "cached_keys [a] s = {st_key volume stb}"
    and "map (fs_stat (files env)) (dir_prefixes True (take m name) (drop m name)) = map Some sts"
    and "m = get_volume_unixnamlen (tvols s) volume"
    and "distinct (map (st_key volume) (root # sts @ [stb]))" and "length sts \<le> 48"
  shows "\<exists>ug s'. walk_path env volume name stb root s =
      Some (True, (if sts = [] then st_dev root else st_dev (last sts)), ug, s') \<and> same_disk s s' \<and>
    carries (usr env) (grps_grps s) (rev (way env s volume (st_dev root) (st_dev root)
       (dir_prefixes True (take m name) (drop m name)) sts) @ [disk_node s volume 3 root]) ug \<and>
    shape (nodes s') a = shape (nodes s) a"
proof -
  let ?ps = "dir_prefixes True (take m name) (drop m name)"
  have key: "st_key volume root \<notin> cached_keys [a] s" using assms(3,6) by simp
  have find: "find_trustee_node env volume (st_dev root) (st_ino root) s = (None, s)"
    using find_absent [OF assms(1,2)] key by (simp add: st_key_def)
  obtain r s2 where cr: "create_trustee_node volume (st_dev root) (st_ino root) 3 s = (r, s2)" by fastforce
  have len: "length [a] < 50" by simp
  from step_new [OF assms(1) len key carries_Nil [of "usr env"] cr] obtain ug1 s1 where
    s1: "build_at env r [] (add_trustee_node r s2) = Some (ug1, s1)" "packed ([a] @ [r]) s1" "same_disk s s1"
      "cached_keys ([a] @ [r]) s1 = insert (st_key volume root) (cached_keys [a] s)"
      "carries (usr env) (grps_grps s) [disk_node s volume 3 root] ug1"
      "\<forall>b \<in> set [a]. shape (nodes s1) b = shape (nodes s) b"
    by - (elim exE conjE, rule that, assumption+)
  have sd: "tvols s1 = tvols s" "tdisk s1 = tdisk s" "grps_grps s1 = grps_grps s"
    using s1(3) by (auto simp: same_disk_def)
  have "settled env volume s1" using assms(2) by (simp add: settled_def sd)
  moreover have "st_key volume ` set sts \<inter> cached_keys ([a] @ [r]) s1 = {}"
    using assms(3,6) s1(4) by auto
  ultimately obtain as' ug' s' where
    w: "walk_dirs env volume stb (st_dev root) ?ps (st_dev root) ug1 s1 =
      Some (True, (if sts = [] then st_dev root else st_dev (last sts)), ug', s')" "same_disk s1 s'"
      "carries (usr env) (grps_grps s) (rev (way env s volume (st_dev root) (st_dev root) ?ps sts) @ [disk_node s volume 3 root]) ug'"
      "\<forall>b \<in> set ([a] @ [r]). b \<in> set as' \<and> shape (nodes s') b = shape (nodes s1) b"
    using walk_fresh [OF s1(2) _ _ assms(4), of volume stb "[disk_node s volume 3 root]" ug1 "st_dev root" "st_dev root"]
      assms(6,7) s1(5) by (auto simp: sd way_cong [OF sd(1,2)])
  have "walk_path env volume name stb root s = walk_dirs env volume stb (st_dev root) ?ps (st_dev root) ug1 s1"
    using s1(1) cr assms(5) by (simp add: walk_path_def root_node_def find Let_def)
  with w s1(6) sd show ?thesis by (auto simp: same_disk_def)
qed

lemma eff_rights_path:
  assumes "tr_cache s = []" "settled env volume s" and "root = volume_stat env volume s"
    and "m = get_volume_unixnamlen (tvols s) volume"
    and "map (fs_stat (files env)) (dir_prefixes True (take m name) (drop m name)) = map Some sts"
    and "distinct (map (st_key volume) (root # sts @ [stb]))" and "length sts \<le> 48"
  shows "\<exists>a s' n. find_build_trustee_node env volume name stb s = Some (Some a, s') \<and> nodes s' a = Some n \<and>
    (\<forall>k. bit (eff_rights n) k \<longleftrightarrow> (\<exists>i. concerns (usr env) (grps_grps s) i \<and>
       bit (granted (usr env)
         (leaf_node env s volume name stb (if sts = [] then st_dev root else st_dev (last sts)) root #
          rev (way env s volume (st_dev root) (st_dev root) (dir_prefixes True (take m name) (drop m name)) sts)
          @ [disk_node s volume 3 root]) i) k))"
proof -
  let ?fl = "dir_flag stb OR link_flag (files env) name stb"
  let ?last = "if sts = [] then st_dev root else st_dev (last sts)"
  let ?up = "rev (way env s volume (st_dev root) (st_dev root) (dir_prefixes True (take m name) (drop m name)) sts)
          @ [disk_node s volume 3 root]"
  let ?extra = "(if ?last \<noteq> st_dev stb then 8 else 0) OR (if st_dev root \<noteq> st_dev stb then 0x10 else 0)"
  have pk: "packed [] s" using assms(1) by (simp add: packed_def)
  have find: "find_trustee_node env volume (st_dev stb) (st_ino stb) s = (None, s)"
    by (rule find_absent [OF pk assms(2)]) (simp add: cached_keys_def)
  obtain a s2 where cr: "create_trustee_node volume (st_dev stb) (st_ino stb) ?fl s = (a, s2)" by fastforce
  let ?s1 = "add_trustee_node a s2"
  note c = create_add [OF pk _ cr, simplified]
  have sh: "shape (nodes ?s1) a = Some (disk_node s volume ?fl stb)" using c(3) by (simp add: disk_node_def)
  then obtain tr where tr: "nodes ?s1 a = Some tr" "eff_rights tr = eff_rights (disk_node s volume ?fl stb)"
    using shape_eff by blast
  have keys: "cached_keys [a] ?s1 = {st_key volume stb}"
    using sh node_key_disk by (auto simp: cached_keys_def)
  have set1: "settled env volume ?s1" using assms(2) c(4) by (simp add: settled_def)
  have root: "volume_stat env volume ?s1 = root" using assms(3) c(4) by (simp add: volume_stat_def)
  obtain ug s3 where w: "walk_path env volume name stb root ?s1 = Some (True, ?last, ug, s3)" "same_disk ?s1 s3"
    "carries (usr env) (grps_grps s) ?up ug" "shape (nodes s3) a = shape (nodes ?s1) a"
    using walk_path_fresh [OF c(1) set1 keys assms(5) _ assms(6,7)] assms(4) c(4-6)
    by (auto simp: way_cong [OF c(4,5)] disk_node_cong [OF c(4,5)])
  have "shape (nodes (add_flags a ?extra s3)) a = Some (leaf_node env s volume name stb ?last root)"
    using add_flags_shape [of s3 a "disk_node s volume ?fl stb" ?extra] w(4) sh
    unfolding leaf_node_def Let_def by (simp only:)
  moreover obtain n' ug' where b: "build_trustee_rights (usr env) (grps_grps s)
      (leaf_node env s volume name stb ?last root) ug = (n', ug')" by fastforce
  ultimately obtain s4 where s4: "build_at env a ug (add_flags a ?extra s3) = Some (ug', s4)"
    "shape (nodes s4) a = Some (n'\<lparr>tn_idle := 0\<rparr>)"
    using build_at_shape [of "add_flags a ?extra s3" a _ env ug n' ug'] w(2) c(6)
    by (auto simp: packed_add_flags same_disk_def)
  obtain n where n: "nodes s4 a = Some n" "eff_rights n = eff_rights n'" using s4(2)
    using shape_eff by fastforce
  have ne: "\<not> (st_ino root = st_ino stb \<and> st_dev root = st_dev stb)" using assms(6) by (auto simp: st_key_def)
  have "find_build_trustee_node env volume name stb s = Some (Some a, s4)"
    using cr tr disk_node_unset [of s volume ?fl stb] w(1) s4(1) root ne
    by (auto simp: find_build_trustee_node_def find_creat_add_trustee_node_def find Let_def)
  then show ?thesis using n eff_rights_bit [OF w(3) b] by auto
qed

section \<open>What the operations leave alone\<close>

lemma free_slots_keeps:
  "tvols (free_slots v i s) = tvols s \<and> tdisk (free_slots v i s) = tdisk s \<and>
   grps_grps (free_slots v i s) = grps_grps s"
  by (induction v i s rule: free_slots.induct)
    (auto simp: free_trustee_node_def split: option.splits if_splits)

lemma tru_free_cache_keeps [simp]:
  "tvols (tru_free_cache v s) = tvols s" "tdisk (tru_free_cache v s) = tdisk s"
  "grps_grps (tru_free_cache v s) = grps_grps s"
  using free_slots_keeps by (simp_all add: tru_free_cache_def Let_def)

lemma add_trustee_node_keeps [simp]:
  "tvols (add_trustee_node a s) = tvols s" "tdisk (add_trustee_node a s) = tdisk s"
  "grps_grps (add_trustee_node a s) = grps_grps s"
  by (auto simp: add_trustee_node_def free_trustee_node_def Let_def split: prod.splits option.splits)

lemma create_trustee_node_keeps:
  "create_trustee_node volume dev inode flags s = (a, s') \<Longrightarrow>
     tdisk s' = tdisk s \<and> tvols s' = tvols s \<and> grps_grps s' = grps_grps s"
  by (auto simp: create_trustee_node_def Let_def)

text \<open>Searching the cache may only move the test time and serial number of the volume.\<close>

definition same_names :: "volumes \<Rightarrow> volumes \<Rightarrow> bool" where
  "same_names vs vs' = (used_nw_volumes vs' = used_nw_volumes vs \<and>
     length (nw_volumes vs') = length (nw_volumes vs) \<and>
     (\<forall>i. sysname (nw_volumes vs' ! i) = sysname (nw_volumes vs ! i) \<and>
          unixname (nw_volumes vs' ! i) = unixname (nw_volumes vs ! i) \<and>
          options (nw_volumes vs' ! i) = options (nw_volumes vs ! i)))"

definition keeps :: "tru_state \<Rightarrow> tru_state \<Rightarrow> bool" where
  "keeps s s' = (tdisk s' = tdisk s \<and> grps_grps s' = grps_grps s \<and> same_names (tvols s) (tvols s'))"

lemma keeps_refl [simp]: "keeps s s"
  by (simp add: keeps_def same_names_def)

lemma keeps_trans: "keeps s s' \<Longrightarrow> keeps s' s'' \<Longrightarrow> keeps s s''"
  by (simp add: keeps_def same_names_def)

lemma keepsI: "tdisk s' = tdisk s \<Longrightarrow> grps_grps s' = grps_grps s \<Longrightarrow> tvols s' = tvols s \<Longrightarrow> keeps s s'"
  by (simp add: keeps_def same_names_def)

lemma put_vol_names:
  "sysname v = sysname (vol_at vs n) \<Longrightarrow> unixname v = unixname (vol_at vs n) \<Longrightarrow>
     options v = options (vol_at vs n) \<Longrightarrow> same_names vs (put_vol n v vs)"
  by (cases "nat n < length (nw_volumes vs)")
    (auto simp: same_names_def put_vol_def vol_at_def nth_list_update list_update_beyond
      intro: nth_list_update_neq [THEN arg_cong [of _ _ sysname]] nth_list_update_neq [THEN arg_cong [of _ _ unixname]]
        nth_list_update_neq [THEN arg_cong [of _ _ options]])

lemma vol_changed_keeps: "keeps s (snd (vol_trustees_were_changed env volume s))"
  by (auto simp: vol_trustees_were_changed_def Let_def keeps_def free_vol_trustee_def
      intro!: put_vol_names) (simp_all add: same_names_def)

lemma find_keeps: "find_trustee_node env volume dev inode s = (r, s') \<Longrightarrow> keeps s s'"
proof -
  assume f: "find_trustee_node env volume dev inode s = (r, s')"
  obtain c s1 where v: "vol_trustees_were_changed env volume s = (c, s1)" by fastforce
  have "keeps s s1" using vol_changed_keeps [of s env volume] v by simp
  moreover have "keeps s1 s'"
    using f v by (auto simp: find_trustee_node_def update_node_def intro!: keepsI split: if_splits option.splits)
  ultimately show ?thesis by (rule keeps_trans)
qed

lemma find_creat_add_keeps: "find_creat_add_trustee_node env volume name stb s = (a, s') \<Longrightarrow> keeps s s'"
proof -
  assume f: "find_creat_add_trustee_node env volume name stb s = (a, s')"
  obtain r s1 where t: "find_trustee_node env volume (st_dev stb) (st_ino stb) s = (r, s1)" by fastforce
  have "keeps s1 s'" using f t create_trustee_node_keeps
    by (auto simp: find_creat_add_trustee_node_def split: option.splits prod.splits intro!: keepsI)
  with find_keeps [OF t] show ?thesis by (rule keeps_trans)
qed

lemma root_node_keeps: "root_node env volume root s = (a, s') \<Longrightarrow> keeps s s'"
proof -
  assume f: "root_node env volume root s = (a, s')"
  obtain r s1 where t: "find_trustee_node env volume (st_dev root) (st_ino root) s = (r, s1)" by fastforce
  have "keeps s1 s'" using f t create_trustee_node_keeps
    by (auto simp: root_node_def add_flags_def update_node_def split: option.splits prod.splits intro!: keepsI)
  with find_keeps [OF t] show ?thesis by (rule keeps_trans)
qed

lemma build_at_keeps: "build_at env a ug s = Some (ug', s') \<Longrightarrow> keeps s s'"
  by (auto simp: build_at_def split: option.splits prod.splits intro!: keepsI)

lemma build_ug_ok: "ug_ok u grps ug \<Longrightarrow> build_trustee_rights u grps n ug = (n', ug') \<Longrightarrow> ug_ok u grps ug'"
  using build_fold ug_ok_explicit ug_ok_pass by metis

lemma build_at_ug_ok:
  "ug_ok (usr env) (grps_grps s) ug \<Longrightarrow> build_at env a ug s = Some (ug', s') \<Longrightarrow> ug_ok (usr env) (grps_grps s) ug'"
  by (auto simp: build_at_def split: option.splits prod.splits intro: build_ug_ok)


lemma walk_dirs_ug_ok:
  "walk_dirs env volume stb vdev ps l ug s = Some (ok, l', ug', s') \<Longrightarrow> ug_ok (usr env) (grps_grps s) ug \<Longrightarrow>
     ug_ok (usr env) (grps_grps s) ug' \<and> keeps s s'"
proof (induction ps arbitrary: l ug s)
  case (Cons p ps)
  show ?case
  proof (cases "fs_stat (files env) p")
    case (Some st)
    show ?thesis
    proof (cases "st_ino st = st_ino stb \<and> st_dev st = st_dev stb")
      case False
      obtain found s1 where f: "find_trustee_node env volume (st_dev st) (st_ino st) s = (found, s1)" by fastforce
      define flags where "flags = dir_flag st OR (if l \<noteq> st_dev st then 8 else 0) OR (if vdev \<noteq> st_dev st then 0x10 else 0)"
      define c where "c = create_trustee_node volume (st_dev st) (st_ino st) (flags OR link_flag (files env) p st) s1"
      obtain a s2 where a: "(a, s2) = (case found of Some a \<Rightarrow> (a, add_flags a flags s1)
          | None \<Rightarrow> (fst c, add_trustee_node (fst c) (snd c)))" by (cases found) auto
      have "keeps s1 s2"
        using a create_trustee_node_keeps [of volume "st_dev st" "st_ino st" _ s1 "fst c" "snd c"]
        by (auto simp: c_def add_flags_def update_node_def intro!: keepsI split: option.splits)
      then have k2: "keeps s s2" using find_keeps [OF f] keeps_trans by blast
      obtain ug3 s3 where b: "build_at env a ug s2 = Some (ug3, s3)"
        and w: "walk_dirs env volume stb vdev ps (st_dev st) ug3 s3 = Some (ok, l', ug', s')"
        using Cons.prems(1) Some False f a
        by (auto simp: Let_def c_def flags_def split: option.splits prod.splits)
      have k3: "keeps s s3" using k2 build_at_keeps [OF b] keeps_trans by blast
      have g: "grps_grps s2 = grps_grps s" "grps_grps s3 = grps_grps s" using k2 k3 by (auto simp: keeps_def)
      have "ug_ok (usr env) (grps_grps s3) ug3" using build_at_ug_ok [OF _ b] Cons.prems(2) g by simp
      from Cons.IH [OF w this] k3 g show ?thesis using keeps_trans by auto
    qed (use Cons.prems Some in auto)
  qed (use Cons.prems in auto)
qed auto

lemma walk_path_ug_ok:
  assumes "walk_path env volume name stb root s = Some (ok, l, ug, s')"
  shows "ug_ok (usr env) (grps_grps s) ug \<and> keeps s s'"
proof -
  obtain r s1 where r: "root_node env volume root s = (r, s1)" by fastforce
  then obtain ug1 s2 where b: "build_at env r [] s1 = Some (ug1, s2)"
    and w: "walk_dirs env volume stb (st_dev root)
      (dir_prefixes True (take (get_volume_unixnamlen (tvols s) volume) name)
         (drop (get_volume_unixnamlen (tvols s) volume) name)) (st_dev root) ug1 s2 = Some (ok, l, ug, s')"
    using assms by (auto simp: walk_path_def Let_def split: option.splits)
  have k: "keeps s s2" using root_node_keeps [OF r] build_at_keeps [OF b] keeps_trans by blast
  have g: "grps_grps s1 = grps_grps s" "grps_grps s2 = grps_grps s"
    using root_node_keeps [OF r] k by (auto simp: keeps_def)
  have "ug_ok (usr env) (grps_grps s2) ug1"
    using build_at_ug_ok [OF _ b] g by (simp add: ug_ok_def)
  from walk_dirs_ug_ok [OF w this] k g show ?thesis using keeps_trans by auto
qed

lemma find_build_keeps:
  assumes "find_build_trustee_node env volume name stb s = Some (r, s')" shows "keeps s s'"
proof -
  obtain a s1 where a: "find_creat_add_trustee_node env volume name stb s = (a, s1)" by fastforce
  have k1: "keeps s s1" by (rule find_creat_add_keeps [OF a])
  have fl: "keeps t (add_flags b f t)" for t b f by (auto simp: add_flags_def update_node_def intro!: keepsI)
  have "keeps s1 s'"
    using assms a
    by (auto simp: find_build_trustee_node_def Let_def split: option.splits if_splits prod.splits
        dest!: walk_path_ug_ok build_at_keeps intro: keeps_trans [OF fl] keeps_trans)
  with k1 show ?thesis by (rule keeps_trans)
qed

lemma trustee_part_keeps:
  assumes "trustee_part env volume name stb s = Some (r, s')" shows "keeps s s'"
  using assms find_build_keeps [of env volume name stb s]
  by (auto simp: trustee_part_def get_eff_rights_by_trustees_def split: if_splits option.splits prod.splits)

section \<open>Limits of the Unix rights\<close>

lemma has_or: "has (a OR b) c \<longleftrightarrow> has a c \<or> has b c"
  by (auto simp: has_def bit.conj_disj_distrib2 word_bw_comms(2) or_eq_0_iff)

lemma has_and_not: "has w c \<Longrightarrow> c = 2 ^ k \<Longrightarrow> \<not> has (x AND NOT w) c"
  by (simp add: has_bit bit_simps)

lemma norights_parent_A: "has (norights_parent d p) TRUSTEE_A"
  by (auto simp: norights_parent_def has_or Let_def split: option.splits) (simp_all add: has_def)


lemma has_norights_volume: "has n c \<Longrightarrow> has 0xff c \<Longrightarrow> has (norights_volume vo d p acc n) c"
  by (auto simp: norights_volume_def has_or)

lemma has_norights_file: "has n c \<Longrightarrow> has (norights_file d acc dflt n) c"
  by (auto simp: norights_file_def Let_def has_or)

lemma low_rights: "has 0xff TRUSTEE_A" "has 0xff TRUSTEE_E" "has 0xff TRUSTEE_M" "has 0xff TRUSTEE_C" "\<not> has 0xff TRUSTEE_S"
  by (simp_all add: has_def)

lemma single_bits:
  "TRUSTEE_A = 2 ^ 5" "TRUSTEE_E = 2 ^ 4" "TRUSTEE_M = 2 ^ 7" "TRUSTEE_C = 2 ^ 3" "TRUSTEE_S = 2 ^ 8"
  by simp_all

lemma readonly_norights:
  "has vo VOL_OPTION_READONLY \<Longrightarrow> c = TRUSTEE_E \<or> c = TRUSTEE_M \<or> c = TRUSTEE_C \<Longrightarrow>
     has (norights_volume vo d p acc n) c"
  by (auto simp: norights_volume_def has_or) (simp_all add: has_def)

lemma eff_S: "\<not> has (0xff AND x) TRUSTEE_S"
  by (simp add: has_def ac_simps)

section \<open>Properties\<close>

text \<open>Unix rights give no control: a user who is not root, and anybody on a read-only volume,
  gets neither the access control nor the supervisor right from the Unix permissions, and on a
  read-only volume no right to erase, modify or create either.\<close>

theorem unix_rights_limits:
  assumes "act_uid u \<noteq> 0 \<or> has vo VOL_OPTION_READONLY"
  shows "\<not> has (un_nw_rights u fs vo name stb) TRUSTEE_A \<and> \<not> has (un_nw_rights u fs vo name stb) TRUSTEE_S \<and>
    (has vo VOL_OPTION_READONLY \<longrightarrow> \<not> has (un_nw_rights u fs vo name stb) TRUSTEE_E \<and>
      \<not> has (un_nw_rights u fs vo name stb) TRUSTEE_M \<and> \<not> has (un_nw_rights u fs vo name stb) TRUSTEE_C)"
proof -
  obtain d p acc n dflt where r: "un_nw_rights u fs vo name stb =
      0xff AND NOT (norights_file d acc dflt (norights_volume vo d p acc (norights_parent d n)))"
    using assms by (auto simp: un_nw_rights_def Let_def)
  let ?n = "norights_file d acc dflt (norights_volume vo d p acc (norights_parent d n))"
  have "has ?n TRUSTEE_A"
    by (intro has_norights_file has_norights_volume norights_parent_A low_rights)
  moreover have "has ?n c" if "has vo VOL_OPTION_READONLY" "c = TRUSTEE_E \<or> c = TRUSTEE_M \<or> c = TRUSTEE_C" for c
    using that by (intro has_norights_file readonly_norights)
  ultimately show ?thesis unfolding r using has_and_not single_bits eff_S by blast
qed


definition example_user :: user where
  "example_user = \<lparr>act_uid = 500, act_gid = 100, act_grouplist = [], act_obj_id = 7, act_id_flags = 0,
     default_uid = 99\<rparr>"

theorem unix_rights_limits_witness:
  "\<not> has (un_nw_rights example_user example_fs VOL_OPTION_READONLY [47, 97]
      \<lparr>st_dev = 8, st_ino = 9, st_mode = 0x81b6, st_uid = 500, st_gid = 100\<rparr>) TRUSTEE_E"
  using unix_rights_limits [of example_user VOL_OPTION_READONLY example_fs "[47, 97]"
    "\<lparr>st_dev = 8, st_ino = 9, st_mode = 0x81b6, st_uid = 500, st_gid = 100\<rparr>"]
  by (simp add: example_user_def has_def)

lemma enough_or: "enough a l \<Longrightarrow> enough (a OR b) l"
proof -
  assume a: "enough a l"
  have "(a OR b) AND l = l" if e: "a AND l = l"
  proof (rule bit_word_eqI)
    fix k assume "k < LENGTH(32)"
    have "bit (a AND l) k = bit l k" by (simp only: e)
    then show "bit ((a OR b) AND l) k = bit l k" by (auto simp: bit_simps)
  qed
  with a show ?thesis by (auto simp: enough_def has_or)
qed

text \<open>\<^verbatim>\<open>tru_eff_rights_exists\<close> is exact: it answers 0 if and only if the user's trustee rights
  and Unix rights together hold the supervisor right or all the rights asked for, or the question is
  about visibility only and the user has the scan right.\<close>

theorem eff_rights_exists_exact:
  assumes "trustee_part env volume name stb s = Some (r, s1)" and "lookfor \<noteq> 0"
  shows "\<exists>v. tru_eff_rights_exists env volume name stb lookfor s = Some (v, s1) \<and>
    (v = 0 \<longleftrightarrow> enough (r OR unix_part env volume name stb s) lookfor \<or>
       lookfor = TRUSTEE_T \<and> has (r OR unix_part env volume name stb s) TRUSTEE_F)"
proof -
  let ?all = "r OR unix_part env volume name stb s"
  have r0: "r = 0" if "\<not> has (get_volume_options (tvols s) volume) VOL_OPTION_TRUSTEES"
    using that assms(1) by (simp add: trustee_part_def)
  have "\<not> enough 0 lookfor" using assms(2) by (simp add: enough_def has_def)
  then show ?thesis
    using assms(1) enough_or [of r lookfor "unix_part env volume name stb s"] r0
    by (auto simp: tru_eff_rights_exists_def Let_def has_or)
qed

section \<open>Evictions\<close>

definition aged :: "FILE_TRUSTEE_NODE \<Rightarrow> FILE_TRUSTEE_NODE" where
  "aged n = n\<lparr>tn_idle := tn_idle n + (if has (mode_flags n) 1 then 1 else 10)\<rparr>"

lemma age_step:
  "ns a = Some n \<Longrightarrow> age_slots (Some a # cs) i ns mx f t = age_slots cs (Suc i) (ns(a \<mapsto> aged n))
     (if tn_idle (aged n) > mx then tn_idle (aged n) else mx) (if tn_idle (aged n) > mx then Some i else f) t"
  by (simp add: aged_def Let_def)

lemma age_nodes:
  assumes "distinct as" and "\<forall>a \<in> set as. ns a \<noteq> None"
    and "age_slots (map Some as) i ns mx f t = (ns', f', t')"
  shows "ns' = (\<lambda>a. if a \<in> set as then map_option aged (ns a) else ns a)"
  using assms
proof (induction as arbitrary: i ns mx f)
  case (Cons a as)
  then obtain n where n: "ns a = Some n" by auto
  have "\<forall>b \<in> set as. (ns(a \<mapsto> aged n)) b \<noteq> None" using Cons.prems(1,2) by auto
  moreover have "distinct as" using Cons.prems(1) by simp
  moreover note Cons.prems(3) [unfolded list.map age_step [of ns a, OF n]]
  ultimately have "ns' = (\<lambda>b. if b \<in> set as then map_option aged ((ns(a \<mapsto> aged n)) b) else (ns(a \<mapsto> aged n)) b)"
    by (intro Cons.IH)
  then show ?case using Cons.prems(1) n by (auto simp: fun_eq_iff)
qed (simp add: fun_eq_iff)

text \<open>The slot the loop finds has the largest idle count.\<close>

lemma age_found:
  assumes "distinct as" and "\<forall>a \<in> set as. ns a \<noteq> None"
    and "age_slots (map Some as) i ns mx f t = (ns', f', t')"
  shows "(f' = f \<and> (\<forall>a \<in> set as. tn_idle (aged (the (ns a))) \<le> mx)) \<or>
    (\<exists>j < length as. f' = Some (i + j) \<and> mx < tn_idle (aged (the (ns (as ! j)))) \<and>
       (\<forall>a \<in> set as. tn_idle (aged (the (ns a))) \<le> tn_idle (aged (the (ns (as ! j))))))"
  using assms
proof (induction as arbitrary: i ns mx f)
  case (Cons a as)
  then obtain n where n: "ns a = Some n" by auto
  let ?mx = "if tn_idle (aged n) > mx then tn_idle (aged n) else mx"
  let ?f = "if tn_idle (aged n) > mx then Some i else f"
  have live: "\<forall>b \<in> set as. (ns(a \<mapsto> aged n)) b \<noteq> None" using Cons.prems(1,2) by auto
  have same: "(ns(a \<mapsto> aged n)) b = ns b" if "b \<in> set as" for b using Cons.prems(1) that by auto
  have run: "age_slots (map Some as) (Suc i) (ns(a \<mapsto> aged n)) ?mx ?f t = (ns', f', t')"
    using Cons.prems(3) by (simp only: list.map age_step [of ns a, OF n])
  have d: "distinct as" using Cons.prems(1) by simp
  from Cons.IH [OF d live run]
  consider (kept) "f' = ?f" "\<forall>b \<in> set as. tn_idle (aged (the (ns b))) \<le> ?mx"
    | (new) j where "j < length as" "f' = Some (Suc i + j)" "?mx < tn_idle (aged (the (ns (as ! j))))"
      "\<forall>b \<in> set as. tn_idle (aged (the (ns b))) \<le> tn_idle (aged (the (ns (as ! j))))"
    using same by fastforce
  then show ?case
  proof cases
    case kept
    then show ?thesis using n by (cases "tn_idle (aged n) > mx") (auto intro!: exI [of _ 0])
  next
    case new
    then show ?thesis using n by (intro disjI2 exI [of _ "Suc j"]) (auto split: if_splits)
  qed
qed simp

lemma aged_pos: "0 < tn_idle (aged n)"
  by (simp add: aged_def)

text \<open>Adding to a full cache without holes frees the node of the slot that was idle longest.\<close>

lemma add_full:
  assumes "tr_cache s = map Some as" "distinct as" "\<forall>a \<in> set as. nodes s a \<noteq> None" "length as = 50"
  shows "\<exists>j < 50. add_trustee_node b s =
      s\<lparr>nodes := (\<lambda>a. if a \<in> set as then map_option aged (nodes s a) else nodes s a)(as ! j := None),
        tr_cache := (map Some as)[j := Some b]\<rparr> \<and>
    (\<forall>a \<in> set as. tn_idle (aged (the (nodes s a))) \<le> tn_idle (aged (the (nodes s (as ! j)))))"
proof -
  obtain ns f t where age: "age_slots (map Some as) 0 (nodes s) 0 None None = (ns, f, t)" by (metis surj_pair)
  have t: "t = None" using age_slots_packed [OF age] .
  note ns = age_nodes [OF assms(2,3) age]
  have "as ! 0 \<in> set as" using assms(4) by simp
  then have "\<not> (\<forall>a \<in> set as. tn_idle (aged (the (nodes s a))) \<le> 0)" using aged_pos by (metis less_le_not_le)
  with age_found [OF assms(2,3) age] obtain j where j: "j < 50" "f = Some j"
    "\<forall>a \<in> set as. tn_idle (aged (the (nodes s a))) \<le> tn_idle (aged (the (nodes s (as ! j))))"
    using assms(4) by auto
  have "add_trustee_node b s =
      s\<lparr>nodes := (\<lambda>a. if a \<in> set as then map_option aged (nodes s a) else nodes s a)(as ! j := None),
        tr_cache := (map Some as)[j := Some b]\<rparr>"
    using age t j assms(1,4)
    by (simp add: add_trustee_node_def MAX_TRUSTEE_CACHE_def free_trustee_node_def ns)
  with j show ?thesis by blast
qed

section \<open>Writing trustees\<close>

lemma map_of_put: "map_of (filter (\<lambda>e. fst e \<noteq> i) es @ [(i, t)]) = (map_of es)(i \<mapsto> t)"
  by (induction es) (auto simp: fun_eq_iff)

lemma same_names_volname: "same_names (tvols s) (tvols s') \<Longrightarrow> volname s' v = volname s v"
  by (simp add: same_names_def volname_def nw_get_volume_name_def valid_vol_def vol_at_def)

lemma put_spec:
  assumes "volname s volume = Some vn" and "put_trustee_to_disk env volume dev inode i t s = (r, s')"
  shows "tvols s' = tvols s" and "k \<noteq> (vn, dev, inode32 inode) \<Longrightarrow> dir_of s' k = dir_of s k"
    and "r = 0 \<Longrightarrow> map_of (dir_of s' (vn, dev, inode32 inode)) = (map_of (dir_of s (vn, dev, inode32 inode)))(i \<mapsto> t)"
  using assms map_of_put
  by (auto simp: put_trustee_to_disk_def set_dir_def dir_of_def Let_def split: if_splits)

definition stored_right :: "bool \<Rightarrow> NW_OIC \<Rightarrow> u32" where
  "stored_right may_s o1 = (if may_s then oic_trustee o1 else oic_trustee o1 AND NOT TRUSTEE_S)"

lemma put_oics_spec:
  assumes "volname s volume = Some vn" and "put_oics env volume stb may_s oics s = (0, s')"
    and "distinct (map oic_id oics)"
  shows "tvols s' = tvols s \<and> (\<forall>o1 \<in> set oics. map_of (dir_of s' (vn, st_dev stb, inode32 (st_ino stb))) (oic_id o1)
      = Some (stored_right may_s o1)) \<and>
    (\<forall>i. i \<notin> oic_id ` set oics \<longrightarrow> map_of (dir_of s' (vn, st_dev stb, inode32 (st_ino stb))) i
      = map_of (dir_of s (vn, st_dev stb, inode32 (st_ino stb))) i)"
  using assms
proof (induction oics arbitrary: s)
  case (Cons o1 os)
  obtain r s1 where p: "put_trustee_to_disk env volume (st_dev stb) (st_ino stb) (oic_id o1) (stored_right may_s o1) s = (r, s1)"
    by fastforce
  then have r: "r = 0" and rest: "put_oics env volume stb may_s os s1 = (0, s')"
    using Cons.prems(2) by (auto simp: stored_right_def split: if_splits)
  note ps = put_spec [OF Cons.prems(1) p]
  have "volname s1 volume = Some vn" using ps(1) Cons.prems(1) by (simp add: volname_def)
  from Cons.IH [OF this rest] Cons.prems(3) ps(1) ps(3) [OF r] show ?case by auto
qed simp

lemma volname_tvols: "tvols s' = tvols s \<Longrightarrow> volname s' = volname s"
  by (rule ext) (simp add: volname_def)

lemma show_dir_keeps:
  assumes "volname s volume = Some vn" and "k \<noteq> (vn, st_dev statb, inode32 (st_ino statb))"
  shows "tvols (show_dir env volume statb o1 s) = tvols s \<and> dir_of (show_dir env volume statb o1 s) k = dir_of s k"
  using put_spec(1,2) [OF assms(1), of env "st_dev statb" "st_ino statb" "oic_id o1"] assms(2)
  by (auto simp: show_dir_def Let_def) (metis prod.collapse)+

lemma show_dir_fold_keeps:
  assumes "volname s volume = Some vn" and "k \<noteq> (vn, st_dev statb, inode32 (st_ino statb))"
  shows "tvols (fold (show_dir env volume statb) oics s) = tvols s \<and>
    dir_of (fold (show_dir env volume statb) oics s) k = dir_of s k"
  using assms
proof (induction oics arbitrary: s)
  case (Cons o1 os)
  note k = show_dir_keeps [OF Cons.prems, of env o1]
  have "volname (show_dir env volume statb o1 s) volume = Some vn"
    using k Cons.prems(1) volname_tvols by metis
  from Cons.IH [OF this Cons.prems(2)] k show ?case by simp
qed simp

lemma show_dirs_keeps:
  assumes "volname s volume = Some vn"
    and "\<forall>d \<in> set ds. \<forall>st. fs_stat (files env) d = Some st \<longrightarrow> k \<noteq> (vn, st_dev st, inode32 (st_ino st))"
  shows "tvols (show_dirs env volume oics ds s) = tvols s \<and> dir_of (show_dirs env volume oics ds s) k = dir_of s k"
  using assms
proof (induction ds arbitrary: s)
  case (Cons d ds)
  define s1 where "s1 = (case fs_stat (files env) d of None \<Rightarrow> s
    | Some statb \<Rightarrow> fold (show_dir env volume statb) oics s)"
  have s1: "tvols s1 = tvols s \<and> dir_of s1 k = dir_of s k"
    using show_dir_fold_keeps [OF Cons.prems(1), of k] Cons.prems(2) by (simp add: s1_def split: option.splits)
  then have "volname s1 volume = Some vn" using Cons.prems(1) volname_tvols by metis
  from Cons.IH [OF this] Cons.prems(2) s1 show ?case by (simp add: show_dirs_def s1_def)
qed (simp add: show_dirs_def)

lemma sernum_keeps: "dir_of (snd (tru_vol_sernum env volume b s)) k = dir_of s k \<and> tvols (snd (tru_vol_sernum env volume b s)) = tvols s"
  by (auto simp: tru_vol_sernum_def dir_of_def Let_def split: option.splits)

lemma get_eff_keeps: "tru_get_eff_rights env volume name stb s = Some (own, s') \<Longrightarrow> keeps s s'"
  using trustee_part_keeps by (auto simp: tru_get_eff_rights_def)

lemma local_add_success:
  assumes "local_tru_add_trustee_set env volume name stb oics s = Some (0, s')"
    and "volname s volume = Some vn" and "distinct (map oic_id oics)"
  shows "\<exists>own s1. tru_get_eff_rights env volume name stb s = Some (own, s1) \<and> may_control env own \<and>
    same_names (tvols s) (tvols s') \<and>
    (\<forall>o1 \<in> set oics. map_of (dir_of s' (vn, st_dev stb, inode32 (st_ino stb))) (oic_id o1)
      = Some (stored_right (has own TRUSTEE_S \<or> has (act_id_flags (usr env)) 1) o1))"
proof -
  obtain own s1 a s2 tr s3 where e: "tru_get_eff_rights env volume name stb s = Some (own, s1)" "may_control env own"
    "find_build_trustee_node env volume name stb s1 = Some (Some a, s2)" "nodes s2 a = Some tr"
    "put_oics env volume stb (has own TRUSTEE_S \<or> has (act_id_flags (usr env)) 1) oics s2 = (0, s3)"
    "s' = creat_trustee_path volume (st_dev stb) (st_ino stb) (volume_relative s3 volume name) s3"
    using assms(1) by (auto simp: local_tru_add_trustee_set_def Let_def split: if_splits option.splits prod.splits)
  have k: "keeps s s2" using get_eff_keeps [OF e(1)] find_build_keeps [OF e(3)] keeps_trans by blast
  then have vn: "volname s2 volume = Some vn" using same_names_volname assms(2) by (metis keeps_def)
  note p = put_oics_spec [OF vn e(5) assms(3)]
  have "dir_of s' = dir_of s3" "tvols s' = tvols s3"
    by (auto simp: e(6) creat_trustee_path_def dir_of_def fun_eq_iff split: option.splits)
  with p k e(1,2) show ?thesis by (auto simp: keeps_def)
qed

lemma find_slot_other:
  "\<forall>a \<in> set as. \<forall>n. ns a = Some n \<longrightarrow> node_key n \<noteq> (volume, dev, inode) \<Longrightarrow>
     find_slot volume dev inode (map Some as) ns = None"
  by (induction as) (auto simp: node_key_def split: option.splits)

lemma find_other:
  assumes "tr_cache s = map Some as" "settled env volume s"
    and "\<forall>a \<in> set as. \<forall>n. nodes s a = Some n \<longrightarrow> node_key n \<noteq> (volume, dev, inode32 inode)"
  shows "find_trustee_node env volume dev inode s = (None, s)"
  using assms find_slot_other [OF assms(3)]
  by (simp add: find_trustee_node_def vol_trustees_were_changed_def settled_def Let_def)

lemma new_node_fields:
  "tn_volume (new_node v d i fl es) = v" "tn_idle (new_node v d i fl es) = 0"
  "mode_flags (new_node v d i fl es) = fl" "node_key (new_node v d i fl es) = (v, d, inode32 i)"
  "eff_rights (new_node v d i fl es) = -1"
  by (simp_all add: new_node_def node_key_def split: prod.splits)

definition busy_cache :: "int \<Rightarrow> nat list \<Rightarrow> tru_state \<Rightarrow> bool" where
  "busy_cache volume as s = (tr_cache s = map Some as \<and> distinct as \<and> length as = 50 \<and>
     (\<forall>a \<in> set as. a < next_node s \<and>
        (\<exists>n. nodes s a = Some n \<and> has (mode_flags n) 1 \<and> tn_idle n \<le> 7 \<and> tn_volume n \<noteq> volume)))"

text \<open>The file's node goes into one of the slots, everything else in the cache is a directory.\<close>

lemma file_added:
  assumes "busy_cache volume as s" and "create_trustee_node volume dev inode fl s = (a, s2)"
  shows "a \<notin> set as \<and> (\<exists>j < 50. tr_cache (add_trustee_node a s2) = map Some (as[j := a]) \<and>
    nodes (add_trustee_node a s2) a = nodes s2 a \<and> nodes s2 a = Some (new_node volume dev inode fl
       (dir_of s (snd (nw_get_volume_name (tvols s) volume 100), dev, inode32 inode))) \<and>
    next_node (add_trustee_node a s2) = Suc a \<and>
    (\<forall>b \<in> set (as[j := a]). b \<noteq> a \<longrightarrow> b < a \<and> (\<exists>n. nodes (add_trustee_node a s2) b = Some n \<and>
       has (mode_flags n) 1 \<and> tn_idle n \<le> 8 \<and> tn_volume n \<noteq> volume)))"
proof -
  have s2: "a = next_node s" "s2 = s\<lparr>nodes := (nodes s)(a \<mapsto> new_node volume dev inode fl
       (dir_of s (snd (nw_get_volume_name (tvols s) volume 100), dev, inode32 inode))), next_node := Suc a\<rparr>"
    using assms(2) by (auto simp: create_trustee_node_def Let_def)
  have fresh: "a \<notin> set as" using assms(1) s2(1) by (auto simp: busy_cache_def)
  have c: "tr_cache s2 = map Some as" "distinct as" "length as = 50" using assms(1) s2(2) by (auto simp: busy_cache_def)
  have old: "nodes s2 b = nodes s b" if "b \<in> set as" for b using fresh that s2(2) by auto
  have "\<forall>b \<in> set as. nodes s2 b \<noteq> None" using assms(1) old by (auto simp: busy_cache_def)
  from add_full [OF c(1,2) this c(3), of a] obtain j where j: "j < 50"
    "add_trustee_node a s2 = s2\<lparr>nodes := (\<lambda>b. if b \<in> set as then map_option aged (nodes s2 b) else nodes s2 b)(as ! j := None),
        tr_cache := (map Some as)[j := Some a]\<rparr>" by blast
  have asj: "as ! j \<in> set as" using j(1) c(3) by simp
  have b: "b \<in> set as \<and> b \<noteq> as ! j" if "b \<in> set (as[j := a])" "b \<noteq> a" for b
    using that c(2,3) j(1)
    by (auto simp: in_set_conv_nth nth_list_update nth_eq_iff_index_eq split: if_splits)
  have "\<exists>n. nodes (add_trustee_node a s2) b = Some n \<and> has (mode_flags n) 1 \<and> tn_idle n \<le> 8 \<and> tn_volume n \<noteq> volume"
    if bin: "b \<in> set (as[j := a])" "b \<noteq> a" for b
  proof -
    obtain n where "nodes s b = Some n" "has (mode_flags n) 1" "tn_idle n \<le> 7" "tn_volume n \<noteq> volume"
      using b [OF bin] assms(1) by (auto simp: busy_cache_def)
    then show ?thesis using b [OF bin] old by (intro exI [of _ "aged n"]) (auto simp: j(2) aged_def)
  qed
  then show ?thesis
    using j(1) fresh asj b s2 assms(1) unfolding j(2)
    by (intro conjI exI [of _ j]) (auto simp: map_update busy_cache_def)
qed

text \<open>Adding one more node then frees the file's node: a file ages by ten, a directory by one.\<close>

lemma file_evicted:
  assumes "tr_cache s = map Some as" "distinct as" "length as = 50" "a \<in> set as"
    and "nodes s a = Some f" "\<not> has (mode_flags f) 1"
    and "\<forall>b \<in> set as. b \<noteq> a \<longrightarrow> (\<exists>n. nodes s b = Some n \<and> has (mode_flags n) 1 \<and> tn_idle n \<le> 8)"
    and "r \<notin> set as"
  shows "nodes (add_trustee_node r s) a = None \<and> nodes (add_trustee_node r s) r = nodes s r"
proof -
  have "\<forall>b \<in> set as. nodes s b \<noteq> None" using assms(5,7) by (metis option.distinct(1))
  from add_full [OF assms(1,2) this assms(3), of r] obtain j where j: "j < 50"
    "add_trustee_node r s = s\<lparr>nodes := (\<lambda>a. if a \<in> set as then map_option aged (nodes s a) else nodes s a)(as ! j := None),
        tr_cache := (map Some as)[j := Some r]\<rparr>"
    "\<forall>b \<in> set as. tn_idle (aged (the (nodes s b))) \<le> tn_idle (aged (the (nodes s (as ! j))))" by blast
  have "10 \<le> tn_idle (aged (the (nodes s (as ! j))))"
  proof -
    have "10 \<le> tn_idle (aged f)" using assms(6) by (simp add: aged_def)
    also have "tn_idle (aged f) \<le> tn_idle (aged (the (nodes s (as ! j))))" using j(3) assms(4,5) by force
    finally show ?thesis .
  qed
  moreover have "as ! j \<in> set as" using j(1) assms(3) by simp
  ultimately have "as ! j = a" using assms(7) by (force simp: aged_def)
  with j(2) assms(4,8) show ?thesis by auto
qed

lemma has_flag_1: "\<not> has (0 OR link_flag fs name stb) 1"
  by (simp add: link_flag_def has_def split: option.splits)

lemma file_node_lost:
  assumes "busy_cache volume as s" and "settled env volume s" and "\<not> S_ISDIR (st_mode stb)"
    and "m = get_volume_unixnamlen (tvols s) volume"
    and "dir_prefixes True (take m name) (drop m name) = []"
    and "st_key volume (volume_stat env volume s) \<noteq> st_key volume stb"
  shows "find_build_trustee_node env volume name stb s = None"
proof -
  let ?fl = "dir_flag stb OR link_flag (files env) name stb"
  let ?root = "volume_stat env volume s"
  have find: "find_trustee_node env volume (st_dev stb) (st_ino stb) s = (None, s)"
    by (rule find_other [where as = as]) (use assms(1,2) in \<open>auto simp: busy_cache_def node_key_def\<close>)
  obtain a s2 where cr: "create_trustee_node volume (st_dev stb) (st_ino stb) ?fl s = (a, s2)" by fastforce
  let ?s3 = "add_trustee_node a s2"
  from file_added [OF assms(1) cr] obtain j f where j: "j < 50" "tr_cache ?s3 = map Some (as[j := a])"
    "nodes ?s3 a = Some f" "f = new_node volume (st_dev stb) (st_ino stb) ?fl
       (dir_of s (snd (nw_get_volume_name (tvols s) volume 100), st_dev stb, inode32 (st_ino stb)))"
    "next_node ?s3 = Suc a" "a \<notin> set as"
    "\<forall>b \<in> set (as[j := a]). b \<noteq> a \<longrightarrow> b < a \<and> (\<exists>n. nodes ?s3 b = Some n \<and>
       has (mode_flags n) 1 \<and> tn_idle n \<le> 8 \<and> tn_volume n \<noteq> volume)" by auto
  have tv: "tvols s2 = tvols s" using create_trustee_node_keeps [OF cr] by simp
  have as: "distinct as" "length as = 50" using assms(1) by (auto simp: busy_cache_def)
  have d: "distinct (as[j := a])" using as j(6) by (simp add: distinct_list_update)
  have ain: "a \<in> set (as[j := a])" using as j(1) by (simp add: set_update_memI)
  have root3: "volume_stat env volume ?s3 = ?root" by (simp add: volume_stat_def tv)
  have find_root: "find_trustee_node env volume (st_dev ?root) (st_ino ?root) ?s3 = (None, ?s3)"
  proof (rule find_other [OF j(2)])
    show "settled env volume ?s3" using assms(2) by (simp add: settled_def tv)
    show "\<forall>b \<in> set (as[j := a]). \<forall>n. nodes ?s3 b = Some n \<longrightarrow>
        node_key n \<noteq> (volume, st_dev ?root, inode32 (st_ino ?root))"
      using j(3,4,7) assms(6) by (metis Pair_inject new_node_fields(4) node_key_def option.inject st_key_def)
  qed
  obtain r s4 where cr4: "create_trustee_node volume (st_dev ?root) (st_ino ?root) 3 ?s3 = (r, s4)" by fastforce
  have s4: "r = Suc a" "tr_cache s4 = tr_cache ?s3" "nodes s4 r \<noteq> None" "\<forall>b. b \<noteq> r \<longrightarrow> nodes s4 b = nodes ?s3 b"
    using cr4 j(5) by (auto simp: create_trustee_node_def Let_def)
  have "r \<notin> set (as[j := a])" using j(7) s4(1) by (metis Suc_n_not_le_n less_imp_le_nat less_Suc_eq)
  moreover have "\<not> has (mode_flags f) 1" using assms(3) has_flag_1 by (simp add: j(4) new_node_fields dir_flag_def)
  moreover have "\<forall>b \<in> set (as[j := a]). b \<noteq> a \<longrightarrow> (\<exists>n. nodes s4 b = Some n \<and> has (mode_flags n) 1 \<and> tn_idle n \<le> 8)"
    using j(7) s4(1,4) by (metis less_Suc_eq less_irrefl)
  moreover have "nodes s4 a = Some f" using j(3) s4(1,4) by simp
  moreover have "length (as[j := a]) = 50" using as by simp
  moreover have "tr_cache s4 = map Some (as[j := a])" using s4(2) j(2) by simp
  ultimately have lost: "nodes (add_trustee_node r s4) a = None" "nodes (add_trustee_node r s4) r \<noteq> None"
    using file_evicted [of s4 "as[j := a]" a f r] d ain s4(3) by auto
  then obtain ug s5 where b: "build_at env r [] (add_trustee_node r s4) = Some (ug, s5)" "nodes s5 a = None"
  proof -
    obtain n where n: "nodes (add_trustee_node r s4) r = Some n" using lost(2) by blast
    obtain n' ug where "build_trustee_rights (usr env) (grps_grps (add_trustee_node r s4)) n [] = (n', ug)" by fastforce
    with n that lost(1) s4(1) show ?thesis by (simp add: build_at_def)
  qed
  have w: "walk_path env volume name stb ?root ?s3 = Some (True, st_dev ?root, ug, s5)"
    using b(1) by (simp add: walk_path_def root_node_def find_root cr4 Let_def tv assms(4) [symmetric] assms(5))
  have none: "build_at env a ug (add_flags a x s5) = None" for x
    using b(2) by (simp add: build_at_def add_flags_def update_node_def)
  have ne: "\<not> (st_ino ?root = st_ino stb \<and> st_dev ?root = st_dev stb)" using assms(6) by (auto simp: st_key_def)
  have "find_creat_add_trustee_node env volume name stb s = (a, ?s3)"
    by (simp add: find_creat_add_trustee_node_def find cr)
  then show ?thesis
    using j(3,4) ne by (auto simp: find_build_trustee_node_def root3 w none new_node_fields Let_def)
qed

section \<open>Properties of the trustee operations\<close>

text \<open>An example: the volume \<^verbatim>\<open>S\<close> at \<^verbatim>\<open>/s/\<close>; names have their length as inode, names that
  end in \<^verbatim>\<open>f\<close> are files, all others directories.  User 7 has a trustee entry (read and scan) at
  \<^verbatim>\<open>/s/a\<close>.\<close>

definition example_stat :: "cstring \<Rightarrow> stat" where
  "example_stat p = \<lparr>st_dev = 8, st_ino = word_of_nat (length p),
     st_mode = (if p \<noteq> [] \<and> last p = 102 then 0x81b6 else 0x41ff), st_uid = 0, st_gid = 0\<rparr>"

definition example_env :: tru_env where
  "example_env = \<lparr>usr = example_user, files = \<lparr>fs_stat = (\<lambda>p. Some (example_stat p)),
     fs_lstat = (\<lambda>p. Some (example_stat p)), fs_access = (\<lambda>_ _. True)\<rparr>, act_time = 0,
     link_ok = (\<lambda>_ _. True), sernum_ok = True\<rparr>"

definition trustee_vols :: volumes where
  "trustee_vols = \<lparr>nw_volumes = [empty_vol\<lparr>sysname := [83], unixname := [47, 115, 47],
       options := VOL_OPTION_TRUSTEES OR VOL_OPTION_IGNUNXRIGHT\<rparr>],
     used_nw_volumes = 1, loaded_namespaces = 0, path_vol_inodes_cache = [], path_attributes = [],
     path_trustees = []\<rparr>"

definition example_tru :: tru_state where
  "example_tru = \<lparr>tr_cache = [], nodes = (\<lambda>_. None), next_node = 0, grps_grps = [5],
     tdisk = \<lparr>t_dirs = (\<lambda>k. if k = ([83], 8, 4) then [(7, TRUSTEE_R OR TRUSTEE_F OR TRUSTEE_A)] else []),
              t_names = (\<lambda>_. None), t_sernum = (\<lambda>_. None)\<rparr>, tvols = trustee_vols\<rparr>"

abbreviation example_name :: cstring where "example_name \<equiv> [47, 115, 47, 97, 47, 102]"

text \<open>C5. The trustee rights are those of the specification \<^const>\<open>granted\<close>, on an empty cache.  When nothing is
  cached, the serial numbers are settled, every directory of the path can be stat'ed, the files of the path
  are different ones and there are at most 48 directories, \<^verbatim>\<open>find_build_trustee_node\<close> ends with a
  node whose effective rights are exactly the rights that one of the user's ids has at the end of the path, where an
  entry overrides what is inherited, the mask of every directory cuts it, and links and device borders stop it.  (On a
  full cache the code may free the node that it works on.)\<close>

theorem effective_rights_of_path:
  assumes "tr_cache s = []" "settled env volume s" and "root = volume_stat env volume s"
    and "m = get_volume_unixnamlen (tvols s) volume"
    and "map (fs_stat (files env)) (dir_prefixes True (take m name) (drop m name)) = map Some sts"
    and "distinct (map (st_key volume) (root # sts @ [stb]))" and "length sts \<le> 48"
  shows "\<exists>a s' n. find_build_trustee_node env volume name stb s = Some (Some a, s') \<and> nodes s' a = Some n \<and>
    (\<forall>k. bit (eff_rights n) k \<longleftrightarrow> (\<exists>i. concerns (usr env) (grps_grps s) i \<and>
       bit (granted (usr env)
         (leaf_node env s volume name stb (if sts = [] then st_dev root else st_dev (last sts)) root #
          rev (way env s volume (st_dev root) (st_dev root) (dir_prefixes True (take m name) (drop m name)) sts)
          @ [disk_node s volume 3 root]) i) k))"
  by (rule eff_rights_path [OF assms])

theorem effective_rights_of_path_witness:
  "\<exists>a s' n. find_build_trustee_node example_env 0 example_name (example_stat example_name) example_tru
     = Some (Some a, s') \<and> nodes s' a = Some n \<and> bit (eff_rights n) 6"
proof -
  let ?root = "volume_stat example_env 0 example_tru" and ?sts = "[example_stat [47, 115, 47, 97]]"
  have m: "get_volume_unixnamlen (tvols example_tru) 0 = 3" by code_simp
  have ps: "dir_prefixes True (take 3 example_name) (drop 3 example_name) = [[47, 115, 47, 97]]" by code_simp
  have d: "distinct (map (st_key 0) (?root # ?sts @ [example_stat example_name]))" by code_simp
  have st: "settled example_env 0 example_tru" by code_simp
  have stat: "map (fs_stat (files example_env)) (dir_prefixes True (take 3 example_name) (drop 3 example_name)) = map Some ?sts"
    by (simp add: ps example_env_def)
  have "tr_cache example_tru = []" by (simp add: example_tru_def)
  from effective_rights_of_path [OF this st refl m [symmetric] stat d]
  obtain a s' n where e: "find_build_trustee_node example_env 0 example_name (example_stat example_name) example_tru
     = Some (Some a, s')" "nodes s' a = Some n"
    "\<And>k. bit (eff_rights n) k \<longleftrightarrow> (\<exists>i. concerns (usr example_env) (grps_grps example_tru) i \<and>
       bit (granted (usr example_env)
         (leaf_node example_env example_tru 0 example_name (example_stat example_name) 8 ?root #
          rev (way example_env example_tru 0 (st_dev ?root) (st_dev ?root) [[47, 115, 47, 97]] ?sts)
          @ [disk_node example_tru 0 3 ?root]) i) k)" by (auto simp: ps example_stat_def)
  have "concerns (usr example_env) (grps_grps example_tru) 7" by code_simp
  moreover have "bit (granted (usr example_env)
         (leaf_node example_env example_tru 0 example_name (example_stat example_name) 8 ?root #
          rev (way example_env example_tru 0 (st_dev ?root) (st_dev ?root) [[47, 115, 47, 97]] ?sts)
          @ [disk_node example_tru 0 3 ?root]) 7) 6" by code_simp
  ultimately have "bit (eff_rights n) 6" using e(3) by blast
  with e(1,2) show ?thesis by blast
qed

theorem eff_rights_exists_exact_witness:
  "\<exists>v s1. tru_eff_rights_exists (example_env\<lparr>usr := example_user\<lparr>act_obj_id := 1, act_id_flags := 1\<rparr>\<rparr>) 0
     example_name (example_stat example_name) TRUSTEE_W example_tru = Some (v, s1) \<and>
   (v = 0 \<longleftrightarrow> enough (MAX_TRUSTEE_MASK OR unix_part (example_env\<lparr>usr := example_user\<lparr>act_obj_id := 1, act_id_flags := 1\<rparr>\<rparr>) 0
     example_name (example_stat example_name) example_tru) TRUSTEE_W)"
proof -
  let ?env = "example_env\<lparr>usr := example_user\<lparr>act_obj_id := 1, act_id_flags := 1\<rparr>\<rparr>"
  have "trustee_part ?env 0 example_name (example_stat example_name) example_tru = Some (MAX_TRUSTEE_MASK, example_tru)"
  proof -
    have "has (get_volume_options (tvols example_tru) 0) VOL_OPTION_TRUSTEES" by code_simp
    then show ?thesis by (simp add: trustee_part_def get_eff_rights_by_trustees_def has_def)
  qed
  from eff_rights_exists_exact [OF this, of TRUSTEE_W] show ?thesis by auto
qed

text \<open>C19. The array of ids of a walk never overflows: it is allocated for the user and every group of
  the user, and no walk along any path collects more entries, whatever trustees the directories hold.\<close>

theorem ugid_trustees_bounded:
  assumes "walk_path env volume name stb root s = Some (ok, last_dev, ug, s')"
  shows "length ug \<le> length (grps_grps s) + 1 \<and>
    length (snd (build_trustee_rights (usr env) (grps_grps s) tr ug)) \<le> length (grps_grps s) + 1"
proof -
  have ok: "ug_ok (usr env) (grps_grps s) ug" using walk_path_ug_ok [OF assms] by simp
  obtain n' ug' where "build_trustee_rights (usr env) (grps_grps s) tr ug = (n', ug')" by fastforce
  with ok show ?thesis using ug_ok_length build_ug_ok by (metis snd_conv)
qed

theorem ugid_trustees_bounded_witness:
  "\<exists>ok l ug s'. walk_path example_env 0 example_name (example_stat example_name)
      (example_stat [47, 115, 47]) example_tru = Some (ok, l, ug, s') \<and> length ug \<le> 2"
proof -
  have "walk_path example_env 0 example_name (example_stat example_name) (example_stat [47, 115, 47]) example_tru \<noteq> None"
    by code_simp
  then obtain ok l ug s' where w: "walk_path example_env 0 example_name (example_stat example_name)
      (example_stat [47, 115, 47]) example_tru = Some (ok, l, ug, s')" by auto
  from ugid_trustees_bounded [OF this, of undefined] have "length ug \<le> 2" by (simp add: example_tru_def)
  with w show ?thesis by blast
qed

text \<open>C12. Trustees that were set are the ones found on disk: when \<^verbatim>\<open>tru_add_trustee_set\<close>
  succeeds, the caller had the access control right or was supervisor equivalent, and every id of
  the set now has the rights it was given, less the supervisor right when the caller may not give it,
  provided that no directory above the file has the file's own device and inode.\<close>

theorem added_trustees_are_stored:
  assumes "tru_add_trustee_set env volume name stb oics s = Some (0, s')"
    and "volname s volume = Some vn" and "distinct (map oic_id oics)"
    and "\<forall>d \<in> set (upper_dirs name (get_volume_unixnamlen (tvols s) volume)). \<forall>st.
           fs_stat (files env) d = Some st \<longrightarrow> st_key volume stb \<noteq> st_key volume st"
    and "o1 \<in> set oics"
  shows "\<exists>own s1. tru_get_eff_rights env volume name stb s = Some (own, s1) \<and> may_control env own \<and>
    get_trustee_from_disk volume (st_dev stb) (st_ino stb) (oic_id o1) s' =
      Some (stored_right (has own TRUSTEE_S \<or> has (act_id_flags (usr env)) 1) o1)"
proof -
  let ?k = "(vn, st_dev stb, inode32 (st_ino stb))"
  obtain s1 where l: "local_tru_add_trustee_set env volume name stb oics s = Some (0, s1)"
    and s': "s' = snd (tru_vol_sernum env volume True (show_dirs env volume oics
       (upper_dirs name (get_volume_unixnamlen (tvols s1) volume)) s1))"
    using assms(1) by (auto simp: tru_add_trustee_set_def split: option.splits prod.splits if_splits)
  from local_add_success [OF l assms(2,3)] obtain own s0 where
    own: "tru_get_eff_rights env volume name stb s = Some (own, s0)" "may_control env own"
    and names: "same_names (tvols s) (tvols s1)"
    and stored: "\<forall>o1 \<in> set oics. map_of (dir_of s1 ?k) (oic_id o1) =
       Some (stored_right (has own TRUSTEE_S \<or> has (act_id_flags (usr env)) 1) o1)" by blast
  have len: "get_volume_unixnamlen (tvols s1) volume = get_volume_unixnamlen (tvols s) volume"
    using names by (simp add: same_names_def get_volume_unixnamlen_def valid_vol_def vol_at_def)
  have vn1: "volname s1 volume = Some vn" using same_names_volname [OF names] assms(2) by simp
  have keep: "tvols (show_dirs env volume oics (upper_dirs name (get_volume_unixnamlen (tvols s1) volume)) s1) = tvols s1 \<and>
     dir_of (show_dirs env volume oics (upper_dirs name (get_volume_unixnamlen (tvols s1) volume)) s1) ?k = dir_of s1 ?k"
    by (rule show_dirs_keeps [OF vn1]) (use assms(4) len in \<open>auto simp: st_key_def\<close>)
  then have "tvols s' = tvols s1" "dir_of s' ?k = dir_of s1 ?k" 
    unfolding s' by (simp_all only: sernum_keeps)
  moreover have "volname s' = volname s1" by (rule volname_tvols) fact
  ultimately show ?thesis using own stored assms(5) vn1 by (simp add: get_trustee_from_disk_def)
qed

theorem added_trustees_are_stored_witness:
  "\<exists>s'. tru_add_trustee_set example_env 0 example_name (example_stat example_name)
      [\<lparr>oic_id = 9, oic_trustee = TRUSTEE_R OR TRUSTEE_S\<rparr>] example_tru = Some (0, s') \<and>
    (\<exists>own s1. tru_get_eff_rights example_env 0 example_name (example_stat example_name) example_tru = Some (own, s1) \<and>
      may_control example_env own \<and>
      get_trustee_from_disk 0 8 6 9 s' = Some (stored_right (has own TRUSTEE_S \<or>
         has (act_id_flags (usr example_env)) 1) \<lparr>oic_id = 9, oic_trustee = TRUSTEE_R OR TRUSTEE_S\<rparr>))"
proof -
  let ?o = "\<lparr>oic_id = 9, oic_trustee = TRUSTEE_R OR TRUSTEE_S\<rparr>"
  have "map_option fst (tru_add_trustee_set example_env 0 example_name (example_stat example_name) [?o] example_tru) = Some 0"
    by code_simp
  then obtain s' where a: "tru_add_trustee_set example_env 0 example_name (example_stat example_name) [?o] example_tru = Some (0, s')"
    by auto
  have v: "volname example_tru 0 = Some [83]" by code_simp
  have u: "upper_dirs example_name (get_volume_unixnamlen (tvols example_tru) 0) = [[47, 115, 47, 97]]" by code_simp
  have k: "st_key 0 (example_stat example_name) \<noteq> st_key 0 (example_stat [47, 115, 47, 97])" by code_simp
  have f: "fs_stat (files example_env) d = Some (example_stat d)" for d by (simp add: example_env_def)
  have "\<exists>own s1. tru_get_eff_rights example_env 0 example_name (example_stat example_name) example_tru = Some (own, s1) \<and>
      may_control example_env own \<and>
      get_trustee_from_disk 0 (st_dev (example_stat example_name)) (st_ino (example_stat example_name)) (oic_id ?o) s' =
        Some (stored_right (has own TRUSTEE_S \<or> has (act_id_flags (usr example_env)) 1) ?o)"
    by (rule added_trustees_are_stored [OF a v]) (use k f u in simp_all)
  moreover have "st_dev (example_stat example_name) = 8" "st_ino (example_stat example_name) = 6" "oic_id ?o = 9"
    by (simp_all add: example_stat_def)
  ultimately show ?thesis using a by (simp only: simp_thms) blast
qed

text \<open>A node can be freed while it is in use: when the cache is full of recently used directories
  of other volumes, looking up the rights of a file in the volume's directory caches the file, then
  the volume's directory, and this second entry throws out the file's node, because files age ten
  times as fast as directories; the code goes on with the freed node.\<close>

theorem file_node_freed_in_use:
  assumes "busy_cache volume as s" and "settled env volume s" and "\<not> S_ISDIR (st_mode stb)"
    and "dir_prefixes True (take (get_volume_unixnamlen (tvols s) volume) name)
           (drop (get_volume_unixnamlen (tvols s) volume) name) = []"
    and "st_key volume (volume_stat env volume s) \<noteq> st_key volume stb"
  shows "find_build_trustee_node env volume name stb s = None"
  by (rule file_node_lost [OF assms(1,2,3) refl assms(4,5)])

definition full_cache :: tru_state where
  "full_cache = example_tru\<lparr>tr_cache := map Some [0..<50], next_node := 50,
     nodes := (\<lambda>a. if a < 50 then Some \<lparr>tn_volume = 1, tn_dev = 9, tn_inode = word_of_nat a,
        tn_idle = 0, mode_flags = 1, inherited_mask = MAX_TRUSTEE_MASK, eff_rights = 0, tn_trustees = []\<rparr>
      else None)\<rparr>"

theorem file_node_freed_in_use_witness:
  "find_build_trustee_node example_env 0 [47, 115, 47, 102] (example_stat [47, 115, 47, 102]) full_cache = None"
proof (rule file_node_freed_in_use [where as = "[0..<50]"])
  show "busy_cache 0 [0..<50] full_cache" by (simp add: busy_cache_def full_cache_def has_def)
  show "settled example_env 0 full_cache" by code_simp
  show "\<not> S_ISDIR (st_mode (example_stat [47, 115, 47, 102]))" by code_simp
  show "dir_prefixes True (take (get_volume_unixnamlen (tvols full_cache) 0) [47, 115, 47, 102])
     (drop (get_volume_unixnamlen (tvols full_cache) 0) [47, 115, 47, 102]) = []" by code_simp
  show "st_key 0 (volume_stat example_env 0 full_cache) \<noteq> st_key 0 (example_stat [47, 115, 47, 102])" by code_simp
qed

text \<open>The supervisor cannot set an inherited rights mask: for the object \<^verbatim>\<open>SUPERVISOR\<close> (id 1)
  the rights are known without a walk, so nothing is cached, and \<^verbatim>\<open>tru_set_inherited_mask\<close>, which
  only looks into the cache, answers \<^verbatim>\<open>-0x85\<close>, no privileges, and changes no trustee.\<close>

theorem supervisor_mask_refused:
  assumes "act_obj_id (usr env) = 1" "has (act_id_flags (usr env)) 1"
    and "has (get_volume_options (tvols s) volume) VOL_OPTION_TRUSTEES" and "tr_cache s = []"
    and "settled env volume s"
  shows "\<exists>s'. tru_set_inherited_mask env volume name stb new_mask s = Some (-0x85, s') \<and> tdisk s' = tdisk s"
proof -
  have "find_trustee_node env volume (st_dev stb) (st_ino stb) s = (None, s)"
    using assms(4,5) by (intro find_other [where as = "[]"]) auto
  then show ?thesis using assms(1-3)
    by (simp add: tru_set_inherited_mask_def tru_get_eff_rights_def trustee_part_def
        get_eff_rights_by_trustees_def may_control_def)
qed

theorem supervisor_mask_refused_witness:
  "\<exists>s'. tru_set_inherited_mask (example_env\<lparr>usr := example_user\<lparr>act_obj_id := 1, act_id_flags := 1\<rparr>\<rparr>) 0
      [47, 115, 47, 97] (example_stat [47, 115, 47, 97]) TRUSTEE_R example_tru = Some (-0x85, s') \<and>
    tdisk s' = tdisk example_tru"
proof (rule supervisor_mask_refused)
  show "has (get_volume_options (tvols example_tru) 0) VOL_OPTION_TRUSTEES" by code_simp
  show "tr_cache example_tru = []" by (simp add: example_tru_def)
  show "settled (example_env\<lparr>usr := example_user\<lparr>act_obj_id := 1, act_id_flags := 1\<rparr>\<rparr>) 0 example_tru" by code_simp
qed (simp_all add: has_def)

end
