(* ===== verification/Nwattrib.thy ===== *)
theory Nwattrib
  imports Trustee
begin

text \<open>DOS file attributes: \<^verbatim>\<open>src/nwattrib.c\<close>.  On a volume with attribute handling the attributes
  of a file are kept as a link on disk; on other volumes they follow from the Unix permissions, and
  setting the read-only bit changes the permissions.  The theory shows that attributes that were set
  are read back, bit by bit for the byte and word variants, and that they are only changed by users
  who may modify the file.\<close>

section \<open>Attributes on disk\<close>

abbreviation FILE_ATTR_R :: u32 where "FILE_ATTR_R \<equiv> 0x01"
abbreviation FILE_ATTR_H :: u32 where "FILE_ATTR_H \<equiv> 0x02"
abbreviation FILE_ATTR_DIR :: u32 where "FILE_ATTR_DIR \<equiv> 0x10"
abbreviation FILE_ATTR_A :: u32 where "FILE_ATTR_A \<equiv> 0x20"
abbreviation FILE_ATTR_SHARE :: u32 where "FILE_ATTR_SHARE \<equiv> 0x80"
abbreviation FILE_ATTR_RENAME_INH :: u32 where "FILE_ATTR_RENAME_INH \<equiv> 0x20000"
abbreviation FILE_ATTR_DELETE_INH :: u32 where "FILE_ATTR_DELETE_INH \<equiv> 0x40000"

record attr_state =
  attr_disk :: "int \<times> u32 \<Rightarrow> u32 option"
  a_tru :: tru_state

text \<open>What the kernel answers to the calls on links during one operation: \<^verbatim>\<open>unlink\<close> on a link that exists,
  \<^verbatim>\<open>symlink\<close> (with the directories above it) where there is none.  The code looks at neither result.\<close>

record link_calls =
  unlink_ok :: bool
  symlink_ok :: bool

definition unlink_attr :: "link_calls \<Rightarrow> int \<times> u32 \<Rightarrow> attr_state \<Rightarrow> attr_state" where
  "unlink_attr lk key s = (if unlink_ok lk then s\<lparr>attr_disk := (attr_disk s)(key := None)\<rparr> else s)"

text \<open>\<^verbatim>\<open>symlink\<close> does not replace a link.\<close>

definition symlink_attr :: "link_calls \<Rightarrow> u32 \<Rightarrow> int \<times> u32 \<Rightarrow> attr_state \<Rightarrow> attr_state" where
  "symlink_attr lk attrib key s =
     (if attr_disk s key = None \<and> symlink_ok lk then s\<lparr>attr_disk := (attr_disk s)(key \<mapsto> attrib)\<rparr> else s)"

definition put_attr_to_disk :: "link_calls \<Rightarrow> int \<Rightarrow> u64 \<Rightarrow> u32 \<Rightarrow> attr_state \<Rightarrow> attr_state" where
  "put_attr_to_disk lk dev inode attrib s =
     (let buf = (dev, inode32 inode) in symlink_attr lk attrib buf (unlink_attr lk buf s))"

definition free_attr_from_disk :: "link_calls \<Rightarrow> int \<Rightarrow> u64 \<Rightarrow> attr_state \<Rightarrow> attr_state" where
  "free_attr_from_disk lk dev inode s = unlink_attr lk (dev, inode32 inode) s"

definition get_attr_from_disk :: "int \<Rightarrow> u64 \<Rightarrow> attr_state \<Rightarrow> u32 option" where
  "get_attr_from_disk dev inode s = attr_disk s (dev, inode32 inode)"

section \<open>Reading\<close>

definition dot_file :: "cstring \<Rightarrow> bool" where
  "dot_file name =
     (47 \<in> set name \<and>
      (case rev (takeWhile (\<lambda>c. c \<noteq> 47) (rev name)) of
         c1 # c2 # _ \<Rightarrow> c1 = 46 \<and> c2 \<noteq> 46
       | _ \<Rightarrow> False))"

definition vol_opts :: "attr_state \<Rightarrow> int \<Rightarrow> u32" where
  "vol_opts s volume = get_volume_options (tvols (a_tru s)) volume"

definition get_nw_attrib_dword :: "user \<Rightarrow> int \<Rightarrow> cstring \<Rightarrow> stat \<Rightarrow> attr_state \<Rightarrow> u32" where
  "get_nw_attrib_dword u volume name stb s =
     (let is_dir = S_ISDIR (st_mode stb); voloptions = vol_opts s volume;
          default = (if is_dir then FILE_ATTR_DIR else FILE_ATTR_A)
      in if has voloptions VOL_OPTION_IS_PIPE then
           default OR FILE_ATTR_DELETE_INH OR FILE_ATTR_RENAME_INH OR (if is_dir then 0 else FILE_ATTR_SHARE)
         else
           let a1 = (case (if has voloptions VOL_OPTION_ATTRIBUTES
                           then get_attr_from_disk (st_dev stb) (st_ino stb) s else None) of
                Some a \<Rightarrow> if is_dir then a OR FILE_ATTR_DIR else a AND NOT FILE_ATTR_DIR
              | None \<Rightarrow> if dot_file name then default OR FILE_ATTR_H else default);
               a2 = (if has voloptions VOL_OPTION_READONLY
                     then a1 OR FILE_ATTR_DELETE_INH OR FILE_ATTR_RENAME_INH OR FILE_ATTR_R else a1)
           in if \<not> has voloptions VOL_OPTION_ATTRIBUTES \<and> act_uid u \<noteq> 0 then
                let acc = get_unix_eff_rights u stb
                in a2 OR (if has acc W_OK then 0 else FILE_ATTR_R) OR (if has acc R_OK then 0 else FILE_ATTR_H)
              else a2)"

section \<open>Changing\<close>

text \<open>\<open>chmod_ok\<close> tells whether the kernel accepts new permissions.  The results are the return
  value, the caller's \<^verbatim>\<open>stat\<close> buffer, and the state; \<open>None\<close> when the check of the rights used a
  freed node.\<close>

definition merge_attrib :: "nat \<Rightarrow> u32 \<Rightarrow> u32 \<Rightarrow> u32" where
  "merge_attrib mode old attrib =
     (if mode = 1 then old AND NOT 0xff OR attrib AND 0xff
      else if mode = 2 then old AND NOT 0xffff OR attrib AND 0xffff
      else attrib)"

definition apply_attrib ::
  "tru_env \<Rightarrow> link_calls \<Rightarrow> (cstring \<Rightarrow> u32 \<Rightarrow> bool) \<Rightarrow> int \<Rightarrow> cstring \<Rightarrow> stat \<Rightarrow> u32 \<Rightarrow> nat \<Rightarrow> attr_state \<Rightarrow>
     int \<times> stat \<times> attr_state" where
  "apply_attrib env lk chmod_ok volume name stb attrib mode s =
     (let with_attr = has (vol_opts s volume) VOL_OPTION_ATTRIBUTES; is_dir = S_ISDIR (st_mode stb);
          old = get_nw_attrib_dword (usr env) volume name stb s;
          new = (if mode \<noteq> 0 \<or> \<not> with_attr then merge_attrib mode old attrib else attrib)
      in if mode = 0 \<or> new \<noteq> old then
           if \<not> with_attr then
             if \<not> is_dir \<and> new AND FILE_ATTR_R \<noteq> old AND FILE_ATTR_R then
               let m = (if has new FILE_ATTR_R then st_mode stb AND NOT 0x92 else st_mode stb OR 0x90)
               in if chmod_ok name m then (0, stb\<lparr>st_mode := m\<rparr>, s) else (-0x8c, stb, s)
             else (0, stb, s)
           else (0, stb, put_attr_to_disk lk (st_dev stb) (st_ino stb)
                           (if is_dir then new OR 0x10 else new AND NOT 0x10) s)
         else (0, stb, s))"

definition set_nw_attrib ::
  "tru_env \<Rightarrow> link_calls \<Rightarrow> (cstring \<Rightarrow> u32 \<Rightarrow> bool) \<Rightarrow> int \<Rightarrow> cstring \<Rightarrow> stat \<Rightarrow> u32 \<Rightarrow> nat \<Rightarrow> attr_state \<Rightarrow>
     (int \<times> stat \<times> attr_state) option" where
  "set_nw_attrib env lk chmod_ok volume name stb attrib mode s =
     (if has (vol_opts s volume) VOL_OPTION_IS_PIPE then Some (0, stb, s)
      else case tru_eff_rights_exists env volume name stb TRUSTEE_M (a_tru s) of
        None \<Rightarrow> None
      | Some (r, t) \<Rightarrow>
          let s1 = s\<lparr>a_tru := t\<rparr>
          in if r \<noteq> 0 then Some (-0x8c, stb, s1)
             else if \<not> has (vol_opts s volume) VOL_OPTION_ATTRIBUTES
                     \<and> \<not> has (get_unix_eff_rights (usr env) stb) W_OK \<and> \<not> has attrib FILE_ATTR_R then
               if chmod_ok name (st_mode stb OR 0x80)
               then Some (apply_attrib env lk chmod_ok volume name (stb\<lparr>st_mode := st_mode stb OR 0x80\<rparr>) attrib mode s1)
               else Some (-0x8c, stb, s1)
             else Some (apply_attrib env lk chmod_ok volume name stb attrib mode s1))"

definition set_nw_attrib_dword where
  "set_nw_attrib_dword env lk chmod_ok volume name stb attrib s =
     set_nw_attrib env lk chmod_ok volume name stb attrib 0 s"

definition set_nw_attrib_byte where
  "set_nw_attrib_byte env lk chmod_ok volume name stb battrib s =
     set_nw_attrib env lk chmod_ok volume name stb battrib 1 s"

definition set_nw_attrib_word where
  "set_nw_attrib_word env lk chmod_ok volume name stb wattrib s =
     set_nw_attrib env lk chmod_ok volume name stb wattrib 2 s"

definition set_nw_archive_bit :: "link_calls \<Rightarrow> int \<Rightarrow> int \<Rightarrow> u64 \<Rightarrow> attr_state \<Rightarrow> attr_state" where
  "set_nw_archive_bit lk volume dev inode s =
     (if has (vol_opts s volume) VOL_OPTION_ATTRIBUTES then
        case get_attr_from_disk dev inode s of
          Some a \<Rightarrow> if has a FILE_ATTR_A then s else put_attr_to_disk lk dev inode (a OR FILE_ATTR_A) s
        | None \<Rightarrow> s
      else s)"

definition free_nw_ext_inode :: "link_calls \<Rightarrow> int \<Rightarrow> int \<Rightarrow> u64 \<Rightarrow> attr_state \<Rightarrow> attr_state" where
  "free_nw_ext_inode lk volume dev inode s =
     (let s1 = (if has (vol_opts s volume) VOL_OPTION_ATTRIBUTES then free_attr_from_disk lk dev inode s else s)
      in if has (vol_opts s volume) VOL_OPTION_TRUSTEES
         then s1\<lparr>a_tru := fold (\<lambda>i t. tru_free_file_trustees_from_disk (int i) dev inode t)
                   (rev [0..<used_nw_volumes (tvols (a_tru s))]) (a_tru s1)\<rparr>
         else s1)"

section \<open>Properties\<close>

text \<open>The form in which attributes are reported: the directory bit as the file is, and the
  protection bits of a read-only volume.\<close>

definition report :: "u32 \<Rightarrow> bool \<Rightarrow> u32 \<Rightarrow> u32" where
  "report voloptions is_dir a =
     (let b = (if is_dir then a OR FILE_ATTR_DIR else a AND NOT FILE_ATTR_DIR)
      in if has voloptions VOL_OPTION_READONLY
         then b OR FILE_ATTR_DELETE_INH OR FILE_ATTR_RENAME_INH OR FILE_ATTR_R else b)"

lemma dir_bit: "(x :: u32) OR 0x10 = set_bit 4 x" "x AND NOT 0x10 = unset_bit 4 x"
  by (simp_all add: set_bit_eq_or unset_bit_eq_and_not)

lemma report_alt:
  "report vo d a = (if d then set_bit 4 a else unset_bit 4 a) OR (if has vo VOL_OPTION_READONLY then 0x60001 else 0)"
  unfolding report_def Let_def dir_bit by (simp add: or.assoc)

lemma report_idem: "report vo d (report vo d a) = report vo d a"
proof -
  have p: "\<not> bit (if has vo VOL_OPTION_READONLY then 0x60001 else 0 :: u32) 4" by simp
  show ?thesis unfolding report_alt using p
    by (intro bit_word_eqI) (auto simp: bit_simps split: if_splits)
qed

lemma get_reported:
  assumes "has (vol_opts s volume) VOL_OPTION_ATTRIBUTES" "\<not> has (vol_opts s volume) VOL_OPTION_IS_PIPE"
  shows "get_nw_attrib_dword u volume name stb s = report (vol_opts s volume) (S_ISDIR (st_mode stb))
    (case get_attr_from_disk (st_dev stb) (st_ino stb) s of Some a \<Rightarrow> a
     | None \<Rightarrow> (if S_ISDIR (st_mode stb) then FILE_ATTR_DIR else FILE_ATTR_A) OR (if dot_file name then FILE_ATTR_H else 0))"
  using assms by (auto simp: get_nw_attrib_dword_def report_def Let_def split: option.splits)

lemma exists_keeps: "tru_eff_rights_exists env volume name stb r t = Some (v, t') \<Longrightarrow> keeps t t'"
  using trustee_part_keeps by (auto simp: tru_eff_rights_exists_def Let_def)

lemma keeps_options: "keeps t t' \<Longrightarrow> get_volume_options (tvols t') v = get_volume_options (tvols t) v"
  by (simp add: keeps_def same_names_def get_volume_options_def valid_vol_def vol_at_def)

lemma get_cong:
  "attr_disk s' = attr_disk s \<Longrightarrow> vol_opts s' volume = vol_opts s volume \<Longrightarrow>
     get_nw_attrib_dword u volume name stb s' = get_nw_attrib_dword u volume name stb s"
  unfolding get_nw_attrib_dword_def get_attr_from_disk_def by (simp only:)

lemmas put_def = put_attr_to_disk_def symlink_attr_def unlink_attr_def Let_def

lemma apply_read_back:
  assumes "apply_attrib env lk chmod_ok volume name stb attrib mode s = (r, stb', s')"
    and "has (vol_opts s volume) VOL_OPTION_ATTRIBUTES" "\<not> has (vol_opts s volume) VOL_OPTION_IS_PIPE"
    and lk: "unlink_ok lk" "symlink_ok lk"
  shows "r = 0 \<and> stb' = stb \<and> vol_opts s' volume = vol_opts s volume \<and>
    get_nw_attrib_dword u volume name stb s' = report (vol_opts s volume) (S_ISDIR (st_mode stb))
      (merge_attrib mode (get_nw_attrib_dword (usr env) volume name stb s) attrib)"
proof -
  let ?old = "get_nw_attrib_dword (usr env) volume name stb s"
  let ?new = "merge_attrib mode ?old attrib" and ?d = "S_ISDIR (st_mode stb)" and ?vo = "vol_opts s volume"
  have m0: "(if mode \<noteq> 0 \<or> \<not> has ?vo VOL_OPTION_ATTRIBUTES then ?new else attrib) = ?new"
    by (simp add: merge_attrib_def)
  have rep: "report ?vo ?d (if ?d then x OR 0x10 else x AND NOT 0x10) = report ?vo ?d x" for x
    unfolding report_alt dir_bit by (intro bit_word_eqI) (auto simp: bit_simps)
  show ?thesis
  proof (cases "mode = 0 \<or> ?new \<noteq> ?old")
    case True
    then have s': "r = 0" "stb' = stb"
        "s' = put_attr_to_disk lk (st_dev stb) (st_ino stb) (if ?d then ?new OR 0x10 else ?new AND NOT 0x10) s"
      using assms(1,2) unfolding apply_attrib_def Let_def m0 by auto
    have vo': "vol_opts s' volume = ?vo" by (simp add: s' put_def vol_opts_def)
    have "get_attr_from_disk (st_dev stb) (st_ino stb) s' = Some (if ?d then ?new OR 0x10 else ?new AND NOT 0x10)"
      unfolding s' get_attr_from_disk_def using lk by (simp add: put_def)
    then show ?thesis using assms(2,3) s'(1,2) vo' get_reported [of s' volume u name stb]
      by (simp only: vo' option.case rep simp_thms)
  next
    case False
    then have "r = 0 \<and> stb' = stb \<and> s' = s" using assms(1,2) unfolding apply_attrib_def Let_def m0 by auto
    moreover have "get_nw_attrib_dword u volume name stb s = ?old"
      unfolding get_reported [OF assms(2,3)] by (rule refl)
    moreover have "report ?vo ?d ?old = ?old" unfolding get_reported [OF assms(2,3)] by (rule report_idem)
    ultimately show ?thesis using False by simp
  qed
qed

text \<open>C20. Attributes that were set are read back.  On a volume with attribute handling
  (\<^verbatim>\<open>VOL_OPTION_ATTRIBUTES\<close>, and not a pipe volume), when \<^verbatim>\<open>set_nw_attrib\<close> succeeds and the kernel lets it
  remove and write the link, \<^verbatim>\<open>get_nw_attrib_dword\<close> reports the given attributes (the dword call), or the
  old attributes with the low byte or word replaced; only the directory bit follows the file, and a
  read-only volume adds its protection bits.  The condition on the kernel is needed: the code does not look at
  the results of \<^verbatim>\<open>unlink\<close> and \<^verbatim>\<open>symlink\<close> and reports success all the same.\<close>

theorem attributes_read_back:
  assumes "set_nw_attrib env lk chmod_ok volume name stb attrib mode s = Some (0, stb', s')"
    and "has (vol_opts s volume) VOL_OPTION_ATTRIBUTES" "\<not> has (vol_opts s volume) VOL_OPTION_IS_PIPE"
    and "unlink_ok lk" and "symlink_ok lk"
  shows "get_nw_attrib_dword u volume name stb' s' = report (vol_opts s volume) (S_ISDIR (st_mode stb))
    (merge_attrib mode (get_nw_attrib_dword (usr env) volume name stb s) attrib)"
proof -
  obtain t where t: "tru_eff_rights_exists env volume name stb TRUSTEE_M (a_tru s) = Some (0, t)"
    and a: "apply_attrib env lk chmod_ok volume name stb attrib mode (s\<lparr>a_tru := t\<rparr>) = (0, stb', s')"
    using assms by (auto simp: set_nw_attrib_def Let_def split: option.splits if_splits prod.splits)
  have vo: "vol_opts (s\<lparr>a_tru := t\<rparr>) volume = vol_opts s volume"
    using keeps_options [OF exists_keeps [OF t]] by (simp add: vol_opts_def)
  have "get_nw_attrib_dword (usr env) volume name stb (s\<lparr>a_tru := t\<rparr>) = get_nw_attrib_dword (usr env) volume name stb s"
    by (rule get_cong) (simp_all add: vo)
  with apply_read_back [OF a] assms(2-5) show ?thesis by (simp add: vo)
qed

text \<open>What is lost when the link cannot be written: the call says that all went well, the old attributes are
  gone, and the file is reported with the attributes of a file that never had any.\<close>

lemma attributes_lost:
  assumes "set_nw_attrib env lk chmod_ok volume name stb attrib 0 s = Some (r, stb', s')"
    and "tru_eff_rights_exists env volume name stb TRUSTEE_M (a_tru s) = Some (0, t)"
    and "has (vol_opts s volume) VOL_OPTION_ATTRIBUTES" "\<not> has (vol_opts s volume) VOL_OPTION_IS_PIPE"
    and "unlink_ok lk" "\<not> symlink_ok lk"
  shows "r = 0 \<and> get_attr_from_disk (st_dev stb) (st_ino stb) s' = None"
proof -
  have vo: "vol_opts (s\<lparr>a_tru := t\<rparr>) volume = vol_opts s volume"
    using keeps_options [OF exists_keeps [OF assms(2)]] by (simp add: vol_opts_def)
  show ?thesis using assms vo
    by (auto simp: set_nw_attrib_def apply_attrib_def put_def get_attr_from_disk_def split: if_splits)
qed

text \<open>C21. Only who may modify a file changes its attributes: without the modify right (or on a pipe
  volume) \<^verbatim>\<open>set_nw_attrib\<close> leaves the attributes on disk and the permissions of every file as they
  were, and reports \<open>-0x8c\<close> except on a pipe volume.\<close>

theorem attributes_need_modify_right:
  assumes "set_nw_attrib env lk chmod_ok volume name stb attrib mode s = Some (r, stb', s')"
    and "tru_eff_rights_exists env volume name stb TRUSTEE_M (a_tru s) = Some (v, t)" and "v \<noteq> 0"
  shows "attr_disk s' = attr_disk s \<and> stb' = stb \<and>
    r = (if has (vol_opts s volume) VOL_OPTION_IS_PIPE then 0 else -0x8c)"
  using assms by (auto simp: set_nw_attrib_def Let_def split: if_splits)

abbreviation links_ok :: link_calls where
  "links_ok \<equiv> \<lparr>unlink_ok = True, symlink_ok = True\<rparr>"

definition attr_example :: attr_state where
  "attr_example = \<lparr>attr_disk = (\<lambda>_. None), a_tru = example_tru
     \<lparr>tvols := trustee_vols\<lparr>nw_volumes := [(nw_volumes trustee_vols ! 0)\<lparr>options := VOL_OPTION_ATTRIBUTES\<rparr>]\<rparr>\<rparr>\<rparr>"

abbreviation root_env :: tru_env where
  "root_env \<equiv> example_env\<lparr>usr := example_user\<lparr>act_uid := 0\<rparr>\<rparr>"

theorem attributes_read_back_witness:
  "\<exists>stb' s'. set_nw_attrib root_env links_ok (\<lambda>_ _. True) 0 example_name (example_stat example_name) 0x123 2 attr_example
      = Some (0, stb', s') \<and>
    get_nw_attrib_dword example_user 0 example_name stb' s' = report VOL_OPTION_ATTRIBUTES False
      (merge_attrib 2 (get_nw_attrib_dword (usr root_env) 0 example_name (example_stat example_name) attr_example) 0x123)"
proof -
  have "map_option fst (set_nw_attrib root_env links_ok (\<lambda>_ _. True) 0 example_name (example_stat example_name) 0x123 2 attr_example) = Some 0"
    by code_simp
  then obtain stb' s' where a: "set_nw_attrib root_env links_ok (\<lambda>_ _. True) 0 example_name (example_stat example_name) 0x123 2 attr_example
      = Some (0, stb', s')" by auto
  have o: "vol_opts attr_example 0 = VOL_OPTION_ATTRIBUTES" by code_simp
  have d: "\<not> S_ISDIR (st_mode (example_stat example_name))" by code_simp
  from attributes_read_back [OF a, of example_user] a show ?thesis by (simp add: o d has_def)
qed

theorem attributes_need_modify_right_witness:
  "\<exists>r stb' s'. set_nw_attrib example_env links_ok (\<lambda>_ _. True) 0 example_name (example_stat example_name) 1 0 attr_example
      = Some (r, stb', s') \<and> attr_disk s' = attr_disk attr_example"
proof -
  have "map_option fst (set_nw_attrib example_env links_ok (\<lambda>_ _. True) 0 example_name (example_stat example_name) 1 0 attr_example) \<noteq> None"
    by code_simp
  then obtain r stb' s' where a: "set_nw_attrib example_env links_ok (\<lambda>_ _. True) 0 example_name (example_stat example_name) 1 0 attr_example
      = Some (r, stb', s')" by auto
  have "map_option (\<lambda>(v, t). v \<noteq> 0) (tru_eff_rights_exists example_env 0 example_name (example_stat example_name) TRUSTEE_M (a_tru attr_example)) = Some True"
    by code_simp
  then obtain v t where "tru_eff_rights_exists example_env 0 example_name (example_stat example_name) TRUSTEE_M (a_tru attr_example) = Some (v, t)" "v \<noteq> 0"
    by auto
  from attributes_need_modify_right [OF a this] a show ?thesis by blast
qed

end
