(* ===== verification/Nwroute.thy ===== *)
theory Nwroute
  imports Volume
begin

text \<open>The IPX router of \<^verbatim>\<open>src/nwroute.c\<close> with the receiver of service advertisements of
  \<^verbatim>\<open>src/nwserv.c\<close> and the reader of \<^verbatim>\<open>/proc/net/ipx_interface\<close> of \<^verbatim>\<open>src/emutli1.c\<close>: the
  tables of devices, routes and servers, the RIP and SAP packets that change them and the packets
  they make the server send.  What the code asks of the kernel and of its partner processes
  (\<^verbatim>\<open>ipx_route_add\<close>, \<^verbatim>\<open>send_ipx_data\<close>, \<^verbatim>\<open>ins_del_bind_net_addr\<close> and the like) is recorded, in order, in
  \<open>calls\<close>.  The proofs show that the tables stay sound whatever packets arrive, that the route
  table implements a best-route specification, what a RIP answer contains and how it is cut
  into packets, and that the nearest server is chosen.\<close>

section \<open>Tables (nwroute.c, nwserv.h, emutli.h)\<close>

record ipxAddr_t =
  ia_net :: "u8 list"
  ia_node :: "u8 list"
  ia_sock :: "u8 list"

record NW_NET_DEVICE =
  devname :: cstring
  frame :: int
  nd_ticks :: int
  nd_net :: u32
  is_up :: int
  wildmask :: u32
  updated_time :: int
  needs_update :: u32

record NW_ROUTES =
  nr_net :: u32
  nr_hops :: u16
  nr_ticks :: u16
  nr_rnet :: u32
  nr_rnode :: "u8 list"

record NW_SERVERS =
  ns_name :: "cstring option"
  ns_typ :: int
  ns_addr :: ipxAddr_t
  ns_net :: u32
  ns_hops :: int
  ns_flags :: int

datatype slot = RIP_SLOT | SAP_SLOT

datatype call =
    Ipx_route_add u32 u32 "u8 list"
  | Ipx_route_del u32
  | Exit_dev cstring int
  | Init_dev cstring int u32
  | Ins_del_bind_net_addr cstring int "ipxAddr_t option"
  | Send_ipx_data slot nat "u8 list" ipxAddr_t

record route_cfg =
  internal_net :: u32
  my_server_adr :: ipxAddr_t
  auto_detect_interfaces :: bool
  wdogs_till_tics :: int
  handle_all_sap_typs :: bool
  nearest_request_flag :: int

record route_state =
  net_devices :: "NW_NET_DEVICE list"
  nw_routes :: "NW_ROUTES list"
  nw_servers :: "NW_SERVERS list"
  rnet :: u32
  rmode :: int
  rentries :: nat
  max_rip_entries :: nat
  rip_buff :: "u8 list"
  flipflop :: bool
  calls :: "call list"

definition NEEDS_UPDATE_SAP :: u32 where "NEEDS_UPDATE_SAP = 1"
definition NEEDS_UPDATE_SAP_QUERY :: u32 where "NEEDS_UPDATE_SAP_QUERY = 2"
definition NEEDS_UPDATE_RIP :: u32 where "NEEDS_UPDATE_RIP = 4"
definition NEEDS_UPDATE_RIP_NET :: u32 where "NEEDS_UPDATE_RIP_NET = 8"
definition NEEDS_UPDATE_ALL :: u32 where "NEEDS_UPDATE_ALL = 15"
definition MAX_U32 :: u32 where "MAX_U32 = 0xffffffff"
definition MAX_SERVER_NAME :: nat where "MAX_SERVER_NAME = 48"

definition SOCK_SAP :: u16 where "SOCK_SAP = 0x452"
definition SOCK_RIP :: u16 where "SOCK_RIP = 0x453"

definition up :: "NW_NET_DEVICE \<Rightarrow> bool" where "up nd = (is_up nd \<noteq> 0)"

definition emit :: "call list \<Rightarrow> route_state \<Rightarrow> route_state" where
  "emit cs s = s\<lparr>calls := calls s @ cs\<rparr>"

section \<open>Routes (insert_delete_net)\<close>

text \<open>The first loop over the devices: \<^const>\<open>None\<close> is the early return for a net of our own;
  otherwise the device of the destination and the ticks of the device that leads to the router.\<close>

fun scan_devices ::
  "u32 \<Rightarrow> u32 \<Rightarrow> bool \<Rightarrow> NW_NET_DEVICE list \<Rightarrow> NW_NET_DEVICE option \<Rightarrow> int \<Rightarrow>
     (NW_NET_DEVICE option \<times> int) option" where
  "scan_devices destnet rn do_delete [] nd_dev ndticks = Some (nd_dev, ndticks)"
| "scan_devices destnet rn do_delete (nd # nds) nd_dev ndticks =
     (if up nd then
        if nd_net nd = destnet \<and> \<not> do_delete then None
        else scan_devices destnet rn do_delete nds
               (if nd_net nd = destnet then Some nd else nd_dev)
               (if nd_net nd = rn then nd_ticks nd else ndticks)
      else scan_devices destnet rn do_delete nds nd_dev ndticks)"

fun find_route :: "u32 \<Rightarrow> nat \<Rightarrow> nat option \<Rightarrow> NW_ROUTES list \<Rightarrow> nat \<times> nat option" where
  "find_route destnet k freeslot [] = (k, freeslot)"
| "find_route destnet k freeslot (r # rs) =
     (if nr_net r = destnet then (k, freeslot)
      else find_route destnet (Suc k)
             (if freeslot = None \<and> nr_net r = 0 then Some k else freeslot) rs)"

definition empty_route :: "u32 \<Rightarrow> NW_ROUTES" where
  "empty_route destnet =
     \<lparr>nr_net = destnet, nr_hops = 0xffff, nr_ticks = 0xffff, nr_rnet = 0, nr_rnode = replicate 6 0\<rparr>"

definition better_route :: "u16 \<Rightarrow> u16 \<Rightarrow> NW_ROUTES \<Rightarrow> bool" where
  "better_route hops ticks nr =
     (ticks \<le> nr_ticks nr \<and> \<not> (ticks = nr_ticks nr \<and> nr_hops nr < hops))"

definition update_route :: "nat \<Rightarrow> u32 \<Rightarrow> u8 list \<Rightarrow> u16 \<Rightarrow> u16 \<Rightarrow> route_state \<Rightarrow> route_state" where
  "update_route k rn rnode hops ticks s =
     (let nr = nw_routes s ! k
      in if better_route hops ticks nr
         then emit [Ipx_route_add (nr_net nr) rn rnode]
                (s\<lparr>nw_routes := (nw_routes s)[k := nr\<lparr>nr_hops := hops, nr_ticks := ticks,
                                                    nr_rnet := rn, nr_rnode := rnode\<rparr>]\<rparr>)
         else s)"

definition delete_route ::
  "nat \<Rightarrow> u32 \<Rightarrow> u8 list \<Rightarrow> NW_NET_DEVICE option \<Rightarrow> route_state \<Rightarrow> route_state" where
  "delete_route k rn rnode nd_dev s =
     (let nr = nw_routes s ! k
      in if nr_rnet nr = rn \<and> nr_rnode nr = rnode
         then emit (Ipx_route_del (nr_net nr) #
                    (case nd_dev of
                       None \<Rightarrow> []
                     | Some nd \<Rightarrow> [Exit_dev (devname nd) (frame nd), Init_dev (devname nd) (frame nd) (nd_net nd)]))
                (s\<lparr>nw_routes := (nw_routes s)[k := nr\<lparr>nr_net := 0\<rparr>]\<rparr>)
         else s)"

definition new_route :: "u32 \<Rightarrow> nat option \<Rightarrow> NW_ROUTES list \<Rightarrow> nat \<times> NW_ROUTES list" where
  "new_route destnet freeslot rs =
     (case freeslot of
        None \<Rightarrow> (length rs, rs @ [empty_route destnet])
      | Some k \<Rightarrow> (k, rs[k := empty_route destnet]))"

definition insert_delete_net ::
  "route_cfg \<Rightarrow> u32 \<Rightarrow> u32 \<Rightarrow> u8 list \<Rightarrow> u16 \<Rightarrow> u16 \<Rightarrow> bool \<Rightarrow> route_state \<Rightarrow> route_state" where
  "insert_delete_net cfg destnet rn rnode hops ticks do_delete s =
     (if destnet = 0 \<or> destnet = internal_net cfg then s
      else case scan_devices destnet rn do_delete (net_devices s) None 99 of
        None \<Rightarrow> s
      | Some (nd_dev, ndticks) \<Rightarrow>
          if \<not> do_delete \<and> (case nd_dev of None \<Rightarrow> False | Some nd \<Rightarrow> nd_ticks nd \<le> ndticks) then s
          else let (k, freeslot) = find_route destnet 0 None (nw_routes s);
                   ticks' = ticks + word_of_int ndticks
               in if k = length (nw_routes s) then
                    if do_delete then s
                    else let (k', rs) = new_route destnet freeslot (nw_routes s)
                         in update_route k' rn rnode hops ticks' (s\<lparr>nw_routes := rs\<rparr>)
                  else if do_delete then delete_route k rn rnode nd_dev s
                  else update_route k rn rnode hops ticks' s)"

section \<open>Devices (find_netdevice and friends)\<close>

definition find_device_by_net :: "u32 \<Rightarrow> route_state \<Rightarrow> NW_NET_DEVICE option" where
  "find_device_by_net n s = find (\<lambda>nd. up nd \<and> nd_net nd = n) (net_devices s)"

definition find_netdevice :: "u32 \<Rightarrow> route_state \<Rightarrow> NW_NET_DEVICE option" where
  "find_netdevice network s =
     (case find_device_by_net network s of
        Some nd \<Rightarrow> Some nd
      | None \<Rightarrow>
          (case find (\<lambda>nr. nr_net nr = network) (nw_routes s) of
             None \<Rightarrow> None
           | Some nr \<Rightarrow> find_device_by_net (nr_rnet nr) s))"

fun map_first :: "('a \<Rightarrow> bool) \<Rightarrow> ('a \<Rightarrow> 'a) \<Rightarrow> 'a list \<Rightarrow> 'a list" where
  "map_first P f [] = []"
| "map_first P f (x # xs) = (if P x then f x # xs else x # map_first P f xs)"

definition activate_slow_net :: "int \<Rightarrow> u32 \<Rightarrow> route_state \<Rightarrow> bool \<times> route_state" where
  "activate_slow_net acttime_stamp n s =
     (case find_device_by_net n s of
        None \<Rightarrow> (False, s)
      | Some nd \<Rightarrow>
          if 6 < nd_ticks nd \<and> updated_time nd + 600 < acttime_stamp
          then (True, s\<lparr>net_devices := map_first (\<lambda>nd. up nd \<and> nd_net nd = n)
                  (\<lambda>nd. nd\<lparr>needs_update := NEEDS_UPDATE_ALL, updated_time := acttime_stamp\<rparr>)
                  (net_devices s)\<rparr>)
          else (False, s))"

definition dont_send_wdog :: "route_cfg \<Rightarrow> ipxAddr_t \<Rightarrow> route_state \<Rightarrow> bool" where
  "dont_send_wdog cfg addr s =
     (if wdogs_till_tics cfg = 0 then False
      else if wdogs_till_tics cfg < 0 then True
      else case find_netdevice (get_be32 (ia_net addr)) s of
             Some nd \<Rightarrow> \<not> nd_ticks nd < wdogs_till_tics cfg
           | None \<Rightarrow> False)"

section \<open>Servers (insert_delete_server)\<close>

definition zero_addr :: ipxAddr_t where
  "zero_addr = \<lparr>ia_net = replicate 4 0, ia_node = replicate 6 0, ia_sock = replicate 2 0\<rparr>"

definition empty_server :: NW_SERVERS where
  "empty_server = \<lparr>ns_name = None, ns_typ = 0, ns_addr = zero_addr, ns_net = 0, ns_hops = 0, ns_flags = 0\<rparr>"

definition is_server :: "cstring \<Rightarrow> int \<Rightarrow> NW_SERVERS \<Rightarrow> bool" where
  "is_server sname styp ns = (ns_typ ns = styp \<and> ns_name ns = Some sname)"

fun find_server :: "cstring \<Rightarrow> int \<Rightarrow> nat \<Rightarrow> nat option \<Rightarrow> NW_SERVERS list \<Rightarrow> nat \<times> nat option" where
  "find_server sname styp k freeslot [] = (k, freeslot)"
| "find_server sname styp k freeslot (ns # rest) =
     (if is_server sname styp ns then (k, freeslot)
      else find_server sname styp (Suc k)
             (if freeslot = None \<and> ns_typ ns = 0 then Some k else freeslot) rest)"

definition same_station :: "ipxAddr_t \<Rightarrow> ipxAddr_t \<Rightarrow> bool" where
  "same_station a b = (ia_node a = ia_node b \<and> ia_net a = ia_net b)"

definition change_addr ::
  "route_cfg \<Rightarrow> ipxAddr_t \<Rightarrow> ipxAddr_t \<Rightarrow> int \<Rightarrow> NW_SERVERS \<Rightarrow> NW_SERVERS \<times> int \<times> call list" where
  "change_addr cfg addr from_addr hops ns =
     (if 16 < ns_hops ns \<or> ns_addr ns \<noteq> addr
      then (ns\<lparr>ns_addr := addr\<rparr>,
            if same_station from_addr (my_server_adr cfg) \<and> get_be16 (ia_sock from_addr) = SOCK_SAP
            then 0 else hops,
            [Ins_del_bind_net_addr (the (ns_name ns)) (ns_typ ns) (Some addr)])
      else (ns, hops, []))"

definition change_net :: "u32 \<Rightarrow> int \<Rightarrow> route_state \<Rightarrow> NW_SERVERS \<Rightarrow> NW_SERVERS" where
  "change_net n hops s ns =
     (if hops \<le> ns_hops ns \<and> n \<noteq> 0 then
        if ns_net ns \<noteq> 0 \<and> ns_net ns \<noteq> n \<and> hops \<le> ns_hops ns \<and>
           (case (find_device_by_net (ns_net ns) s, find_device_by_net n s) of
              (Some nrd, Some nnd) \<Rightarrow> nd_ticks nrd < nd_ticks nnd
            | _ \<Rightarrow> False)
        then ns
        else ns\<lparr>ns_net := n, ns_hops := hops\<rparr>
      else ns)"

definition update_server ::
  "route_cfg \<Rightarrow> nat \<Rightarrow> ipxAddr_t \<Rightarrow> ipxAddr_t \<Rightarrow> int \<Rightarrow> route_state \<Rightarrow> route_state" where
  "update_server cfg k addr from_addr hops s =
     (let (ns, hops', cs) = change_addr cfg addr from_addr hops (nw_servers s ! k)
      in emit cs (s\<lparr>nw_servers :=
            (nw_servers s)[k := change_net (get_be32 (ia_net from_addr)) hops' s ns]\<rparr>))"

definition delete_server :: "route_cfg \<Rightarrow> nat \<Rightarrow> route_state \<Rightarrow> route_state" where
  "delete_server cfg k s =
     (let ns = nw_servers s ! k
      in if same_station (ns_addr ns) (my_server_adr cfg) then s
         else emit [Ins_del_bind_net_addr (the (ns_name ns)) (ns_typ ns) None]
                (s\<lparr>nw_servers := (nw_servers s)[k := empty_server]\<rparr>))"

definition new_server :: "cstring \<Rightarrow> int \<Rightarrow> nat option \<Rightarrow> NW_SERVERS list \<Rightarrow> nat \<times> NW_SERVERS list" where
  "new_server sname styp freeslot ss =
     (case freeslot of
        None \<Rightarrow> (length ss, ss @ [empty_server\<lparr>ns_name := Some sname, ns_typ := styp, ns_hops := 0xffff\<rparr>])
      | Some k \<Rightarrow> (k, ss[k := (ss ! k)\<lparr>ns_name := Some sname, ns_typ := styp, ns_hops := 0xffff\<rparr>]))"

definition insert_delete_server ::
  "route_cfg \<Rightarrow> cstring \<Rightarrow> int \<Rightarrow> ipxAddr_t \<Rightarrow> ipxAddr_t \<Rightarrow> int \<Rightarrow> bool \<Rightarrow> route_state \<Rightarrow> route_state" where
  "insert_delete_server cfg name styp addr from_addr hops do_delete s =
     (let sname = upstr (strmaxcpy name MAX_SERVER_NAME)
      in if sname = [] then s
         else let (k, freeslot) = find_server sname styp 0 None (nw_servers s)
              in if k = length (nw_servers s) then
                   if do_delete then s
                   else let (k', ss) = new_server sname styp freeslot (nw_servers s)
                        in update_server cfg k' addr from_addr hops (s\<lparr>nw_servers := ss\<rparr>)
                 else if do_delete then delete_server cfg k s
                 else update_server cfg k addr from_addr hops s)"

section \<open>RIP packets\<close>

definition write_at :: "nat \<Rightarrow> u8 list \<Rightarrow> u8 list \<Rightarrow> u8 list" where
  "write_at off bs buf = take off buf @ bs @ drop (off + length bs) buf"

definition init_rip_buff :: "u32 \<Rightarrow> int \<Rightarrow> route_state \<Rightarrow> route_state" where
  "init_rip_buff n mode s =
     (let s1 = s\<lparr>rnet := n, rentries := 0, rmode := mode\<rparr>;
          s2 = (if rip_buff s1 = [] then s1\<lparr>max_rip_entries := 10, rip_buff := replicate (2 + 10 * 8) 0\<rparr> else s1)
      in s2\<lparr>rip_buff := write_at 0 (u16_to_be16 (if 9 < mode then 1 else 2)) (rip_buff s2)\<rparr>)"

definition rip_entry :: "u32 \<Rightarrow> u16 \<Rightarrow> u16 \<Rightarrow> u8 list" where
  "rip_entry n hops ticks = u32_to_be32 n @ u16_to_be16 hops @ u16_to_be16 ticks"

definition ins_rip_buff :: "route_cfg \<Rightarrow> u32 \<Rightarrow> u16 \<Rightarrow> u16 \<Rightarrow> route_state \<Rightarrow> route_state" where
  "ins_rip_buff cfg n hops ticks s =
     (if n = 0 then s
      else if n \<noteq> rnet s \<or> rentries s = 0 \<and> n = internal_net cfg then
        let s1 = (if max_rip_entries s \<le> rentries s
                  then s\<lparr>max_rip_entries := max_rip_entries s + 5,
                         rip_buff := take (2 + max_rip_entries s * 8) (rip_buff s) @ replicate (5 * 8) 0\<rparr>
                  else s)
        in s1\<lparr>rip_buff := write_at (2 + rentries s * 8) (rip_entry n hops ticks) (rip_buff s1),
              rentries := rentries s + 1\<rparr>
      else s)"

definition build_rip_buff :: "route_cfg \<Rightarrow> u32 \<Rightarrow> route_state \<Rightarrow> route_state" where
  "build_rip_buff cfg destnet s =
     (if destnet = 0 then s
      else let is_wild = (destnet = MAX_U32);
               s1 = (if is_wild then s\<lparr>rentries := 0\<rparr> else s);
               hops = (\<lambda>h. if rmode s = 1 then 16 else h);
               s2 = (if rmode s < 10 \<and> (is_wild \<or> internal_net cfg = destnet)
                     then ins_rip_buff cfg (internal_net cfg) (hops 1)
                            (if rnet s = internal_net cfg then 1 else 2) s1
                     else s1);
               s3 = (if rmode s < 10
                     then fold (\<lambda>nd t. if up nd \<and> (is_wild \<or> nd_net nd = destnet)
                                  then ins_rip_buff cfg (nd_net nd) (hops 1) (word_of_int (nd_ticks nd + 1)) t
                                  else t) (net_devices s) s2
                     else s2)
           in fold (\<lambda>nr t. if nr_rnet nr \<noteq> rnet s \<and> (is_wild \<or> nr_net nr = destnet)
                      then ins_rip_buff cfg (nr_net nr) (hops (nr_hops nr + 1)) (nr_ticks nr + 1) t
                      else t) (nw_routes s) s3)"

definition rip_broadcast_addr :: "u32 \<Rightarrow> ipxAddr_t" where
  "rip_broadcast_addr n = \<lparr>ia_net = u32_to_be32 n, ia_node = replicate 6 0xff, ia_sock = u16_to_be16 SOCK_RIP\<rparr>"

text \<open>The body of the loop, entered with \<open>rentries\<close> positive: one packet is sent and the next at most
  50 entries are moved to the front of the buffer.\<close>

function rip_packets :: "nat \<Rightarrow> u8 list \<Rightarrow> u8 list list" where
  "rip_packets n buf =
     (if n = 0 then []
      else let entries = min n 50; n' = n - entries
           in take (entries * 8 + 2) buf #
              rip_packets n' (if 0 < n' then write_at 2 (take (min 50 n' * 8) (drop (2 + 50 * 8) buf)) buf
                              else buf))"
  by pat_completeness auto
termination
  by (relation "measure fst") auto

declare rip_packets.simps [simp del]

text \<open>What the loop leaves in the buffer, for the next packets start from it.\<close>

function rip_left :: "nat \<Rightarrow> u8 list \<Rightarrow> u8 list" where
  "rip_left n buf =
     (if n \<le> 50 then buf
      else rip_left (n - 50) (write_at 2 (take (min 50 (n - 50) * 8) (drop (2 + 50 * 8) buf)) buf))"
  by pat_completeness auto
termination
  by (relation "measure fst") auto

declare rip_left.simps [simp del]

definition send_rip_buff :: "ipxAddr_t option \<Rightarrow> route_state \<Rightarrow> route_state" where
  "send_rip_buff from_addr s =
     (let to_addr = (case from_addr of Some a \<Rightarrow> a | None \<Rightarrow> rip_broadcast_addr (rnet s))
      in emit (map (\<lambda>p. Send_ipx_data RIP_SLOT 1 p to_addr) (rip_packets (rentries s) (rip_buff s)))
           (s\<lparr>rip_buff := rip_left (rentries s) (rip_buff s), rentries := 0\<rparr>))"

text \<open>The loops over the devices change the flags of one device and send for it, so the list is
  walked by index.\<close>

definition clear_update :: "u32 \<Rightarrow> nat \<Rightarrow> route_state \<Rightarrow> route_state" where
  "clear_update flag k s =
     s\<lparr>net_devices := (net_devices s)[k := (net_devices s ! k)
         \<lparr>needs_update := needs_update (net_devices s ! k) AND NOT flag\<rparr>]\<rparr>"

definition send_rip_broadcast :: "route_cfg \<Rightarrow> int \<Rightarrow> route_state \<Rightarrow> route_state" where
  "send_rip_broadcast cfg mode s =
     fold (\<lambda>k t. let nd = net_devices t ! k
        in if mode = 4 \<and> \<not> has (needs_update nd) NEEDS_UPDATE_RIP then t
           else if up nd \<and> (nd_ticks nd < 7 \<or> mode \<noteq> 0 \<or> has (needs_update nd) NEEDS_UPDATE_RIP) then
             send_rip_buff None (build_rip_buff cfg MAX_U32
               (init_rip_buff (nd_net nd) (if mode = 2 then 1 else 0) (clear_update NEEDS_UPDATE_RIP k t)))
           else t)
      [0..<length (net_devices s)] s"

definition rip_for_net :: "route_cfg \<Rightarrow> u32 \<Rightarrow> route_state \<Rightarrow> route_state" where
  "rip_for_net cfg n s =
     fold (\<lambda>k t. let nd = net_devices t ! k
        in if up nd \<and> (nd_ticks nd < 7 \<or> has (needs_update nd) NEEDS_UPDATE_RIP_NET) then
             send_rip_buff None (ins_rip_buff cfg n 0xffff 0xffff
               (init_rip_buff (nd_net nd) 10 (clear_update NEEDS_UPDATE_RIP_NET k t)))
           else t)
      [0..<length (net_devices s)] s"

fun handle_rip_entries ::
  "route_cfg \<Rightarrow> bool \<Rightarrow> ipxAddr_t \<Rightarrow> buffer \<Rightarrow> nat \<Rightarrow> nat \<Rightarrow> route_state \<Rightarrow> route_state" where
  "handle_rip_entries cfg is_response from_addr data p 0 s = s"
| "handle_rip_entries cfg is_response from_addr data p (Suc entries) s =
     (let n = get_be32 (bytes_at data p 4);
          hops = get_be16 (bytes_at data (p + 4) 2);
          ticks = get_be16 (bytes_at data (p + 6) 2)
      in if is_response then
           handle_rip_entries cfg is_response from_addr data (p + 8) entries
             (insert_delete_net cfg n (get_be32 (ia_net from_addr)) (ia_node from_addr) hops ticks (15 < hops) s)
         else if n = MAX_U32 then build_rip_buff cfg n s
         else handle_rip_entries cfg is_response from_addr data (p + 8) entries (build_rip_buff cfg n s))"

definition handle_rip :: "route_cfg \<Rightarrow> nat \<Rightarrow> buffer \<Rightarrow> ipxAddr_t \<Rightarrow> route_state \<Rightarrow> route_state" where
  "handle_rip cfg data_len ipxdata from_addr s =
     (let operation = get_be16 (bytes_at ipxdata 0 2); entries = (data_len - 2) div 8
      in if operation = 2 then handle_rip_entries cfg True from_addr ipxdata 2 entries s
         else if operation \<noteq> 1 then s
         else send_rip_buff (Some from_addr)
                (handle_rip_entries cfg False from_addr ipxdata 2 entries
                  (init_rip_buff (get_be32 (ia_net from_addr)) 0 s)))"

section \<open>SAP packets\<close>

definition pad :: "nat \<Rightarrow> u8 list \<Rightarrow> u8 list" where
  "pad n bs = take n bs @ replicate (n - length bs) 0"

definition addr_bytes :: "ipxAddr_t \<Rightarrow> u8 list" where
  "addr_bytes a = ia_net a @ ia_node a @ ia_sock a"

definition sap_packet :: "int \<Rightarrow> int \<Rightarrow> NW_SERVERS \<Rightarrow> u8 list" where
  "sap_packet respond_typ hops nw =
     u16_to_be16 (word_of_int respond_typ) @ u16_to_be16 (word_of_int (ns_typ nw)) @
     pad MAX_SERVER_NAME (the (ns_name nw)) @ addr_bytes (ns_addr nw) @ u16_to_be16 (word_of_int hops)"

definition send_sap_to_addr :: "nat option \<Rightarrow> int \<Rightarrow> int \<Rightarrow> ipxAddr_t \<Rightarrow> route_state \<Rightarrow> route_state" where
  "send_sap_to_addr entry hops respond_typ to_addr s =
     (case entry of
        None \<Rightarrow> s
      | Some k \<Rightarrow> emit [Send_ipx_data SAP_SLOT 4 (sap_packet respond_typ hops (nw_servers s ! k)) to_addr] s)"

definition server_ticks :: "route_cfg \<Rightarrow> route_state \<Rightarrow> NW_SERVERS \<Rightarrow> int" where
  "server_ticks cfg s nw =
     (if ns_net nw \<noteq> internal_net cfg then
        (case find_netdevice (ns_net nw) s of Some nd \<Rightarrow> nd_ticks nd | None \<Rightarrow> 999)
      else 0)"

definition offers :: "int \<Rightarrow> NW_SERVERS \<Rightarrow> bool" where
  "offers styp nw = (ns_typ nw = styp \<and> (case ns_name nw of None \<Rightarrow> False | Some n \<Rightarrow> n \<noteq> []))"

fun nearest_loop ::
  "route_cfg \<Rightarrow> int \<Rightarrow> route_state \<Rightarrow> nat \<Rightarrow> NW_SERVERS list \<Rightarrow> int \<Rightarrow> int \<Rightarrow> nat option \<Rightarrow> int \<times> nat option" where
  "nearest_loop cfg styp s j [] ticks hops entry = (hops, entry)"
| "nearest_loop cfg styp s j (nw # rest) ticks hops entry =
     (if ticks = 0 then (hops, entry)
      else let xticks = server_ticks cfg s nw
           in if offers styp nw \<and> (xticks < ticks \<or> xticks = ticks \<and> ns_hops nw \<le> hops)
              then nearest_loop cfg styp s (Suc j) rest xticks (ns_hops nw) (Some j)
              else nearest_loop cfg styp s (Suc j) rest ticks hops entry)"

definition send_server_response :: "route_cfg \<Rightarrow> int \<Rightarrow> int \<Rightarrow> ipxAddr_t \<Rightarrow> route_state \<Rightarrow> route_state" where
  "send_server_response cfg respond_typ styp to_addr s =
     (let (hops, entry) = nearest_loop cfg styp s 0 (nw_servers s) 99 15 None
      in send_sap_to_addr entry (hops + 1) respond_typ to_addr s)"

definition sap_broadcast_addr :: "u32 \<Rightarrow> ipxAddr_t" where
  "sap_broadcast_addr n = \<lparr>ia_net = u32_to_be32 n, ia_node = replicate 6 0xff, ia_sock = u16_to_be16 SOCK_SAP\<rparr>"

definition send_sip_to_net :: "u32 \<Rightarrow> int \<Rightarrow> route_state \<Rightarrow> route_state" where
  "send_sip_to_net n mode s =
     fold (\<lambda>j t. let nw = nw_servers t ! j
        in if ns_typ nw = 0 \<or> ns_net nw = n \<and> ns_hops nw \<noteq> 0 \<or> mode = 2 \<and> ns_hops nw \<noteq> 0 then t
           else send_sap_to_addr (Some j) (if mode = 2 then 16 else ns_hops nw + 1) 2 (sap_broadcast_addr n) t)
      [0..<length (nw_servers s)] s"

definition send_sap_broadcast :: "int \<Rightarrow> route_state \<Rightarrow> route_state" where
  "send_sap_broadcast mode s =
     fold (\<lambda>k t. let nd = net_devices t ! k
        in if mode = 4 \<and> \<not> has (needs_update nd) NEEDS_UPDATE_SAP then t
           else if up nd \<and> (nd_ticks nd < 7 \<or> has (needs_update nd) NEEDS_UPDATE_SAP \<or> mode \<noteq> 0)
           then send_sip_to_net (nd_net nd) mode (clear_update NEEDS_UPDATE_SAP k t)
           else t)
      [0..<length (net_devices s)] s"

definition sap_find_nearest_server :: "u32 \<Rightarrow> route_state \<Rightarrow> route_state" where
  "sap_find_nearest_server n s =
     emit [Send_ipx_data SAP_SLOT 17 (u16_to_be16 3 @ u16_to_be16 4) (sap_broadcast_addr n)] s"

definition get_servers :: "route_cfg \<Rightarrow> route_state \<Rightarrow> route_state" where
  "get_servers cfg s =
     (let s1 = fold (\<lambda>k t. let nd = net_devices t ! k
                 in if up nd \<and> (nd_ticks nd < 7 \<or> has (needs_update nd) NEEDS_UPDATE_SAP_QUERY)
                    then sap_find_nearest_server (nd_net nd) (clear_update NEEDS_UPDATE_SAP_QUERY k t)
                    else t)
               [0..<length (net_devices s)] s
      in if net_devices s = [] then sap_find_nearest_server (internal_net cfg) s1 else s1)"

section \<open>Interfaces of the kernel\<close>

text \<open>A line of \<^verbatim>\<open>/proc/net/ipx_interface\<close> as the five conversions of \<^verbatim>\<open>sscanf\<close> deliver it (a
  line with fewer fields is \<^const>\<open>None\<close>): network, node, primary, device and frame.  The numbers
  of the frames are those of the kernel's \<^verbatim>\<open>ipx.h\<close>.\<close>

type_synonym iface_line = "(u32 \<times> cstring \<times> cstring \<times> cstring \<times> cstring) option"

definition frame_of :: "cstring \<Rightarrow> int" where
  "frame_of b =
     (let c = last b
      in if c = 50 then 2 else if c = 51 then 4 else if c = 80 then 1 else if c = 73 then 3
         else if c = 82 then 5 else if c = 101 \<or> c = 69 then -1 else -2)"

definition read_interface_data :: "iface_line \<Rightarrow> int \<times> u32 \<times> u32 \<times> cstring" where
  "read_interface_data line =
     (case line of
        None \<Rightarrow> (-2, 0, 0, [])
      | Some (n, node, primary, dev, fr) \<Rightarrow>
          if fr = [] \<or> frame_of fr = -2 then (-2, n, 0, [])
          else (frame_of fr, n,
                (if upstr primary = cstr ''YES'' then 1 else 0) OR (if upstr dev = cstr ''INTERNAL'' then 2 else 0),
                strmaxcpy dev 20))"

definition get_interface_frame_name :: "iface_line list option \<Rightarrow> u32 \<Rightarrow> (int \<times> cstring) option" where
  "get_interface_frame_name lines n =
     (case lines of
        None \<Rightarrow> None
      | Some ls \<Rightarrow>
          map_option (\<lambda>(fr, _, _, dev). (fr, dev))
            (find (\<lambda>(fr, rn, _, _). 0 \<le> fr \<and> rn = n) (map read_interface_data ls)))"

text \<open>The first loop of \<^verbatim>\<open>test_ins_device_net\<close>: \<^const>\<open>None\<close> when a device that is up has the net.\<close>

fun scan_free :: "u32 \<Rightarrow> nat \<Rightarrow> nat option \<Rightarrow> NW_NET_DEVICE list \<Rightarrow> nat option option" where
  "scan_free rn k ff [] = Some ff"
| "scan_free rn k ff (nd # nds) =
     (if \<not> up nd then
        if nd_net nd = rn then Some (Some k)
        else scan_free rn (Suc k) (if ff = None \<and> nd_net nd = 0 then Some k else ff) nds
      else if nd_net nd = rn then None else scan_free rn (Suc k) ff nds)"

definition wild_name :: "NW_NET_DEVICE \<Rightarrow> bool" where
  "wild_name nd = (take 1 (devname nd) = [42])"

fun best_slot ::
  "cstring \<Rightarrow> int \<Rightarrow> nat \<Rightarrow> nat option \<Rightarrow> nat option \<Rightarrow> nat option \<Rightarrow> NW_NET_DEVICE list \<Rightarrow> nat option" where
  "best_slot dn fr k devf framef ff [] =
     (if devf \<noteq> None then devf else if framef \<noteq> None then framef else ff)"
| "best_slot dn fr k devf framef ff (nd # nds) =
     (if \<not> up nd \<and> nd_net nd = 0 then
        if devname nd = dn \<and> frame nd = fr then Some k
        else if devname nd = dn then
          best_slot dn fr (Suc k) (if devf = None \<and> frame nd < 0 then Some k else devf) framef ff nds
        else if frame nd = fr then
          best_slot dn fr (Suc k) devf (if framef = None \<and> wild_name nd then Some k else framef) ff nds
        else
          best_slot dn fr (Suc k) devf framef
            (if frame nd < 0 \<and> wild_name nd \<and> ff = None then Some k else ff) nds
      else best_slot dn fr (Suc k) devf framef ff nds)"

definition free_slot :: "u32 \<Rightarrow> cstring \<Rightarrow> int \<Rightarrow> nat option \<Rightarrow> NW_NET_DEVICE list \<Rightarrow> nat option" where
  "free_slot rn dn fr ff nds =
     (case ff of
        Some k \<Rightarrow> if nd_net (nds ! k) \<noteq> rn then best_slot dn fr k None None None (drop k nds) else Some k
      | None \<Rightarrow> None)"

definition wild_match :: "cstring \<Rightarrow> int \<Rightarrow> NW_NET_DEVICE \<Rightarrow> bool" where
  "wild_match dn fr nd =
     (has (wildmask nd) 3 \<and>
      (devname nd = dn \<and> frame nd = fr \<or> devname nd = dn \<and> has (wildmask nd) 2 \<or>
       frame nd = fr \<and> has (wildmask nd) 1))"

definition new_device :: "cstring \<Rightarrow> int \<Rightarrow> NW_NET_DEVICE list \<Rightarrow> NW_NET_DEVICE list option" where
  "new_device dn fr nds =
     map_option (\<lambda>nd. nds @ [\<lparr>devname = [], frame = 0, nd_ticks = nd_ticks nd, nd_net = 0, is_up = 0,
                              wildmask = wildmask nd, updated_time = 0, needs_update = 0\<rparr>])
       (find (wild_match dn fr) nds)"

definition bring_up :: "nat \<Rightarrow> u32 \<Rightarrow> cstring \<Rightarrow> int \<Rightarrow> route_state \<Rightarrow> route_state" where
  "bring_up k rn dn fr s =
     (let s1 = s\<lparr>net_devices := (net_devices s)[k := (net_devices s ! k)
                  \<lparr>nd_net := rn, frame := fr, devname := dn, is_up := 2, needs_update := NEEDS_UPDATE_ALL\<rparr>]\<rparr>
      in if \<exists>nr \<in> set (nw_routes s). nr_net nr = rn
         then emit [Ipx_route_del rn, Exit_dev dn fr, Init_dev dn fr rn]
                (s1\<lparr>nw_routes := map_first (\<lambda>nr. nr_net nr = rn) (\<lambda>nr. nr\<lparr>nr_net := 0\<rparr>) (nw_routes s)\<rparr>)
         else s1)"

definition test_ins_device_net ::
  "route_cfg \<Rightarrow> iface_line list option \<Rightarrow> u32 \<Rightarrow> route_state \<Rightarrow> bool \<times> route_state" where
  "test_ins_device_net cfg lines rn s =
     (if rn = 0 \<or> rn = internal_net cfg then (False, s)
      else case scan_free rn 0 None (net_devices s) of
        None \<Rightarrow> (False, s)
      | Some ff \<Rightarrow>
          (case get_interface_frame_name lines rn of
             None \<Rightarrow> (False, s)
           | Some (fr, dn) \<Rightarrow>
               (case free_slot rn dn fr ff (net_devices s) of
                  Some k \<Rightarrow> (True, bring_up k rn dn fr s)
                | None \<Rightarrow>
                    (case new_device dn fr (net_devices s) of
                       None \<Rightarrow> (False, s)
                     | Some nds \<Rightarrow> (True, bring_up (length (net_devices s)) rn dn fr (s\<lparr>net_devices := nds\<rparr>))))))"

fun look_line :: "route_cfg \<Rightarrow> iface_line list option \<Rightarrow> iface_line \<Rightarrow> nat \<times> route_state \<Rightarrow> nat \<times> route_state" where
  "look_line cfg lines line (diffs, s) =
     (let (fr, rn, flags, dn) = read_interface_data line
      in if fr < 0 \<or> rn = 0 \<or> has flags 2 then (diffs, s)
         else case find (\<lambda>nd. nd_net nd = rn) (net_devices s) of
           Some nd \<Rightarrow>
             if up nd then
               (diffs, if is_up nd = -2
                       then s\<lparr>net_devices := map_first (\<lambda>nd. nd_net nd = rn) (\<lambda>nd. nd\<lparr>is_up := 2\<rparr>) (net_devices s)\<rparr>
                       else s)
             else (let (r, s1) = test_ins_device_net cfg lines rn s in (diffs + of_bool r, s1))
         | None \<Rightarrow> (let (r, s1) = test_ins_device_net cfg lines rn s in (diffs + of_bool r, s1)))"

definition reset_wild :: "NW_NET_DEVICE \<Rightarrow> NW_NET_DEVICE" where
  "reset_wild nd = nd\<lparr>is_up := 0,
     devname := (if has (wildmask nd) 1 then [42] else devname nd),
     frame := (if has (wildmask nd) 2 then -1 else frame nd),
     nd_net := (if has (wildmask nd) 4 then 0 else nd_net nd)\<rparr>"

fun take_down :: "NW_NET_DEVICE list \<Rightarrow> NW_ROUTES list \<Rightarrow> nat \<times> NW_NET_DEVICE list \<times> NW_ROUTES list" where
  "take_down [] rs = (0, [], rs)"
| "take_down (nd # nds) rs =
     (if is_up nd < 0 then
        let (d, nds', rs') = take_down nds
              (map (\<lambda>nr. if nr_rnet nr = nd_net nd then nr\<lparr>nr_net := 0\<rparr> else nr) rs)
        in (Suc d, reset_wild nd # nds', rs')
      else let (d, nds', rs') = take_down nds rs in (d, nd # nds', rs'))"

definition mark_added :: "NW_NET_DEVICE \<Rightarrow> NW_NET_DEVICE" where
  "mark_added nd = (if is_up nd = 2 then nd\<lparr>is_up := -2\<rparr> else nd)"

definition look_for_interfaces ::
  "route_cfg \<Rightarrow> iface_line list option \<Rightarrow> route_state \<Rightarrow> nat \<times> route_state" where
  "look_for_interfaces cfg lines s =
     (case lines of
        None \<Rightarrow> (0, s)
      | Some ls \<Rightarrow>
          let (diffs, s1) = fold (look_line cfg lines) ls (0, s\<lparr>net_devices := map mark_added (net_devices s)\<rparr>);
              (d, nds, rs) = take_down (net_devices s1) (nw_routes s1)
          in (diffs + d, s1\<lparr>net_devices := nds, nw_routes := rs\<rparr>))"

section \<open>Broadcasts and received advertisements\<close>

definition send_sap_rip_broadcast ::
  "route_cfg \<Rightarrow> iface_line list option \<Rightarrow> int \<Rightarrow> route_state \<Rightarrow> route_state" where
  "send_sap_rip_broadcast cfg lines mode0 s =
     (let mode = (if mode0 = 5 then 3 else mode0);
          (found, s1) = (if auto_detect_interfaces cfg then look_for_interfaces cfg lines s else (0, s));
          force = (mode0 = 1 \<or> mode0 = 5 \<or> 0 < found)
      in if mode = 3 then (if force then send_sap_broadcast 1 (send_rip_broadcast cfg 1 s1) else s1)
         else if mode = 22 then send_rip_broadcast cfg 2 s1
         else if mode = 2 then send_sap_broadcast 2 s1
         else if mode \<noteq> 0 then send_sap_broadcast mode (send_rip_broadcast cfg mode s1)
         else if flipflop s1 then (send_rip_broadcast cfg 0 s1)\<lparr>flipflop := False\<rparr>
         else (send_sap_broadcast 0 s1)\<lparr>flipflop := True\<rparr>)"

definition addr_at :: "buffer \<Rightarrow> nat \<Rightarrow> ipxAddr_t" where
  "addr_at p k = \<lparr>ia_net = bytes_at p k 4, ia_node = bytes_at p (k + 4) 6, ia_sock = bytes_at p (k + 10) 2\<rparr>"

fun handle_sap_entries ::
  "route_cfg \<Rightarrow> ipxAddr_t \<Rightarrow> buffer \<Rightarrow> nat \<Rightarrow> nat \<Rightarrow> bool \<times> route_state \<Rightarrow> bool \<times> route_state" where
  "handle_sap_entries cfg from_addr data p 0 fs = fs"
| "handle_sap_entries cfg from_addr data p (Suc entries) (flag, s) =
     (let typ = uint (get_be16 (bytes_at data p 2));
          name = takeWhile (\<lambda>c. c \<noteq> 0) (bytes_at data (p + 2) MAX_SERVER_NAME);
          ad = addr_at data (p + 50);
          hops = uint (get_be16 (bytes_at data (p + 62) 2))
      in handle_sap_entries cfg from_addr data (p + 64) entries
           (if handle_all_sap_typs cfg \<or> typ = 4 then
              if hops = 16 then (flag, insert_delete_server cfg name typ zero_addr zero_addr 16 True s)
              else (flag \<or> typ = 4, insert_delete_server cfg name typ ad from_addr hops False s)
            else (flag, s)))"

definition handle_sap ::
  "route_cfg \<Rightarrow> (ipxAddr_t \<Rightarrow> bool) \<Rightarrow> int \<Rightarrow> iface_line list option \<Rightarrow> nat \<Rightarrow> buffer \<Rightarrow> ipxAddr_t \<Rightarrow>
     route_state \<Rightarrow> route_state" where
  "handle_sap cfg find_station_match acttime_stamp lines data_len ipxdata from_addr s =
     (let query_type = get_be16 (bytes_at ipxdata 0 2);
          server_type = uint (get_be16 (bytes_at ipxdata 2 2))
      in if query_type = 3 then
           if nearest_request_flag cfg = 0 \<or>
              (nearest_request_flag cfg = 1) \<noteq> find_station_match from_addr
           then send_server_response cfg 4 server_type from_addr s else s
         else if query_type = 1 then send_server_response cfg 2 server_type from_addr s
         else if query_type = 2 \<or> query_type = 4 then
           let (flag, s1) = handle_sap_entries cfg from_addr ipxdata 2 ((data_len - 2) div 64) (False, s)
           in if flag then
                let (slow, s2) = activate_slow_net acttime_stamp (get_be32 (ia_net from_addr)) s1
                in if slow then send_sap_rip_broadcast cfg lines 4 s2 else s2
              else s1
         else s)"

section \<open>Interface: the search for an entry or a free slot\<close>

text \<open>Both tables are searched the same way: the loop stops at the first entry that is a \<open>hit\<close> and
  remembers the first \<open>free\<close> slot it has passed.\<close>

locale slot_search =
  fixes hit :: "'a \<Rightarrow> bool" and free :: "'a \<Rightarrow> bool"
    and search :: "nat \<Rightarrow> nat option \<Rightarrow> 'a list \<Rightarrow> nat \<times> nat option"
  assumes search_Nil: "search k fs [] = (k, fs)"
    and search_Cons: "search k fs (x # xs) =
      (if hit x then (k, fs) else search (Suc k) (if fs = None \<and> free x then Some k else fs) xs)"
begin

lemma search_spec:
  "search k0 fs0 xs = (k, fs) \<Longrightarrow>
     k0 \<le> k \<and> k \<le> k0 + length xs \<and>
     (\<forall>j. k0 \<le> j \<longrightarrow> j < k \<longrightarrow> \<not> hit (xs ! (j - k0))) \<and>
     (k < k0 + length xs \<longrightarrow> hit (xs ! (k - k0))) \<and>
     (case fs of
        None \<Rightarrow> fs0 = None \<and> (\<forall>j. k0 \<le> j \<longrightarrow> j < k \<longrightarrow> \<not> free (xs ! (j - k0)))
      | Some f \<Rightarrow> fs0 = Some f \<or> k0 \<le> f \<and> f < k \<and> free (xs ! (f - k0)))"
proof (induction xs arbitrary: k0 fs0)
  case Nil
  then show ?case by (auto simp: search_Nil split: option.splits)
next
  case (Cons x xs)
  show ?case
  proof (cases "hit x")
    case True
    then show ?thesis using Cons.prems by (auto simp: search_Cons split: option.splits)
  next
    case False
    have nth: "\<And>j. Suc k0 \<le> j \<Longrightarrow> (x # xs) ! (j - k0) = xs ! (j - Suc k0)"
      by (simp add: nth_Cons' Suc_diff_Suc [symmetric])
    have s: "search (Suc k0) (if fs0 = None \<and> free x then Some k0 else fs0) xs = (k, fs)"
      using Cons.prems False by (simp add: search_Cons)
    note IH = Cons.IH [OF s]
    have k: "Suc k0 \<le> k" "k \<le> Suc k0 + length xs" using IH by auto
    have miss: "\<not> hit ((x # xs) ! (j - k0))" if "k0 \<le> j" "j < k" for j
      using IH False that nth [of j] by (cases "j = k0") auto
    show ?thesis
      using IH False k miss nth
      by (auto split: option.splits if_splits simp: nth_Cons' Suc_diff_Suc [symmetric])
  qed
qed

lemma search_found:
  "search 0 None xs = (k, fs) \<Longrightarrow> k \<noteq> length xs \<Longrightarrow> k < length xs \<and> hit (xs ! k)"
  using search_spec [of 0 None xs k fs] by auto

lemma search_missing:
  "search 0 None xs = (length xs, fs) \<Longrightarrow> x \<in> set xs \<Longrightarrow> \<not> hit x"
  using search_spec [of 0 None xs "length xs" fs] by (auto simp: in_set_conv_nth)

lemma search_free:
  "search 0 None xs = (k, Some f) \<Longrightarrow> f < length xs \<and> free (xs ! f)"
  using search_spec [of 0 None xs k "Some f"] by auto

end

interpretation routes: slot_search "\<lambda>r. nr_net r = d" "\<lambda>r. nr_net r = 0" "find_route d" for d
  by unfold_locales simp_all

interpretation servers: slot_search "is_server n t" "\<lambda>s. ns_typ s = 0" "find_server n t" for n t
  by unfold_locales simp_all

section \<open>Slots with distinct keys\<close>

text \<open>No two slots in use have the same key; a slot without a key is free.\<close>

definition slots_distinct :: "('a \<Rightarrow> 'k option) \<Rightarrow> 'a list \<Rightarrow> bool" where
  "slots_distinct key xs =
     (\<forall>i < length xs. \<forall>j < length xs. i \<noteq> j \<longrightarrow> key (xs ! i) \<noteq> None \<longrightarrow> key (xs ! i) \<noteq> key (xs ! j))"

lemma slots_distinctD:
  "slots_distinct key xs \<Longrightarrow> i < length xs \<Longrightarrow> j < length xs \<Longrightarrow> key (xs ! i) = Some k \<Longrightarrow>
     key (xs ! j) = Some k \<Longrightarrow> i = j"
  by (metis slots_distinct_def option.distinct(1))

lemma slots_distinctI:
  "(\<And>i j k. i < length xs \<Longrightarrow> j < length xs \<Longrightarrow> key (xs ! i) = Some k \<Longrightarrow> key (xs ! j) = Some k \<Longrightarrow> i = j) \<Longrightarrow>
     slots_distinct key xs"
  unfolding slots_distinct_def by (metis not_None_eq)

lemma slots_distinct_update:
  assumes "slots_distinct key xs"
    and "\<And>j. j < length xs \<Longrightarrow> j \<noteq> k \<Longrightarrow> key y \<noteq> None \<Longrightarrow> key (xs ! j) \<noteq> key y"
  shows "slots_distinct key (xs[k := y])"
proof (rule slots_distinctI)
  fix i j c
  assume "i < length (xs[k := y])" "j < length (xs[k := y])"
    "key (xs[k := y] ! i) = Some c" "key (xs[k := y] ! j) = Some c"
  then show "i = j"
    using assms(2) [of i] assms(2) [of j] slots_distinctD [OF assms(1), of i j c]
    by (cases "i = k"; cases "j = k") auto
qed

lemma slots_distinct_append:
  assumes "slots_distinct key xs" and "\<And>x. x \<in> set xs \<Longrightarrow> key y \<noteq> None \<Longrightarrow> key x \<noteq> key y"
  shows "slots_distinct key (xs @ [y])"
proof (rule slots_distinctI)
  fix i j c
  assume "i < length (xs @ [y])" "j < length (xs @ [y])"
    "key ((xs @ [y]) ! i) = Some c" "key ((xs @ [y]) ! j) = Some c"
  then show "i = j"
    using assms(2) [of "xs ! i"] assms(2) [of "xs ! j"] slots_distinctD [OF assms(1), of i j c]
    by (cases "i < length xs"; cases "j < length xs") (auto simp: nth_append)
qed

lemma slots_distinct_map:
  assumes "slots_distinct key xs" and "\<And>x. key (f x) = None \<or> key (f x) = key x"
  shows "slots_distinct key (map f xs)"
proof (rule slots_distinctI)
  fix i j c
  assume *: "i < length (map f xs)" "j < length (map f xs)"
    "key (map f xs ! i) = Some c" "key (map f xs ! j) = Some c"
  then have "key (xs ! i) = Some c" "key (xs ! j) = Some c"
    using assms(2) [of "xs ! i"] assms(2) [of "xs ! j"] by auto
  then show "i = j" using slots_distinctD [OF assms(1)] * by auto
qed

lemma slots_distinct_same_keys:
  "slots_distinct key xs \<Longrightarrow> map key ys = map key xs \<Longrightarrow> slots_distinct key ys"
  by (rule slots_distinctI) (metis slots_distinctD length_map nth_map)

lemma map_first_conv:
  "map_first P f xs = (case find P xs of None \<Rightarrow> xs | Some _ \<Rightarrow>
     (let k = length (takeWhile (\<lambda>x. \<not> P x) xs) in xs[k := f (xs ! k)]))"
  by (induction xs) (auto simp: Let_def split: option.splits)

lemma map_map_first:
  "(\<And>x. P x \<Longrightarrow> g (f x) = g x) \<Longrightarrow> map g (map_first P f xs) = map g xs"
  by (induction xs) auto

lemma set_map_first:
  "y \<in> set (map_first P f xs) \<Longrightarrow> y \<in> set xs \<or> (\<exists>x \<in> set xs. P x \<and> y = f x)"
  by (induction xs) (auto split: if_splits)

section \<open>The route table as a map\<close>

definition route_key :: "NW_ROUTES \<Rightarrow> u32 option" where
  "route_key r = (if nr_net r = 0 then None else Some (nr_net r))"

definition route_to :: "NW_ROUTES list \<Rightarrow> u32 \<Rightarrow> NW_ROUTES option" where
  "route_to rs n = (if n = 0 then None else find (\<lambda>r. nr_net r = n) rs)"

lemma route_to_SomeD: "route_to rs n = Some r \<Longrightarrow> n \<noteq> 0 \<and> nr_net r = n \<and> r \<in> set rs"
  by (auto simp: route_to_def find_Some_iff split: if_splits)

lemma route_to_None: "route_to rs n = None \<longleftrightarrow> n = 0 \<or> n \<notin> nr_net ` set rs"
  by (auto simp: route_to_def find_None_iff)

lemma route_to_nth:
  assumes "slots_distinct route_key rs" and "k < length rs" and "nr_net (rs ! k) \<noteq> 0"
  shows "route_to rs (nr_net (rs ! k)) = Some (rs ! k)"
proof -
  obtain r where r: "route_to rs (nr_net (rs ! k)) = Some r"
    using assms route_to_None [of rs "nr_net (rs ! k)"] by fastforce
  then obtain j where "j < length rs" "r = rs ! j" "nr_net (rs ! j) = nr_net (rs ! k)"
    using route_to_SomeD by (metis in_set_conv_nth)
  moreover have "j = k"
    using slots_distinctD [OF assms(1), of j k "nr_net (rs ! k)"] calculation assms by (auto simp: route_key_def)
  ultimately show ?thesis using r by simp
qed

lemma route_to_other:
  "k < length rs \<Longrightarrow> nr_net (rs ! k) \<noteq> n \<Longrightarrow> nr_net y \<noteq> n \<Longrightarrow> route_to (rs[k := y]) n = route_to rs n"
  unfolding route_to_def
  by (induction rs arbitrary: k) (auto split: nat.splits)

lemma route_to_put:
  assumes "slots_distinct route_key rs" and "k < length rs" and "nr_net y = d" and "d \<noteq> 0"
    and "nr_net (rs ! k) = d \<or> nr_net (rs ! k) = 0 \<and> d \<notin> nr_net ` set rs"
  shows "slots_distinct route_key (rs[k := y])" and "route_to (rs[k := y]) = (route_to rs)(d \<mapsto> y)"
proof -
  show s: "slots_distinct route_key (rs[k := y])"
  proof (rule slots_distinct_update [OF assms(1)])
    fix j assume j: "j < length rs" "j \<noteq> k"
    then have "nr_net (rs ! j) \<noteq> d"
      using assms(2,4,5) slots_distinctD [OF assms(1), of j k d] by (force simp: route_key_def)
    then show "route_key (rs ! j) \<noteq> route_key y" using assms(3,4) by (auto simp: route_key_def)
  qed
  show "route_to (rs[k := y]) = (route_to rs)(d \<mapsto> y)"
  proof
    fix n
    show "route_to (rs[k := y]) n = ((route_to rs)(d \<mapsto> y)) n"
    proof (cases "n = d")
      case True
      then show ?thesis using route_to_nth [OF s, of k] assms by simp
    next
      case False
      then show ?thesis
        using assms route_to_other [of k rs n y] by (cases "n = 0") (auto simp: route_to_def)
    qed
  qed
qed

lemma route_to_append:
  "slots_distinct route_key rs \<Longrightarrow> nr_net y = d \<Longrightarrow> d \<noteq> 0 \<Longrightarrow> d \<notin> nr_net ` set rs \<Longrightarrow>
     slots_distinct route_key (rs @ [y]) \<and> route_to (rs @ [y]) = (route_to rs)(d \<mapsto> y)"
proof (intro conjI)
  assume a: "slots_distinct route_key rs" "nr_net y = d" "d \<noteq> 0" "d \<notin> nr_net ` set rs"
  then show s: "slots_distinct route_key (rs @ [y])"
    by (intro slots_distinct_append) (auto simp: route_key_def rev_image_eqI)
  have *: "n \<noteq> d \<Longrightarrow> find (\<lambda>r. nr_net r = n) (rs @ [y]) = find (\<lambda>r. nr_net r = n) rs" for n
    using a(2) by (induction rs) auto
  show "route_to (rs @ [y]) = (route_to rs)(d \<mapsto> y)"
    using route_to_nth [OF s, of "length rs"] a * by (auto simp: fun_eq_iff route_to_def)
qed

lemma route_to_clear:
  assumes "slots_distinct route_key rs" and "k < length rs" and "nr_net (rs ! k) = d" and "d \<noteq> 0"
    and "nr_net y = 0"
  shows "slots_distinct route_key (rs[k := y])" and "route_to (rs[k := y]) = (route_to rs)(d := None)"
proof -
  show s: "slots_distinct route_key (rs[k := y])"
    using assms by (intro slots_distinct_update) (auto simp: route_key_def)
  have "d \<notin> nr_net ` set (rs[k := y])"
  proof
    assume "d \<in> nr_net ` set (rs[k := y])"
    then obtain j where "j < length rs" "nr_net (rs[k := y] ! j) = d" by (metis in_set_conv_nth imageE length_list_update)
    then show False
      using assms slots_distinctD [OF assms(1), of j k d] by (auto simp: nth_list_update route_key_def split: if_splits)
  qed
  then show "route_to (rs[k := y]) = (route_to rs)(d := None)"
    using route_to_other [of k rs _ y] assms
    by (auto simp: fun_eq_iff route_to_None) (auto simp: route_to_def)
qed

section \<open>The best-route specification\<close>

definition spec_insert :: "u32 \<Rightarrow> u32 \<Rightarrow> u8 list \<Rightarrow> u16 \<Rightarrow> u16 \<Rightarrow> (u32 \<rightharpoonup> NW_ROUTES) \<Rightarrow> (u32 \<rightharpoonup> NW_ROUTES)" where
  "spec_insert d rn rnode hops ticks m =
     (if (case m d of None \<Rightarrow> True
                    | Some r \<Rightarrow> (ticks, hops) = (nr_ticks r, nr_hops r) \<or> ticks < nr_ticks r \<or>
                                ticks = nr_ticks r \<and> hops < nr_hops r)
      then m(d \<mapsto> \<lparr>nr_net = d, nr_hops = hops, nr_ticks = ticks, nr_rnet = rn, nr_rnode = rnode\<rparr>)
      else m)"

definition spec_delete :: "u32 \<Rightarrow> u32 \<Rightarrow> u8 list \<Rightarrow> (u32 \<rightharpoonup> NW_ROUTES) \<Rightarrow> (u32 \<rightharpoonup> NW_ROUTES)" where
  "spec_delete d rn rnode m =
     (case m d of
        Some r \<Rightarrow> if nr_rnet r = rn \<and> nr_rnode r = rnode then m(d := None) else m
      | None \<Rightarrow> m)"

definition own_net :: "route_cfg \<Rightarrow> NW_NET_DEVICE list \<Rightarrow> u32 \<Rightarrow> bool" where
  "own_net cfg nds n = (n = internal_net cfg \<or> (\<exists>nd \<in> set nds. up nd \<and> nd_net nd = n))"

definition link_ticks :: "u32 \<Rightarrow> NW_NET_DEVICE list \<Rightarrow> int" where
  "link_ticks rn nds = fold (\<lambda>nd t. if up nd \<and> nd_net nd = rn then nd_ticks nd else t) nds 99"

definition spec_net ::
  "route_cfg \<Rightarrow> NW_NET_DEVICE list \<Rightarrow> u32 \<Rightarrow> u32 \<Rightarrow> u8 list \<Rightarrow> u16 \<Rightarrow> u16 \<Rightarrow> bool \<Rightarrow>
     (u32 \<rightharpoonup> NW_ROUTES) \<Rightarrow> (u32 \<rightharpoonup> NW_ROUTES)" where
  "spec_net cfg nds d rn rnode hops ticks do_delete m =
     (if d = 0 \<or> own_net cfg nds d then m
      else if do_delete then spec_delete d rn rnode m
      else spec_insert d rn rnode hops (ticks + word_of_int (link_ticks rn nds)) m)"

definition routes_ok :: "route_cfg \<Rightarrow> NW_NET_DEVICE list \<Rightarrow> NW_ROUTES list \<Rightarrow> bool" where
  "routes_ok cfg nds rs =
     (slots_distinct route_key rs \<and> (\<forall>n. route_to rs n \<noteq> None \<longrightarrow> \<not> own_net cfg nds n))"

lemma scan_devices_spec:
  "scan_devices d rn del nds nd0 t0 =
     (if \<not> del \<and> (\<exists>nd \<in> set nds. up nd \<and> nd_net nd = d) then None
      else Some (fold (\<lambda>nd r. if up nd \<and> nd_net nd = d then Some nd else r) nds nd0,
                 fold (\<lambda>nd t. if up nd \<and> nd_net nd = rn then nd_ticks nd else t) nds t0))"
proof (induction nds arbitrary: del nd0 t0)
  case (Cons nd nds)
  show ?case by (cases "up nd"; cases "nd_net nd = d"; cases del; simp add: Cons.IH)
qed simp

lemma no_device_found:
  "\<forall>nd \<in> set nds. \<not> (up nd \<and> nd_net nd = d) \<Longrightarrow>
     fold (\<lambda>nd r. if up nd \<and> nd_net nd = d then Some nd else r) nds nd0 = nd0"
  by (induction nds) auto

lemma better_route_lex:
  "better_route hops ticks r \<longleftrightarrow>
     (ticks, hops) = (nr_ticks r, nr_hops r) \<or> ticks < nr_ticks r \<or> ticks = nr_ticks r \<and> hops < nr_hops r"
  by (auto simp: better_route_def)

lemma better_empty_route: "better_route hops ticks (empty_route d)"
proof -
  have "x \<le> 0xffff" for x :: u16
  proof -
    have "unat x < 65536" using unsigned_less [of x] by simp
    then show ?thesis by (simp add: word_le_nat_alt)
  qed
  then show ?thesis by (auto simp: better_route_def empty_route_def not_less)
qed

lemma update_route_table:
  "k < length (nw_routes s) \<Longrightarrow>
     nw_routes (update_route k rn rnode hops ticks s) =
       (if better_route hops ticks (nw_routes s ! k)
        then (nw_routes s)[k := \<lparr>nr_net = nr_net (nw_routes s ! k), nr_hops = hops, nr_ticks = ticks,
                                nr_rnet = rn, nr_rnode = rnode\<rparr>]
        else nw_routes s)"
  by (cases "nw_routes s ! k") (auto simp: update_route_def Let_def emit_def)

lemma delete_route_table:
  "nw_routes (delete_route k rn rnode nd s) =
     (if nr_rnet (nw_routes s ! k) = rn \<and> nr_rnode (nw_routes s ! k) = rnode
      then (nw_routes s)[k := (nw_routes s ! k)\<lparr>nr_net := 0\<rparr>] else nw_routes s)"
  by (auto simp: delete_route_def Let_def emit_def)

lemma insert_at:
  assumes "slots_distinct route_key (nw_routes s)" and "k < length (nw_routes s)"
    and "nr_net (nw_routes s ! k) = d" and "d \<noteq> 0"
  shows "slots_distinct route_key (nw_routes (update_route k rn rnode hops ticks s)) \<and>
     route_to (nw_routes (update_route k rn rnode hops ticks s)) =
       spec_insert d rn rnode hops ticks (route_to (nw_routes s))"
proof -
  have "route_to (nw_routes s) d = Some (nw_routes s ! k)" using route_to_nth assms by metis
  then show ?thesis
    using assms by (simp add: update_route_table spec_insert_def better_route_lex route_to_put)
qed

lemma insert_new:
  assumes sd: "slots_distinct route_key (nw_routes s)" and d: "d \<noteq> 0" "d \<notin> nr_net ` set (nw_routes s)"
    and fs: "\<And>f. fs = Some f \<Longrightarrow> f < length (nw_routes s) \<and> nr_net (nw_routes s ! f) = 0"
    and nr: "new_route d fs (nw_routes s) = (k, rs)"
  shows "slots_distinct route_key (nw_routes (update_route k rn rnode hops ticks (s\<lparr>nw_routes := rs\<rparr>))) \<and>
     route_to (nw_routes (update_route k rn rnode hops ticks (s\<lparr>nw_routes := rs\<rparr>))) =
       spec_insert d rn rnode hops ticks (route_to (nw_routes s))"
proof -
  have e: "nr_net (empty_route d) = d" by (simp add: empty_route_def)
  have k: "k < length rs" "rs ! k = empty_route d"
    and rs: "slots_distinct route_key rs" "route_to rs = (route_to (nw_routes s))(d \<mapsto> empty_route d)"
    using nr fs d e route_to_put [OF sd, of _ "empty_route d" d] route_to_append [OF sd e]
    by (auto simp: new_route_def split: option.splits)
  have "route_to (nw_routes s) d = None" using d by (simp add: route_to_None)
  then show ?thesis
    using insert_at [of "s\<lparr>nw_routes := rs\<rparr>" k d rn rnode hops ticks] k rs d e
      better_empty_route [of hops ticks d, unfolded better_route_lex]
    by (auto simp: spec_insert_def)
qed

lemma delete_at:
  assumes "slots_distinct route_key (nw_routes s)" and "k < length (nw_routes s)"
    and "nr_net (nw_routes s ! k) = d" and "d \<noteq> 0"
  shows "slots_distinct route_key (nw_routes (delete_route k rn rnode nd s)) \<and>
     route_to (nw_routes (delete_route k rn rnode nd s)) = spec_delete d rn rnode (route_to (nw_routes s))"
proof -
  have "route_to (nw_routes s) d = Some (nw_routes s ! k)" using route_to_nth assms by metis
  then show ?thesis
    using assms by (simp add: delete_route_table spec_delete_def route_to_clear)
qed

lemma net_refines:
  assumes ok: "routes_ok cfg (net_devices s) (nw_routes s)"
  shows "slots_distinct route_key (nw_routes (insert_delete_net cfg d rn rnode hops ticks del s)) \<and>
     route_to (nw_routes (insert_delete_net cfg d rn rnode hops ticks del s)) =
       spec_net cfg (net_devices s) d rn rnode hops ticks del (route_to (nw_routes s))"
proof -
  have sd: "slots_distinct route_key (nw_routes s)" using ok by (simp add: routes_ok_def)
  obtain k fs where f: "find_route d 0 None (nw_routes s) = (k, fs)" by fastforce
  have missing: "k = length (nw_routes s) \<Longrightarrow> d \<notin> nr_net ` set (nw_routes s)"
    using routes.search_missing [of d "nw_routes s" fs] f by auto
  have found: "k \<noteq> length (nw_routes s) \<Longrightarrow> k < length (nw_routes s) \<and> nr_net (nw_routes s ! k) = d"
    using routes.search_found [OF f] by simp
  have free: "\<And>j. fs = Some j \<Longrightarrow> j < length (nw_routes s) \<and> nr_net (nw_routes s ! j) = 0"
    using routes.search_free f by metis
  show ?thesis
  proof (cases "d = 0 \<or> d = internal_net cfg")
    case True
    then show ?thesis using sd by (auto simp: insert_delete_net_def spec_net_def own_net_def)
  next
    case False
    show ?thesis
    proof (cases "\<exists>nd \<in> set (net_devices s). up nd \<and> nd_net nd = d")
      case own: True
      then have o: "own_net cfg (net_devices s) d" by (simp add: own_net_def)
      then have "route_to (nw_routes s) d = None" using ok by (auto simp: routes_ok_def)
      then have "k = length (nw_routes s)"
        using found False by (auto simp: route_to_None)
      then show ?thesis using False own o f sd
        by (auto simp: insert_delete_net_def scan_devices_spec spec_net_def Let_def)
    next
      case not_own: False
      obtain k' rs where nr: "new_route d fs (nw_routes s) = (k', rs)" by fastforce
      note [simp] = no_device_found [of "net_devices s" d]
      show ?thesis
      proof (cases "k = length (nw_routes s)")
        case True
        then have "route_to (nw_routes s) d = None" using missing by (simp add: route_to_None)
        then show ?thesis
          using False not_own f nr True sd insert_new [OF sd _ missing free nr]
          by (auto simp: insert_delete_net_def scan_devices_spec spec_net_def Let_def own_net_def
              link_ticks_def spec_delete_def)
      next
        case k: False
        then show ?thesis
          using False not_own f found insert_at [OF sd] delete_at [OF sd]
          by (auto simp: insert_delete_net_def scan_devices_spec spec_net_def Let_def own_net_def
              link_ticks_def)
      qed
    qed
  qed
qed

section \<open>The RIP buffer\<close>

definition buff_ready :: "route_state \<Rightarrow> bool" where
  "buff_ready s = (length (rip_buff s) = 2 + 8 * max_rip_entries s \<and> rentries s \<le> max_rip_entries s)"

definition buff_ok :: "route_state \<Rightarrow> bool" where
  "buff_ok s = (rip_buff s = [] \<and> rentries s = 0 \<or> buff_ready s)"

text \<open>The entries the buffer holds, each as its eight bytes.\<close>

definition slot8 :: "u8 list \<Rightarrow> nat \<Rightarrow> u8 list" where
  "slot8 buf i = take 8 (drop (2 + 8 * i) buf)"

definition entries_of :: "route_state \<Rightarrow> u8 list list" where
  "entries_of s = map (slot8 (rip_buff s)) [0..<rentries s]"

definition op_of :: "route_state \<Rightarrow> u8 list" where
  "op_of s = take 2 (rip_buff s)"

lemma length_entries_of [simp]: "length (entries_of s) = rentries s"
  by (simp add: entries_of_def)

lemma length_write_at [simp]: "off + length bs \<le> length buf \<Longrightarrow> length (write_at off bs buf) = length buf"
  by (simp add: write_at_def)

lemma length_rip_entry [simp]: "length (rip_entry n h t) = 8"
  by (simp add: rip_entry_def u16_to_be16_def)

lemma slot8_write_same:
  "off = 2 + 8 * i \<Longrightarrow> off + 8 \<le> length buf \<Longrightarrow> length bs = 8 \<Longrightarrow> slot8 (write_at off bs buf) i = bs"
  by (simp add: slot8_def write_at_def)

lemma slot8_write_before:
  "2 + 8 * i + 8 \<le> off \<Longrightarrow> off \<le> length buf \<Longrightarrow> slot8 (write_at off bs buf) i = slot8 buf i"
  by (simp add: slot8_def write_at_def take_drop)

lemma slot8_append: "2 + 8 * i + 8 \<le> length buf \<Longrightarrow> slot8 (buf @ xs) i = slot8 buf i"
  by (simp add: slot8_def take_drop)

lemma take2_write: "2 \<le> off \<Longrightarrow> off \<le> length buf \<Longrightarrow> take 2 (write_at off bs buf) = take 2 buf"
  by (simp add: write_at_def)

text \<open>The condition under which \<^const>\<open>ins_rip_buff\<close> stores an entry.\<close>

definition announces :: "route_cfg \<Rightarrow> u32 \<Rightarrow> nat \<Rightarrow> u32 \<Rightarrow> bool" where
  "announces cfg rn k n = (n \<noteq> 0 \<and> (n \<noteq> rn \<or> k = 0 \<and> n = internal_net cfg))"

lemma ins_rip_buff_spec:
  assumes "buff_ready s"
  shows "buff_ready (ins_rip_buff cfg n h t s) \<and>
     op_of (ins_rip_buff cfg n h t s) = op_of s \<and>
     entries_of (ins_rip_buff cfg n h t s) =
       entries_of s @ (if announces cfg (rnet s) (rentries s) n then [rip_entry n h t] else [])"
proof (cases "announces cfg (rnet s) (rentries s) n")
  case False
  then show ?thesis using assms by (auto simp: ins_rip_buff_def announces_def)
next
  case True
  let ?m = "max_rip_entries s" and ?k = "rentries s"
  define buf where "buf = (if ?m \<le> ?k then take (2 + ?m * 8) (rip_buff s) @ replicate (5 * 8) 0 else rip_buff s)"
  define m where "m = (if ?m \<le> ?k then ?m + 5 else ?m)"
  have len: "length (rip_buff s) = 2 + 8 * ?m" "?k \<le> ?m" using assms by (auto simp: buff_ready_def)
  have b: "length buf = 2 + 8 * m" "Suc ?k \<le> m"
    using len by (auto simp: buf_def m_def)
  have same: "slot8 buf i = slot8 (rip_buff s) i" if "i < ?k" for i
    using that len by (auto simp: buf_def slot8_append)
  have op: "take 2 buf = take 2 (rip_buff s)" using len by (auto simp: buf_def)
  have r: "ins_rip_buff cfg n h t s =
      s\<lparr>max_rip_entries := m, rip_buff := write_at (2 + ?k * 8) (rip_entry n h t) buf, rentries := ?k + 1\<rparr>"
    using True by (auto simp: ins_rip_buff_def announces_def buf_def m_def Let_def)
  have "entries_of (ins_rip_buff cfg n h t s) = entries_of s @ [rip_entry n h t]"
    using b same by (auto simp: r entries_of_def slot8_write_same slot8_write_before)
  moreover have "op_of (ins_rip_buff cfg n h t s) = op_of s"
    using b op by (simp add: r op_of_def take2_write)
  moreover have "buff_ready (ins_rip_buff cfg n h t s)"
    using b by (simp add: r buff_ready_def)
  ultimately show ?thesis using True by simp
qed

lemma init_rip_buff_spec:
  assumes "buff_ok s"
  shows "buff_ready (init_rip_buff n mode s) \<and> entries_of (init_rip_buff n mode s) = [] \<and>
     op_of (init_rip_buff n mode s) = u16_to_be16 (if 9 < mode then 1 else 2)"
  using assms
  by (auto simp: init_rip_buff_def Let_def buff_ok_def buff_ready_def entries_of_def op_of_def write_at_def u16_to_be16_def)

section \<open>What sending leaves alone\<close>

definition link_state :: "NW_NET_DEVICE \<Rightarrow> bool \<times> u32" where
  "link_state nd = (up nd, nd_net nd)"

definition same_tables :: "route_state \<Rightarrow> route_state \<Rightarrow> bool" where
  "same_tables s t =
     (nw_routes t = nw_routes s \<and> nw_servers t = nw_servers s \<and>
      map link_state (net_devices t) = map link_state (net_devices s))"

lemma same_tables_refl [simp]: "same_tables s s"
  by (simp add: same_tables_def)

lemma same_tables_trans: "same_tables s t \<Longrightarrow> same_tables t u \<Longrightarrow> same_tables s u"
  by (simp add: same_tables_def)

text \<open>\<open>sends f\<close>: \<open>f\<close> only sends packets and clears update flags.\<close>

definition sends :: "(route_state \<Rightarrow> route_state) \<Rightarrow> bool" where
  "sends f = (\<forall>s. same_tables s (f s) \<and> (buff_ok s \<longrightarrow> buff_ok (f s)))"

lemma sends_fold: "(\<And>x. sends (f x)) \<Longrightarrow> sends (fold f xs)"
  by (induction xs) (auto simp: sends_def intro: same_tables_trans)

lemma ins_frame [simp]:
  "net_devices (ins_rip_buff cfg n h t s) = net_devices s" "nw_routes (ins_rip_buff cfg n h t s) = nw_routes s"
  "nw_servers (ins_rip_buff cfg n h t s) = nw_servers s" "rnet (ins_rip_buff cfg n h t s) = rnet s"
  "rmode (ins_rip_buff cfg n h t s) = rmode s" "calls (ins_rip_buff cfg n h t s) = calls s"
  by (auto simp: ins_rip_buff_def Let_def)

lemma init_frame [simp]:
  "net_devices (init_rip_buff n m s) = net_devices s" "nw_routes (init_rip_buff n m s) = nw_routes s"
  "nw_servers (init_rip_buff n m s) = nw_servers s" "rnet (init_rip_buff n m s) = n"
  "rmode (init_rip_buff n m s) = m" "calls (init_rip_buff n m s) = calls s" "rentries (init_rip_buff n m s) = 0"
  by (auto simp: init_rip_buff_def Let_def)

text \<open>The steps of \<^const>\<open>build_rip_buff\<close>: the nets it offers to \<^const>\<open>ins_rip_buff\<close>, in order.\<close>

definition offered :: "route_cfg \<Rightarrow> u32 \<Rightarrow> route_state \<Rightarrow> (u32 \<times> u16 \<times> u16) list" where
  "offered cfg d s =
     (let w = (d = MAX_U32); hops = (\<lambda>h. if rmode s = 1 then 16 else h)
      in (if rmode s < 10 \<and> (w \<or> internal_net cfg = d)
          then [(internal_net cfg, hops 1, if rnet s = internal_net cfg then 1 else 2)] else []) @
         (if rmode s < 10
          then map (\<lambda>nd. (nd_net nd, hops 1, word_of_int (nd_ticks nd + 1)))
                 (filter (\<lambda>nd. up nd \<and> (w \<or> nd_net nd = d)) (net_devices s)) else []) @
         map (\<lambda>nr. (nr_net nr, hops (nr_hops nr + 1), nr_ticks nr + 1))
           (filter (\<lambda>nr. nr_rnet nr \<noteq> rnet s \<and> (w \<or> nr_net nr = d)) (nw_routes s)))"

definition ins_entry :: "route_cfg \<Rightarrow> u32 \<times> u16 \<times> u16 \<Rightarrow> route_state \<Rightarrow> route_state" where
  "ins_entry cfg e s = ins_rip_buff cfg (fst e) (fst (snd e)) (snd (snd e)) s"

lemma fold_ins_entry:
  "fold (\<lambda>x t. if P x then ins_rip_buff cfg (a x) (b x) (c x) t else t) xs s =
     fold (ins_entry cfg) (map (\<lambda>x. (a x, b x, c x)) (filter P xs)) s"
  by (induction xs arbitrary: s) (auto simp: ins_entry_def)

lemma build_rip_buff_offers:
  "d \<noteq> 0 \<Longrightarrow> build_rip_buff cfg d s =
     fold (ins_entry cfg) (offered cfg d s) (if d = MAX_U32 then s\<lparr>rentries := 0\<rparr> else s)"
  by (simp add: build_rip_buff_def offered_def Let_def fold_ins_entry ins_entry_def)

lemma fold_ins_frame [simp]:
  "net_devices (fold (ins_entry cfg) es s) = net_devices s" "nw_routes (fold (ins_entry cfg) es s) = nw_routes s"
  "nw_servers (fold (ins_entry cfg) es s) = nw_servers s" "rnet (fold (ins_entry cfg) es s) = rnet s"
  "rmode (fold (ins_entry cfg) es s) = rmode s" "calls (fold (ins_entry cfg) es s) = calls s"
  by (induction es arbitrary: s) (simp_all add: ins_entry_def)

text \<open>The nets that pass the test of \<^const>\<open>ins_rip_buff\<close>: all but zero and the net that is told, except
  for the internal net in front.\<close>

fun announced :: "route_cfg \<Rightarrow> u32 \<Rightarrow> nat \<Rightarrow> (u32 \<times> u16 \<times> u16) list \<Rightarrow> (u32 \<times> u16 \<times> u16) list" where
  "announced cfg rn k [] = []"
| "announced cfg rn k (e # es) =
     (if announces cfg rn k (fst e) then e # announced cfg rn (Suc k) es else announced cfg rn k es)"

definition encode :: "u32 \<times> u16 \<times> u16 \<Rightarrow> u8 list" where
  "encode e = rip_entry (fst e) (fst (snd e)) (snd (snd e))"

lemma fold_ins_spec:
  "buff_ready s \<Longrightarrow>
     buff_ready (fold (ins_entry cfg) es s) \<and> op_of (fold (ins_entry cfg) es s) = op_of s \<and>
     entries_of (fold (ins_entry cfg) es s) =
       entries_of s @ map encode (announced cfg (rnet s) (rentries s) es)"
proof (induction es arbitrary: s)
  case (Cons e es)
  have len: "rentries (ins_entry cfg e s) = (if announces cfg (rnet s) (rentries s) (fst e) then Suc (rentries s) else rentries s)"
    by (auto simp: ins_entry_def ins_rip_buff_def announces_def Let_def)
  have "rnet (ins_entry cfg e s) = rnet s" by (simp add: ins_entry_def)
  moreover note ins_rip_buff_spec [OF Cons.prems, of cfg "fst e" "fst (snd e)" "snd (snd e)", folded ins_entry_def]
  ultimately show ?case using Cons.IH [of "ins_entry cfg e s"] len by (simp add: encode_def)
qed simp

lemma build_rip_buff_spec:
  assumes "buff_ready s" and "d \<noteq> 0"
  shows "buff_ready (build_rip_buff cfg d s) \<and> op_of (build_rip_buff cfg d s) = op_of s \<and>
     entries_of (build_rip_buff cfg d s) =
       (if d = MAX_U32 then map encode (announced cfg (rnet s) 0 (offered cfg d s))
        else entries_of s @ map encode (announced cfg (rnet s) (rentries s) (offered cfg d s)))"
proof -
  have "buff_ready (s\<lparr>rentries := 0\<rparr>)" "op_of (s\<lparr>rentries := 0\<rparr>) = op_of s" "entries_of (s\<lparr>rentries := 0\<rparr>) = []"
    using assms by (auto simp: buff_ready_def op_of_def entries_of_def)
  then show ?thesis
    using assms fold_ins_spec [of "s\<lparr>rentries := 0\<rparr>" cfg "offered cfg d s"] fold_ins_spec [of s cfg "offered cfg d s"]
    by (auto simp: build_rip_buff_offers)
qed

lemma build_frame [simp]:
  "net_devices (build_rip_buff cfg d s) = net_devices s" "nw_routes (build_rip_buff cfg d s) = nw_routes s"
  "nw_servers (build_rip_buff cfg d s) = nw_servers s" "rnet (build_rip_buff cfg d s) = rnet s"
  "rmode (build_rip_buff cfg d s) = rmode s" "calls (build_rip_buff cfg d s) = calls s"
  by (cases "d = 0"; simp add: build_rip_buff_offers; simp add: build_rip_buff_def)+

lemma build_ready: "buff_ready s \<Longrightarrow> buff_ready (build_rip_buff cfg d s)"
  using build_rip_buff_spec [of s d cfg] by (cases "d = 0") (auto simp: build_rip_buff_def)

lemma length_rip_left: "length buf = 2 + 8 * m \<Longrightarrow> n \<le> m \<Longrightarrow> length (rip_left n buf) = length buf"
proof (induction n buf rule: rip_left.induct)
  case (1 n buf)
  then show ?case by (simp add: rip_left.simps [of n buf])
qed

lemma send_rip_buff_ok: "buff_ready s \<Longrightarrow> buff_ready (send_rip_buff a s)"
  by (simp add: send_rip_buff_def buff_ready_def emit_def Let_def length_rip_left)

lemma send_frame [simp]:
  "net_devices (send_rip_buff a s) = net_devices s" "nw_routes (send_rip_buff a s) = nw_routes s"
  "nw_servers (send_rip_buff a s) = nw_servers s"
  by (simp_all add: send_rip_buff_def emit_def Let_def)

lemma buff_ok_ready: "buff_ready s \<Longrightarrow> buff_ok s"
  by (simp add: buff_ok_def)

lemma buff_ok_cong:
  "rip_buff t = rip_buff s \<Longrightarrow> rentries t = rentries s \<Longrightarrow> max_rip_entries t = max_rip_entries s \<Longrightarrow>
     buff_ok t = buff_ok s"
  by (simp add: buff_ok_def buff_ready_def)

lemma same_tables_emit [simp]: "same_tables s (emit cs s)"
  by (simp add: emit_def same_tables_def)

lemma emit_frame [simp]:
  "net_devices (emit cs s) = net_devices s" "nw_routes (emit cs s) = nw_routes s"
  "nw_servers (emit cs s) = nw_servers s" "buff_ok (emit cs s) = buff_ok s"
  by (simp_all add: emit_def buff_ok_def buff_ready_def)

lemma clear_update_links: "map link_state (net_devices (clear_update f k s)) = map link_state (net_devices s)"
proof (rule nth_equalityI)
  fix i assume "i < length (map link_state (net_devices (clear_update f k s)))"
  then show "map link_state (net_devices (clear_update f k s)) ! i = map link_state (net_devices s) ! i"
    by (cases "i = k") (auto simp: clear_update_def link_state_def up_def)
qed (simp add: clear_update_def)

lemma sends_clear_update: "sends (clear_update f k)"
  using clear_update_links [of f k]
  by (auto simp: sends_def same_tables_def clear_update_def intro: buff_ok_cong [THEN iffD2])

lemma sends_comp: "sends f \<Longrightarrow> sends g \<Longrightarrow> sends (\<lambda>s. f (g s))"
  by (auto simp: sends_def intro: same_tables_trans)

lemma sends_skip [simp]: "sends (\<lambda>s. s)"
  by (simp add: sends_def)

lemma sends_if: "(\<And>x. sends (f x)) \<Longrightarrow> (\<And>x. sends (g x)) \<Longrightarrow>
    sends (\<lambda>s. if P s then f (h s) s else g (h' s) s)"
  by (simp add: sends_def)

lemma sends_rip: "sends (\<lambda>s. send_rip_buff a (build_rip_buff cfg d (init_rip_buff n m s)))"
  by (auto simp: sends_def same_tables_def init_rip_buff_spec build_ready send_rip_buff_ok
      intro!: buff_ok_ready)

lemma sends_rip_request: "sends (\<lambda>s. send_rip_buff a (ins_rip_buff cfg d h t (init_rip_buff n m s)))"
  by (auto simp: sends_def same_tables_def init_rip_buff_spec ins_rip_buff_spec send_rip_buff_ok
      intro!: buff_ok_ready)

lemma sends_emit: "sends (\<lambda>s. emit (cs s) s)"
  by (simp add: sends_def)

lemma sends_sap_to_addr: "sends (send_sap_to_addr e h r a)"
  by (cases e) (simp_all add: sends_def send_sap_to_addr_def)

text \<open>A loop over the devices whose body sends for some device after its flag is cleared.\<close>

lemma sends_device:
  assumes "\<And>nd. sends (g nd)"
  shows "sends (\<lambda>s. let nd = net_devices s ! k in if P nd then s
     else if Q nd then g nd (clear_update f k s) else s)"
  using sends_comp [OF assms sends_clear_update [of f k]] by (auto simp: sends_def Let_def)

lemma sends_rip_broadcast: "sends (send_rip_broadcast cfg mode)"
proof -
  have "sends (\<lambda>s. fold (\<lambda>k t. let nd = net_devices t ! k
        in if mode = 4 \<and> \<not> has (needs_update nd) NEEDS_UPDATE_RIP then t
           else if up nd \<and> (nd_ticks nd < 7 \<or> mode \<noteq> 0 \<or> has (needs_update nd) NEEDS_UPDATE_RIP) then
             (\<lambda>nd s. send_rip_buff None (build_rip_buff cfg MAX_U32
               (init_rip_buff (nd_net nd) (if mode = 2 then 1 else 0) s))) nd (clear_update NEEDS_UPDATE_RIP k t)
           else t) [0..<n] s)" for n
    by (intro sends_fold sends_device sends_rip)
  then show ?thesis by (auto simp: sends_def send_rip_broadcast_def)
qed

lemma sends_rip_for_net: "sends (rip_for_net cfg n)"
proof -
  have "sends (\<lambda>s. fold (\<lambda>k t. let nd = net_devices t ! k
        in if False then t
           else if up nd \<and> (nd_ticks nd < 7 \<or> has (needs_update nd) NEEDS_UPDATE_RIP_NET) then
             (\<lambda>nd s. send_rip_buff None (ins_rip_buff cfg n 0xffff 0xffff (init_rip_buff (nd_net nd) 10 s))) nd
               (clear_update NEEDS_UPDATE_RIP_NET k t)
           else t) [0..<m] s)" for m
    by (intro sends_fold sends_device sends_rip_request)
  then show ?thesis by (auto simp: sends_def rip_for_net_def)
qed

lemma sends_sip_to_net: "sends (send_sip_to_net n mode)"
proof -
  have "sends (\<lambda>t. let nw = nw_servers t ! j
        in if ns_typ nw = 0 \<or> ns_net nw = n \<and> ns_hops nw \<noteq> 0 \<or> mode = 2 \<and> ns_hops nw \<noteq> 0 then t
           else send_sap_to_addr (Some j) (if mode = 2 then 16 else ns_hops nw + 1) 2 (sap_broadcast_addr n) t)" for j
    using sends_sap_to_addr by (auto simp: sends_def Let_def)
  then have "sends (fold (\<lambda>j t. let nw = nw_servers t ! j
        in if ns_typ nw = 0 \<or> ns_net nw = n \<and> ns_hops nw \<noteq> 0 \<or> mode = 2 \<and> ns_hops nw \<noteq> 0 then t
           else send_sap_to_addr (Some j) (if mode = 2 then 16 else ns_hops nw + 1) 2 (sap_broadcast_addr n) t) [0..<m])" for m
    by (rule sends_fold)
  then show ?thesis by (auto simp: sends_def send_sip_to_net_def)
qed

lemma sends_sap_broadcast: "sends (send_sap_broadcast mode)"
proof -
  have "sends (\<lambda>s. fold (\<lambda>k t. let nd = net_devices t ! k
        in if mode = 4 \<and> \<not> has (needs_update nd) NEEDS_UPDATE_SAP then t
           else if up nd \<and> (nd_ticks nd < 7 \<or> has (needs_update nd) NEEDS_UPDATE_SAP \<or> mode \<noteq> 0)
           then (\<lambda>nd. send_sip_to_net (nd_net nd) mode) nd (clear_update NEEDS_UPDATE_SAP k t)
           else t) [0..<n] s)" for n
    by (intro sends_fold sends_device sends_sip_to_net)
  then show ?thesis by (auto simp: sends_def send_sap_broadcast_def)
qed

lemma sends_nearest: "sends (sap_find_nearest_server n)"
  by (simp add: sends_def sap_find_nearest_server_def)

lemma sends_get_servers: "sends (get_servers cfg)"
proof -
  have "sends (\<lambda>s. fold (\<lambda>k t. let nd = net_devices t ! k
                 in if False then t
                    else if up nd \<and> (nd_ticks nd < 7 \<or> has (needs_update nd) NEEDS_UPDATE_SAP_QUERY)
                    then (\<lambda>nd. sap_find_nearest_server (nd_net nd)) nd (clear_update NEEDS_UPDATE_SAP_QUERY k t)
                    else t) [0..<n] s)" for n
    by (intro sends_fold sends_device sends_nearest)
  then show ?thesis by (auto simp: sends_def get_servers_def Let_def sap_find_nearest_server_def intro: same_tables_trans)
qed

lemma sends_server_response: "sends (send_server_response cfg r t a)"
  using sends_sap_to_addr by (auto simp: sends_def send_server_response_def split: prod.splits)

lemmas sends_all = sends_rip_broadcast sends_rip_for_net sends_sap_broadcast sends_get_servers sends_server_response

section \<open>Sound tables\<close>

definition dev_key :: "NW_NET_DEVICE \<Rightarrow> u32 option" where
  "dev_key nd = (if nd_net nd = 0 then None else Some (nd_net nd))"

definition server_key :: "NW_SERVERS \<Rightarrow> (cstring \<times> int) option" where
  "server_key ns = map_option (\<lambda>n. (n, ns_typ ns)) (ns_name ns)"

definition server_ok :: "NW_SERVERS \<Rightarrow> bool" where
  "server_ok ns = (ns_typ ns \<noteq> 0 \<longrightarrow>
     (case ns_name ns of None \<Rightarrow> False | Some n \<Rightarrow> n \<noteq> [] \<and> length n \<le> MAX_SERVER_NAME))"

definition servers_ok :: "NW_SERVERS list \<Rightarrow> bool" where
  "servers_ok ss = (slots_distinct server_key ss \<and> (\<forall>ns \<in> set ss. server_ok ns))"

definition route_inv :: "route_cfg \<Rightarrow> route_state \<Rightarrow> bool" where
  "route_inv cfg s =
     (slots_distinct route_key (nw_routes s) \<and>
      (\<forall>r \<in> set (nw_routes s). nr_net r \<noteq> 0 \<longrightarrow> \<not> own_net cfg (net_devices s) (nr_net r)) \<and>
      slots_distinct dev_key (net_devices s) \<and> servers_ok (nw_servers s) \<and> buff_ok s)"

lemma routes_ok_iff:
  "routes_ok cfg nds rs \<longleftrightarrow>
     slots_distinct route_key rs \<and> (\<forall>r \<in> set rs. nr_net r \<noteq> 0 \<longrightarrow> \<not> own_net cfg nds (nr_net r))"
  by (auto simp: routes_ok_def route_to_None)

lemma route_inv_alt:
  "route_inv cfg s \<longleftrightarrow> routes_ok cfg (net_devices s) (nw_routes s) \<and>
     slots_distinct dev_key (net_devices s) \<and> servers_ok (nw_servers s) \<and> buff_ok s"
  by (auto simp: route_inv_def routes_ok_iff)

lemma own_net_links:
  "own_net cfg nds n \<longleftrightarrow> n = internal_net cfg \<or> (True, n) \<in> set (map link_state nds)"
  by (auto simp: own_net_def link_state_def)

lemma distinct_links:
  assumes "slots_distinct dev_key nds" and m: "map link_state nds' = map link_state nds"
  shows "slots_distinct dev_key nds'"
proof -
  have e: "dev_key = (\<lambda>p. if snd p = 0 then None else Some (snd p)) \<circ> link_state"
    by (auto simp: fun_eq_iff dev_key_def link_state_def)
  have "map dev_key nds' = map dev_key nds" using m by (simp only: e map_map [symmetric])
  then show ?thesis using assms(1) slots_distinct_same_keys by blast
qed

lemma inv_same_tables:
  assumes "route_inv cfg s" and "same_tables s t" and "buff_ok t"
  shows "route_inv cfg t"
proof -
  have l: "map link_state (net_devices t) = map link_state (net_devices s)"
    and r: "nw_routes t = nw_routes s" "nw_servers t = nw_servers s" using assms(2) by (auto simp: same_tables_def)
  have "own_net cfg (net_devices t) n = own_net cfg (net_devices s) n" for n
    by (simp only: own_net_links l)
  then show ?thesis
    using assms(1,3) distinct_links [OF _ l] by (simp add: route_inv_def r)
qed

lemma inv_sends: "sends f \<Longrightarrow> route_inv cfg s \<Longrightarrow> route_inv cfg (f s)"
  using inv_same_tables [of cfg s "f s"] by (auto simp: sends_def route_inv_def)

lemma insert_delete_net_frame [simp]:
  "net_devices (insert_delete_net cfg d rn rnode h t del s) = net_devices s"
  "nw_servers (insert_delete_net cfg d rn rnode h t del s) = nw_servers s"
  "buff_ok (insert_delete_net cfg d rn rnode h t del s) = buff_ok s"
  by (auto simp: insert_delete_net_def update_route_def delete_route_def Let_def emit_def buff_ok_def buff_ready_def
      split: option.splits prod.splits)

lemma inv_insert_delete_net:
  assumes "route_inv cfg s" shows "route_inv cfg (insert_delete_net cfg d rn rnode h t del s)"
proof -
  have ok: "routes_ok cfg (net_devices s) (nw_routes s)" using assms by (simp add: route_inv_alt)
  have "spec_net cfg (net_devices s) d rn rnode h t del m n \<noteq> None \<Longrightarrow>
      m n \<noteq> None \<or> \<not> own_net cfg (net_devices s) n" for m n
    by (auto simp: spec_net_def spec_insert_def spec_delete_def split: if_splits option.splits)
  then show ?thesis
    using net_refines [OF ok, of d rn rnode h t del] assms ok
    by (auto simp: route_inv_alt routes_ok_def)
qed

section \<open>Servers\<close>

lemma update_server_table:
  assumes "k < length (nw_servers s)"
  obtains y where "nw_servers (update_server cfg k addr from_addr hops s) = (nw_servers s)[k := y]"
    and "ns_name y = ns_name (nw_servers s ! k)" and "ns_typ y = ns_typ (nw_servers s ! k)"
proof -
  obtain ns h cs where c: "change_addr cfg addr from_addr hops (nw_servers s ! k) = (ns, h, cs)"
    by (cases "change_addr cfg addr from_addr hops (nw_servers s ! k)") auto
  have "ns_name (change_net m h s ns) = ns_name (nw_servers s ! k) \<and> ns_typ (change_net m h s ns) = ns_typ (nw_servers s ! k)" for m
    using c by (auto simp: change_addr_def change_net_def split: if_splits)
  then show ?thesis
    using that [of "change_net (get_be32 (ia_net from_addr)) h s ns"] c by (simp add: update_server_def)
qed

lemma update_server_ok:
  assumes "servers_ok (nw_servers s)" and "k < length (nw_servers s)"
  shows "servers_ok (nw_servers (update_server cfg k addr from_addr hops s))"
proof -
  obtain y where y: "nw_servers (update_server cfg k addr from_addr hops s) = (nw_servers s)[k := y]"
    "ns_name y = ns_name (nw_servers s ! k)" "ns_typ y = ns_typ (nw_servers s ! k)"
    using update_server_table [OF assms(2)] .
  then have "server_key y = server_key (nw_servers s ! k)" "server_ok y = server_ok (nw_servers s ! k)"
    by (simp_all add: server_key_def server_ok_def)
  moreover have "map server_key ((nw_servers s)[k := y]) = map server_key (nw_servers s)"
    using calculation by (metis list_update_id map_update)
  ultimately show ?thesis
    using assms slots_distinct_same_keys set_update_subset_insert [of "nw_servers s" k y]
    by (auto simp: servers_ok_def y)
qed

lemma new_server_ok:
  assumes ok: "servers_ok ss" and miss: "\<And>x. x \<in> set ss \<Longrightarrow> \<not> is_server n t x"
    and n: "n \<noteq> []" "length n \<le> MAX_SERVER_NAME"
    and fs: "\<And>f. fs = Some f \<Longrightarrow> f < length ss" and new: "new_server n t fs ss = (k, ss')"
  shows "servers_ok ss' \<and> k < length ss'"
proof -
  have *: "server_ok y \<and> server_key y = Some (n, t)" if "ns_name y = Some n" "ns_typ y = t" for y
    using that n by (simp add: server_ok_def server_key_def)
  have diff: "server_key x \<noteq> Some (n, t)" if "x \<in> set ss" for x
    using miss [OF that] by (auto simp: is_server_def server_key_def)
  show ?thesis
  proof (cases fs)
    case None
    let ?y = "empty_server\<lparr>ns_name := Some n, ns_typ := t, ns_hops := 0xffff\<rparr>"
    have "slots_distinct server_key (ss @ [?y])"
      using ok diff * [of ?y] by (intro slots_distinct_append) (auto simp: servers_ok_def)
    then show ?thesis using new ok None * [of ?y] by (auto simp: new_server_def servers_ok_def)
  next
    case (Some f)
    let ?y = "(ss ! f)\<lparr>ns_name := Some n, ns_typ := t, ns_hops := 0xffff\<rparr>"
    have "slots_distinct server_key (ss[f := ?y])"
      using ok diff * [of ?y] by (intro slots_distinct_update) (auto simp: servers_ok_def)
    then show ?thesis
      using new ok Some fs * [of ?y] set_update_subset_insert [of ss f ?y] by (auto simp: new_server_def servers_ok_def)
  qed
qed

lemma delete_server_ok:
  assumes "servers_ok (nw_servers s)" shows "servers_ok (nw_servers (delete_server cfg k s))"
proof -
  have e: "server_key empty_server = None" "server_ok empty_server"
    by (simp_all add: server_key_def server_ok_def empty_server_def)
  have "servers_ok ((nw_servers s)[k := empty_server])"
    using assms e set_update_subset_insert [of "nw_servers s" k empty_server]
    by (auto simp: servers_ok_def intro!: slots_distinct_update)
  then show ?thesis using assms by (simp add: delete_server_def Let_def)
qed

lemma insert_delete_server_frame [simp]:
  "net_devices (insert_delete_server cfg n t a f h del s) = net_devices s"
  "nw_routes (insert_delete_server cfg n t a f h del s) = nw_routes s"
  "buff_ok (insert_delete_server cfg n t a f h del s) = buff_ok s"
  by (auto simp: insert_delete_server_def update_server_def delete_server_def Let_def emit_def buff_ok_def buff_ready_def
      split: option.splits prod.splits)

lemma insert_delete_server_ok:
  assumes ok: "servers_ok (nw_servers s)"
  shows "servers_ok (nw_servers (insert_delete_server cfg name t a f h del s))"
proof -
  let ?n = "upstr (strmaxcpy name MAX_SERVER_NAME)"
  obtain k fs where s: "find_server ?n t 0 None (nw_servers s) = (k, fs)" by fastforce
  obtain k' ss where new: "new_server ?n t fs (nw_servers s) = (k', ss)" by fastforce
  have len: "length ?n \<le> MAX_SERVER_NAME" by (simp add: upstr_def strmaxcpy_def)
  show ?thesis
  proof (cases "?n = []")
    case False
    show ?thesis
    proof (cases "k = length (nw_servers s)")
      case True
      have "servers_ok ss \<and> k' < length ss"
        using new_server_ok [OF ok _ False len _ new] servers.search_missing servers.search_free s True by blast
      then show ?thesis
        using update_server_ok [of "s\<lparr>nw_servers := ss\<rparr>" k' cfg a f h] False True s new ok
        by (simp add: insert_delete_server_def Let_def)
    next
      case k: False
      then have "k < length (nw_servers s)" using servers.search_found s by blast
      then show ?thesis
        using update_server_ok [OF ok] delete_server_ok [OF ok] k False s
        by (simp add: insert_delete_server_def Let_def)
    qed
  qed (use ok in \<open>simp add: insert_delete_server_def\<close>)
qed

lemma inv_insert_delete_server:
  "route_inv cfg s \<Longrightarrow> route_inv cfg (insert_delete_server cfg n t a f h del s)"
  by (simp add: route_inv_def insert_delete_server_ok)

section \<open>Devices that come and go\<close>

lemma scan_free_spec:
  "scan_free rn k0 ff0 nds = Some ff \<Longrightarrow>
     (\<exists>j < length nds. ff = Some (k0 + j) \<and> \<not> up (nds ! j) \<and> nd_net (nds ! j) = rn) \<or>
     rn \<notin> nd_net ` set nds \<and>
     (ff = ff0 \<or> (\<exists>j < length nds. ff = Some (k0 + j) \<and> \<not> up (nds ! j) \<and> nd_net (nds ! j) = 0))"
proof (induction nds arbitrary: k0 ff0)
  case (Cons nd nds)
  show ?case
  proof (cases "nd_net nd = rn")
    case True
    then show ?thesis using Cons.prems by (force split: if_splits)
  next
    case False
    define ff1 where "ff1 = (if \<not> up nd \<and> ff0 = None \<and> nd_net nd = 0 then Some k0 else ff0)"
    have "scan_free rn (Suc k0) ff1 nds = Some ff"
      using Cons.prems False by (cases "up nd") (simp_all add: ff1_def)
    from Cons.IH [OF this] show ?thesis
    proof (elim disjE conjE exE)
      fix j assume "j < length nds" "ff = Some (Suc k0 + j)" "\<not> up (nds ! j)" "nd_net (nds ! j) = rn"
      then show ?thesis by (intro disjI1 exI [of _ "Suc j"]) simp
    next
      fix j assume "rn \<notin> nd_net ` set nds" "j < length nds" "ff = Some (Suc k0 + j)" "\<not> up (nds ! j)" "nd_net (nds ! j) = 0"
      then show ?thesis using False by (intro disjI2 conjI disjI2 exI [of _ "Suc j"]) auto
    next
      assume "rn \<notin> nd_net ` set nds" "ff = ff1"
      then show ?thesis using False by (auto simp: ff1_def)
    qed
  qed
qed simp

lemma best_slot_induct:
  assumes "\<And>i. i < length nds \<Longrightarrow> \<not> up (nds ! i) \<Longrightarrow> nd_net (nds ! i) = 0 \<Longrightarrow> Q (Some (k + i))"
    and "Q devf" and "Q framef" and "Q ff"
  shows "Q (best_slot dn fr k devf framef ff nds)"
  using assms
proof (induction nds arbitrary: k devf framef ff)
  case (Cons nd nds)
  have IH: "Q (best_slot dn fr (Suc k) d f g nds)" if "Q d" "Q f" "Q g" for d f g
    using Cons.IH [of "Suc k" d f g] Cons.prems(1) [of "Suc _"] that by simp
  show ?case
  proof (cases "\<not> up nd \<and> nd_net nd = 0")
    case True
    then have k: "Q (Some k)" using Cons.prems(1) [of 0] by simp
    then have c: "Q (if c then Some k else d)" if "Q d" for c d using that by simp
    show ?thesis using True k Cons.prems(2-4) by (simp add: IH c)
  qed (use Cons.prems(2-4) in \<open>auto simp: IH\<close>)
qed simp

lemma free_slot_spec:
  assumes sd: "slots_distinct dev_key nds" and rn: "rn \<noteq> 0"
    and sf: "scan_free rn 0 None nds = Some ff" and fr: "free_slot rn dn f ff nds = r"
  shows "case r of Some k \<Rightarrow> k < length nds \<and> (\<forall>j < length nds. j \<noteq> k \<longrightarrow> nd_net (nds ! j) \<noteq> rn)
         | None \<Rightarrow> rn \<notin> nd_net ` set nds"
proof (cases "\<exists>j < length nds. ff = Some j \<and> nd_net (nds ! j) = rn")
  case True
  then obtain j where j: "j < length nds" "ff = Some j" "nd_net (nds ! j) = rn" by auto
  then have "i = j" if "i < length nds" "nd_net (nds ! i) = rn" for i
    using slots_distinctD [OF sd, of i j rn] that rn by (simp add: dev_key_def)
  then have "\<forall>i < length nds. i \<noteq> j \<longrightarrow> nd_net (nds ! i) \<noteq> rn" by metis
  then show ?thesis unfolding fr [symmetric] using j by (simp add: free_slot_def)
next
  case False
  then have miss: "rn \<notin> nd_net ` set nds" and ff: "\<And>j. ff = Some j \<Longrightarrow> j < length nds \<and> nd_net (nds ! j) = 0"
    using scan_free_spec [OF sf] by auto
  show ?thesis
  proof (cases ff)
    case None
    then show ?thesis using fr miss by (auto simp: free_slot_def)
  next
    case (Some j)
    let ?Q = "\<lambda>r. case r of None \<Rightarrow> True | Some k \<Rightarrow> k < length nds"
    have "?Q (best_slot dn f j None None None (drop j nds))"
      by (rule best_slot_induct) (use ff [OF Some] in auto)
    then have "?Q r" using fr Some ff [OF Some] rn by (simp add: free_slot_def)
    then show ?thesis using miss by (auto split: option.splits)
  qed
qed

lemma bring_up_frame [simp]:
  "nw_servers (bring_up k rn dn fr s) = nw_servers s" "buff_ok (bring_up k rn dn fr s) = buff_ok s"
  by (auto simp: bring_up_def Let_def emit_def buff_ok_def buff_ready_def)

lemma bring_up_devices:
  "net_devices (bring_up k rn dn fr s) = (net_devices s)[k := (net_devices s ! k)
     \<lparr>nd_net := rn, frame := fr, devname := dn, is_up := 2, needs_update := NEEDS_UPDATE_ALL\<rparr>]"
  by (auto simp: bring_up_def Let_def emit_def)

lemma map_first_clears:
  "slots_distinct route_key rs \<Longrightarrow> rn \<noteq> 0 \<Longrightarrow>
     slots_distinct route_key (map_first (\<lambda>r. nr_net r = rn) (\<lambda>r. r\<lparr>nr_net := 0\<rparr>) rs) \<and>
     route_to (map_first (\<lambda>r. nr_net r = rn) (\<lambda>r. r\<lparr>nr_net := 0\<rparr>) rs) = (route_to rs)(rn := None)"
proof (cases "find (\<lambda>r. nr_net r = rn) rs")
  case None
  then show "slots_distinct route_key rs \<Longrightarrow> rn \<noteq> 0 \<Longrightarrow> ?thesis"
    by (auto simp: map_first_conv fun_eq_iff route_to_def)
next
  case (Some r)
  let ?k = "length (takeWhile (\<lambda>x. nr_net x \<noteq> rn) rs)"
  have "takeWhile (\<lambda>x. nr_net x \<noteq> rn) rs \<noteq> rs"
    using Some by (auto simp: find_Some_iff takeWhile_eq_all_conv)
  then have k: "?k < length rs"
    using length_takeWhile_le [of "\<lambda>x. nr_net x \<noteq> rn" rs] takeWhile_eq_take [of "\<lambda>x. nr_net x \<noteq> rn" rs]
    by (metis le_neq_implies_less take_all_iff order_refl)
  then have k': "nr_net (rs ! ?k) = rn" using nth_length_takeWhile by blast
  assume "slots_distinct route_key rs" "rn \<noteq> 0"
  then show ?thesis
    using route_to_clear [OF _ k k', of "(rs ! ?k)\<lparr>nr_net := 0\<rparr>"] Some by (simp add: map_first_conv Let_def)
qed

lemma bring_up_routes:
  assumes "slots_distinct route_key (nw_routes s)" and "rn \<noteq> 0"
  shows "slots_distinct route_key (nw_routes (bring_up k rn dn fr s)) \<and>
     route_to (nw_routes (bring_up k rn dn fr s)) = (route_to (nw_routes s))(rn := None)"
  using map_first_clears [OF assms] assms
  by (auto simp: bring_up_def Let_def fun_eq_iff route_to_None rev_image_eqI)

lemma inv_bring_up:
  assumes inv: "route_inv cfg s" and rn: "rn \<noteq> 0" and k: "k < length (net_devices s)"
    and other: "\<forall>j < length (net_devices s). j \<noteq> k \<longrightarrow> nd_net (net_devices s ! j) \<noteq> rn"
  shows "route_inv cfg (bring_up k rn dn fr s)"
proof -
  have ok: "routes_ok cfg (net_devices s) (nw_routes s)" "slots_distinct dev_key (net_devices s)"
    using inv by (auto simp: route_inv_alt)
  have "slots_distinct dev_key (net_devices (bring_up k rn dn fr s))"
    unfolding bring_up_devices using ok(2) other
    by (intro slots_distinct_update) (auto simp: dev_key_def split: if_splits)
  moreover have "own_net cfg (net_devices (bring_up k rn dn fr s)) n \<Longrightarrow> own_net cfg (net_devices s) n \<or> n = rn" for n
    unfolding bring_up_devices own_net_def
    using set_update_subset_insert [of "net_devices s" k] by fastforce
  then have "routes_ok cfg (net_devices (bring_up k rn dn fr s)) (nw_routes (bring_up k rn dn fr s))"
    using ok(1) bring_up_routes [of s rn k dn fr] rn by (auto simp: routes_ok_def)
  ultimately show ?thesis using inv by (simp add: route_inv_alt)
qed

lemma inv_new_device:
  assumes "route_inv cfg s" and "new_device dn fr (net_devices s) = Some nds"
  shows "route_inv cfg (s\<lparr>net_devices := nds\<rparr>)"
proof -
  obtain nd where n: "nds = net_devices s @ [nd]" "\<not> up nd" "nd_net nd = 0"
    using assms(2) by (auto simp: new_device_def up_def)
  have "own_net cfg nds m = own_net cfg (net_devices s) m" for m
    using n by (auto simp: own_net_def)
  moreover have "slots_distinct dev_key nds"
    unfolding n using assms(1) n by (intro slots_distinct_append) (auto simp: route_inv_def dev_key_def)
  ultimately show ?thesis using assms(1) by (simp add: route_inv_def buff_ok_def buff_ready_def)
qed

lemma inv_test_ins:
  assumes inv: "route_inv cfg s" shows "route_inv cfg (snd (test_ins_device_net cfg lines rn s))"
proof -
  have sd: "slots_distinct dev_key (net_devices s)" using inv by (simp add: route_inv_def)
  show ?thesis
  proof (cases "rn = 0 \<or> rn = internal_net cfg \<or> scan_free rn 0 None (net_devices s) = None \<or>
      get_interface_frame_name lines rn = None")
    case True
    then show ?thesis using inv by (auto simp: test_ins_device_net_def split: option.splits)
  next
    case False
    then obtain ff fr dn where f: "rn \<noteq> 0" "rn \<noteq> internal_net cfg" "scan_free rn 0 None (net_devices s) = Some ff"
      "get_interface_frame_name lines rn = Some (fr, dn)" by auto
    note slot = free_slot_spec [OF sd f(1,3) refl, of dn fr]
    show ?thesis
    proof (cases "free_slot rn dn fr ff (net_devices s)")
      case (Some k)
      then show ?thesis using slot f inv_bring_up [OF inv f(1)] by (simp add: test_ins_device_net_def)
    next
      case None
      show ?thesis
      proof (cases "new_device dn fr (net_devices s)")
        case new: (Some nds)
        then have "length nds = Suc (length (net_devices s))"
            "\<forall>j < length nds. j \<noteq> length (net_devices s) \<longrightarrow> nd_net (nds ! j) \<noteq> rn"
          using slot None by (auto simp: new_device_def nth_append less_Suc_eq)
        then show ?thesis
          using inv_bring_up [OF inv_new_device [OF inv new] f(1), of "length (net_devices s)"] f None new
          by (simp add: test_ins_device_net_def)
      qed (use f None inv in \<open>simp add: test_ins_device_net_def\<close>)
    qed
  qed
qed

lemma inv_links:
  "route_inv cfg s \<Longrightarrow> map link_state nds = map link_state (net_devices s) \<Longrightarrow> route_inv cfg (s\<lparr>net_devices := nds\<rparr>)"
  by (rule inv_same_tables [of cfg s]) (auto simp: same_tables_def route_inv_def buff_ok_def buff_ready_def)

lemma mark_added_links: "map link_state (map mark_added nds) = map link_state nds"
  by (auto simp: link_state_def mark_added_def up_def)

lemma inv_look_line:
  assumes "route_inv cfg s" shows "route_inv cfg (snd (look_line cfg lines line (d, s)))"
proof -
  obtain fr rn flags dn where r: "read_interface_data line = (fr, rn, flags, dn)"
    by (cases "read_interface_data line") auto
  have reset: "map link_state (map_first (\<lambda>nd. nd_net nd = rn) (\<lambda>nd. nd\<lparr>is_up := 2\<rparr>) nds) = map link_state nds"
    if "find (\<lambda>nd. nd_net nd = rn) nds = Some nd" "up nd" for nds nd
    using that by (induction nds) (auto simp: link_state_def up_def split: if_splits)
  show ?thesis
    using assms inv_test_ins [OF assms, of lines rn] inv_links [OF assms reset]
    by (auto simp: r Let_def split: option.splits prod.splits)
qed

lemma inv_look_lines:
  "route_inv cfg (snd ds) \<Longrightarrow> route_inv cfg (snd (fold (look_line cfg lines) ls ds))"
proof (induction ls arbitrary: ds)
  case (Cons l ls)
  then show ?case using inv_look_line [of cfg "snd ds" lines l "fst ds"] by simp
qed simp

lemma take_down_devices:
  "take_down nds rs = (d, nds', rs') \<Longrightarrow> nds' = map (\<lambda>nd. if is_up nd < 0 then reset_wild nd else nd) nds"
proof (induction nds arbitrary: rs d nds' rs')
  case (Cons nd nds)
  then show ?case by (auto simp: Let_def split: if_splits prod.splits)
qed simp

lemma take_down_spec:
  "take_down nds rs = (d, nds', rs') \<Longrightarrow>
     (slots_distinct dev_key nds \<longrightarrow> slots_distinct dev_key nds') \<and>
     (slots_distinct route_key rs \<longrightarrow> slots_distinct route_key rs') \<and>
     (\<forall>r' \<in> set rs'. nr_net r' \<noteq> 0 \<longrightarrow> (\<exists>r \<in> set rs. nr_net r = nr_net r')) \<and>
     (\<forall>nd' \<in> set nds'. up nd' \<longrightarrow> nd' \<in> set nds)"
proof (induction nds arbitrary: rs d nds' rs')
  case (Cons nd nds)
  let ?f = "\<lambda>nr. if nr_rnet nr = nd_net nd then nr\<lparr>nr_net := 0\<rparr> else nr"
  define rs1 where "rs1 = (if is_up nd < 0 then map ?f rs else rs)"
  obtain d1 nds1 rs2 where t: "take_down nds rs1 = (d1, nds1, rs2)" by (metis prod_cases3)
  have r: "rs' = rs2" "nds' = (if is_up nd < 0 then reset_wild nd else nd) # nds1"
    using Cons.prems t by (auto simp: rs1_def split: if_splits)
  note IH = Cons.IH [OF t]
  have keys: "dev_key (if is_up x < 0 then reset_wild x else x) = None \<or>
      dev_key (if is_up x < 0 then reset_wild x else x) = dev_key x" for x
    by (auto simp: dev_key_def reset_wild_def)
  have rs1: "slots_distinct route_key rs \<longrightarrow> slots_distinct route_key rs1"
    using slots_distinct_map [of route_key rs ?f] by (auto simp: rs1_def route_key_def)
  have sub: "\<forall>x \<in> set rs1. nr_net x \<noteq> 0 \<longrightarrow> (\<exists>r \<in> set rs. nr_net r = nr_net x)"
    by (auto simp: rs1_def)
  have eq: "nds' = map (\<lambda>nd. if is_up nd < 0 then reset_wild nd else nd) (nd # nds)"
    using take_down_devices [OF Cons.prems] .
  have down: "\<not> up (reset_wild x)" for x by (simp add: up_def reset_wild_def)
  show ?case
  proof (intro conjI impI ballI)
    assume "slots_distinct dev_key (nd # nds)"
    then show "slots_distinct dev_key nds'" unfolding eq by (rule slots_distinct_map) (rule keys)
  next
    assume "slots_distinct route_key rs"
    then show "slots_distinct route_key rs'" using rs1 IH r(1) by simp
  next
    fix r' assume "r' \<in> set rs'" "nr_net r' \<noteq> 0"
    then obtain x where "x \<in> set rs1" "nr_net x = nr_net r'" using IH r(1) by metis
    then show "\<exists>r \<in> set rs. nr_net r = nr_net r'" using sub \<open>nr_net r' \<noteq> 0\<close> by metis
  next
    fix nd' assume "nd' \<in> set nds'" "up nd'"
    then show "nd' \<in> set (nd # nds)" using down unfolding eq by (auto split: if_splits)
  qed
qed auto

lemma inv_look_for_interfaces:
  assumes inv: "route_inv cfg s" shows "route_inv cfg (snd (look_for_interfaces cfg lines s))"
proof (cases lines)
  case (Some ls)
  obtain diffs s1 where f: "fold (look_line cfg lines) ls (0, s\<lparr>net_devices := map mark_added (net_devices s)\<rparr>) = (diffs, s1)"
    by fastforce
  have inv1: "route_inv cfg s1"
    using inv_look_lines [of cfg "(0, s\<lparr>net_devices := map mark_added (net_devices s)\<rparr>)" lines ls]
      inv_links [OF inv mark_added_links] f by simp
  obtain d nds rs where t: "take_down (net_devices s1) (nw_routes s1) = (d, nds, rs)" by (metis prod_cases3)
  have own: "own_net cfg nds n \<Longrightarrow> own_net cfg (net_devices s1) n" for n
    using take_down_spec [OF t] unfolding own_net_def by blast
  have "route_inv cfg (s1\<lparr>net_devices := nds, nw_routes := rs\<rparr>)"
    unfolding route_inv_def
  proof (intro conjI ballI impI)
    note i = inv1 [unfolded route_inv_def] and t = take_down_spec [OF t]
    show "slots_distinct route_key (nw_routes (s1\<lparr>net_devices := nds, nw_routes := rs\<rparr>))"
      and "slots_distinct dev_key (net_devices (s1\<lparr>net_devices := nds, nw_routes := rs\<rparr>))"
      and "servers_ok (nw_servers (s1\<lparr>net_devices := nds, nw_routes := rs\<rparr>))"
      using i t by simp_all
    show "buff_ok (s1\<lparr>net_devices := nds, nw_routes := rs\<rparr>)"
      using i by (simp add: buff_ok_def buff_ready_def)
    fix r assume r: "r \<in> set (nw_routes (s1\<lparr>net_devices := nds, nw_routes := rs\<rparr>))" "nr_net r \<noteq> 0"
    then obtain q where "q \<in> set (nw_routes s1)" "nr_net q = nr_net r" using t by auto
    then have "\<not> own_net cfg (net_devices s1) (nr_net r)" using i r(2) by metis
    then show "\<not> own_net cfg (net_devices (s1\<lparr>net_devices := nds, nw_routes := rs\<rparr>)) (nr_net r)"
      using own by auto
  qed
  then show ?thesis using Some f t by (simp add: look_for_interfaces_def)
qed (use inv in \<open>simp add: look_for_interfaces_def\<close>)

lemma inv_flipflop [simp]: "route_inv cfg (s\<lparr>flipflop := b\<rparr>) = route_inv cfg s"
  by (simp add: route_inv_def buff_ok_def buff_ready_def)

lemma inv_send_sap_rip:
  assumes "route_inv cfg s" shows "route_inv cfg (send_sap_rip_broadcast cfg lines mode s)"
proof -
  obtain d s1 where l: "(if auto_detect_interfaces cfg then look_for_interfaces cfg lines s else (0, s)) = (d, s1)"
    by fastforce
  have "route_inv cfg s1" using assms inv_look_for_interfaces [OF assms, of lines] l by (auto split: if_splits)
  note i = inv_sends [OF sends_rip_broadcast] inv_sends [OF sends_sap_broadcast]
  show ?thesis unfolding send_sap_rip_broadcast_def l using \<open>route_inv cfg s1\<close>
    by (auto simp: Let_def intro!: i)
qed

section \<open>Received packets\<close>

lemma inv_rip_response:
  "route_inv cfg s \<Longrightarrow> route_inv cfg (handle_rip_entries cfg True a data p n s)"
  by (induction n arbitrary: p s) (simp_all add: Let_def inv_insert_delete_net)

lemma rip_request_frame:
  "buff_ready s \<Longrightarrow> buff_ready (handle_rip_entries cfg False a data p n s) \<and>
     net_devices (handle_rip_entries cfg False a data p n s) = net_devices s \<and>
     nw_routes (handle_rip_entries cfg False a data p n s) = nw_routes s \<and>
     nw_servers (handle_rip_entries cfg False a data p n s) = nw_servers s"
  by (induction n arbitrary: p s) (simp_all add: Let_def build_ready)

lemma inv_handle_rip:
  assumes inv: "route_inv cfg s" shows "route_inv cfg (handle_rip cfg len data a s)"
proof -
  have "buff_ok s" using inv by (simp add: route_inv_def)
  then have r: "buff_ready (init_rip_buff n 0 s)" for n by (simp add: init_rip_buff_spec)
  have "route_inv cfg (send_rip_buff (Some a) (handle_rip_entries cfg False a data 2 n (init_rip_buff m 0 s)))" for m n
    using rip_request_frame [OF r] send_rip_buff_ok
    by (intro inv_same_tables [OF inv]) (auto simp: same_tables_def intro!: buff_ok_ready)
  then show ?thesis using inv by (simp add: handle_rip_def Let_def inv_rip_response)
qed

lemma inv_sap_entries:
  "route_inv cfg (snd fs) \<Longrightarrow> route_inv cfg (snd (handle_sap_entries cfg a data p n fs))"
proof (induction n arbitrary: p fs)
  case (Suc n)
  obtain f s where fs: "fs = (f, s)" by fastforce
  show ?case using Suc unfolding fs by (auto simp: Let_def intro!: Suc.IH inv_insert_delete_server)
qed simp

lemma inv_activate:
  "route_inv cfg s \<Longrightarrow> route_inv cfg (snd (activate_slow_net t n s))"
  by (auto simp: activate_slow_net_def link_state_def up_def intro!: inv_links map_map_first split: option.splits)

lemma inv_handle_sap:
  assumes "route_inv cfg s" shows "route_inv cfg (handle_sap cfg fsm t lines len data a s)"
proof -
  obtain flag s1 where e: "handle_sap_entries cfg a data 2 ((len - 2) div 64) (False, s) = (flag, s1)" by fastforce
  then have i1: "route_inv cfg s1" using inv_sap_entries [of cfg "(False, s)" a data 2 "(len - 2) div 64"] assms by simp
  obtain slow s2 where a: "activate_slow_net t (get_be32 (ia_net a)) s1 = (slow, s2)" by fastforce
  then have "route_inv cfg s2" using inv_activate [OF i1, of t "get_be32 (ia_net a)"] by simp
  then show ?thesis
    using assms i1 e a by (auto simp: handle_sap_def Let_def intro!: inv_sends [OF sends_server_response] inv_send_sap_rip)
qed

section \<open>Runs of the router\<close>

inductive route_step :: "route_cfg \<Rightarrow> route_state \<Rightarrow> route_state \<Rightarrow> bool" for cfg where
  rip: "route_step cfg s (handle_rip cfg len data a s)"
| sap: "route_step cfg s (handle_sap cfg fsm t lines len data a s)"
| own: "route_step cfg s (insert_delete_server cfg name 4 a a' 0 False s)"
| dev: "route_step cfg s (snd (test_ins_device_net cfg lines n s))"
| bcast: "route_step cfg s (send_sap_rip_broadcast cfg lines mode s)"
| ask: "route_step cfg s (rip_for_net cfg n s)"
| query: "route_step cfg s (get_servers cfg s)"

definition route_start :: "NW_NET_DEVICE list \<Rightarrow> route_state" where
  "route_start nds = \<lparr>net_devices = nds, nw_routes = [], nw_servers = [], rnet = 0, rmode = 0, rentries = 0,
     max_rip_entries = 0, rip_buff = [], flipflop = True, calls = []\<rparr>"

lemma inv_step: "route_step cfg s t \<Longrightarrow> route_inv cfg s \<Longrightarrow> route_inv cfg t"
  by (induction rule: route_step.induct)
    (simp_all add: inv_handle_rip inv_handle_sap inv_insert_delete_server inv_test_ins inv_send_sap_rip
      inv_sends [OF sends_rip_for_net] inv_sends [OF sends_get_servers])

lemma inv_run: "(route_step cfg)\<^sup>*\<^sup>* s t \<Longrightarrow> route_inv cfg s \<Longrightarrow> route_inv cfg t"
  by (induction rule: rtranclp_induct) (auto intro: inv_step)

lemma inv_start: "slots_distinct dev_key nds \<Longrightarrow> route_inv cfg (route_start nds)"
  by (simp add: route_inv_def route_start_def servers_ok_def buff_ok_def) (simp add: slots_distinct_def)

section \<open>RIP packets on the wire\<close>

lemma take_slots:
  "length buf = 2 + 8 * m \<Longrightarrow> k \<le> m \<Longrightarrow> take (k * 8 + 2) buf = take 2 buf @ concat (map (slot8 buf) [0..<k])"
proof (induction k)
  case (Suc k)
  have "take (Suc k * 8 + 2) buf = take (k * 8 + 2 + 8) buf" by (simp add: algebra_simps)
  also have "\<dots> = take (k * 8 + 2) buf @ slot8 buf k" by (simp only: take_add slot8_def) (simp add: algebra_simps)
  finally show ?case using Suc by simp
qed (simp add: numeral_2_eq_2)

lemma rip_packets_0 [simp]: "rip_packets 0 buf = []"
  by (simp add: rip_packets.simps)

text \<open>After a packet the entries from the fifty-first on are moved to the front, but only fifty of them;
  the slots behind them keep what they had.\<close>

lemma slot8_moved:
  assumes "2 + 50 * 8 + 8 * k \<le> length buf" and "k \<le> 50"
  shows "slot8 (write_at 2 (take (k * 8) (drop (2 + 50 * 8) buf)) buf) i =
     (if i < k then slot8 buf (50 + i) else slot8 buf i)"
proof (cases "i < k")
  case True
  have l: "length (take (k * 8) (drop 402 buf)) = k * 8" using assms by simp
  have "drop (2 + 8 * i) (write_at 2 (take (k * 8) (drop 402 buf)) buf) =
      drop (8 * i) (take (k * 8) (drop 402 buf)) @ drop (2 + k * 8) buf"
    using assms True l by (simp add: write_at_def)
  then show ?thesis using True l by (simp add: slot8_def drop_take take_drop [symmetric] algebra_simps)
next
  case False
  then show ?thesis using assms by (simp add: slot8_def write_at_def)
qed

lemma take2_moved: "2 \<le> length buf \<Longrightarrow> take 2 (write_at 2 bs buf) = take 2 buf"
  by (simp add: take2_write)

function fifties :: "'a list \<Rightarrow> 'a list list" where
  "fifties es = (if es = [] then [] else take 50 es # fifties (drop 50 es))"
  by pat_completeness auto
termination
  by (relation "measure length") auto

declare fifties.simps [simp del]

lemma concat_fifties [simp]: "concat (fifties es) = es"
  by (induction es rule: fifties.induct) (simp add: fifties.simps)

lemma rip_packets_up_to_100:
  assumes len: "length buf = 2 + 8 * m" and n: "n \<le> m" "n \<le> 100"
  shows "rip_packets n buf = map (\<lambda>es. take 2 buf @ concat es) (fifties (map (slot8 buf) [0..<n]))"
proof (cases "n \<le> 50")
  case True
  then show ?thesis
    using take_slots [OF len n(1)]
    by (auto simp: rip_packets.simps [of n] fifties.simps [of "map _ _"] fifties.simps [of "[]"] min_def)
next
  case False
  define buf' where "buf' = write_at 2 (take (min 50 (n - 50) * 8) (drop (2 + 50 * 8) buf)) buf"
  have k: "n - 50 \<le> 50" "min 50 (n - 50) = n - 50" "0 < n - 50" using False n by auto
  have buf': "slot8 buf' i = slot8 buf (50 + i)" if "i < n - 50" for i
    using that slot8_moved [of "n - 50" buf i] len n k by (simp add: buf'_def)
  have len': "length buf' = 2 + 8 * m" using len n False by (simp add: buf'_def)
  have op: "take 2 buf' = take 2 buf" using len by (simp add: buf'_def take2_moved)
  have "drop 50 (map (slot8 buf) [0..<n]) = map (slot8 buf') [0..<n - 50]"
    using buf' False by (intro nth_equalityI) (auto simp: add.commute)
  moreover have "take 50 (map (slot8 buf) [0..<n]) = map (slot8 buf) [0..<50]"
    using False by (simp add: take_map)
  moreover have "rip_packets n buf = take (50 * 8 + 2) buf # rip_packets (n - 50) buf'"
    using False k by (simp add: rip_packets.simps [of n] buf'_def min_def Let_def)
  moreover have "rip_packets (n - 50) buf' = [take 2 buf @ concat (map (slot8 buf') [0..<n - 50])]"
    using take_slots [OF len', of "n - 50"] n k op by (simp add: rip_packets.simps [of "n - 50"] min_def Let_def)
  moreover have "take (50 * 8 + 2) buf = take 2 buf @ concat (map (slot8 buf) [0..<50])"
    by (rule take_slots [OF len]) (use n False in simp)
  ultimately show ?thesis
    using False k
    by (simp add: fifties.simps [of "map (slot8 buf) [0..<n]"] fifties.simps [of "map (slot8 buf') _"] fifties.simps [of "[]"])
qed

lemma rip_packets_first_100:
  "length buf = 2 + 8 * m \<Longrightarrow> n \<le> m \<Longrightarrow> (\<And>i. i < n \<Longrightarrow> i < 100 \<Longrightarrow> slot8 buf i \<in> S) \<Longrightarrow>
     p \<in> set (rip_packets n buf) \<Longrightarrow> \<exists>es. p = take 2 buf @ concat es \<and> set es \<subseteq> S"
proof (induction n buf rule: rip_packets.induct)
  case (1 n buf)
  define buf' where "buf' = (if 0 < n - min n 50
     then write_at 2 (take (min 50 (n - min n 50) * 8) (drop (2 + 50 * 8) buf)) buf else buf)"
  have "n \<noteq> 0" using "1.prems"(4) by (rule contrapos_pn) simp
  then have p: "p = take (min n 50 * 8 + 2) buf \<or> p \<in> set (rip_packets (n - min n 50) buf')"
    using "1.prems"(4) by (simp add: rip_packets.simps [of n] buf'_def Let_def)
  have first: "take (min n 50 * 8 + 2) buf = take 2 buf @ concat (map (slot8 buf) [0..<min n 50])"
    using "1.prems"(1,2) by (intro take_slots) auto
  have len': "length buf' = 2 + 8 * m" "take 2 buf' = take 2 buf" "n - min n 50 \<le> m"
    using "1.prems"(1,2) by (auto simp: buf'_def take2_moved)
  have S: "slot8 buf' i \<in> S" if i: "i < n - min n 50" "i < 100" for i
  proof -
    have "slot8 buf' i = (if i < min 50 (n - 50) then slot8 buf (50 + i) else slot8 buf i)"
      using slot8_moved [of "min 50 (n - 50)" buf i] "1.prems"(1,2) i by (auto simp: buf'_def)
    then show ?thesis using "1.prems"(3) [of "50 + i"] "1.prems"(3) [of i] i by (auto split: if_splits)
  qed
  show ?case
  proof (cases "p = take (min n 50 * 8 + 2) buf")
    case True
    then show ?thesis using first "1.prems"(3) by (intro exI [of _ "map (slot8 buf) [0..<min n 50]"]) auto
  next
    case False
    then have "p \<in> set (rip_packets (n - min n 50) buf')" using p by simp
    then show ?thesis
      using "1.IH" [OF \<open>n \<noteq> 0\<close> refl refl] len' S unfolding buf'_def [symmetric] by simp
  qed
qed

section \<open>Packets at the receiver\<close>

definition learn :: "route_cfg \<Rightarrow> ipxAddr_t \<Rightarrow> u32 \<times> u16 \<times> u16 \<Rightarrow> route_state \<Rightarrow> route_state" where
  "learn cfg a e =
     insert_delete_net cfg (fst e) (get_be32 (ia_net a)) (ia_node a) (fst (snd e)) (snd (snd e)) (15 < fst (snd e))"

lemma bytes_at_nth:
  "k + n \<le> length p \<Longrightarrow> bytes_at ((!) p) k n = take n (drop k p)"
  by (intro nth_equalityI) (auto simp: bytes_at_def)

lemma decode_entry:
  assumes "drop k p = encode e @ r"
  shows "get_be32 (bytes_at ((!) p) k 4) = fst e" "get_be16 (bytes_at ((!) p) (k + 4) 2) = fst (snd e)"
    "get_be16 (bytes_at ((!) p) (k + 6) 2) = snd (snd e)"
proof -
  have len: "k + 8 \<le> length p" using arg_cong [OF assms, of length] by (simp add: encode_def)
  have d: "drop (k + 4) p = u16_to_be16 (fst (snd e)) @ u16_to_be16 (snd (snd e)) @ r"
    "drop (k + 6) p = u16_to_be16 (snd (snd e)) @ r"
    using arg_cong [OF assms, of "drop 4"] arg_cong [OF assms, of "drop 6"]
    by (simp_all add: add.commute encode_def rip_entry_def u16_to_be16_def)
  show "get_be32 (bytes_at ((!) p) k 4) = fst e"
    using len assms get_be32_u32_to_be32 [of "fst e" "[]"] by (simp add: bytes_at_nth encode_def rip_entry_def)
  show "get_be16 (bytes_at ((!) p) (k + 4) 2) = fst (snd e)"
    using len d get_be16_u16_to_be16 [of "fst (snd e)" "[]"] by (simp add: bytes_at_nth u16_to_be16_def)
  show "get_be16 (bytes_at ((!) p) (k + 6) 2) = snd (snd e)"
    using len d get_be16_u16_to_be16 [of "snd (snd e)" "[]"] by (simp add: bytes_at_nth u16_to_be16_def)
qed

lemma handle_entries_learn:
  "drop k p = concat (map encode es) @ r \<Longrightarrow>
     handle_rip_entries cfg True a ((!) p) k (length es) t = fold (learn cfg a) es t"
proof (induction es arbitrary: k t)
  case (Cons e es)
  have e: "drop k p = encode e @ concat (map encode es) @ r" using Cons.prems by simp
  have "drop (k + 8) p = drop 8 (drop k p)" by (simp add: add.commute)
  also have "\<dots> = concat (map encode es) @ r" unfolding e by (simp add: encode_def)
  finally show ?case using Cons.IH [of "k + 8"] decode_entry [OF e] by (simp add: Let_def learn_def)
qed simp

lemma handle_rip_learn:
  assumes p: "p = u16_to_be16 2 @ concat (map encode es)"
  shows "handle_rip cfg (length p) ((!) p) a t = fold (learn cfg a) es t"
proof -
  have "get_be16 (bytes_at ((!) p) 0 2) = 2"
    using get_be16_u16_to_be16 [of 2 "[]"] by (simp add: bytes_at_nth p u16_to_be16_def)
  moreover have "drop 2 p = concat (map encode es) @ []" by (simp add: p u16_to_be16_def)
  moreover have "length (concat (map encode es)) = 8 * length es"
    by (induction es) (simp_all add: encode_def)
  then have "(length p - 2) div 8 = length es" by (simp add: p u16_to_be16_def)
  ultimately show ?thesis using handle_entries_learn by (simp add: handle_rip_def)
qed

lemma fifties_map: "fifties (map f es) = map (map f) (fifties es)"
  by (induction es rule: fifties.induct) (simp add: fifties.simps take_map drop_map fifties.simps [of "map f _"])

lemma receive_packets:
  "fold (\<lambda>p. handle_rip cfg (length p) ((!) p) a)
     (map (\<lambda>bs. u16_to_be16 2 @ concat bs) (map (map encode) ess)) t = fold (learn cfg a) (concat ess) t"
proof (induction ess arbitrary: t)
  case (Cons es ess)
  show ?case using handle_rip_learn [OF refl, of cfg es a t] Cons.IH by simp
qed simp

section \<open>Sender and receiver together\<close>

text \<open>The nets that a RIP packet to net \<open>n\<close> tells: mode 0 is the periodic answer, mode 1 the shutdown.\<close>

definition told :: "route_cfg \<Rightarrow> u32 \<Rightarrow> int \<Rightarrow> route_state \<Rightarrow> (u32 \<times> u16 \<times> u16) list" where
  "told cfg n mode s = announced cfg n 0 (offered cfg MAX_U32 (init_rip_buff n mode s))"

definition tell :: "route_cfg \<Rightarrow> u32 \<Rightarrow> int \<Rightarrow> route_state \<Rightarrow> route_state" where
  "tell cfg n mode s = send_rip_buff None (build_rip_buff cfg MAX_U32 (init_rip_buff n mode s))"

definition packets_told :: "route_cfg \<Rightarrow> u32 \<Rightarrow> int \<Rightarrow> route_state \<Rightarrow> u8 list list" where
  "packets_told cfg n mode s =
     map (\<lambda>bs. u16_to_be16 2 @ concat bs) (map (map encode) (fifties (told cfg n mode s)))"

lemma receive_told:
  "fold (\<lambda>p. handle_rip cfg' (length p) ((!) p) a) (packets_told cfg n mode s) t =
     fold (learn cfg' a) (told cfg n mode s) t"
  unfolding packets_told_def by (simp only: receive_packets concat_fifties)

lemma send_calls:
  "calls (send_rip_buff None s) =
     calls s @ map (\<lambda>p. Send_ipx_data RIP_SLOT 1 p (rip_broadcast_addr (rnet s))) (rip_packets (rentries s) (rip_buff s))"
  by (simp add: send_rip_buff_def emit_def Let_def)

lemma tell_packets:
  assumes ok: "buff_ok s" and m: "mode \<le> 9" and few: "length (told cfg n mode s) \<le> 100"
  shows "calls (tell cfg n mode s) =
     calls s @ map (\<lambda>p. Send_ipx_data RIP_SLOT 1 p (rip_broadcast_addr n)) (packets_told cfg n mode s)"
proof -
  define b where "b = build_rip_buff cfg MAX_U32 (init_rip_buff n mode s)"
  have i: "buff_ready (init_rip_buff n mode s)" "op_of (init_rip_buff n mode s) = u16_to_be16 2"
    using init_rip_buff_spec [OF ok, of n mode] m by auto
  have b: "buff_ready b" "op_of b = u16_to_be16 2" "entries_of b = map encode (told cfg n mode s)"
    using build_rip_buff_spec [OF i(1), of MAX_U32 cfg] i(2) by (auto simp: b_def told_def MAX_U32_def)
  have n: "rentries b \<le> 100" using few arg_cong [OF b(3), of length] by simp
  have "rip_packets (rentries b) (rip_buff b) = map (\<lambda>es. op_of b @ concat es) (fifties (entries_of b))"
    using b(1) n unfolding op_of_def entries_of_def
    by (intro rip_packets_up_to_100 [where m = "max_rip_entries b"]) (simp_all add: buff_ready_def)
  also have "\<dots> = packets_told cfg n mode s" by (simp add: b packets_told_def fifties_map)
  finally show ?thesis
    unfolding tell_def b_def [symmetric] send_calls by (simp add: b_def)
qed

text \<open>C23. What one server tells another: the packets that \<^const>\<open>send_rip_buff\<close> sends to a net after
  \<^const>\<open>init_rip_buff\<close> and \<^const>\<open>build_rip_buff\<close>, handled one after the other by
  \<^const>\<open>handle_rip\<close> of any receiver in any state, have exactly the effect of entering the nets told, in
  their order, for answers (mode at most 9) that tell at most 100 nets.  Of a longer answer the code drops entries.\<close>

theorem rip_told_is_learned:
  assumes "buff_ok s" and "mode \<le> 9" and "length (told cfg n mode s) \<le> 100"
  shows "\<exists>ps. calls (tell cfg n mode s) =
            calls s @ map (\<lambda>p. Send_ipx_data RIP_SLOT 1 p (rip_broadcast_addr n)) ps \<and>
          (\<forall>cfg' a t. fold (\<lambda>p. handle_rip cfg' (length p) ((!) p) a) ps t = fold (learn cfg' a) (told cfg n mode s) t)"
  using tell_packets [OF assms] receive_told by blast

definition via :: "ipxAddr_t \<Rightarrow> NW_ROUTES \<Rightarrow> bool" where
  "via a r = (nr_rnet r = get_be32 (ia_net a) \<and> nr_rnode r = ia_node a)"

lemma forget:
  assumes inv: "route_inv cfg t" and h: "15 < fst (snd e)"
  shows "route_to (nw_routes (learn cfg a e t)) d = Some r \<Longrightarrow> route_to (nw_routes t) d = Some r"
    and "route_to (nw_routes (learn cfg a e t)) (fst e) = Some r \<Longrightarrow> \<not> via a r"
proof -
  have ok: "routes_ok cfg (net_devices t) (nw_routes t)" using inv by (simp add: route_inv_alt)
  have eq: "route_to (nw_routes (learn cfg a e t)) =
      spec_net cfg (net_devices t) (fst e) (get_be32 (ia_net a)) (ia_node a) (fst (snd e)) (snd (snd e)) True
        (route_to (nw_routes t))"
    using net_refines [OF ok, of "fst e" "get_be32 (ia_net a)" "ia_node a" "fst (snd e)" "snd (snd e)" True] h
    by (simp add: learn_def)
  show "route_to (nw_routes (learn cfg a e t)) d = Some r \<Longrightarrow> route_to (nw_routes t) d = Some r"
    unfolding eq by (auto simp: spec_net_def spec_delete_def split: if_splits option.splits)
  have "route_to (nw_routes t) (fst e) = None" if "fst e = 0 \<or> own_net cfg (net_devices t) (fst e)"
    using that ok by (cases "fst e = 0") (auto simp: routes_ok_def, simp add: route_to_def)
  then show "route_to (nw_routes (learn cfg a e t)) (fst e) = Some r \<Longrightarrow> \<not> via a r"
    unfolding eq by (auto simp: spec_net_def spec_delete_def via_def split: if_splits option.splits)
qed

lemma forget_all:
  "route_inv cfg t \<Longrightarrow> \<forall>e \<in> set es. 15 < fst (snd e) \<Longrightarrow>
     (\<forall>d r. route_to (nw_routes (fold (learn cfg a) es t)) d = Some r \<longrightarrow> route_to (nw_routes t) d = Some r) \<and>
     (\<forall>e \<in> set es. \<forall>r. route_to (nw_routes (fold (learn cfg a) es t)) (fst e) = Some r \<longrightarrow> \<not> via a r)"
proof (induction es arbitrary: t)
  case (Cons e es)
  have i: "route_inv cfg (learn cfg a e t)" using Cons.prems(1) by (simp add: learn_def inv_insert_delete_net)
  note IH = Cons.IH [OF i] and f = forget [OF Cons.prems(1), of e a]
  show ?case using IH f Cons.prems(2) by simp
qed simp

lemma told_in_shutdown: "e \<in> set (told cfg n 1 s) \<Longrightarrow> fst (snd e) = 16"
proof -
  have sub: "e \<in> set (announced cfg rn k es) \<Longrightarrow> e \<in> set es" for rn k es
    by (induction es arbitrary: k) (auto split: if_splits)
  show "e \<in> set (told cfg n 1 s) \<Longrightarrow> fst (snd e) = 16"
    by (auto simp: told_def offered_def Let_def dest!: sub split: if_splits)
qed

text \<open>A server that goes down (mode 1) leaves no route behind: when a neighbour has handled the packets,
  none of the nets told is routed over that server any more, and no other route of the neighbour has
  changed or appeared.\<close>

theorem shutdown_clears_neighbour:
  assumes "buff_ok s" and "length (told cfg n 1 s) \<le> 100" and "route_inv cfg' t"
  shows "\<exists>ps. calls (tell cfg n 1 s) =
            calls s @ map (\<lambda>p. Send_ipx_data RIP_SLOT 1 p (rip_broadcast_addr n)) ps \<and>
          (let rs = nw_routes (fold (\<lambda>p. handle_rip cfg' (length p) ((!) p) a) ps t)
           in (\<forall>e \<in> set (told cfg n 1 s). \<forall>r. route_to rs (fst e) = Some r \<longrightarrow> \<not> via a r) \<and>
              (\<forall>d r. route_to rs d = Some r \<longrightarrow> route_to (nw_routes t) d = Some r))"
proof -
  have "\<forall>e \<in> set (told cfg n 1 s). 15 < fst (snd e)" using told_in_shutdown by fastforce
  from forget_all [OF assms(3) this, of a] show ?thesis
    using tell_packets [OF assms(1) _ assms(2)]
    by (intro exI [of _ "packets_told cfg n 1 s"]) (simp add: Let_def receive_told)
qed

text \<open>Split horizon: a net is told to net \<open>n\<close> only if it is the internal net, a net of a device that is
  up, or the destination of a route that does not lead over \<open>n\<close> itself; the zero net is never told
  and \<open>n\<close> only if it is the internal net.\<close>

theorem split_horizon:
  assumes "(d, h, t) \<in> set (told cfg n mode s)"
  shows "d \<noteq> 0 \<and> (d = n \<longrightarrow> d = internal_net cfg) \<and>
     (own_net cfg (net_devices s) d \<or> (\<exists>r \<in> set (nw_routes s). nr_net r = d \<and> nr_rnet r \<noteq> n))"
proof -
  have sub: "e \<in> set (announced cfg rn k es) \<Longrightarrow> e \<in> set es \<and> fst e \<noteq> 0 \<and> (fst e \<noteq> rn \<or> fst e = internal_net cfg)" for e rn k es
    by (induction es arbitrary: k) (auto simp: announces_def split: if_splits)
  show ?thesis
    using sub [OF assms [unfolded told_def]]
    by (auto simp: offered_def Let_def own_net_def split: if_splits)
qed

section \<open>The tables stay sound\<close>

text \<open>C7. From the configured devices on, whatever RIP and SAP packets arrive, whatever interfaces come and
  go and whatever is broadcast: no two routes have the same destination, no route leads to the internal
  net or to the net of a device that is up, no two devices have the same net, servers are told apart by
  name and type and have names that fit a packet, and the RIP buffer is as long as its counters say.\<close>

theorem router_tables_sound:
  assumes "slots_distinct dev_key nds" and "(route_step cfg)\<^sup>*\<^sup>* (route_start nds) s"
  shows "route_inv cfg s"
  using inv_run [OF assms(2) inv_start [OF assms(1)]] .

text \<open>C22. \<^const>\<open>insert_delete_net\<close> implements the best-route table: seen as a map from nets to routes, it
  enters a route if the net is new or the ticks (with the ticks of the link, in 16 bits) and then the
  hops are not worse, deletes a route only for the router that gave it, and leaves every other net
  alone.\<close>

theorem insert_delete_net_refines:
  assumes "routes_ok cfg (net_devices s) (nw_routes s)"
  shows "route_to (nw_routes (insert_delete_net cfg d rn rnode hops ticks del s)) =
     spec_net cfg (net_devices s) d rn rnode hops ticks del (route_to (nw_routes s))"
  using net_refines [OF assms] by blast

text \<open>An answer with more than 100 entries is not sent completely: whatever \<^const>\<open>send_rip_buff\<close> sends
  is made of the first 100 entries, since the copy to the front of the buffer moves 50 entries only.\<close>

theorem rip_long_answer_truncated:
  assumes "buff_ready s" and "calls s = []" and "Send_ipx_data RIP_SLOT 1 p a \<in> set (calls (send_rip_buff dest s))"
  shows "\<exists>es. p = op_of s @ concat es \<and> set es \<subseteq> set (take 100 (entries_of s))"
proof -
  have p: "p \<in> set (rip_packets (rentries s) (rip_buff s))"
    using assms by (auto simp: send_rip_buff_def emit_def Let_def)
  have "slot8 (rip_buff s) i \<in> set (take 100 (entries_of s))" if "i < rentries s" "i < 100" for i
    using that by (auto simp: entries_of_def in_set_conv_nth intro!: exI [of _ i])
  then show ?thesis
    using rip_packets_first_100 [OF _ _ _ p, of "max_rip_entries s"] assms(1) by (auto simp: buff_ready_def op_of_def)
qed

section \<open>The nearest server\<close>

definition nearer :: "route_cfg \<Rightarrow> route_state \<Rightarrow> NW_SERVERS \<Rightarrow> int \<Rightarrow> int \<Rightarrow> bool" where
  "nearer cfg s nw ticks hops = (server_ticks cfg s nw < ticks \<or> server_ticks cfg s nw = ticks \<and> ns_hops nw \<le> hops)"

definition candidates :: "route_cfg \<Rightarrow> route_state \<Rightarrow> int \<Rightarrow> nat set" where
  "candidates cfg s styp =
     {k. k < length (nw_servers s) \<and> offers styp (nw_servers s ! k) \<and> nearer cfg s (nw_servers s ! k) 99 15}"

lemma nearest_loop_spec:
  assumes "\<And>x. 0 \<le> server_ticks cfg s x"
  shows "nearest_loop cfg styp s j0 xs t h e = (h', e') \<Longrightarrow> 0 \<le> t \<Longrightarrow>
     (e' = e \<and> h' = h \<and> (t \<noteq> 0 \<longrightarrow> (\<forall>x \<in> set xs. offers styp x \<longrightarrow> \<not> nearer cfg s x t h))) \<or>
     (\<exists>i < length xs. e' = Some (j0 + i) \<and> offers styp (xs ! i) \<and> h' = ns_hops (xs ! i) \<and> nearer cfg s (xs ! i) t h \<and>
        (\<forall>x \<in> set xs. offers styp x \<longrightarrow> server_ticks cfg s (xs ! i) < server_ticks cfg s x \<or>
           server_ticks cfg s (xs ! i) = server_ticks cfg s x \<and>
             (server_ticks cfg s (xs ! i) = 0 \<or> ns_hops (xs ! i) \<le> ns_hops x)))"
proof (induction xs arbitrary: j0 t h e)
  case (Cons nw xs)
  show ?case
  proof (cases "t = 0")
    case False
    show ?thesis
    proof (cases "offers styp nw \<and> nearer cfg s nw t h")
      case True
      let ?t = "server_ticks cfg s nw"
      have "nearest_loop cfg styp s (Suc j0) xs ?t (ns_hops nw) (Some j0) = (h', e')"
        using Cons.prems True False by (simp add: nearer_def)
      from Cons.IH [OF this] assms have IH: "(e' = Some j0 \<and> h' = ns_hops nw \<and>
            (?t \<noteq> 0 \<longrightarrow> (\<forall>x \<in> set xs. offers styp x \<longrightarrow> \<not> nearer cfg s x ?t (ns_hops nw)))) \<or>
          (\<exists>i < length xs. e' = Some (Suc j0 + i) \<and> offers styp (xs ! i) \<and> h' = ns_hops (xs ! i) \<and>
            nearer cfg s (xs ! i) ?t (ns_hops nw) \<and>
            (\<forall>x \<in> set xs. offers styp x \<longrightarrow> server_ticks cfg s (xs ! i) < server_ticks cfg s x \<or>
               server_ticks cfg s (xs ! i) = server_ticks cfg s x \<and>
                 (server_ticks cfg s (xs ! i) = 0 \<or> ns_hops (xs ! i) \<le> ns_hops x)))" by blast
      then show ?thesis
      proof (elim disjE exE conjE)
        assume a: "e' = Some j0" "h' = ns_hops nw"
          "?t \<noteq> 0 \<longrightarrow> (\<forall>x \<in> set xs. offers styp x \<longrightarrow> \<not> nearer cfg s x ?t (ns_hops nw))"
        have "?t < server_ticks cfg s x \<or> ?t = server_ticks cfg s x \<and> (?t = 0 \<or> ns_hops nw \<le> ns_hops x)"
          if "x \<in> set xs" "offers styp x" for x
          using a(3) that assms [of x] by (cases "?t = 0") (auto simp: nearer_def)
        then show ?thesis using a True by (intro disjI2 exI [of _ 0]) auto
      next
        fix i
        assume a: "i < length xs" "e' = Some (Suc j0 + i)" "offers styp (xs ! i)" "h' = ns_hops (xs ! i)"
          "nearer cfg s (xs ! i) ?t (ns_hops nw)"
          "\<forall>x \<in> set xs. offers styp x \<longrightarrow> server_ticks cfg s (xs ! i) < server_ticks cfg s x \<or>
             server_ticks cfg s (xs ! i) = server_ticks cfg s x \<and>
               (server_ticks cfg s (xs ! i) = 0 \<or> ns_hops (xs ! i) \<le> ns_hops x)"
        have "nearer cfg s (xs ! i) t h" using a(5) True by (auto simp: nearer_def)
        then show ?thesis using a True by (intro disjI2 exI [of _ "Suc i"]) (auto simp: nearer_def)
      qed
    next
      case skip: False
      then have n: "nearest_loop cfg styp s (Suc j0) xs t h e = (h', e')"
        using Cons.prems False by (auto simp: nearer_def Let_def split: if_splits)
      from Cons.IH [OF n Cons.prems(2)] show ?thesis
      proof (elim disjE exE conjE)
        fix i
        assume a: "i < length xs" "e' = Some (Suc j0 + i)" "offers styp (xs ! i)" "h' = ns_hops (xs ! i)"
          "nearer cfg s (xs ! i) t h"
          "\<forall>x \<in> set xs. offers styp x \<longrightarrow> server_ticks cfg s (xs ! i) < server_ticks cfg s x \<or>
             server_ticks cfg s (xs ! i) = server_ticks cfg s x \<and>
               (server_ticks cfg s (xs ! i) = 0 \<or> ns_hops (xs ! i) \<le> ns_hops x)"
        then show ?thesis using skip by (intro disjI2 exI [of _ "Suc i"]) (auto simp: nearer_def)
      qed (use skip in auto)
    qed
  qed (use Cons.prems in auto)
qed simp

text \<open>The answer to a query for a service: nothing if no server of the type can be reached (at most 99
  ticks, at that distance at most 15 hops), otherwise one packet for one such server, and no reachable
  server of the type is nearer in ticks or, at the same ticks (other than zero), has fewer hops.\<close>

theorem nearest_server_answered:
  assumes "\<forall>nd \<in> set (net_devices s). 0 \<le> nd_ticks nd"
  shows "if candidates cfg s styp = {} then send_server_response cfg rt styp a s = s
     else \<exists>k \<in> candidates cfg s styp. send_server_response cfg rt styp a s =
            emit [Send_ipx_data SAP_SLOT 4 (sap_packet rt (ns_hops (nw_servers s ! k) + 1) (nw_servers s ! k)) a] s \<and>
          (\<forall>j \<in> candidates cfg s styp. server_ticks cfg s (nw_servers s ! k) < server_ticks cfg s (nw_servers s ! j) \<or>
             server_ticks cfg s (nw_servers s ! k) = server_ticks cfg s (nw_servers s ! j) \<and>
               (server_ticks cfg s (nw_servers s ! k) = 0 \<or> ns_hops (nw_servers s ! k) \<le> ns_hops (nw_servers s ! j)))"
proof -
  have dev: "0 \<le> nd_ticks nd" if "find_netdevice n s = Some nd" for n nd
    using that assms(1) by (auto simp: find_netdevice_def find_device_by_net_def find_Some_iff split: option.splits)
  have pos: "0 \<le> server_ticks cfg s x" for x
    by (auto simp: server_ticks_def split: option.splits dest: dev)
  obtain h e where n: "nearest_loop cfg styp s 0 (nw_servers s) 99 15 None = (h, e)" by fastforce
  note spec = nearest_loop_spec [OF pos n]
  show ?thesis
  proof (cases e)
    case None
    then have "candidates cfg s styp = {}" using spec by (auto simp: candidates_def)
    then show ?thesis using n None by (simp add: send_server_response_def send_sap_to_addr_def)
  next
    case (Some k)
    then have k: "k \<in> candidates cfg s styp" "h = ns_hops (nw_servers s ! k)"
      and best: "\<forall>x \<in> set (nw_servers s). offers styp x \<longrightarrow> server_ticks cfg s (nw_servers s ! k) < server_ticks cfg s x \<or>
         server_ticks cfg s (nw_servers s ! k) = server_ticks cfg s x \<and>
           (server_ticks cfg s (nw_servers s ! k) = 0 \<or> ns_hops (nw_servers s ! k) \<le> ns_hops x)"
      using spec by (auto simp: candidates_def)
    have r: "send_server_response cfg rt styp a s =
        emit [Send_ipx_data SAP_SLOT 4 (sap_packet rt (ns_hops (nw_servers s ! k) + 1) (nw_servers s ! k)) a] s"
      using n Some k(2) by (simp add: send_server_response_def send_sap_to_addr_def)
    have "nw_servers s ! j \<in> set (nw_servers s) \<and> offers styp (nw_servers s ! j)" if "j \<in> candidates cfg s styp" for j
      using that by (simp add: candidates_def)
    with k(1) best show ?thesis unfolding r by (auto intro!: bexI [of _ k])
  qed
qed

section \<open>Concrete runs\<close>

definition example_addr :: "u32 \<Rightarrow> u8 \<Rightarrow> ipxAddr_t" where
  "example_addr n k = \<lparr>ia_net = u32_to_be32 n, ia_node = replicate 5 0 @ [k], ia_sock = u16_to_be16 SOCK_RIP\<rparr>"

definition example_cfg :: route_cfg where
  "example_cfg = \<lparr>internal_net = 0x10, my_server_adr = example_addr 0x10 1, auto_detect_interfaces = False,
     wdogs_till_tics = 0, handle_all_sap_typs = True, nearest_request_flag = 0\<rparr>"

definition example_device :: "u32 \<Rightarrow> NW_NET_DEVICE" where
  "example_device n = \<lparr>devname = cstr ''eth0'', frame = 2, nd_ticks = 1, nd_net = n, is_up = 1, wildmask = 0,
     updated_time = 0, needs_update = 0\<rparr>"

definition example_start :: route_state where
  "example_start = route_start [example_device 1, example_device 2]"

definition example_packet :: "u8 list" where
  "example_packet = u16_to_be16 2 @ encode (5, 1, 2)"

definition example_router :: route_state where
  "example_router = handle_rip example_cfg 10 ((!) example_packet) (example_addr 1 7) example_start"

definition example_server :: "u32 \<Rightarrow> int \<Rightarrow> NW_SERVERS" where
  "example_server n hops = \<lparr>ns_name = Some (cstr ''FS''), ns_typ = 4, ns_addr = example_addr n 9, ns_net = n,
     ns_hops = hops, ns_flags = 0\<rparr>"

definition example_long :: route_state where
  "example_long = (route_start [])\<lparr>rip_buff := u16_to_be16 2 @ concat (map (\<lambda>i. encode (word_of_nat i + 1, 1, 2)) [0..<101]),
     max_rip_entries := 101, rentries := 101\<rparr>"

lemma example_start_distinct: "slots_distinct dev_key [example_device 1, example_device 2]"
  by code_simp

lemma example_buff: "buff_ok example_start"
  by code_simp

theorem router_tables_sound_witness:
  "route_inv example_cfg example_router \<and> map nr_net (nw_routes example_router) = [5]"
proof -
  have "route_step example_cfg (route_start [example_device 1, example_device 2]) example_router"
    unfolding example_router_def example_start_def by (rule route_step.rip)
  moreover have "map nr_net (nw_routes example_router) = [5]" by code_simp
  ultimately show ?thesis
    using router_tables_sound [OF example_start_distinct] by blast
qed

theorem insert_delete_net_refines_witness:
  "route_to (nw_routes (insert_delete_net example_cfg 5 1 [1] 1 2 False example_start)) 5 =
     spec_net example_cfg (net_devices example_start) 5 1 [1] 1 2 False (route_to (nw_routes example_start)) 5 \<and>
   map nr_ticks (nw_routes (insert_delete_net example_cfg 5 1 [1] 1 2 False example_start)) = [3]"
proof -
  have "routes_ok example_cfg (net_devices example_start) (nw_routes example_start)"
    using inv_start [OF example_start_distinct] by (simp add: example_start_def route_inv_alt)
  moreover have "map nr_ticks (nw_routes (insert_delete_net example_cfg 5 1 [1] 1 2 False example_start)) = [3]"
    by code_simp
  ultimately show ?thesis using insert_delete_net_refines [of example_cfg example_start 5 1 "[1]" 1 2 False] by simp
qed

lemma example_told: "map fst (told example_cfg 2 0 example_router) = [0x10, 1, 5]"
  by code_simp

lemma example_router_buff: "buff_ok example_router"
  by code_simp

theorem rip_told_is_learned_witness:
  "\<exists>ps. calls (tell example_cfg 2 0 example_router) =
          calls example_router @ map (\<lambda>p. Send_ipx_data RIP_SLOT 1 p (rip_broadcast_addr 2)) ps \<and>
        fold (\<lambda>p. handle_rip example_cfg (length p) ((!) p) (example_addr 2 9)) ps example_start =
          fold (learn example_cfg (example_addr 2 9)) (told example_cfg 2 0 example_router) example_start"
  using rip_told_is_learned [OF example_router_buff, of 0 example_cfg 2] arg_cong [OF example_told, of length] by auto

theorem shutdown_clears_neighbour_witness:
  "\<exists>ps. calls (tell example_cfg 1 1 example_start) =
          calls example_start @ map (\<lambda>p. Send_ipx_data RIP_SLOT 1 p (rip_broadcast_addr 1)) ps \<and>
        (let rs = nw_routes (fold (\<lambda>p. handle_rip example_cfg (length p) ((!) p) (example_addr 1 7)) ps example_router)
         in (\<forall>e \<in> set (told example_cfg 1 1 example_start). \<forall>r. route_to rs (fst e) = Some r \<longrightarrow> \<not> via (example_addr 1 7) r) \<and>
            (\<forall>d r. route_to rs d = Some r \<longrightarrow> route_to (nw_routes example_router) d = Some r))"
proof -
  have "length (told example_cfg 1 1 example_start) \<le> 100" by code_simp
  moreover have "route_inv example_cfg example_router"
    unfolding example_router_def example_start_def by (intro inv_handle_rip inv_start example_start_distinct)
  ultimately show ?thesis using shutdown_clears_neighbour [OF example_buff] by blast
qed

theorem split_horizon_witness:
  "5 \<noteq> (0 :: u32) \<and> (own_net example_cfg (net_devices example_router) 5 \<or>
     (\<exists>r \<in> set (nw_routes example_router). nr_net r = 5 \<and> nr_rnet r \<noteq> 2))"
proof -
  have "(5, 2, 4) \<in> set (told example_cfg 2 0 example_router)" by code_simp
  from split_horizon [OF this] show ?thesis by simp
qed

lemma slot8_encoded:
  "length es = n \<Longrightarrow> i < n \<Longrightarrow> slot8 (u16_to_be16 2 @ concat (map encode es)) i = encode (es ! i)"
proof -
  have len: "length (encode e) = 8" for e by (simp add: encode_def)
  have "i < length es \<Longrightarrow> take 8 (drop (8 * i) (concat (map encode es))) = encode (es ! i)"
    by (induction es arbitrary: i) (auto simp: len less_Suc_eq_0_disj)
  then show "length es = n \<Longrightarrow> i < n \<Longrightarrow> ?thesis" by (simp add: slot8_def u16_to_be16_def)
qed

lemma third_packet:
  assumes len: "length buf = 2 + 8 * 101"
  shows "take 2 buf @ slot8 buf 50 \<in> set (rip_packets 101 buf)"
proof -
  define b1 where "b1 = write_at 2 (take (50 * 8) (drop (2 + 50 * 8) buf)) buf"
  define b2 where "b2 = write_at 2 (take (1 * 8) (drop (2 + 50 * 8) b1)) b1"
  have l: "length b1 = 2 + 8 * 101" "length b2 = 2 + 8 * 101" using len by (simp_all add: b1_def b2_def)
  have "slot8 b2 0 = slot8 b1 50" using slot8_moved [of 1 b1 0] l by (simp add: b2_def)
  also have "\<dots> = slot8 buf 50" using slot8_moved [of 50 buf 50] len by (simp add: b1_def)
  finally have s: "slot8 b2 0 = slot8 buf 50" .
  have op: "take 2 b2 = take 2 buf" using l len by (simp add: b1_def b2_def take2_moved)
  have "rip_packets 101 buf = [take 402 buf, take 402 b1, take 10 b2]"
    by (simp add: rip_packets.simps [of 101] rip_packets.simps [of 51] rip_packets.simps [of "Suc 0"] Let_def b1_def b2_def)
  then show ?thesis using take_slots [OF l(2), of 1] s op by simp
qed

theorem rip_long_answer_truncated_witness:
  "\<exists>es. u16_to_be16 2 @ encode (51, 1, 2) = op_of example_long @ concat es \<and> set es \<subseteq> set (take 100 (entries_of example_long))"
proof -
  let ?es = "map (\<lambda>i. (word_of_nat i + 1, 1, 2)) [0..<101]"
  have e: "rip_buff example_long = u16_to_be16 2 @ concat (map encode ?es)"
    by (simp add: example_long_def comp_def del: upt_Suc)
  have "length (concat (map encode xs)) = 8 * length xs" for xs by (induction xs) (simp_all add: encode_def)
  then have len: "length (rip_buff example_long) = 2 + 8 * 101" by (simp add: e u16_to_be16_def del: upt_Suc map_map)
  then have b: "buff_ready example_long" by (simp add: buff_ready_def) (simp add: example_long_def)
  have c: "calls example_long = []" by (simp add: example_long_def route_start_def)
  have "slot8 (rip_buff example_long) 50 = encode (51, 1, 2)"
    unfolding e by (subst slot8_encoded [of _ 101]) simp_all
  moreover have "take 2 (rip_buff example_long) = u16_to_be16 2" by (simp add: e u16_to_be16_def)
  ultimately have "u16_to_be16 2 @ encode (51, 1, 2) \<in> set (rip_packets (rentries example_long) (rip_buff example_long))"
    using third_packet [OF len] by (simp add: example_long_def)
  then have "Send_ipx_data RIP_SLOT 1 (u16_to_be16 2 @ encode (51, 1, 2)) zero_addr \<in> set (calls (send_rip_buff (Some zero_addr) example_long))"
    by (simp add: send_rip_buff_def emit_def Let_def)
  from rip_long_answer_truncated [OF b c this] show ?thesis .
qed

theorem nearest_server_answered_witness:
  "let s = example_start\<lparr>nw_servers := [example_server 2 3, example_server 1 1]\<rparr>
   in \<exists>k \<in> candidates example_cfg s 4. send_server_response example_cfg 4 4 zero_addr s =
        emit [Send_ipx_data SAP_SLOT 4 (sap_packet 4 (ns_hops (nw_servers s ! k) + 1) (nw_servers s ! k)) zero_addr] s"
proof -
  let ?s = "example_start\<lparr>nw_servers := [example_server 2 3, example_server 1 1]\<rparr>"
  have "\<forall>nd \<in> set (net_devices ?s). 0 \<le> nd_ticks nd" by code_simp
  note t = nearest_server_answered [OF this, of example_cfg 4 4 zero_addr]
  have "0 < length (nw_servers ?s)" "offers 4 (nw_servers ?s ! 0)" "nearer example_cfg ?s (nw_servers ?s ! 0) 99 15"
    by code_simp+
  then have "0 \<in> candidates example_cfg ?s 4" unfolding candidates_def by blast
  then have "candidates example_cfg ?s 4 \<noteq> {}" by blast
  with t show ?thesis unfolding Let_def by auto
qed

end
