(* ===== verification/Bindery.thy ===== *)
theory Bindery
  imports Volume
begin

text \<open>The bindery of \<^verbatim>\<open>src/nwdbm.c\<close>: objects, their properties and the values of the properties in
  three dbm files, with an index of the objects by name and type in a fourth, and the access test
  \<^verbatim>\<open>b_acc\<close> of \<^verbatim>\<open>src/nwbind.c\<close>.  A dbm file is the list of its records; \<^verbatim>\<open>fetch\<close>, \<^verbatim>\<open>store\<close>
  and \<^verbatim>\<open>delete\<close> go by the key, and the order in which \<^verbatim>\<open>firstkey\<close> and \<^verbatim>\<open>nextkey\<close> deliver the
  records is a parameter, since dbm promises only that each comes once.  Whether a file can be opened is a
  parameter too; a \<^verbatim>\<open>store\<close> into an open file succeeds.  Names fit into their arrays.\<close>

section \<open>Records (nwdbm.h)\<close>

record NETOBJ =
  o_id :: u32
  o_name :: cstring
  o_type :: u16
  o_flags :: u8
  o_security :: u8

record NETIOBJ =
  i_name :: cstring
  i_type :: u16
  i_id :: u32

record NETPROP =
  p_obj_id :: u32
  p_id :: u8
  p_name :: cstring
  p_flags :: u8
  p_security :: u8

record NETVAL =
  v_obj_id :: u32
  v_prop_id :: u8
  v_segment :: u8
  v_value :: "u8 list"

record bindery =
  objs :: "NETOBJ list"
  iobjs :: "NETIOBJ list"
  props :: "NETPROP list"
  vals :: "NETVAL list"

definition FNPROP :: nat where "FNPROP = 0"
definition FNVAL :: nat where "FNVAL = 1"
definition FNOBJ :: nat where "FNOBJ = 2"
definition FNIOBJ :: nat where "FNIOBJ = 3"

definition P_FL_SET :: u8 where "P_FL_SET = 2"

text \<open>The keys of the four files.\<close>

definition i_key :: "NETIOBJ \<Rightarrow> cstring \<times> u16" where "i_key i = (i_name i, i_type i)"
definition p_key :: "NETPROP \<Rightarrow> u32 \<times> u8" where "p_key p = (p_obj_id p, p_id p)"
definition v_key :: "NETVAL \<Rightarrow> u32 \<times> u8 \<times> u8" where "v_key v = (v_obj_id v, v_prop_id v, v_segment v)"

text \<open>The circumstances of a call: which files can be opened, the order of the scans, and who acts:
  object and flags of the connection, or \<^const>\<open>None\<close> for the server itself.\<close>

record bind_env =
  dbm_ok :: "nat \<Rightarrow> bool"
  obj_order :: "NETOBJ list \<Rightarrow> NETOBJ list"
  prop_order :: "NETPROP list \<Rightarrow> NETPROP list"
  acting :: "(u32 \<times> u32) option"

section \<open>Access rights (nwbind.c: b\_acc)\<close>

definition acc_error :: "nat \<Rightarrow> int" where
  "acc_error forwrite =
     (if forwrite = 0x00 then -0xf2 else if forwrite = 0x01 then -0xf8 else if forwrite = 0x02 then -0xf5
      else if forwrite = 0x03 then -0xf4 else if forwrite = 0x04 then -0xf3
      else if forwrite = 0x10 then -0xf9 else if forwrite = 0x11 then -0xf8
      else if forwrite = 0x12 then -0xf7 else if forwrite = 0x13 then -0xf6 else -0xff)"

definition b_acc :: "bind_env \<Rightarrow> u32 \<Rightarrow> u8 \<Rightarrow> nat \<Rightarrow> int" where
  "b_acc env obj_id security forwrite =
     (case acting env of
        None \<Rightarrow> 0
      | Some (object_id, id_flags) \<Rightarrow>
          let s = (if forwrite mod 16 \<noteq> 0 then drop_bit 4 security else security) AND 15
          in if s = 0 then 0
             else if s = 1 \<and> 0 < object_id then 0
             else if s = 2 \<and> (object_id = obj_id \<or> has id_flags 1) then 0
             else if s = 3 \<and> has id_flags 1 then 0
             else acc_error forwrite)"

section \<open>Objects\<close>

definition iobj_of :: "NETOBJ \<Rightarrow> NETIOBJ" where
  "iobj_of ob = \<lparr>i_name = o_name ob, i_type = o_type ob, i_id = o_id ob\<rparr>"

definition handle_iobj :: "bind_env \<Rightarrow> nat \<Rightarrow> NETOBJ \<Rightarrow> bindery \<Rightarrow> int \<times> NETOBJ \<times> bindery" where
  "handle_iobj env mode ob b =
     (if \<not> dbm_ok env FNIOBJ then (-0xff, ob, b)
      else case chain_find i_key (o_name ob, o_type ob) (iobjs b) of
        None \<Rightarrow> if mode = 2 then (0, ob, b\<lparr>iobjs := chain_put i_key (iobj_of ob) (iobjs b)\<rparr>) else (-0xfc, ob, b)
      | Some i \<Rightarrow>
          if mode = 3 then (0, ob, b\<lparr>iobjs := chain_del i_key (o_name ob, o_type ob) (iobjs b)\<rparr>)
          else if mode = 0 then (0, ob\<lparr>o_id := i_id i\<rparr>, b)
          else (0, ob, b\<lparr>iobjs := chain_put i_key (i\<lparr>i_id := o_id ob\<rparr>) (iobjs b)\<rparr>))"

definition obj_matches :: "bind_env \<Rightarrow> NETOBJ \<Rightarrow> bool \<Rightarrow> NETOBJ \<Rightarrow> bool" where
  "obj_matches env ob ignore_rights x =
     ((o_type x = o_type ob \<or> o_type ob = 0xffff) \<and> name_match (o_name x) (o_name ob) \<and>
      (ignore_rights \<or> b_acc env (o_id x) (o_security x) 0x00 = 0))"

definition scan_for_obj :: "bind_env \<Rightarrow> NETOBJ \<Rightarrow> u32 \<Rightarrow> bool \<Rightarrow> bindery \<Rightarrow> int \<times> NETOBJ" where
  "scan_for_obj env ob last_obj_id ignore_rights b =
     (if \<not> dbm_ok env FNOBJ then (-0xff, ob)
      else let l = obj_order env (objs b);
               l' = (if last_obj_id \<noteq> 0 \<and> last_obj_id \<noteq> 0xffffffff
                     then tl (dropWhile (\<lambda>x. o_id x \<noteq> last_obj_id) l) else l)
           in case find (obj_matches env ob ignore_rights) l' of
                None \<Rightarrow> (-0xfc, ob)
              | Some x \<Rightarrow> (0, x))"

definition find_obj_id :: "bind_env \<Rightarrow> NETOBJ \<Rightarrow> bindery \<Rightarrow> int \<times> NETOBJ \<times> bindery" where
  "find_obj_id env ob b =
     (let (r, o1, _) = handle_iobj env 0 ob b;
          indexed = (if r = 0 \<and> dbm_ok env FNOBJ then
                       (case chain_find o_id (o_id o1) (objs b) of
                          Some x \<Rightarrow> if o_name x = o_name o1 \<and> o_type x = o_type o1 then Some x else None
                        | None \<Rightarrow> None)
                     else None)
      in case indexed of
           Some x \<Rightarrow> (0, x, b)
         | None \<Rightarrow>
             let (result, o2) = scan_for_obj env o1 0 True b
             in if result = 0 then (result, o2, snd (snd (handle_iobj env 2 o2 b))) else (result, o2, b))"

section \<open>Deleting properties\<close>

text \<open>What the scan gathers: the answer so far and the ids of the properties to delete.\<close>

definition mark_prop :: "bind_env \<Rightarrow> u32 \<Rightarrow> bool \<Rightarrow> NETPROP \<Rightarrow> int \<times> u8 list \<Rightarrow> int \<times> u8 list" where
  "mark_prop env obj_id ever p rx =
     (case rx of (result, xset) \<Rightarrow>
        if ever \<or> b_acc env obj_id (p_security p) 0x13 = 0
        then (max result (uint (p_id p)), p_id p # xset)
        else (if result < 0 then -0xf6 else result, xset))"

definition marked_props :: "bind_env \<Rightarrow> u32 \<Rightarrow> cstring \<Rightarrow> bool \<Rightarrow> bindery \<Rightarrow> int \<times> u8 list" where
  "marked_props env obj_id prop_name ever b =
     fold (mark_prop env obj_id ever)
       (filter (\<lambda>p. p_obj_id p = obj_id \<and> name_match (p_name p) prop_name) (prop_order env (props b)))
       (-0xfb, [])"

fun del_segments :: "u32 \<Rightarrow> u8 \<Rightarrow> nat \<Rightarrow> nat \<Rightarrow> NETVAL list \<Rightarrow> NETVAL list" where
  "del_segments obj_id prop_id l 0 vs = vs"
| "del_segments obj_id prop_id l (Suc n) vs =
     (case chain_find v_key (obj_id, prop_id, word_of_nat l) vs of
        None \<Rightarrow> vs
      | Some _ \<Rightarrow> del_segments obj_id prop_id (Suc l) n (chain_del v_key (obj_id, prop_id, word_of_nat l) vs))"

fun del_props :: "u32 \<Rightarrow> u8 list \<Rightarrow> NETPROP list \<Rightarrow> int \<times> NETPROP list" where
  "del_props obj_id [] ps = (0, ps)"
| "del_props obj_id (k # ks) ps =
     (case chain_find p_key (obj_id, k) ps of
        None \<Rightarrow> (-0xf6, ps)
      | Some _ \<Rightarrow> del_props obj_id ks (chain_del p_key (obj_id, k) ps))"

definition loc_delete_property ::
  "bind_env \<Rightarrow> u32 \<Rightarrow> cstring \<Rightarrow> u8 \<Rightarrow> bool \<Rightarrow> bindery \<Rightarrow> int \<times> bindery" where
  "loc_delete_property env obj_id prop_name prop_id ever b =
     (let (result, xset) = (if prop_id \<noteq> 0 then (uint prop_id, [prop_id])
                            else if dbm_ok env FNPROP then marked_props env obj_id prop_name ever b
                            else (-0xff, []));
          ks = filter (\<lambda>k. k \<in> set xset) (map word_of_nat [1..<nat result + 1])
      in if result \<le> 0 then (result, b)
         else if \<not> dbm_ok env FNVAL then (-0xff, b)
         else let b1 = b\<lparr>vals := fold (\<lambda>k. del_segments obj_id k 1 255) ks (vals b)\<rparr>
              in if \<not> dbm_ok env FNPROP then (-0xff, b1)
                 else let (r, ps) = del_props obj_id ks (props b1) in (r, b1\<lparr>props := ps\<rparr>))"

section \<open>Members of sets\<close>

definition nth_id :: "u8 list \<Rightarrow> nat \<Rightarrow> u32" where
  "nth_id value k = get_be32 (take 4 (drop (4 * k) value))"

definition ids_of :: "u8 list \<Rightarrow> u32 list" where
  "ids_of value = map (nth_id value) [0..<32]"

fun find_index :: "('a \<Rightarrow> bool) \<Rightarrow> 'a list \<Rightarrow> nat option" where
  "find_index P [] = None"
| "find_index P (x # xs) = (if P x then Some 0 else map_option Suc (find_index P xs))"

definition remove_id :: "u8 list \<Rightarrow> nat \<Rightarrow> u8 list" where
  "remove_id value k = take (4 * k) value @ drop (4 * k + 4) value @ replicate 4 0"

definition put_id :: "u8 list \<Rightarrow> nat \<Rightarrow> u32 \<Rightarrow> u8 list" where
  "put_id value k m = take (4 * k) value @ u32_to_be32 m @ drop (4 * k + 4) value"

fun del_member :: "u32 \<Rightarrow> u8 \<Rightarrow> u32 \<Rightarrow> nat \<Rightarrow> nat \<Rightarrow> NETVAL list \<Rightarrow> NETVAL list" where
  "del_member obj_id prop_id m l 0 vs = vs"
| "del_member obj_id prop_id m l (Suc n) vs =
     (case chain_find v_key (obj_id, prop_id, word_of_nat l) vs of
        None \<Rightarrow> vs
      | Some v \<Rightarrow>
          (case find_index (\<lambda>x. x = m) (ids_of (v_value v)) of
             Some k \<Rightarrow> chain_put v_key (v\<lparr>v_value := remove_id (v_value v) k\<rparr>) vs
           | None \<Rightarrow> del_member obj_id prop_id m (Suc l) n vs))"

definition prop_delete_member ::
  "bind_env \<Rightarrow> u32 \<Rightarrow> u8 \<Rightarrow> u8 \<Rightarrow> u32 \<Rightarrow> bindery \<Rightarrow> int \<times> bindery" where
  "prop_delete_member env obj_id prop_id prop_security m b =
     (let acc = b_acc env obj_id prop_security 0x11
      in if acc \<noteq> 0 then (acc, b)
         else if \<not> dbm_ok env FNVAL then (-0xff, b)
         else (0, b\<lparr>vals := del_member obj_id prop_id m 1 255 (vals b)\<rparr>))"

definition prop_find_member :: "bind_env \<Rightarrow> u32 \<Rightarrow> u8 \<Rightarrow> u8 \<Rightarrow> u32 \<Rightarrow> bindery \<Rightarrow> int" where
  "prop_find_member env obj_id prop_id prop_security m b =
     (let acc = b_acc env obj_id prop_security 0x10
      in if acc \<noteq> 0 then acc
         else if \<not> dbm_ok env FNVAL then -0xff
         else if \<exists>l \<in> set [1..<256]. (case chain_find v_key (obj_id, prop_id, word_of_nat l) (vals b) of
                   Some v \<Rightarrow> m \<in> set (ids_of (v_value v)) | None \<Rightarrow> False)
              then 0 else -0xea)"

fun add_member :: "u32 \<Rightarrow> u8 \<Rightarrow> u32 \<Rightarrow> nat \<Rightarrow> nat \<Rightarrow> NETVAL list \<Rightarrow> int \<times> NETVAL list" where
  "add_member obj_id prop_id m l 0 vs = (-0xff, vs)"
| "add_member obj_id prop_id m l (Suc n) vs =
     (case chain_find v_key (obj_id, prop_id, word_of_nat l) vs of
        None \<Rightarrow> (0, chain_put v_key \<lparr>v_obj_id = obj_id, v_prop_id = prop_id, v_segment = word_of_nat l,
                      v_value = put_id (replicate 128 0) 0 m\<rparr> vs)
      | Some v \<Rightarrow>
          (case find_index (\<lambda>x. x = 0) (ids_of (v_value v)) of
             Some k \<Rightarrow> (0, chain_put v_key (v\<lparr>v_value := put_id (v_value v) k m\<rparr>) vs)
           | None \<Rightarrow> add_member obj_id prop_id m (Suc l) n vs))"

definition prop_add_member ::
  "bind_env \<Rightarrow> u32 \<Rightarrow> u8 \<Rightarrow> u8 \<Rightarrow> u32 \<Rightarrow> bindery \<Rightarrow> int \<times> bindery" where
  "prop_add_member env obj_id prop_id prop_security m b =
     (let acc = b_acc env obj_id prop_security 0x11
      in if acc \<noteq> 0 then (acc, b)
         else if \<not> dbm_ok env FNVAL then (-0xff, b)
         else let (r, vs) = add_member obj_id prop_id m 1 255 (vals b) in (r, b\<lparr>vals := vs\<rparr>))"

section \<open>Operations on objects\<close>

definition LOC_MAX_OBJS :: nat where "LOC_MAX_OBJS = 10000"

text \<open>The sets that the scan of all properties finds; the members are then deleted from the last set to
  the first.\<close>

definition set_props :: "bind_env \<Rightarrow> bindery \<Rightarrow> (u32 \<times> u8) list" where
  "set_props env b =
     take LOC_MAX_OBJS (map p_key (filter (\<lambda>p. p_flags p AND P_FL_SET \<noteq> 0) (prop_order env (props b))))"

definition leave_sets :: "bind_env \<Rightarrow> u32 \<Rightarrow> bindery \<Rightarrow> bindery" where
  "leave_sets env objid b =
     fold (\<lambda>(ob, pr) t. snd (prop_delete_member env ob pr 0 objid t)) (rev (set_props env b)) b"

definition drop_obj :: "bind_env \<Rightarrow> u32 \<Rightarrow> bindery \<Rightarrow> int \<times> bindery" where
  "drop_obj env objid b =
     (if \<not> dbm_ok env FNOBJ then (-0xff, b)
      else case chain_find o_id objid (objs b) of
        None \<Rightarrow> (-0xff, b)
      | Some x \<Rightarrow> (0, snd (snd (handle_iobj env 3 x (b\<lparr>objs := chain_del o_id objid (objs b)\<rparr>)))))"

definition loc_delete_obj :: "bind_env \<Rightarrow> u32 \<Rightarrow> bindery \<Rightarrow> int \<times> bindery" where
  "loc_delete_obj env objid b =
     (let acc = b_acc env objid 0x33 0x03
      in if acc \<noteq> 0 then (acc, b)
         else let b1 = snd (loc_delete_property env objid [42] 0 True b)
              in if \<not> dbm_ok env FNPROP then (-0xff, b1)
                 else drop_obj env objid (leave_sets env objid b1))"

definition nw_delete_obj :: "bind_env \<Rightarrow> NETOBJ \<Rightarrow> bindery \<Rightarrow> int \<times> NETOBJ \<times> bindery" where
  "nw_delete_obj env ob b =
     (let (result, o1, b1) = find_obj_id env ob b
      in if result \<noteq> 0 then (result, o1, b1)
         else let (r, b2) = loc_delete_obj env (o_id o1) b1 in (r, o1, b2))"

definition nw_rename_obj :: "bind_env \<Rightarrow> NETOBJ \<Rightarrow> cstring \<Rightarrow> bindery \<Rightarrow> int \<times> NETOBJ \<times> bindery" where
  "nw_rename_obj env ob newname b =
     (let (result, o1, b1) = find_obj_id env ob b; acc = b_acc env 0 0x33 0x04
      in if result \<noteq> 0 then (result, o1, b1)
         else if acc \<noteq> 0 then (acc, o1, b1)
         else let b2 = snd (snd (handle_iobj env 3 o1 b1));
                  (r, o2, b3) =
                    (if \<not> dbm_ok env FNOBJ then (-0xff, o1, b2)
                     else case chain_find o_id (o_id o1) (objs b2) of
                       None \<Rightarrow> (-0xff, o1, b2)
                     | Some x \<Rightarrow>
                         let x' = x\<lparr>o_name := take 48 newname\<rparr>
                         in (0, x', b2\<lparr>objs := chain_put o_id x' (objs b2)\<rparr>))
              in (r, o2, snd (snd (handle_iobj env 2 o2 b3))))"

definition nw_change_obj_security :: "bind_env \<Rightarrow> NETOBJ \<Rightarrow> u8 \<Rightarrow> bindery \<Rightarrow> int \<times> NETOBJ \<times> bindery" where
  "nw_change_obj_security env ob newsecurity b =
     (let (result, o1, b1) = find_obj_id env ob b; acc = b_acc env (o_id o1) (o_security o1) 0x05
      in if result \<noteq> 0 then (result, o1, b1)
         else if acc \<noteq> 0 then (acc, o1, b1)
         else if \<not> dbm_ok env FNOBJ then (-0xff, o1, b1)
         else case chain_find o_id (o_id o1) (objs b1) of
           None \<Rightarrow> (-0xff, o1, b1)
         | Some x \<Rightarrow> (0, o1, b1\<lparr>objs := chain_put o_id (x\<lparr>o_security := newsecurity\<rparr>) (objs b1)\<rparr>))"

definition nw_get_obj :: "bind_env \<Rightarrow> u32 \<Rightarrow> bindery \<Rightarrow> int + NETOBJ" where
  "nw_get_obj env objid b =
     (if \<not> dbm_ok env FNOBJ then Inl (-0xff)
      else case chain_find o_id objid (objs b) of
        None \<Rightarrow> Inl (-0xfc)
      | Some x \<Rightarrow> let acc = b_acc env objid (o_security x) 0x00 in if acc \<noteq> 0 then Inl acc else Inr x)"

text \<open>The first free id from \<open>i\<close> on; the loop needs at most one step more than there are objects.\<close>

fun free_id :: "nat \<Rightarrow> u32 set \<Rightarrow> u32 \<Rightarrow> u32" where
  "free_id 0 used i = i"
| "free_id (Suc n) used i = (if i \<in> used then free_id n used (i + 1) else i)"

definition nw_create_obj :: "bind_env \<Rightarrow> NETOBJ \<Rightarrow> u32 \<Rightarrow> bindery \<Rightarrow> int \<times> NETOBJ \<times> bindery" where
  "nw_create_obj env ob wanted_id b =
     (let acc = b_acc env 0 0x33 0x02
      in if acc \<noteq> 0 then (acc, ob, b)
         else if \<not> dbm_ok env FNOBJ then (-0xff, ob, b)
         else case find (\<lambda>x. o_type x = o_type ob \<and> o_name x = o_name ob) (obj_order env (objs b)) of
           Some x \<Rightarrow> (-0xee, ob\<lparr>o_id := o_id x\<rparr>, b)
         | None \<Rightarrow>
             let start = (if wanted_id \<noteq> 0 then wanted_id - 1 else push_bit 16 (ucast (o_type ob)) + 1);
                 o1 = ob\<lparr>o_id := free_id (length (objs b)) (o_id ` set (objs b)) (start + 1)\<rparr>
             in (0, o1, snd (snd (handle_iobj env 2 o1 (b\<lparr>objs := chain_put o_id o1 (objs b)\<rparr>)))))"

section \<open>Operations on properties\<close>

definition find_prop_id :: "bind_env \<Rightarrow> cstring \<Rightarrow> u32 \<Rightarrow> int \<Rightarrow> bindery \<Rightarrow> int + NETPROP" where
  "find_prop_id env name obj_id last_prop_id b =
     (if \<not> dbm_ok env FNPROP then Inl (-0xff)
      else let l = filter (\<lambda>p. p_obj_id p = obj_id) (prop_order env (props b));
               l' = (if last_prop_id \<noteq> 0 then tl (dropWhile (\<lambda>p. uint (p_id p) \<noteq> last_prop_id) l) else l)
           in case find (\<lambda>p. name_match (p_name p) name \<and> b_acc env obj_id (p_security p) 0x00 = 0) l' of
                None \<Rightarrow> Inl (-0xfb)
              | Some p \<Rightarrow> Inr p)"

abbreviation find_first_prop_id :: "bind_env \<Rightarrow> cstring \<Rightarrow> u32 \<Rightarrow> bindery \<Rightarrow> int + NETPROP" where
  "find_first_prop_id env name obj_id b \<equiv> find_prop_id env name obj_id 0 b"

definition loc_change_prop_security :: "bind_env \<Rightarrow> cstring \<Rightarrow> u8 \<Rightarrow> u32 \<Rightarrow> bindery \<Rightarrow> int \<times> bindery" where
  "loc_change_prop_security env name security obj_id b =
     (if \<not> dbm_ok env FNPROP then (-0xff, b)
      else case find (\<lambda>p. p_obj_id p = obj_id \<and> name_match (p_name p) name) (prop_order env (props b)) of
        None \<Rightarrow> (-0xfb, b)
      | Some p \<Rightarrow>
          let acc = b_acc env obj_id (p_security p) 0x15
          in if acc \<noteq> 0 then (acc, b)
             else (0, b\<lparr>props := chain_put p_key (p\<lparr>p_security := security\<rparr>) (props b)\<rparr>))"

definition loc_get_prop_val ::
  "bind_env \<Rightarrow> u32 \<Rightarrow> u8 \<Rightarrow> u8 \<Rightarrow> int \<Rightarrow> bindery \<Rightarrow> int + (u8 list \<times> u8)" where
  "loc_get_prop_val env obj_id prop_id prop_security segment b =
     (let acc = b_acc env obj_id prop_security 0x10; seg = word_of_int segment
      in if acc \<noteq> 0 then Inl acc
         else if \<not> dbm_ok env FNVAL then Inl (-0xff)
         else case chain_find v_key (obj_id, prop_id, seg) (vals b) of
           None \<Rightarrow> Inl (-0xec)
         | Some v \<Rightarrow> Inr (v_value v,
             if chain_find v_key (obj_id, prop_id, seg + 1) (vals b) \<noteq> None then 0xff else 0))"

definition ins_prop_val ::
  "bind_env \<Rightarrow> u32 \<Rightarrow> NETPROP \<Rightarrow> int \<Rightarrow> u8 list \<Rightarrow> int \<Rightarrow> bindery \<Rightarrow> int \<times> bindery" where
  "ins_prop_val env obj_id prop segment property_value erase_segments b =
     (let acc = b_acc env obj_id (p_security prop) 0x11; seg = word_of_int segment
      in if acc \<noteq> 0 then (acc, b)
         else if \<not> dbm_ok env FNVAL then (-0xff, b)
         else if 1 < segment \<and> chain_find v_key (obj_id, p_id prop, word_of_int (segment - 1)) (vals b) = None
         then (-0xec, b)
         else let v = \<lparr>v_obj_id = obj_id, v_prop_id = p_id prop, v_segment = seg,
                       v_value = take 128 property_value\<rparr>;
                  vs = chain_put v_key v (vals b)
              in (0, b\<lparr>vals := (if erase_segments = 0xff
                              then del_segments obj_id (p_id prop) (unat seg + 1) (255 - unat seg) vs else vs)\<rparr>))"

definition nw_create_obj_prop :: "bind_env \<Rightarrow> u32 \<Rightarrow> NETPROP \<Rightarrow> bindery \<Rightarrow> int \<times> NETPROP \<times> bindery" where
  "nw_create_obj_prop env obj_id prop b =
     (if \<not> dbm_ok env FNPROP then (-0xff, prop, b)
      else let own = filter (\<lambda>p. p_obj_id p = obj_id) (prop_order env (props b))
           in case find (\<lambda>p. p_name p = p_name prop) own of
                Some p \<Rightarrow>
                  (-0xed, prop\<lparr>p_id := p_id p, p_obj_id := obj_id\<rparr>,
                   if p_security p \<noteq> p_security prop \<or> p_flags p \<noteq> p_flags prop
                   then b\<lparr>props := chain_put p_key (p\<lparr>p_security := p_security prop, p_flags := p_flags prop\<rparr>) (props b)\<rparr>
                   else b)
              | None \<Rightarrow>
                  let k = (case find (\<lambda>k. word_of_nat k \<notin> set (map p_id own)) [1..<256] of
                             Some k \<Rightarrow> k | None \<Rightarrow> 256);
                      p1 = prop\<lparr>p_obj_id := obj_id, p_id := word_of_nat k\<rparr>
                  in (0, p1, b\<lparr>props := chain_put p_key p1 (props b)\<rparr>))"

definition nw_obj_has_prop :: "bind_env \<Rightarrow> u32 \<Rightarrow> bindery \<Rightarrow> int" where
  "nw_obj_has_prop env objid b =
     (if \<not> dbm_ok env FNPROP then -0xff
      else if \<exists>p \<in> set (prop_order env (props b)). p_obj_id p = objid then 1 else 0)"

section \<open>Requests by name\<close>

definition named_obj :: "int \<Rightarrow> cstring \<Rightarrow> nat \<Rightarrow> NETOBJ" where
  "named_obj typ name namlen =
     \<lparr>o_id = 0, o_name = strmaxcpy name namlen, o_type = word_of_int typ, o_flags = 0, o_security = 0\<rparr>"

definition nw_get_prop_val_by_obj_id ::
  "bind_env \<Rightarrow> u32 \<Rightarrow> int \<Rightarrow> cstring \<Rightarrow> nat \<Rightarrow> bindery \<Rightarrow> int + (u8 list \<times> u8 \<times> u8)" where
  "nw_get_prop_val_by_obj_id env obj_id segment_nr prop_name prop_namlen b =
     (case find_first_prop_id env (strmaxcpy prop_name prop_namlen) obj_id b of
        Inl e \<Rightarrow> Inl e
      | Inr p \<Rightarrow>
          (case loc_get_prop_val env obj_id (p_id p) (p_security p) segment_nr b of
             Inl e \<Rightarrow> Inl e
           | Inr (value, mo) \<Rightarrow> Inr (value, mo, p_flags p)))"

definition nw_get_prop_val ::
  "bind_env \<Rightarrow> int \<Rightarrow> cstring \<Rightarrow> nat \<Rightarrow> int \<Rightarrow> cstring \<Rightarrow> nat \<Rightarrow> bindery \<Rightarrow>
     (int + (u8 list \<times> u8 \<times> u8)) \<times> bindery" where
  "nw_get_prop_val env object_type object_name object_namlen segment_nr prop_name prop_namlen b =
     (let (result, ob, b1) = find_obj_id env (named_obj object_type object_name object_namlen) b
      in if result \<noteq> 0 then (Inl result, b1)
         else (nw_get_prop_val_by_obj_id env (o_id ob) segment_nr prop_name prop_namlen b1, b1))"

definition nw_delete_property ::
  "bind_env \<Rightarrow> int \<Rightarrow> cstring \<Rightarrow> nat \<Rightarrow> cstring \<Rightarrow> nat \<Rightarrow> bindery \<Rightarrow> int \<times> bindery" where
  "nw_delete_property env object_type object_name object_namlen prop_name prop_namlen b =
     (let (result, ob, b1) = find_obj_id env (named_obj object_type object_name object_namlen) b
      in if result \<noteq> 0 then (result, b1)
         else loc_delete_property env (o_id ob) (strmaxcpy prop_name prop_namlen) 0 False b1)"

definition nw_is_member_in_set :: "bind_env \<Rightarrow> u32 \<Rightarrow> cstring \<Rightarrow> u32 \<Rightarrow> bindery \<Rightarrow> int" where
  "nw_is_member_in_set env obj_id propname member_id b =
     (case find_first_prop_id env (strmaxcpy propname 16) obj_id b of
        Inl e \<Rightarrow> e
      | Inr p \<Rightarrow> prop_find_member env obj_id (p_id p) (p_security p) member_id b)"

text \<open>The common start of the three requests on sets: the object, its property and the member.\<close>

definition find_set ::
  "bind_env \<Rightarrow> NETOBJ \<Rightarrow> cstring \<Rightarrow> NETOBJ \<Rightarrow> bindery \<Rightarrow> (int + (NETOBJ \<times> NETPROP \<times> NETOBJ)) \<times> bindery" where
  "find_set env ob prop_name mobj b =
     (let (result, o1, b1) = find_obj_id env ob b
      in if result \<noteq> 0 then (Inl result, b1)
         else case find_first_prop_id env prop_name (o_id o1) b1 of
           Inl e \<Rightarrow> (Inl e, b1)
         | Inr p \<Rightarrow>
             let (r2, m1, b2) = find_obj_id env mobj b1
             in if r2 \<noteq> 0 then (Inl r2, b2) else (Inr (o1, p, m1), b2))"

definition nw_is_obj_in_set ::
  "bind_env \<Rightarrow> int \<Rightarrow> cstring \<Rightarrow> nat \<Rightarrow> cstring \<Rightarrow> nat \<Rightarrow> int \<Rightarrow> cstring \<Rightarrow> nat \<Rightarrow> bindery \<Rightarrow> int \<times> bindery" where
  "nw_is_obj_in_set env object_type object_name object_namlen prop_name prop_namlen member_type member_name
      member_namlen b =
     (case find_set env (named_obj object_type object_name object_namlen) (strmaxcpy prop_name prop_namlen)
             (named_obj member_type member_name member_namlen) b of
        (Inl e, b1) \<Rightarrow> (e, b1)
      | (Inr (ob, p, m), b1) \<Rightarrow> (prop_find_member env (o_id ob) (p_id p) (p_security p) (o_id m) b1, b1))"

definition nw_add_obj_to_set ::
  "bind_env \<Rightarrow> int \<Rightarrow> cstring \<Rightarrow> nat \<Rightarrow> cstring \<Rightarrow> nat \<Rightarrow> int \<Rightarrow> cstring \<Rightarrow> nat \<Rightarrow> bindery \<Rightarrow> int \<times> bindery" where
  "nw_add_obj_to_set env object_type object_name object_namlen prop_name prop_namlen member_type member_name
      member_namlen b =
     (case find_set env (named_obj object_type object_name object_namlen) (strmaxcpy prop_name prop_namlen)
             (named_obj member_type member_name member_namlen) b of
        (Inl e, b1) \<Rightarrow> (e, b1)
      | (Inr (ob, p, m), b1) \<Rightarrow>
          let r = prop_find_member env (o_id ob) (p_id p) (p_security p) (o_id m) b1
          in if r = -0xea then prop_add_member env (o_id ob) (p_id p) (p_security p) (o_id m) b1
             else if r = 0 then (-0xe9, b1) else (r, b1))"

definition nw_delete_obj_from_set ::
  "bind_env \<Rightarrow> int \<Rightarrow> cstring \<Rightarrow> nat \<Rightarrow> cstring \<Rightarrow> nat \<Rightarrow> int \<Rightarrow> cstring \<Rightarrow> nat \<Rightarrow> bindery \<Rightarrow> int \<times> bindery" where
  "nw_delete_obj_from_set env object_type object_name object_namlen prop_name prop_namlen member_type member_name
      member_namlen b =
     (case find_set env (named_obj object_type object_name object_namlen) (strmaxcpy prop_name prop_namlen)
             (named_obj member_type member_name member_namlen) b of
        (Inl e, b1) \<Rightarrow> (e, b1)
      | (Inr (ob, p, m), b1) \<Rightarrow> prop_delete_member env (o_id ob) (p_id p) (p_security p) (o_id m) b1)"

definition nw_write_prop_value ::
  "bind_env \<Rightarrow> int \<Rightarrow> cstring \<Rightarrow> nat \<Rightarrow> int \<Rightarrow> int \<Rightarrow> cstring \<Rightarrow> nat \<Rightarrow> u8 list \<Rightarrow> bindery \<Rightarrow> int \<times> bindery" where
  "nw_write_prop_value env object_type object_name object_namlen segment_nr erase_segments prop_name prop_namlen
      property_value b =
     (let (result, ob, b1) = find_obj_id env (named_obj object_type object_name object_namlen) b
      in if result \<noteq> 0 then (result, b1)
         else case find_first_prop_id env (strmaxcpy prop_name prop_namlen) (o_id ob) b1 of
           Inl e \<Rightarrow> (e, b1)
         | Inr p \<Rightarrow> ins_prop_val env (o_id ob) p segment_nr property_value erase_segments b1)"

definition nw_change_prop_security ::
  "bind_env \<Rightarrow> int \<Rightarrow> cstring \<Rightarrow> nat \<Rightarrow> cstring \<Rightarrow> nat \<Rightarrow> int \<Rightarrow> bindery \<Rightarrow> int \<times> bindery" where
  "nw_change_prop_security env object_type object_name object_namlen prop_name prop_namlen prop_security b =
     (let (result, ob, b1) = find_obj_id env (named_obj object_type object_name object_namlen) b
      in if result = 0
         then loc_change_prop_security env (strmaxcpy prop_name prop_namlen) (word_of_int prop_security) (o_id ob) b1
         else (-0xff, b1))"

definition nw_scan_property ::
  "bind_env \<Rightarrow> int \<Rightarrow> cstring \<Rightarrow> nat \<Rightarrow> cstring \<Rightarrow> nat \<Rightarrow> u32 \<Rightarrow> bindery \<Rightarrow>
     (int \<times> NETPROP option \<times> u32) \<times> bindery" where
  "nw_scan_property env object_type object_name object_namlen prop_name prop_namlen last_scan b =
     (let (result, ob, b1) = find_obj_id env (named_obj object_type object_name object_namlen) b
      in if result \<noteq> 0 then ((result, None, last_scan), b1)
         else let last = (if last_scan = 0xffffffff then 0 else last_scan)
              in case find_prop_id env (strmaxcpy prop_name prop_namlen) (o_id ob) (sint last) b1 of
                   Inl e \<Rightarrow> ((e, None, last), b1)
                 | Inr p \<Rightarrow>
                     ((case loc_get_prop_val env (o_id ob) (p_id p) (p_security p) 1 b1 of
                         Inl _ \<Rightarrow> 0 | Inr _ \<Rightarrow> 0xff, Some p, ucast (p_id p)), b1))"

definition nw_get_prop_val_str :: "bind_env \<Rightarrow> u32 \<Rightarrow> cstring \<Rightarrow> bindery \<Rightarrow> int \<times> u8 list" where
  "nw_get_prop_val_str env q_id propname b =
     (case nw_get_prop_val_by_obj_id env q_id 1 propname (length propname) b of
        Inl e \<Rightarrow> (e, [])
      | Inr (value, _, _) \<Rightarrow> (int (length (takeWhile (\<lambda>c. c \<noteq> 0) value)), value))"

definition nw_create_prop ::
  "bind_env \<Rightarrow> int \<Rightarrow> cstring \<Rightarrow> nat \<Rightarrow> cstring \<Rightarrow> nat \<Rightarrow> int \<Rightarrow> int \<Rightarrow> bindery \<Rightarrow> int \<times> bindery" where
  "nw_create_prop env object_type object_name object_namlen prop_name prop_namlen prop_flags prop_security b =
     (let (result, ob, b1) = find_obj_id env (named_obj object_type object_name object_namlen) b;
          acc = b_acc env (o_id ob) (o_security ob) 0x12
      in if result \<noteq> 0 then (result, b1)
         else if acc \<noteq> 0 then (acc, b1)
         else let (r, _, b2) = nw_create_obj_prop env (o_id ob)
                    \<lparr>p_obj_id = 0, p_id = 0, p_name = strmaxcpy prop_name prop_namlen,
                     p_flags = word_of_int prop_flags, p_security = word_of_int prop_security\<rparr> b1
              in (r, b2))"

section \<open>Set-up routines\<close>

definition nw_new_obj :: "bind_env \<Rightarrow> u32 \<Rightarrow> cstring \<Rightarrow> int \<Rightarrow> int \<Rightarrow> int \<Rightarrow> bindery \<Rightarrow> int \<times> u32 \<times> bindery" where
  "nw_new_obj env wanted_id objname objtype objflags objsecurity b =
     (let (result, ob, b1) = nw_create_obj env
            \<lparr>o_id = 0, o_name = strmaxcpy objname 47, o_type = word_of_int objtype, o_flags = word_of_int objflags,
             o_security = word_of_int objsecurity\<rparr> wanted_id b
      in (result, o_id ob, b1))"

definition nw_new_obj_prop ::
  "bind_env \<Rightarrow> u32 \<Rightarrow> cstring \<Rightarrow> int \<Rightarrow> int \<Rightarrow> int \<Rightarrow> cstring \<Rightarrow> int \<Rightarrow> int \<Rightarrow> u8 list \<Rightarrow> nat \<Rightarrow> bool \<Rightarrow>
     bindery \<Rightarrow> u32 \<times> bindery" where
  "nw_new_obj_prop env wanted_id objname objtype objflags objsecurity propname propflags propsecurity value
      valuesize ever b =
     (let (id1, b1) = (if objname \<noteq> [] then snd (nw_new_obj env wanted_id objname objtype objflags objsecurity b)
                       else (wanted_id, b))
      in if propname \<noteq> [] \<and> b_acc env id1 (word_of_int objsecurity) 0x12 = 0 then
           let (result, p, b2) = nw_create_obj_prop env id1
                 \<lparr>p_obj_id = 0, p_id = 0, p_name = strmaxcpy propname 16, p_flags = word_of_int propflags,
                  p_security = word_of_int propsecurity\<rparr> b1
           in if valuesize \<noteq> 0 \<and> (result = 0 \<or> result = -0xed \<and> ever)
              then (id1, snd (ins_prop_val env id1 p 1
                       (take (min 128 valuesize) value @ replicate (128 - min 128 valuesize) 0) 0xff b2))
              else (id1, b2)
         else (id1, b1))"

definition nw_new_add_prop_member ::
  "bind_env \<Rightarrow> u32 \<Rightarrow> cstring \<Rightarrow> u8 \<Rightarrow> u8 \<Rightarrow> u32 \<Rightarrow> bindery \<Rightarrow> int \<times> bindery" where
  "nw_new_add_prop_member env obj_id propname propflags propsecurity member_id b =
     (let (result, p, b1) = nw_create_obj_prop env obj_id
            \<lparr>p_obj_id = 0, p_id = 0, p_name = strmaxcpy propname 16, p_flags = propflags OR P_FL_SET,
             p_security = propsecurity\<rparr> b
      in if result = 0 \<or> result = -0xed then
           let r = prop_find_member env obj_id (p_id p) (p_security p) member_id b1
           in if r = -0xea then prop_add_member env obj_id (p_id p) (p_security p) member_id b1
              else if r = 0 then (-0xee, b1) else (r, b1)
         else (result, b1))"

definition nw_is_security_equal :: "bind_env \<Rightarrow> u32 \<Rightarrow> u32 \<Rightarrow> bindery \<Rightarrow> int" where
  "nw_is_security_equal env id1 id2 b = nw_is_member_in_set env id2 (cstr ''SECURITY_EQUALS'') id1 b"

definition get_groups_i_m_in :: "bind_env \<Rightarrow> u32 \<Rightarrow> bindery \<Rightarrow> u32 list" where
  "get_groups_i_m_in env objid b =
     (case nw_get_prop_val_by_obj_id env objid 1 (cstr ''GROUPS_I'' @ [39] @ cstr ''M_IN'') 13 b of
        Inl _ \<Rightarrow> []
      | Inr (value, _, _) \<Rightarrow> filter (\<lambda>g. g \<noteq> 0) (ids_of value))"

definition add_user_to_group :: "bind_env \<Rightarrow> u32 \<Rightarrow> u32 \<Rightarrow> bindery \<Rightarrow> bindery" where
  "add_user_to_group env u_id g_id b =
     (let b1 = snd (nw_new_add_prop_member env u_id (cstr ''GROUPS_I'' @ [39] @ cstr ''M_IN'') 0 0x31 g_id b);
          b2 = snd (nw_new_add_prop_member env u_id (cstr ''SECURITY_EQUALS'') 0 0x32 g_id b1)
      in snd (nw_new_add_prop_member env g_id (cstr ''GROUP_MEMBERS'') 0 0x31 u_id b2))"

definition add_user_2_unx :: "bind_env \<Rightarrow> u32 \<Rightarrow> cstring \<Rightarrow> bindery \<Rightarrow> bindery" where
  "add_user_2_unx env u_id unname b =
     (if unname \<noteq> []
      then snd (nw_new_obj_prop env u_id [] 0 0 0 (cstr ''UNIX_USER'') 0 0x30 unname (length unname) True b)
      else b)"

definition add_group :: "bind_env \<Rightarrow> cstring \<Rightarrow> cstring \<Rightarrow> bindery \<Rightarrow> bindery" where
  "add_group env name unname b =
     (let (_, g_id, b1) = nw_new_obj env 0 name 0x2 0x0 0x31 b
      in if unname \<noteq> []
         then snd (nw_new_obj_prop env g_id [] 0 0 0 (cstr ''UNIX_GROUP'') 0 0x33 unname (length unname) True b1)
         else b1)"

definition add_remove_special_flags :: "bind_env \<Rightarrow> u32 \<Rightarrow> u32 \<Rightarrow> bindery \<Rightarrow> bindery" where
  "add_remove_special_flags env obj_id flags b =
     (if flags \<noteq> 0
      then snd (nw_new_obj_prop env obj_id [] 0 0 0 (cstr ''SP_SU_FLAGS'') 0 0x33 (u32_to_be32 flags) 4 True b)
      else snd (loc_delete_property env obj_id (cstr ''SP_SU_FLAGS'') 0 True b))"

definition test_allow_password_change :: "bind_env \<Rightarrow> u32 \<Rightarrow> bindery \<Rightarrow> int" where
  "test_allow_password_change env objid b =
     (if (case nw_get_prop_val_by_obj_id env objid 1 (cstr ''SP_SU_FLAGS'') 11 b of
            Inl _ \<Rightarrow> False | Inr (value, _, _) \<Rightarrow> bit (get_be32 value) 0) then -0xff
      else if (case nw_get_prop_val_by_obj_id env objid 1 (cstr ''LOGIN_CONTROL'') 13 b of
            Inl _ \<Rightarrow> False | Inr (value, _, _) \<Rightarrow> bit (value ! 62) 0) then -0xff
      else 0)"

text \<open>The first part of the start: everything dynamic is deleted, and users with a wrong security are
  corrected.\<close>

definition is_dynamic :: "NETOBJ \<Rightarrow> bool" where
  "is_dynamic x = (o_flags x AND 1 \<noteq> 0 \<or> o_name x = [])"

text \<open>The scan of the objects: the ids to delete and the ids to correct; it ends with the
  \<open>n\<close>-th dynamic object.\<close>

fun scan_dynamic :: "nat \<Rightarrow> NETOBJ list \<Rightarrow> u32 list \<times> u32 list" where
  "scan_dynamic n [] = ([], [])"
| "scan_dynamic n (x # xs) =
     (if is_dynamic x then
        if n \<le> 1 then ([o_id x], [])
        else let (d, c) = scan_dynamic (n - 1) xs in (o_id x # d, c)
      else let (d, c) = scan_dynamic n xs
           in (d, if o_type x = 1 \<and> o_security x \<noteq> 0x31 then o_id x # c else c))"

definition nw_init_dbm_1 :: "bind_env \<Rightarrow> bindery \<Rightarrow> bindery" where
  "nw_init_dbm_1 env b =
     (let (dyn, wrong) = (if dbm_ok env FNOBJ then scan_dynamic LOC_MAX_OBJS (obj_order env (objs b)) else ([], []));
          b1 = b\<lparr>objs := map (\<lambda>x. if o_id x \<in> set wrong then x\<lparr>o_security := 0x31\<rparr> else x) (objs b)\<rparr>;
          b2 = fold (\<lambda>i t. snd (loc_delete_obj env i t)) (rev dyn) b1;
          dp = (if dbm_ok env FNPROP
                then take LOC_MAX_OBJS (map p_key (filter (\<lambda>p. p_flags p AND 1 \<noteq> 0) (prop_order env (props b2)))) else [])
      in fold (\<lambda>(ob, pr) t. snd (loc_delete_property env ob [] pr True t)) (rev dp) b2)"

end
