(* ===== verification/BinderyLaws.thy ===== *)
theory BinderyLaws
  imports Bindery "HOL-Library.Multiset"
begin

text \<open>Laws of the bindery: what the records of a property value mean (segments without gaps, the members
  of a set as a multiset), which binderies are sound, and that deleting by name and deleting objects
  does to a sound bindery what their callers rely on.\<close>

section \<open>Files of records\<close>

lemma chain_del_filter: "distinct (map key xs) \<Longrightarrow> chain_del key k xs = filter (\<lambda>x. key x \<noteq> k) xs"
proof (induction xs)
  case (Cons x xs)
  have "\<forall>y \<in> set xs. key y \<noteq> key x" using Cons.prems by (metis distinct.simps(2) image_eqI list.map(2) set_map)
  then have "filter (\<lambda>y. key y \<noteq> key x) xs = xs" by (simp add: filter_id_conv)
  then show ?case using Cons by auto
qed simp

lemma chain_del_absent: "k \<notin> key ` set xs \<Longrightarrow> chain_del key k xs = xs"
  by (induction xs) auto

lemma set_chain_put:
  "distinct (map key xs) \<Longrightarrow> set (chain_put key y xs) = insert y {x \<in> set xs. key x \<noteq> key y}"
proof (induction xs)
  case (Cons x xs)
  have "key x = key y \<Longrightarrow> key y \<notin> key ` set xs" using Cons.prems by auto
  then show ?case using Cons by (auto simp: rev_image_eqI)
qed simp

lemma chain_find_Some_iff:
  "distinct (map key xs) \<Longrightarrow> chain_find key k xs = Some x \<longleftrightarrow> x \<in> set xs \<and> key x = k"
proof (induction xs)
  case (Cons y xs)
  have "key y \<notin> key ` set xs" using Cons.prems by simp
  then show ?case using Cons by (auto simp: rev_image_eqI) 
qed simp

section \<open>The ids in a segment\<close>

lemma take_drop_prefix:
  "a + n \<le> b \<Longrightarrow> b \<le> length v \<Longrightarrow> take n (drop a (take b v @ x)) = take n (drop a v)"
  by (rule nth_equalityI) (auto simp: nth_append)

lemma length_ids_of [simp]: "length (ids_of v) = 32" by (simp add: ids_of_def)

lemma nth_ids_of [simp]: "k < 32 \<Longrightarrow> ids_of v ! k = nth_id v k" by (simp add: ids_of_def)

lemma ids_of_put:
  assumes "length v = 128" and "k < 32"
  shows "ids_of (put_id v k m) = (ids_of v)[k := m]"
proof (rule nth_equalityI)
  fix j assume j: "j < length (ids_of (put_id v k m))"
  have be: "get_be32 (take 4 (u32_to_be32 m @ r)) = m" for r
    using get_be32_u32_to_be32 [of m "[]"] by simp
  consider "j = k" | "j < k" | "k < j" by linarith
  then show "ids_of (put_id v k m) ! j = (ids_of v)[k := m] ! j"
  proof cases
    case 1
    then show ?thesis using assms j be by (simp add: nth_id_def put_id_def)
  next
    case 2
    then have "4 * j + 4 \<le> 4 * k" by simp
    then have "take 4 (drop (4 * j) (take (4 * k) v @ x)) = take 4 (drop (4 * j) v)" for x
      using assms by (intro take_drop_prefix) auto
    then show ?thesis using assms j 2 by (simp add: nth_id_def put_id_def)
  next
    case 3
    then have "drop (4 * j) (take (4 * k) v @ u32_to_be32 m @ drop (4 * k + 4) v) = drop (4 * j) v"
      using assms by simp
    then show ?thesis using assms j 3 by (simp add: nth_id_def put_id_def)
  qed
qed simp

lemma ids_of_remove:
  assumes "length v = 128" and "k < 32"
  shows "ids_of (remove_id v k) = take k (ids_of v) @ drop (Suc k) (ids_of v) @ [0]"
proof (rule nth_equalityI)
  fix j assume j: "j < length (ids_of (remove_id v k))"
  consider "j < k" | "k \<le> j" "j < 31" | "j = 31" "k \<le> 31" using j assms by fastforce
  then show "ids_of (remove_id v k) ! j = (take k (ids_of v) @ drop (Suc k) (ids_of v) @ [0]) ! j"
  proof cases
    case 1
    then have "4 * j + 4 \<le> 4 * k" by simp
    then have "take 4 (drop (4 * j) (take (4 * k) v @ x)) = take 4 (drop (4 * j) v)" for x
      using assms by (intro take_drop_prefix) auto
    then show ?thesis using assms j 1 by (simp add: nth_id_def remove_id_def nth_append)
  next
    case 2
    then have "take 4 (drop (4 * j) (take (4 * k) v @ drop (4 * k + 4) v @ x)) = take 4 (drop (4 * Suc j) v)" for x
      using assms by (simp add: add.commute add.left_commute)
    then show ?thesis using assms 2 by (simp add: nth_id_def remove_id_def nth_append)
  next
    case 3
    have z: "get_be32 (replicate 4 0) = 0" by (simp add: numeral_eq_Suc)
    have "take 4 (drop (4 * j) (take (4 * k) v @ drop (4 * k + 4) v @ replicate 4 0)) = replicate 4 0"
      using assms 3 by simp
    then show ?thesis using assms 3 z by (simp add: nth_id_def remove_id_def nth_append)
  qed
qed (use assms in simp)

lemma length_put_id: "length v = 128 \<Longrightarrow> k < 32 \<Longrightarrow> length (put_id v k m) = 128"
  by (simp add: put_id_def)

lemma length_remove_id: "length v = 128 \<Longrightarrow> k < 32 \<Longrightarrow> length (remove_id v k) = 128"
  by (simp add: remove_id_def)

lemma find_index_Some: "find_index P xs = Some k \<Longrightarrow> k < length xs \<and> P (xs ! k)"
  by (induction xs arbitrary: k) (auto split: if_splits)

lemma find_index_None: "find_index P xs = None \<longleftrightarrow> (\<forall>x \<in> set xs. \<not> P x)"
  by (induction xs) auto

text \<open>The ids other than zero, with how often each occurs.\<close>

definition live_ids :: "u8 list \<Rightarrow> u32 multiset" where
  "live_ids v = filter_mset (\<lambda>x. x \<noteq> 0) (mset (ids_of v))"

lemma live_put:
  assumes "length v = 128" and "find_index (\<lambda>x. x = 0) (ids_of v) = Some k" and "m \<noteq> 0"
  shows "live_ids (put_id v k m) = add_mset m (live_ids v)"
proof -
  have k: "k < 32" "ids_of v ! k = 0" using find_index_Some [OF assms(2)] by auto
  then show ?thesis
    using assms by (simp add: live_ids_def ids_of_put mset_update del: nth_ids_of)
qed

lemma live_remove:
  assumes "length v = 128" and "find_index (\<lambda>x. x = m) (ids_of v) = Some k" and "m \<noteq> 0"
  shows "live_ids v = add_mset m (live_ids (remove_id v k))"
proof -
  have k: "k < 32" "ids_of v ! k = m" using find_index_Some [OF assms(2)] by auto
  have "mset (ids_of v) = add_mset m (mset (take k (ids_of v)) + mset (drop (Suc k) (ids_of v)))"
    using id_take_nth_drop [of k "ids_of v"] k by (metis length_ids_of mset.simps(2) mset_append union_mset_add_mset_right)
  then show ?thesis using assms k by (simp add: live_ids_def ids_of_remove)
qed

lemma ids_of_zeros: "ids_of (replicate 128 0) = replicate 32 0"
proof (rule nth_equalityI)
  have z: "get_be32 (replicate 4 0) = 0" by (simp add: numeral_eq_Suc)
  fix j assume "j < length (ids_of (replicate 128 0))"
  then show "ids_of (replicate 128 0) ! j = (replicate 32 0 :: u32 list) ! j"
    using z by (simp add: nth_id_def)
qed simp

lemma live_single: "m \<noteq> 0 \<Longrightarrow> live_ids (put_id (replicate 128 0) 0 m) = {#m#}"
proof -
  assume "m \<noteq> 0"
  moreover have "filter_mset (\<lambda>x. x \<noteq> 0) (mset (replicate n (0::u32))) = {#}" for n
    by (induction n) auto
  moreover have "(replicate 32 (0::u32))[0 := m] = m # replicate 31 0" by (simp add: numeral_eq_Suc)
  ultimately show ?thesis by (simp add: live_ids_def ids_of_put ids_of_zeros)
qed

lemma in_live: "m \<noteq> 0 \<Longrightarrow> m \<in># live_ids v \<longleftrightarrow> m \<in> set (ids_of v)"
  by (simp add: live_ids_def)

section \<open>Sound value files\<close>

definition seg_key :: "u32 \<Rightarrow> u8 \<Rightarrow> nat \<Rightarrow> u32 \<times> u8 \<times> u8" where
  "seg_key ob pr l = (ob, pr, word_of_nat l)"

definition vals_ok :: "NETVAL list \<Rightarrow> bool" where
  "vals_ok vs =
     (distinct (map v_key vs) \<and>
      (\<forall>v \<in> set vs. length (v_value v) = 128 \<and> v_segment v \<noteq> 0 \<and>
         (v_segment v \<noteq> 1 \<longrightarrow> (v_obj_id v, v_prop_id v, v_segment v - 1) \<in> v_key ` set vs)))"

lemma seg_inj: "l < 256 \<Longrightarrow> l' < 256 \<Longrightarrow> seg_key ob pr l = seg_key ob' pr' l' \<longleftrightarrow> ob = ob' \<and> pr = pr' \<and> l = l'"
  by (auto simp: seg_key_def word_of_nat_eq_iff take_bit_nat_eq_self)

lemma unat_seg: "l < 256 \<Longrightarrow> unat (word_of_nat l :: u8) = l"
  by (simp add: unsigned_of_nat take_bit_nat_eq_self)

text \<open>What \<^const>\<open>chain_find\<close> sees of segment \<open>l\<close>.\<close>

definition seg :: "NETVAL list \<Rightarrow> u32 \<Rightarrow> u8 \<Rightarrow> nat \<Rightarrow> NETVAL option" where
  "seg vs ob pr l = chain_find v_key (seg_key ob pr l) vs"

lemma seg_Some: "distinct (map v_key vs) \<Longrightarrow> seg vs ob pr l = Some v \<longleftrightarrow> v \<in> set vs \<and> v_key v = seg_key ob pr l"
  by (simp add: seg_def chain_find_Some_iff)

lemma seg_None: "seg vs ob pr l = None \<longleftrightarrow> seg_key ob pr l \<notin> v_key ` set vs"
  by (simp add: seg_def chain_find_None)

lemma segs_contiguous:
  assumes ok: "vals_ok vs"
  shows "1 \<le> l \<Longrightarrow> l \<le> l' \<Longrightarrow> l' < 256 \<Longrightarrow> seg vs ob pr l = None \<Longrightarrow> seg vs ob pr l' = None"
proof (induction l')
  case (Suc l')
  show ?case
  proof (cases "l = Suc l'")
    case False
    then have n: "seg vs ob pr l' = None" using Suc by simp
    show ?thesis
    proof (rule ccontr)
      assume "seg vs ob pr (Suc l') \<noteq> None"
      then have "seg_key ob pr (Suc l') \<in> v_key ` set vs" by (simp add: seg_None)
      then obtain v where v: "v \<in> set vs" "v_key v = seg_key ob pr (Suc l')" by auto
      then have "v_segment v \<noteq> 1"
        using Suc.prems False unat_seg [of "Suc l'"] by (auto simp: v_key_def seg_key_def)
      then have "(v_obj_id v, v_prop_id v, v_segment v - 1) \<in> v_key ` set vs"
        using ok v by (auto simp: vals_ok_def)
      moreover have "(v_obj_id v, v_prop_id v, v_segment v - 1) = seg_key ob pr l'"
        using v(2) by (simp add: v_key_def seg_key_def)
      ultimately show False using n by (simp add: seg_None)
    qed
  qed (use Suc.prems in simp)
qed simp

text \<open>The members of a set property, counted over its segments.\<close>

definition part :: "NETVAL option \<Rightarrow> u32 multiset" where
  "part x = (case x of None \<Rightarrow> {#} | Some v \<Rightarrow> live_ids (v_value v))"

definition members :: "NETVAL list \<Rightarrow> u32 \<Rightarrow> u8 \<Rightarrow> u32 multiset" where
  "members vs ob pr = (\<Sum>l \<in> {1..<256}. part (seg vs ob pr l))"

lemma seg_put:
  "v_key v = seg_key ob pr l \<Longrightarrow> l < 256 \<Longrightarrow> l' < 256 \<Longrightarrow>
     seg (chain_put v_key v vs) ob' pr' l' = (if (ob', pr', l') = (ob, pr, l) then Some v else seg vs ob' pr' l')"
  by (auto simp: seg_def seg_inj)

lemma members_put:
  assumes "v_key v = seg_key ob pr l" and "1 \<le> l" and "l < 256"
  shows "members (chain_put v_key v vs) ob pr + part (seg vs ob pr l) = members vs ob pr + live_ids (v_value v)"
    and "(ob', pr') \<noteq> (ob, pr) \<Longrightarrow> members (chain_put v_key v vs) ob' pr' = members vs ob' pr'"
proof -
  have l: "l \<in> {1..<256}" using assms by simp
  have other: "(\<Sum>k \<in> {1..<256} - {l}. part (seg (chain_put v_key v vs) ob pr k)) =
      (\<Sum>k \<in> {1..<256} - {l}. part (seg vs ob pr k))"
    using seg_put [OF assms(1,3)] by (intro sum.cong) auto
  have "members (chain_put v_key v vs) ob pr = live_ids (v_value v) + (\<Sum>k \<in> {1..<256} - {l}. part (seg vs ob pr k))"
    unfolding members_def using sum.remove [OF _ l, of "\<lambda>k. part (seg (chain_put v_key v vs) ob pr k)"]
      seg_put [OF assms(1,3,3), where vs = vs and ob' = ob and pr' = pr] other by (simp add: part_def)
  moreover have "members vs ob pr = part (seg vs ob pr l) + (\<Sum>k \<in> {1..<256} - {l}. part (seg vs ob pr k))"
    unfolding members_def using sum.remove [OF _ l, of "\<lambda>k. part (seg vs ob pr k)"] by simp
  ultimately show "members (chain_put v_key v vs) ob pr + part (seg vs ob pr l) = members vs ob pr + live_ids (v_value v)"
    by (simp add: ac_simps)
  show "(ob', pr') \<noteq> (ob, pr) \<Longrightarrow> members (chain_put v_key v vs) ob' pr' = members vs ob' pr'"
    unfolding members_def using seg_put [OF assms(1,3)] by (intro sum.cong) auto
qed

lemma vals_ok_put:
  assumes ok: "vals_ok vs" and v: "length (v_value v) = 128" "v_segment v \<noteq> 0"
    and prev: "v_segment v \<noteq> 1 \<Longrightarrow> (v_obj_id v, v_prop_id v, v_segment v - 1) \<in> v_key ` set vs"
  shows "vals_ok (chain_put v_key v vs)"
proof -
  have d: "distinct (map v_key vs)" using ok by (simp add: vals_ok_def)
  have k: "v_key ` set (chain_put v_key v vs) = insert (v_key v) (v_key ` set vs)" by (rule keys_put)
  show ?thesis
    unfolding vals_ok_def k using distinct_put [OF d, of v] ok v prev set_put [of v_key v vs]
    by (auto simp: vals_ok_def)
qed

lemma vals_ok_same_key:
  "vals_ok vs \<Longrightarrow> v \<in> set vs \<Longrightarrow> length w = 128 \<Longrightarrow> vals_ok (chain_put v_key (v\<lparr>v_value := w\<rparr>) vs)"
  by (rule vals_ok_put) (auto simp: vals_ok_def v_key_def)

section \<open>The set operations\<close>

lemma not_member:
  "(\<And>k. 1 \<le> k \<Longrightarrow> k < 256 \<Longrightarrow> m \<notin># part (seg vs ob pr k)) \<Longrightarrow> m \<notin># members vs ob pr"
  by (auto simp: members_def set_mset_sum)

lemma member_in_part:
  "m \<in># members vs ob pr \<longleftrightarrow> (\<exists>k. 1 \<le> k \<and> k < 256 \<and> m \<in># part (seg vs ob pr k))"
  by (auto simp: members_def set_mset_sum)

lemma mset_cancel:
  assumes "A + add_mset m X = B + X" shows "A = B - {#m#}"
proof -
  have "add_mset m A + X = B + X" using assms by simp
  then have "add_mset m A = B" by (rule add_right_imp_eq)
  then show ?thesis by auto
qed

lemma del_member_spec:
  assumes m: "m \<noteq> 0"
  shows "vals_ok vs \<Longrightarrow> l + n = 256 \<Longrightarrow> 1 \<le> l \<Longrightarrow>
     vals_ok (del_member ob pr m l n vs) \<and>
     v_key ` set (del_member ob pr m l n vs) = v_key ` set vs \<and>
     (\<forall>ob' pr'. (ob', pr') \<noteq> (ob, pr) \<longrightarrow> members (del_member ob pr m l n vs) ob' pr' = members vs ob' pr') \<and>
     ((\<forall>k. 1 \<le> k \<longrightarrow> k < l \<longrightarrow> m \<notin># part (seg vs ob pr k)) \<longrightarrow>
        members (del_member ob pr m l n vs) ob pr = members vs ob pr - {#m#})"
proof (induction n arbitrary: l)
  case 0
  then show ?case by (simp add: not_member diff_single_trivial)
next
  case (Suc n)
  have d: "distinct (map v_key vs)" using Suc.prems by (simp add: vals_ok_def)
  show ?case
  proof (cases "seg vs ob pr l")
    case None
    have "m \<notin># part (seg vs ob pr k)"
      if "\<forall>k. 1 \<le> k \<longrightarrow> k < l \<longrightarrow> m \<notin># part (seg vs ob pr k)" "1 \<le> k" "k < 256" for k
      using that segs_contiguous [OF Suc.prems(1) Suc.prems(3) _ _ None, of k] by (cases "k < l") (auto simp: part_def)
    then have "(\<forall>k. 1 \<le> k \<longrightarrow> k < l \<longrightarrow> m \<notin># part (seg vs ob pr k)) \<longrightarrow> members vs ob pr - {#m#} = members vs ob pr"
      using not_member [where m = m and vs = vs and ob = ob and pr = pr] diff_single_trivial [of m "members vs ob pr"] by blast
    then show ?thesis using None Suc.prems(1) by (simp add: seg_def seg_key_def)
  next
    case s: (Some v)
    then have v: "v \<in> set vs" "v_key v = seg_key ob pr l" "length (v_value v) = 128"
      using Suc.prems(1) by (auto simp: seg_Some [OF d] vals_ok_def)
    show ?thesis
    proof (cases "find_index (\<lambda>x. x = m) (ids_of (v_value v))")
      case None
      then have "m \<notin># part (seg vs ob pr l)" using s m by (auto simp: part_def in_live find_index_None)
      moreover have "del_member ob pr m l (Suc n) vs = del_member ob pr m (Suc l) n vs"
        using s None by (simp add: seg_def seg_key_def)
      ultimately show ?thesis
        using Suc.IH [of "Suc l"] Suc.prems by (simp add: less_Suc_eq)
    next
      case (Some k)
      let ?v = "v\<lparr>v_value := remove_id (v_value v) k\<rparr>"
      have k: "v_key ?v = seg_key ob pr l" "k < 32" using v(2) find_index_Some [OF Some] by (auto simp: v_key_def)
      have e: "del_member ob pr m l (Suc n) vs = chain_put v_key ?v vs"
        using Some s by (simp add: seg_def seg_key_def)
      have l: "l < 256" using Suc.prems by simp
      note put = members_put [OF k(1) Suc.prems(3) l, where vs = vs]
      have "members (chain_put v_key ?v vs) ob pr + live_ids (v_value v) = members vs ob pr + live_ids (v_value ?v)"
        using put(1) s by (simp add: part_def)
      then have mem: "members (chain_put v_key ?v vs) ob pr = members vs ob pr - {#m#}"
        unfolding live_remove [OF v(3) Some m] by (intro mset_cancel) simp
      have "v_key ` set (chain_put v_key ?v vs) = v_key ` set vs"
        using keys_put [where key = v_key and y = ?v and xs = vs] v(1,2) k(1) by (metis image_eqI insert_absorb)
      then show ?thesis
        unfolding e using put(2) mem vals_ok_same_key [OF Suc.prems(1) v(1) length_remove_id [OF v(3) k(2)]] by blast
    qed
  qed
qed

lemma add_member_spec:
  assumes m: "m \<noteq> 0"
  shows "vals_ok vs \<Longrightarrow> l + n = 256 \<Longrightarrow> 1 \<le> l \<Longrightarrow> (l \<noteq> 1 \<longrightarrow> seg vs ob pr (l - 1) \<noteq> None) \<Longrightarrow>
     add_member ob pr m l n vs = (r, vs') \<Longrightarrow>
     vals_ok vs' \<and> set vs' \<subseteq> set vs \<union> {v. v_obj_id v = ob \<and> v_prop_id v = pr} \<and>
     (\<forall>ob' pr'. (ob', pr') \<noteq> (ob, pr) \<longrightarrow> members vs' ob' pr' = members vs ob' pr') \<and>
     (r = 0 \<and> members vs' ob pr = add_mset m (members vs ob pr) \<or> r = -0xff \<and> vs' = vs)"
proof (induction n arbitrary: l)
  case (Suc n)
  have d: "distinct (map v_key vs)" using Suc.prems by (simp add: vals_ok_def)
  have l: "l < 256" using Suc.prems by simp
  show ?case
  proof (cases "seg vs ob pr l")
    case None
    let ?v = "\<lparr>v_obj_id = ob, v_prop_id = pr, v_segment = word_of_nat l, v_value = put_id (replicate 128 0) 0 m\<rparr>"
    have k: "v_key ?v = seg_key ob pr l" by (simp add: v_key_def seg_key_def)
    have e: "r = 0" "vs' = chain_put v_key ?v vs"
      using None Suc.prems by (auto simp: seg_def seg_key_def)
    have "v_segment ?v \<noteq> 1 \<Longrightarrow> l \<noteq> 1" by auto
    then have prev: "v_segment ?v \<noteq> 1 \<Longrightarrow> (v_obj_id ?v, v_prop_id ?v, v_segment ?v - 1) \<in> v_key ` set vs"
      using Suc.prems(3,4) by (auto simp: seg_None seg_key_def of_nat_diff)
    have nz: "v_segment ?v \<noteq> 0" using unat_seg [OF l] Suc.prems(3) by auto
    have "vals_ok vs'" unfolding e by (rule vals_ok_put [OF Suc.prems(1) _ nz prev]) (simp_all add: length_put_id)
    moreover note members_put [OF k Suc.prems(3) l, where vs = vs]
    moreover have "members vs ob pr + live_ids (put_id (replicate 128 0) 0 m) = add_mset m (members vs ob pr)"
      by (simp add: live_single m)
    ultimately show ?thesis using None e set_put [of v_key ?v vs] by (auto simp: part_def)
  next
    case s: (Some v)
    then have v: "v \<in> set vs" "v_key v = seg_key ob pr l" "length (v_value v) = 128"
      using Suc.prems(1) by (auto simp: seg_Some [OF d] vals_ok_def)
    show ?thesis
    proof (cases "find_index (\<lambda>x. x = 0) (ids_of (v_value v))")
      case None
      then have "add_member ob pr m (Suc l) n vs = (r, vs')"
        using s Suc.prems(5) by (simp add: seg_def seg_key_def)
      then show ?thesis using Suc.IH [of "Suc l"] Suc.prems s by simp
    next
      case (Some k)
      let ?v = "v\<lparr>v_value := put_id (v_value v) k m\<rparr>"
      have k: "v_key ?v = seg_key ob pr l" "k < 32" using v(2) find_index_Some [OF Some] by (auto simp: v_key_def)
      have e: "r = 0" "vs' = chain_put v_key ?v vs"
        using Some s Suc.prems(5) by (auto simp: seg_def seg_key_def)
      have ok: "vals_ok vs'" unfolding e by (rule vals_ok_same_key [OF Suc.prems(1) v(1) length_put_id [OF v(3) k(2)]])
      note put = members_put [OF k(1) Suc.prems(3) l, where vs = vs]
      have "members vs' ob pr + live_ids (v_value v) = members vs ob pr + add_mset m (live_ids (v_value v))"
        using put(1) s live_put [OF v(3) Some m] unfolding e by (simp add: part_def)
      then have "members vs' ob pr = add_mset m (members vs ob pr)"
        by (simp only: union_mset_add_mset_right union_mset_add_mset_left [symmetric] add_right_cancel)
      then show ?thesis
        using ok put(2) e set_put [of v_key ?v vs] v(2) by (auto simp: v_key_def seg_key_def)
    qed
  qed
qed auto

section \<open>Circumstances\<close>

definition files_open :: "bind_env \<Rightarrow> bool" where
  "files_open env = (\<forall>f \<in> {FNPROP, FNVAL, FNOBJ, FNIOBJ}. dbm_ok env f)"

definition scans_complete :: "bind_env \<Rightarrow> bool" where
  "scans_complete env = (\<forall>l l'. mset (obj_order env l) = mset l \<and> mset (prop_order env l') = mset l')"

lemma files_openD [simp]:
  "files_open env \<Longrightarrow> dbm_ok env FNPROP" "files_open env \<Longrightarrow> dbm_ok env FNVAL"
  "files_open env \<Longrightarrow> dbm_ok env FNOBJ" "files_open env \<Longrightarrow> dbm_ok env FNIOBJ"
  by (auto simp: files_open_def)

lemma scan_sets [simp]:
  "scans_complete env \<Longrightarrow> set (obj_order env l) = set l" "scans_complete env \<Longrightarrow> set (prop_order env l') = set l'"
  by (metis scans_complete_def set_mset_mset)+

lemma acc_error_neg: "acc_error n < 0" "acc_error n \<noteq> -0xea" "acc_error n \<noteq> 0"
  by (auto simp: acc_error_def)

lemma b_acc_cases: "b_acc env i s f = 0 \<or> b_acc env i s f = acc_error f"
  by (auto simp: b_acc_def Let_def split: option.splits prod.splits)


section \<open>Deleting segments and properties\<close>

lemma seg_filter:
  assumes "distinct (map v_key vs)"
  shows "seg (filter P vs) ob pr l = (case seg vs ob pr l of None \<Rightarrow> None | Some v \<Rightarrow> if P v then Some v else None)"
proof -
  have d: "distinct (map v_key (filter P vs))" using assms by (simp add: distinct_map_filter)
  show ?thesis
  proof (cases "seg vs ob pr l")
    case None
    then have "seg (filter P vs) ob pr l = None" by (auto simp: seg_None)
    then show ?thesis using None by simp
  next
    case (Some v)
    then have v: "v \<in> set vs" "v_key v = seg_key ob pr l" by (simp_all add: seg_Some [OF assms])
    show ?thesis
    proof (cases "seg (filter P vs) ob pr l")
      case None
      then have "\<not> P v" using v by (force simp: seg_None)
      then show ?thesis using None Some by simp
    next
      case w: (Some w)
      then have "w \<in> set vs" "v_key w = seg_key ob pr l" "P w" by (simp_all add: seg_Some [OF d])
      then have "seg vs ob pr l = Some w" by (simp add: seg_Some [OF assms])
      then show ?thesis using Some w \<open>P w\<close> by simp
    qed
  qed
qed

lemma seg_of: "distinct (map v_key vs) \<Longrightarrow> v \<in> set vs \<Longrightarrow> seg vs (v_obj_id v) (v_prop_id v) (unat (v_segment v)) = Some v"
  by (simp add: seg_Some v_key_def seg_key_def)

definition in_tail :: "u32 \<Rightarrow> u8 \<Rightarrow> nat \<Rightarrow> NETVAL \<Rightarrow> bool" where
  "in_tail ob pr l v = (v_obj_id v = ob \<and> v_prop_id v = pr \<and> l \<le> unat (v_segment v))"

lemma del_segments_filter:
  "distinct (map v_key vs) \<Longrightarrow> l + n = 256 \<Longrightarrow> 1 \<le> l \<Longrightarrow>
     (\<And>k. l \<le> k \<Longrightarrow> k < 255 \<Longrightarrow> seg vs ob pr k = None \<Longrightarrow> seg vs ob pr (Suc k) = None) \<Longrightarrow>
     del_segments ob pr l n vs = filter (\<lambda>v. \<not> in_tail ob pr l v) vs"
proof (induction n arbitrary: l vs)
  case 0
  have "\<not> in_tail ob pr l v" for v using 0(2) u8_unat_less [of "v_segment v"] by (simp add: in_tail_def)
  then show ?case by simp
next
  case (Suc n)
  have l: "l < 256" using Suc.prems by simp
  show ?case
  proof (cases "seg vs ob pr l")
    case None
    have none: "l \<le> k \<Longrightarrow> k < 256 \<Longrightarrow> seg vs ob pr k = None" for k
    proof (induction k)
      case (Suc k)
      then show ?case using None Suc.prems \<open>\<And>k. l \<le> k \<Longrightarrow> k < 255 \<Longrightarrow> seg vs ob pr k = None \<Longrightarrow> seg vs ob pr (Suc k) = None\<close>
        by (cases "l = Suc k") auto
    qed (use None in simp)
    have "\<not> in_tail ob pr l v" if "v \<in> set vs" for v
      using none [of "unat (v_segment v)"] seg_of [OF Suc.prems(1) that] u8_unat_less [of "v_segment v"]
      by (auto simp: in_tail_def)
    then have "filter (\<lambda>v. \<not> in_tail ob pr l v) vs = vs" by (simp add: filter_id_conv)
    then show ?thesis using None by (simp add: seg_def seg_key_def)
  next
    case (Some v)
    let ?vs = "filter (\<lambda>v. v_key v \<noteq> seg_key ob pr l) vs"
    have d: "distinct (map v_key ?vs)" using Suc.prems(1) by (simp add: distinct_map_filter)
    have s: "seg ?vs ob pr k = seg vs ob pr k" if "l < k" "k < 256" for k
    proof (cases "seg vs ob pr k")
      case (Some w)
      then have "v_key w \<noteq> seg_key ob pr l" using that l by (simp add: seg_Some [OF Suc.prems(1)] seg_inj)
      then show ?thesis using Some by (simp add: seg_filter [OF Suc.prems(1)])
    qed (simp add: seg_filter [OF Suc.prems(1)])
    have e: "del_segments ob pr l (Suc n) vs = del_segments ob pr (Suc l) n ?vs"
      using Some chain_del_filter [OF Suc.prems(1), of "seg_key ob pr l"] by (simp add: seg_def seg_key_def)
    have "del_segments ob pr (Suc l) n ?vs = filter (\<lambda>v. \<not> in_tail ob pr (Suc l) v) ?vs"
      using Suc.prems(2,4) s by (intro Suc.IH [OF d]) auto
    also have "\<dots> = filter (\<lambda>v. \<not> in_tail ob pr l v) vs"
    proof -
      have "v_key v = seg_key ob pr l \<longleftrightarrow> v_obj_id v = ob \<and> v_prop_id v = pr \<and> unat (v_segment v) = l" for v
        using unat_seg [OF l] by (auto simp: v_key_def seg_key_def)
      then have "v_key v \<noteq> seg_key ob pr l \<and> \<not> in_tail ob pr (Suc l) v \<longleftrightarrow> \<not> in_tail ob pr l v" for v
      proof -
        have "l \<le> n \<longleftrightarrow> n = l \<or> Suc l \<le> n" for n by arith
        then show ?thesis using \<open>\<And>v. (v_key v = seg_key ob pr l) = (v_obj_id v = ob \<and> v_prop_id v = pr \<and> unat (v_segment v) = l)\<close>
          unfolding in_tail_def by blast
      qed
      then show ?thesis by (simp only: filter_filter)
    qed
    finally show ?thesis using e by simp
  qed
qed

lemma del_segments_ok:
  "vals_ok vs \<Longrightarrow> 1 \<le> l \<Longrightarrow> l \<le> 256 \<Longrightarrow> del_segments ob pr l (256 - l) vs = filter (\<lambda>v. \<not> in_tail ob pr l v) vs"
proof (rule del_segments_filter)
  assume ok: "vals_ok vs" and l: "1 \<le> l" "l \<le> 256"
  show "distinct (map v_key vs)" using ok by (simp add: vals_ok_def)
  show "seg vs ob pr (Suc k) = None" if "l \<le> k" "k < 255" "seg vs ob pr k = None" for k
    using segs_contiguous [OF ok, of k "Suc k" ob pr] that l by simp
qed simp_all

lemma vals_ok_filter:
  assumes ok: "vals_ok vs"
    and tail: "\<And>v w. v \<in> set vs \<Longrightarrow> w \<in> set vs \<Longrightarrow> P v \<Longrightarrow> v_obj_id w = v_obj_id v \<Longrightarrow> v_prop_id w = v_prop_id v \<Longrightarrow>
       Suc (unat (v_segment w)) = unat (v_segment v) \<Longrightarrow> P w"
  shows "vals_ok (filter P vs)"
proof -
  have "(v_obj_id v, v_prop_id v, v_segment v - 1) \<in> v_key ` set (filter P vs)"
    if v: "v \<in> set vs" "P v" "v_segment v \<noteq> 1" for v
  proof -
    have "v_segment v \<noteq> 0" "(v_obj_id v, v_prop_id v, v_segment v - 1) \<in> v_key ` set vs"
      using ok v by (auto simp: vals_ok_def)
    then obtain w where w: "w \<in> set vs" "v_key w = (v_obj_id v, v_prop_id v, v_segment v - 1)" by auto
    have "Suc (unat (v_segment v - 1)) = unat (v_segment v)"
      using \<open>v_segment v \<noteq> 0\<close> by (simp add: unat_minus_one unat_gt_0)
    then have "P w" using tail [OF v(1) w(1) v(2)] w(2) by (simp add: v_key_def)
    then show ?thesis using w by (auto intro!: image_eqI [of _ _ w])
  qed
  then show ?thesis using ok by (auto simp: vals_ok_def distinct_map_filter)
qed

lemma vals_ok_tail: "vals_ok vs \<Longrightarrow> vals_ok (filter (\<lambda>v. \<not> in_tail ob pr l v) vs)"
  by (rule vals_ok_filter) (auto simp: in_tail_def)

lemma fold_del_segments:
  "vals_ok vs \<Longrightarrow>
     vals_ok (fold (\<lambda>k. del_segments ob k 1 255) ks vs) \<and>
     fold (\<lambda>k. del_segments ob k 1 255) ks vs = filter (\<lambda>v. \<not> (v_obj_id v = ob \<and> v_prop_id v \<in> set ks)) vs"
proof (induction ks arbitrary: vs)
  case (Cons k ks)
  have nz: "v \<in> set vs \<Longrightarrow> 1 \<le> unat (v_segment v)" for v
    using Cons.prems by (simp add: vals_ok_def Suc_le_eq unat_gt_0)
  have d: "del_segments ob k 1 255 vs = filter (\<lambda>v. \<not> in_tail ob k 1 v) vs"
    using del_segments_ok [OF Cons.prems, of 1] by simp
  have "filter (\<lambda>v. \<not> (v_obj_id v = ob \<and> v_prop_id v \<in> set ks)) (filter (\<lambda>v. \<not> in_tail ob k 1 v) vs) =
      filter (\<lambda>v. \<not> (v_obj_id v = ob \<and> v_prop_id v \<in> set (k # ks))) vs"
    using nz by (auto simp: in_tail_def intro!: filter_cong)
  moreover have "fold (\<lambda>k. del_segments ob k 1 255) (k # ks) vs =
      fold (\<lambda>k. del_segments ob k 1 255) ks (filter (\<lambda>v. \<not> in_tail ob k 1 v) vs)"
    by (simp only: fold_simps d)
  ultimately show ?case using Cons.IH [OF vals_ok_tail [OF Cons.prems, of ob k 1]] by argo
qed simp

lemma del_props_spec:
  "distinct (map p_key ps) \<Longrightarrow> distinct ks \<Longrightarrow> (\<forall>k \<in> set ks. (ob, k) \<in> p_key ` set ps) \<Longrightarrow>
     del_props ob ks ps = (0, filter (\<lambda>p. \<not> (p_obj_id p = ob \<and> p_id p \<in> set ks)) ps)"
proof (induction ks arbitrary: ps)
  case (Cons k ks)
  obtain p where p: "chain_find p_key (ob, k) ps = Some p"
    using Cons.prems(3) chain_find_None [of p_key "(ob, k)" ps] by fastforce
  let ?ps = "filter (\<lambda>p. p_key p \<noteq> (ob, k)) ps"
  have d: "chain_del p_key (ob, k) ps = ?ps" by (rule chain_del_filter [OF Cons.prems(1)])
  have "(ob, j) \<in> p_key ` set ?ps" if "j \<in> set ks" for j
  proof -
    have "j \<noteq> k" "(ob, j) \<in> p_key ` set ps" using Cons.prems that by auto
    then show ?thesis by auto
  qed
  moreover have "filter (\<lambda>p. \<not> (p_obj_id p = ob \<and> p_id p \<in> set ks)) ?ps =
      filter (\<lambda>p. \<not> (p_obj_id p = ob \<and> p_id p \<in> set (k # ks))) ps"
    by (auto simp: p_key_def intro!: filter_cong)
  ultimately show ?case
    using Cons.IH [of ?ps] Cons.prems p d by (simp add: distinct_map_filter)
qed (simp add: filter_id_conv)

section \<open>Sound binderies\<close>

definition n_key :: "NETPROP \<Rightarrow> u32 \<times> cstring" where "n_key p = (p_obj_id p, p_name p)"

definition bindery_ok :: "bindery \<Rightarrow> bool" where
  "bindery_ok b =
     (distinct (map o_id (objs b)) \<and> distinct (map i_key (iobjs b)) \<and> distinct (map p_key (props b)) \<and>
      vals_ok (vals b) \<and>
      (\<forall>p \<in> set (props b). p_id p \<noteq> 0 \<and> p_obj_id p \<in> o_id ` set (objs b)) \<and>
      distinct (map n_key (props b)) \<and>
      (\<forall>v \<in> set (vals b). (v_obj_id v, v_prop_id v) \<in> p_key ` set (props b)))"

text \<open>The ids of the properties that a deletion by name concerns.\<close>

definition doomed :: "bind_env \<Rightarrow> u32 \<Rightarrow> cstring \<Rightarrow> bool \<Rightarrow> bindery \<Rightarrow> u8 set" where
  "doomed env ob name ever b =
     {p_id p |p. p \<in> set (props b) \<and> p_obj_id p = ob \<and> name_match (p_name p) name \<and>
        (ever \<or> b_acc env ob (p_security p) 0x13 = 0)}"

definition without_props :: "u32 \<Rightarrow> u8 set \<Rightarrow> bindery \<Rightarrow> bindery" where
  "without_props ob D b = b\<lparr>props := filter (\<lambda>p. \<not> (p_obj_id p = ob \<and> p_id p \<in> D)) (props b),
     vals := filter (\<lambda>v. \<not> (v_obj_id v = ob \<and> v_prop_id v \<in> D)) (vals b)\<rparr>"

lemma mark_fold:
  "fold (mark_prop env ob ever) ps (r0, x0) = (r, x) \<Longrightarrow>
     (\<forall>i \<in> set x0. uint i \<le> r0) \<Longrightarrow> r0 \<le> 0 \<or> r0 \<in> uint ` set x0 \<Longrightarrow>
     set x = set x0 \<union> {p_id p |p. p \<in> set ps \<and> (ever \<or> b_acc env ob (p_security p) 0x13 = 0)} \<and>
     (\<forall>i \<in> set x. uint i \<le> r) \<and> (r \<le> 0 \<or> r \<in> uint ` set x)"
proof (induction ps arbitrary: r0 x0)
  case (Cons p ps)
  show ?case
  proof (cases "ever \<or> b_acc env ob (p_security p) 0x13 = 0")
    case True
    then have "mark_prop env ob ever p (r0, x0) = (max r0 (uint (p_id p)), p_id p # x0)"
      by (simp add: mark_prop_def)
    then have "fold (mark_prop env ob ever) ps (max r0 (uint (p_id p)), p_id p # x0) = (r, x)"
      using Cons.prems(1) by simp
    moreover have "\<forall>i \<in> set (p_id p # x0). uint i \<le> max r0 (uint (p_id p))" using Cons.prems(2) by auto
    moreover have "max r0 (uint (p_id p)) \<le> 0 \<or> max r0 (uint (p_id p)) \<in> uint ` set (p_id p # x0)"
      using Cons.prems(3) by (auto simp: max_def)
    ultimately have "set x = set (p_id p # x0) \<union> {p_id p |p. p \<in> set ps \<and> (ever \<or> b_acc env ob (p_security p) 0x13 = 0)} \<and>
     (\<forall>i \<in> set x. uint i \<le> r) \<and> (r \<le> 0 \<or> r \<in> uint ` set x)" by (rule Cons.IH)
    then show ?thesis using True by auto
  next
    case False
    let ?r = "if r0 < 0 then -0xf6 else r0"
    have "mark_prop env ob ever p (r0, x0) = (?r, x0)" using False by (simp add: mark_prop_def)
    then have "fold (mark_prop env ob ever) ps (?r, x0) = (r, x)" using Cons.prems(1) by simp
    moreover have "r0 < 0 \<Longrightarrow> set x0 = {}" using Cons.prems(2) uint_ge_0 by (metis all_not_in_conv leD order.trans)
    ultimately show ?thesis using Cons.IH [of ?r x0] Cons.prems(2,3) False by (cases "r0 < 0") auto
  qed
qed auto

lemma set_word_upt:
  assumes "r < 256"
  shows "set (map word_of_nat [1..<nat r + 1]) = {k :: u8. k \<noteq> 0 \<and> uint k \<le> r}" (is "?A = ?B")
proof
  note [simp del] = upt_Suc
  have u: "unat (word_of_nat n :: u8) = n" if "n < nat r + 1" for n
    using that assms by (intro unat_seg) linarith
  show "?A \<subseteq> ?B"
  proof
    fix k assume "k \<in> ?A"
    then obtain n where n: "k = word_of_nat n" "1 \<le> n" "n < nat r + 1" by auto
    then have k: "unat k = n" using u by simp
    then have "uint k = int n" unfolding uint_nat by simp
    moreover have "k \<noteq> 0" using k n(2) by auto
    moreover have "int n \<le> r" using n(2,3) by linarith
    ultimately show "k \<in> ?B" by simp
  qed
  show "?B \<subseteq> ?A"
  proof
    fix k assume "k \<in> ?B"
    then have "0 < unat k" "int (unat k) \<le> r" unfolding uint_nat [symmetric] by (auto simp: unat_gt_0)
    then have "1 \<le> unat k" "unat k < nat r + 1" by linarith+
    then show "k \<in> ?A" by (auto intro!: image_eqI [of _ _ "unat k"])
  qed
qed

lemma distinct_word_upt: "r < 256 \<Longrightarrow> distinct (map word_of_nat [1..<nat r + 1] :: u8 list)"
proof -
  assume "r < 256"
  then have "n < nat r + 1 \<Longrightarrow> unat (word_of_nat n :: u8) = n" for n
    by (intro unat_seg) linarith
  then have "inj_on (word_of_nat :: nat \<Rightarrow> u8) {1..<nat r + 1}"
    by (intro inj_on_inverseI [where g = unat]) simp
  then show ?thesis by (simp add: distinct_map del: upt_Suc)
qed

lemma without_none [simp]: "without_props ob {} b = b"
  by (simp add: without_props_def)

lemma delete_by_name:
  assumes env: "files_open env" "scans_complete env" and ok: "bindery_ok b"
  shows "snd (loc_delete_property env ob name 0 ever b) = without_props ob (doomed env ob name ever b) b"
    and "doomed env ob name ever b \<noteq> {} \<Longrightarrow> fst (loc_delete_property env ob name 0 ever b) = 0"
proof -
  obtain r x where m: "marked_props env ob name ever b = (r, x)" by fastforce
  have x: "set x = doomed env ob name ever b" and le: "\<forall>i \<in> set x. uint i \<le> r" and r: "r \<le> 0 \<or> r \<in> uint ` set x"
    using mark_fold [OF m [unfolded marked_props_def]] env(2) by (auto simp: doomed_def)
  have nz: "k \<in> set x \<Longrightarrow> k \<noteq> 0" for k using ok x by (auto simp: doomed_def bindery_ok_def)
  have r256: "r < 256"
  proof -
    have "uint k < 256" for k :: u8 using u8_unat_less [of k] unfolding uint_nat by linarith
    then show ?thesis using r by auto
  qed
  have pos: "0 < uint k" if "k \<in> set x" for k
    using nz [OF that] unat_gt_0 [of k] unfolding uint_nat by linarith
  define ks where "ks = filter (\<lambda>k. k \<in> set x) (map word_of_nat [1..<nat r + 1])"
  have ks: "set ks = set x" "distinct ks"
    using set_word_upt [OF r256] le nz distinct_word_upt [OF r256] by (auto simp: ks_def simp del: upt_Suc set_map set_upt)
  have empty: "r \<le> 0 \<longleftrightarrow> set x = {}"
  proof
    assume "r \<le> 0"
    then show "set x = {}" using le pos by (metis all_not_in_conv leD order_trans)
  qed (use r in auto)
  have keys: "\<forall>k \<in> set ks. (ob, k) \<in> p_key ` set (props b)"
    unfolding ks x doomed_def by (auto simp: p_key_def intro!: image_eqI)
  have d: "distinct (map p_key (props b))" "vals_ok (vals b)" using ok by (auto simp: bindery_ok_def)
  have "loc_delete_property env ob name 0 ever b =
      (if r \<le> 0 then (r, b)
       else let (r', ps) = del_props ob ks (props b)
            in (r', b\<lparr>vals := fold (\<lambda>k. del_segments ob k 1 255) ks (vals b), props := ps\<rparr>))"
    using env(1) m by (simp add: loc_delete_property_def ks_def Let_def split: prod.split del: upt_Suc)
  also have "\<dots> = (if r \<le> 0 then (r, b) else (0, without_props ob (set x) b))"
    unfolding del_props_spec [OF d(1) ks(2) keys] conjunct2 [OF fold_del_segments [OF d(2)]] ks(1) without_props_def
    by simp
  finally have "loc_delete_property env ob name 0 ever b =
      (if r \<le> 0 then (r, b) else (0, without_props ob (set x) b))" .
  then show "snd (loc_delete_property env ob name 0 ever b) = without_props ob (doomed env ob name ever b) b"
    and "doomed env ob name ever b \<noteq> {} \<Longrightarrow> fst (loc_delete_property env ob name 0 ever b) = 0"
    using empty x by auto
qed

lemma ok_without_props: "bindery_ok b \<Longrightarrow> bindery_ok (without_props ob D b)"
proof -
  assume ok: "bindery_ok b"
  have v: "vals_ok (filter (\<lambda>v. \<not> (v_obj_id v = ob \<and> v_prop_id v \<in> D)) (vals b))"
    using ok by (intro vals_ok_filter) (auto simp: bindery_ok_def)
  have "(v_obj_id v, v_prop_id v) \<in> p_key ` set (filter (\<lambda>p. \<not> (p_obj_id p = ob \<and> p_id p \<in> D)) (props b))"
    if v: "v \<in> set (vals b)" "\<not> (v_obj_id v = ob \<and> v_prop_id v \<in> D)" for v
  proof -
    obtain p where "p \<in> set (props b)" "p_key p = (v_obj_id v, v_prop_id v)" using ok v by (force simp: bindery_ok_def)
    then show ?thesis using v(2) by (intro image_eqI [of _ _ p]) (auto simp: p_key_def)
  qed
  then show ?thesis using ok v by (auto simp: bindery_ok_def without_props_def distinct_map_filter)
qed

lemma members_filter:
  assumes "distinct (map v_key vs)" and "\<And>v. v \<in> set vs \<Longrightarrow> v_obj_id v = ob \<Longrightarrow> v_prop_id v = pr \<Longrightarrow> P v"
  shows "members (filter P vs) ob pr = members vs ob pr"
proof -
  have "seg (filter P vs) ob pr l = seg vs ob pr l" for l
  proof (cases "seg vs ob pr l")
    case (Some v)
    then have "P v" using assms(2) [of v] by (simp add: seg_Some [OF assms(1)] v_key_def seg_key_def)
    then show ?thesis using Some by (simp add: seg_filter [OF assms(1)])
  qed (simp add: seg_filter [OF assms(1)])
  then show ?thesis by (simp add: members_def)
qed

lemma b_acc_free [simp]: "b_acc env i 0 f = 0"
  by (simp add: b_acc_def Let_def split: option.splits)

text \<open>The members other than \<open>m\<close>.\<close>

definition others :: "u32 \<Rightarrow> u32 multiset \<Rightarrow> u32 multiset" where
  "others m M = filter_mset (\<lambda>x. x \<noteq> m) M"

lemma leave_fold:
  assumes env: "files_open env" and m: "m \<noteq> 0"
  shows "vals_ok (vals b) \<Longrightarrow> fold (\<lambda>(ob, pr) t. snd (prop_delete_member env ob pr 0 m t)) ss b = b' \<Longrightarrow>
     objs b' = objs b \<and> iobjs b' = iobjs b \<and> props b' = props b \<and> vals_ok (vals b') \<and>
     v_key ` set (vals b') = v_key ` set (vals b) \<and>
     (\<forall>ob pr. members (vals b') ob pr \<subseteq># members (vals b) ob pr \<and>
        others m (members (vals b') ob pr) = others m (members (vals b) ob pr)) \<and>
     (\<forall>(ob, pr) \<in> set ss. count (members (vals b') ob pr) m \<le> count (members (vals b) ob pr) m - 1)"
proof (induction ss arbitrary: b)
  case (Cons s ss)
  obtain ob pr where s: "s = (ob, pr)" by fastforce
  let ?b = "b\<lparr>vals := del_member ob pr m 1 255 (vals b)\<rparr>"
  have d: "snd (prop_delete_member env ob pr 0 m b) = ?b" using env by (simp add: prop_delete_member_def)
  note spec = del_member_spec [OF m Cons.prems(1), of 1 255 ob pr, simplified]
  have "vals_ok (vals ?b)" using spec by simp
  from Cons.IH [OF this] Cons.prems(2)
  have IH: "objs b' = objs b \<and> iobjs b' = iobjs b \<and> props b' = props b \<and> vals_ok (vals b') \<and>
     v_key ` set (vals b') = v_key ` set (vals ?b) \<and>
     (\<forall>ob pr. members (vals b') ob pr \<subseteq># members (vals ?b) ob pr \<and>
        others m (members (vals b') ob pr) = others m (members (vals ?b) ob pr)) \<and>
     (\<forall>(ob, pr) \<in> set ss. count (members (vals b') ob pr) m \<le> count (members (vals ?b) ob pr) m - 1)"
    using d by (simp add: s)
  have sub: "members (vals ?b) o' p' \<subseteq># members (vals b) o' p'"
    and oth: "others m (members (vals ?b) o' p') = others m (members (vals b) o' p')" for o' p'
    using spec by (cases "(o', p') = (ob, pr)"; auto simp: others_def)+
  have cnt: "count (members (vals ?b) o' p') m \<le> count (members (vals b) o' p') m" for o' p'
    using sub mset_subset_eq_count by metis
  have "count (members (vals b') ob pr) m \<le> count (members (vals ?b) ob pr) m" using IH mset_subset_eq_count by metis
  also have "\<dots> = count (members (vals b) ob pr) m - 1" using spec by simp
  finally have here: "count (members (vals b') ob pr) m \<le> count (members (vals b) ob pr) m - 1" .
  have "count (members (vals b') o' p') m \<le> count (members (vals b) o' p') m - 1" if "(o', p') \<in> set ss" for o' p'
  proof -
    have "count (members (vals b') o' p') m \<le> count (members (vals ?b) o' p') m - 1" using IH that by auto
    then show ?thesis using cnt [of o' p'] by linarith
  qed
  moreover have "members (vals b') o' p' \<subseteq># members (vals b) o' p'" for o' p'
    using IH sub subset_mset.order_trans by blast
  moreover have "others m (members (vals b') o' p') = others m (members (vals b) o' p')" for o' p' using IH oth by simp
  moreover have "v_key ` set (vals b') = v_key ` set (vals b)" using IH spec by simp
  ultimately show ?case using IH here s by auto
qed auto

lemma without_all: "without_props ob (doomed env ob [42] True b) b =
    b\<lparr>props := filter (\<lambda>p. p_obj_id p \<noteq> ob) (props b),
      vals := filter (\<lambda>v. \<not> (v_obj_id v = ob \<and> v_prop_id v \<in> p_id ` {p \<in> set (props b). p_obj_id p = ob})) (vals b)\<rparr>"
  unfolding without_props_def doomed_def
  by (intro arg_cong2 [where f = "\<lambda>p v. b\<lparr>props := p, vals := v\<rparr>"] filter_cong) auto

lemma val_prop:
  "bindery_ok b \<Longrightarrow> v \<in> set (vals b) \<Longrightarrow> \<exists>p \<in> set (props b). p_obj_id p = v_obj_id v \<and> p_id p = v_prop_id v"
  unfolding bindery_ok_def p_key_def by force

lemma without_all_ok:
  assumes "bindery_ok b"
  shows "without_props ob (doomed env ob [42] True b) b =
    b\<lparr>props := filter (\<lambda>p. p_obj_id p \<noteq> ob) (props b), vals := filter (\<lambda>v. v_obj_id v \<noteq> ob) (vals b)\<rparr>"
proof -
  have "v_prop_id v \<in> p_id ` {p \<in> set (props b). p_obj_id p = ob}" if v: "v \<in> set (vals b)" "v_obj_id v = ob" for v
    using val_prop [OF assms v(1)] v(2) by force
  then show ?thesis unfolding without_all
    by (intro arg_cong2 [where f = "\<lambda>p v. b\<lparr>props := p, vals := v\<rparr>"] filter_cong) auto
qed

lemma handle_iobj_3: "files_open env \<Longrightarrow>
    snd (snd (handle_iobj env 3 x b)) = b\<lparr>iobjs := chain_del i_key (o_name x, o_type x) (iobjs b)\<rparr>"
  by (auto simp: handle_iobj_def chain_find_None chain_del_absent split: option.splits)

lemma length_filter_filter: "length (filter P (filter Q xs)) \<le> length (filter P xs)"
  by (induction xs) auto

text \<open>The sets that list an id.\<close>

definition in_sets :: "bindery \<Rightarrow> u32 \<Rightarrow> (u32 \<times> u8) set" where
  "in_sets b m = {p_key p |p. p \<in> set (props b) \<and> p_flags p AND P_FL_SET \<noteq> 0 \<and>
     m \<in># members (vals b) (p_obj_id p) (p_id p)}"

text \<open>The keys of the sets, and the values that the departure of \<open>m\<close> from them does not touch.\<close>

definition set_keys :: "bindery \<Rightarrow> (u32 \<times> u8) set" where
  "set_keys b = p_key ` {p \<in> set (props b). p_flags p AND P_FL_SET \<noteq> 0}"

lemma chain_put_keeps: "w \<in> set xs \<Longrightarrow> chain_find key (key y) xs = Some v \<Longrightarrow> w \<noteq> v \<Longrightarrow> w \<in> set (chain_put key y xs)"
  by (induction xs) (auto split: if_splits)

lemma del_member_keeps:
  "v \<in> set vs \<Longrightarrow> (v_obj_id v, v_prop_id v) \<noteq> (ob, pr) \<or> m \<notin> set (ids_of (v_value v)) \<Longrightarrow> v \<in> set (del_member ob pr m l n vs)"
proof (induction n arbitrary: l)
  case (Suc n)
  show ?case
  proof (cases "chain_find v_key (ob, pr, word_of_nat l) vs")
    case (Some w)
    then have w: "v_key w = (ob, pr, word_of_nat l)" using chain_find_key by metis
    show ?thesis
    proof (cases "find_index (\<lambda>x. x = m) (ids_of (v_value w))")
      case k: (Some k)
      then have "m \<in> set (ids_of (v_value w))" using find_index_Some [OF k] by (metis nth_mem)
      then have "v \<noteq> w" using Suc.prems(2) w by (auto simp: v_key_def)
      moreover have "chain_find v_key (v_key (w\<lparr>v_value := remove_id (v_value w) k\<rparr>)) vs = Some w"
        using Some w by (simp add: v_key_def)
      ultimately show ?thesis using Suc.prems(1) Some k by (simp add: chain_put_keeps)
    qed (use Suc Some in simp)
  qed (use Suc.prems in simp)
qed simp

lemma leave_keeps:
  assumes "files_open env"
  shows "v \<in> set (vals b) \<Longrightarrow> (v_obj_id v, v_prop_id v) \<notin> set ss \<or> m \<notin> set (ids_of (v_value v)) \<Longrightarrow>
     v \<in> set (vals (fold (\<lambda>(ob, pr) t. snd (prop_delete_member env ob pr 0 m t)) ss b))"
proof (induction ss arbitrary: b)
  case (Cons s ss)
  obtain ob pr where s: "s = (ob, pr)" by fastforce
  have "v \<in> set (vals (b\<lparr>vals := del_member ob pr m 1 255 (vals b)\<rparr>))"
    using del_member_keeps [OF Cons.prems(1), of ob pr m 1 255] Cons.prems(2) by (auto simp: s)
  then show ?case using Cons.IH Cons.prems(2) assms by (auto simp: s prop_delete_member_def)
qed simp

lemma loc_delete_obj_spec:
  assumes env: "files_open env" "scans_complete env" and ok: "bindery_ok b" and m: "m \<noteq> 0"
    and x: "chain_find o_id m (objs b) = Some x" and acc: "b_acc env m 0x33 0x03 = 0"
    and few: "length (filter (\<lambda>p. p_flags p AND P_FL_SET \<noteq> 0) (props b)) \<le> LOC_MAX_OBJS"
    and once: "\<And>ob pr. count (members (vals b) ob pr) m \<le> 1"
  obtains vs where "loc_delete_obj env m b =
        (0, \<lparr>objs = filter (\<lambda>x. o_id x \<noteq> m) (objs b),
             iobjs = chain_del i_key (o_name x, o_type x) (iobjs b),
             props = filter (\<lambda>p. p_obj_id p \<noteq> m) (props b), vals = vs\<rparr>)"
    and "vals_ok vs" and "v_key ` set vs = v_key ` {v \<in> set (vals b). v_obj_id v \<noteq> m}"
    and "\<And>ob pr. ob \<noteq> m \<Longrightarrow> others m (members vs ob pr) = others m (members (vals b) ob pr)"
    and "\<And>p. p \<in> set (props b) \<Longrightarrow> p_obj_id p \<noteq> m \<Longrightarrow> p_flags p AND P_FL_SET \<noteq> 0 \<Longrightarrow>
          m \<notin># members vs (p_obj_id p) (p_id p)"
    and "\<And>v. v \<in> set (vals b) \<Longrightarrow> v_obj_id v \<noteq> m \<Longrightarrow>
          (v_obj_id v, v_prop_id v) \<notin> set_keys b \<or> m \<notin># live_ids (v_value v) \<Longrightarrow> v \<in> set vs"
proof -
  let ?b1 = "b\<lparr>props := filter (\<lambda>p. p_obj_id p \<noteq> m) (props b), vals := filter (\<lambda>v. v_obj_id v \<noteq> m) (vals b)\<rparr>"
  have b1: "snd (loc_delete_property env m [42] 0 True b) = ?b1"
    using delete_by_name(1) [OF env ok] without_all_ok [OF ok] by simp
  have ok1: "bindery_ok ?b1" using ok_without_props [OF ok, of m "doomed env m [42] True b"] without_all_ok [OF ok] by simp
  have d: "distinct (map v_key (vals b))" using ok by (simp add: bindery_ok_def vals_ok_def)
  have mem1: "members (vals ?b1) ob pr = members (vals b) ob pr" if "ob \<noteq> m" for ob pr
    using that by (simp add: members_filter [OF d])
  define b2 where "b2 = leave_sets env m ?b1"
  have L: "objs b2 = objs ?b1 \<and> iobjs b2 = iobjs ?b1 \<and> props b2 = props ?b1 \<and> vals_ok (vals b2) \<and>
     v_key ` set (vals b2) = v_key ` set (vals ?b1) \<and>
     (\<forall>ob pr. members (vals b2) ob pr \<subseteq># members (vals ?b1) ob pr \<and>
        others m (members (vals b2) ob pr) = others m (members (vals ?b1) ob pr)) \<and>
     (\<forall>(ob, pr) \<in> set (rev (set_props env ?b1)). count (members (vals b2) ob pr) m \<le> count (members (vals ?b1) ob pr) m - 1)"
    by (rule leave_fold [OF env(1) m]) (use ok1 in \<open>auto simp: bindery_ok_def b2_def leave_sets_def\<close>)
  have fin: "loc_delete_obj env m b =
        (0, b2\<lparr>objs := filter (\<lambda>x. o_id x \<noteq> m) (objs b), iobjs := chain_del i_key (o_name x, o_type x) (iobjs b)\<rparr>)"
    using acc env(1) x L chain_del_filter [of o_id "objs b" m] ok
    by (simp add: loc_delete_obj_def b1 drop_obj_def b2_def [symmetric] handle_iobj_3 bindery_ok_def)
  have "mset (filter (\<lambda>p. p_flags p AND P_FL_SET \<noteq> 0) (prop_order env (props ?b1))) =
      mset (filter (\<lambda>p. p_flags p AND P_FL_SET \<noteq> 0) (props ?b1))"
    using env(2) unfolding scans_complete_def mset_filter by (simp only: simp_thms)
  then have "length (filter (\<lambda>p. p_flags p AND P_FL_SET \<noteq> 0) (prop_order env (props ?b1))) =
      length (filter (\<lambda>p. p_flags p AND P_FL_SET \<noteq> 0) (props ?b1))" by (rule mset_eq_length)
  also have "\<dots> \<le> LOC_MAX_OBJS" using few
    by (intro le_trans [OF _ few]) (simp add: length_filter_filter del: filter_filter)
  finally have "set_props env ?b1 = map p_key (filter (\<lambda>p. p_flags p AND P_FL_SET \<noteq> 0) (prop_order env (props ?b1)))"
    by (simp add: set_props_def)
  then have sets: "set (set_props env ?b1) = p_key ` {p \<in> set (props ?b1). p_flags p AND P_FL_SET \<noteq> 0}"
    using env(2) by (auto simp: set_props_def)
  show thesis
  proof (rule that [of "vals b2"])
    show "loc_delete_obj env m b = (0, \<lparr>objs = filter (\<lambda>x. o_id x \<noteq> m) (objs b),
             iobjs = chain_del i_key (o_name x, o_type x) (iobjs b),
             props = filter (\<lambda>p. p_obj_id p \<noteq> m) (props b), vals = vals b2\<rparr>)"
      unfolding fin using L by (cases b2) simp
    show "m \<notin># members (vals b2) (p_obj_id p) (p_id p)"
      if "p \<in> set (props b)" "p_obj_id p \<noteq> m" "p_flags p AND P_FL_SET \<noteq> 0" for p
    proof -
      have "p_key p \<in> set (rev (set_props env ?b1))" using that by (simp add: sets)
      then have "count (members (vals b2) (p_obj_id p) (p_id p)) m \<le> count (members (vals ?b1) (p_obj_id p) (p_id p)) m - 1"
        using L by (force simp: p_key_def)
      then show ?thesis using once [of "p_obj_id p" "p_id p"] mem1 [OF that(2)] by (simp add: not_in_iff)
    qed
    show "v \<in> set (vals b2)" if "v \<in> set (vals b)" "v_obj_id v \<noteq> m"
      "(v_obj_id v, v_prop_id v) \<notin> set_keys b \<or> m \<notin># live_ids (v_value v)" for v
      unfolding b2_def leave_sets_def
      by (rule leave_keeps [OF env(1)]) (use that m in_live sets in \<open>auto simp: set_keys_def\<close>)
  qed (use L mem1 in auto)
qed


section \<open>Finding objects\<close>

lemma find_SomeD: "find P xs = Some x \<Longrightarrow> x \<in> set xs \<and> P x"
  by (induction xs) (auto split: if_splits)

lemma reindexed: "chain_find i_key (o_name x, o_type x) is = Some i \<Longrightarrow> i\<lparr>i_id := o_id x\<rparr> = iobj_of x"
  by (cases i) (auto dest!: chain_find_key simp: iobj_of_def i_key_def)

lemma find_obj_id_frame:
  assumes "find_obj_id env ob b = (r, x, b')"
  shows "b' = b \<or> r = 0 \<and> b' = b\<lparr>iobjs := chain_put i_key (iobj_of x) (iobjs b)\<rparr>"
proof -
  have "snd (snd (handle_iobj env 2 x b)) = b \<or>
      snd (snd (handle_iobj env 2 x b)) = b\<lparr>iobjs := chain_put i_key (iobj_of x) (iobjs b)\<rparr>" for x
    by (simp add: handle_iobj_def reindexed split: option.splits)
  then show ?thesis using assms
    by (fastforce simp: find_obj_id_def Let_def split: prod.splits option.splits if_splits)
qed

lemma tl_in: "x \<in> set (tl xs) \<Longrightarrow> x \<in> set xs"
  by (cases xs) auto

lemma scan_found:
  assumes "scans_complete env" and "scan_for_obj env ob l ign b = (0, x)"
  shows "x \<in> set (objs b)"
proof -
  have "set (tl (dropWhile P xs)) \<subseteq> set xs" for P and xs :: "NETOBJ list"
    by (meson set_dropWhileD subsetI tl_in)
  from this [of _ "obj_order env (objs b)"]
  have "set (tl (dropWhile P (obj_order env (objs b)))) \<subseteq> set (objs b)" for P
    using assms(1) by simp
  then show ?thesis using assms
    by (auto simp: scan_for_obj_def Let_def dest!: find_SomeD split: option.splits if_splits)
qed

lemma find_obj_id_found:
  assumes "scans_complete env" and "find_obj_id env ob b = (0, x, b')"
  shows "x \<in> set (objs b)"
  using assms(2) scan_found [OF assms(1)]
  by (auto simp: find_obj_id_def Let_def split: prod.splits option.splits if_splits dest: chain_find_key)

lemma ok_index: "bindery_ok b \<Longrightarrow> bindery_ok (b\<lparr>iobjs := chain_put i_key y (iobjs b)\<rparr>)"
  "bindery_ok b \<Longrightarrow> bindery_ok (b\<lparr>iobjs := chain_del i_key k (iobjs b)\<rparr>)"
  by (auto simp: bindery_ok_def)

lemma find_obj_id_ok: "bindery_ok b \<Longrightarrow> find_obj_id env ob b = (r, x, b') \<Longrightarrow> bindery_ok b'"
  using find_obj_id_frame [of env ob b r x b'] ok_index(1) by auto

text \<open>C25. Deleting an object by its name leaves no trace of it and changes nothing else: object, properties and
  values are gone, no set lists its id any more, its name is free again in the index; the other objects and their
  properties stay, every value that does not list the id in a set keeps its bytes, the other members of
  the sets stay, and no other name changes in the index.  The files must be open and the scans complete, at most
  \<^verbatim>\<open>LOC_MAX_OBJS\<close> properties may be sets (the code remembers no more of them), and no set may list the id twice.\<close>

theorem deleted_object_leaves_no_trace:
  assumes "files_open env" and "scans_complete env" and "bindery_ok b" and "nw_delete_obj env ob b = (0, x, b')"
    and "o_id x \<noteq> 0" and "length (filter (\<lambda>p. p_flags p AND P_FL_SET \<noteq> 0) (props b)) \<le> LOC_MAX_OBJS"
    and "\<And>ob pr. count (members (vals b) ob pr) (o_id x) \<le> 1"
  shows "objs b' = filter (\<lambda>y. o_id y \<noteq> o_id x) (objs b) \<and>
     props b' = filter (\<lambda>p. p_obj_id p \<noteq> o_id x) (props b) \<and>
     v_key ` set (vals b') = v_key ` {v \<in> set (vals b). v_obj_id v \<noteq> o_id x} \<and>
     (\<forall>v \<in> set (vals b). v_obj_id v \<noteq> o_id x \<and>
        ((v_obj_id v, v_prop_id v) \<notin> set_keys b \<or> o_id x \<notin># live_ids (v_value v)) \<longrightarrow> v \<in> set (vals b')) \<and>
     in_sets b' (o_id x) = {} \<and>
     (\<forall>o' pr. o' \<noteq> o_id x \<longrightarrow> others (o_id x) (members (vals b') o' pr) = others (o_id x) (members (vals b) o' pr)) \<and>
     (\<forall>k. chain_find i_key k (iobjs b') = (if k = (o_name x, o_type x) then None else chain_find i_key k (iobjs b))) \<and>
     bindery_ok b'"
proof -
  obtain x' b1 where f: "find_obj_id env ob b = (0, x', b1)" and l: "loc_delete_obj env (o_id x') b1 = (0, b')" and x': "x' = x"
    using assms(4) by (auto simp: nw_delete_obj_def split: prod.splits if_splits)

  have same: "objs b1 = objs b" "props b1 = props b" "vals b1 = vals b" and ok1: "bindery_ok b1"
    using find_obj_id_frame [OF f] find_obj_id_ok [OF assms(3) f] by auto
  have x: "chain_find o_id (o_id x) (objs b1) = Some x"
    using find_obj_id_found [OF assms(2) f] ok1 by (simp add: chain_find_Some_iff bindery_ok_def x' same)
  have "fst (loc_delete_obj env (o_id x) b1) = 0" using l x' by simp
  then have acc: "b_acc env (o_id x) 0x33 0x03 = 0" by (auto simp: loc_delete_obj_def Let_def split: if_splits)
  obtain vs where d: "loc_delete_obj env (o_id x) b1 =
        (0, \<lparr>objs = filter (\<lambda>y. o_id y \<noteq> o_id x) (objs b), iobjs = chain_del i_key (o_name x, o_type x) (iobjs b1),
             props = filter (\<lambda>p. p_obj_id p \<noteq> o_id x) (props b), vals = vs\<rparr>)"
    and v: "vals_ok vs" "v_key ` set vs = v_key ` {v \<in> set (vals b). v_obj_id v \<noteq> o_id x}"
    and o: "\<And>ob pr. ob \<noteq> o_id x \<Longrightarrow> others (o_id x) (members vs ob pr) = others (o_id x) (members (vals b) ob pr)"
    and s: "\<And>p. p \<in> set (props b) \<Longrightarrow> p_obj_id p \<noteq> o_id x \<Longrightarrow> p_flags p AND P_FL_SET \<noteq> 0 \<Longrightarrow>
          o_id x \<notin># members vs (p_obj_id p) (p_id p)"
    and kept: "\<And>v. v \<in> set (vals b) \<Longrightarrow> v_obj_id v \<noteq> o_id x \<Longrightarrow>
          (v_obj_id v, v_prop_id v) \<notin> set_keys b \<or> o_id x \<notin># live_ids (v_value v) \<Longrightarrow> v \<in> set vs"
    by (rule loc_delete_obj_spec [OF assms(1,2) ok1 assms(5) x acc]) (use assms(6,7) same in \<open>auto simp: set_keys_def\<close>)
  have b': "b' = \<lparr>objs = filter (\<lambda>y. o_id y \<noteq> o_id x) (objs b), iobjs = chain_del i_key (o_name x, o_type x) (iobjs b1),
             props = filter (\<lambda>p. p_obj_id p \<noteq> o_id x) (props b), vals = vs\<rparr>"
    using l d x' by simp
  have own: "(v_obj_id y, v_prop_id y) \<in> p_key ` {p \<in> set (props b). p_obj_id p \<noteq> o_id x}" if y: "y \<in> set vs" for y
  proof -
    obtain w where w: "w \<in> set (vals b)" "v_obj_id w \<noteq> o_id x" "v_key y = v_key w" using v(2) y by blast
    show ?thesis using val_prop [OF assms(3) w(1)] w(2,3) by (force simp: p_key_def v_key_def)
  qed
  have "bindery_ok b'"
    using ok1 v(1) own unfolding b' by (auto simp: bindery_ok_def same distinct_map_filter)
  moreover have "in_sets b' (o_id x) = {}" using s by (auto simp: in_sets_def b')
  moreover have "chain_find i_key k (iobjs b') = (if k = (o_name x, o_type x) then None else chain_find i_key k (iobjs b))" for k
    using ok1 find_obj_id_frame [OF f] by (auto simp: b' bindery_ok_def iobj_of_def i_key_def x')
  ultimately show ?thesis using v o kept by (simp add: b')
qed

end
