(* ===== verification/BinderySound.thy ===== *)
theory BinderySound
  imports BinderyLaws
begin

text \<open>Every operation on the bindery keeps it sound, and what a caller may rely on after it: a created object
  is found, a written value is read back.\<close>

section \<open>What keeps a bindery sound\<close>

lemma ok_vals:
  "bindery_ok b \<Longrightarrow> vals_ok vs \<Longrightarrow> (\<And>v. v \<in> set vs \<Longrightarrow> (v_obj_id v, v_prop_id v) \<in> p_key ` set (props b)) \<Longrightarrow>
     bindery_ok (b\<lparr>vals := vs\<rparr>)"
  by (auto simp: bindery_ok_def)

lemma distinct_put_other:
  "distinct (map f xs) \<Longrightarrow> distinct (map key xs) \<Longrightarrow> (\<And>x. x \<in> set xs \<Longrightarrow> f x = f y \<Longrightarrow> key x = key y) \<Longrightarrow>
     distinct (map f (chain_put key y xs))"
proof (induction xs)
  case (Cons x xs)
  show ?case
  proof (cases "key x = key y")
    case True
    have "f y \<noteq> f z" if z: "z \<in> set xs" for z
    proof
      assume "f y = f z"
      then have "key z = key x" using Cons.prems(3) [of z] True z by simp
      then show False using Cons.prems(2) z by (auto simp: rev_image_eqI)
    qed
    then have "f y \<notin> f ` set xs" by auto
    then show ?thesis using True Cons.prems(1) by simp
  next
    case False
    then have "f x \<noteq> f y" using Cons.prems(3) by auto
    moreover have "f x \<notin> f ` set xs" using Cons.prems(1) by simp
    ultimately have "f x \<notin> f ` set (chain_put key y xs)" using set_put [of key y xs] by auto
    then show ?thesis using Cons False by simp
  qed
qed simp

lemma distinct_map_eq: "distinct (map f xs) \<Longrightarrow> x \<in> set xs \<Longrightarrow> y \<in> set xs \<Longrightarrow> f x = f y \<Longrightarrow> x = y"
  by (auto simp: distinct_map inj_on_def)

lemma ok_put_prop:
  assumes "bindery_ok b" and "p_id p \<noteq> 0" and "p_obj_id p \<in> o_id ` set (objs b)"
    and "\<And>q. q \<in> set (props b) \<Longrightarrow> p_obj_id q = p_obj_id p \<Longrightarrow> p_name q = p_name p \<Longrightarrow> p_id q = p_id p"
  shows "bindery_ok (b\<lparr>props := chain_put p_key p (props b)\<rparr>)"
proof -
  have "p_key ` set (chain_put p_key p (props b)) = insert (p_key p) (p_key ` set (props b))" by (rule keys_put)
  moreover have "distinct (map n_key (chain_put p_key p (props b)))"
    using assms(1,4) by (intro distinct_put_other) (auto simp: bindery_ok_def n_key_def p_key_def)
  ultimately show ?thesis using assms(1-3) set_put [of p_key p "props b"] distinct_put [of p_key "props b" p]
    by (auto simp: bindery_ok_def)
qed

lemma ok_put_obj: "bindery_ok b \<Longrightarrow> bindery_ok (b\<lparr>objs := chain_put o_id x (objs b)\<rparr>)"
  using keys_put [of o_id x "objs b"] distinct_put [of o_id "objs b" x] by (auto simp: bindery_ok_def)

lemma ok_names: "bindery_ok b \<Longrightarrow> p \<in> set (props b) \<Longrightarrow> q \<in> set (props b) \<Longrightarrow> p_obj_id q = p_obj_id p \<Longrightarrow>
    p_name q = p_name p \<Longrightarrow> p_id q = p_id p"
  using distinct_map_eq [of n_key "props b" p q] by (auto simp: bindery_ok_def n_key_def)

lemma ok_member_prop: "bindery_ok b \<Longrightarrow> p \<in> set (props b) \<Longrightarrow> p_id p \<noteq> 0 \<and> p_obj_id p \<in> o_id ` set (objs b)"
  by (auto simp: bindery_ok_def)

lemma handle_iobj_ok: "bindery_ok b \<Longrightarrow> bindery_ok (snd (snd (handle_iobj env mode x b)))"
  by (auto simp: handle_iobj_def ok_index split: option.splits)

lemma handle_iobj_frame: "props (snd (snd (handle_iobj env mode x b))) = props b"
  "objs (snd (snd (handle_iobj env mode x b))) = objs b" "vals (snd (snd (handle_iobj env mode x b))) = vals b"
  by (auto simp: handle_iobj_def split: option.splits)

text \<open>A change of the values that keeps them without gaps and invents no property.\<close>

definition values_kept :: "u32 \<Rightarrow> u8 \<Rightarrow> NETVAL list \<Rightarrow> NETVAL list \<Rightarrow> bool" where
  "values_kept ob pr vs vs' \<longleftrightarrow> vals_ok vs' \<and> set vs' \<subseteq> {v. \<exists>w \<in> set vs. v_obj_id v = v_obj_id w \<and> v_prop_id v = v_prop_id w}
     \<union> {v. v_obj_id v = ob \<and> v_prop_id v = pr}"

lemma kept_ok:
  assumes "bindery_ok b" and "values_kept ob pr (vals b) vs" and "(ob, pr) \<in> p_key ` set (props b)"
  shows "bindery_ok (b\<lparr>vals := vs\<rparr>)"
  using assms by (intro ok_vals) (auto simp: values_kept_def bindery_ok_def)

lemma del_member_kept: "vals_ok vs \<Longrightarrow> vals_ok (del_member ob pr m l n vs) \<and>
     v_key ` set (del_member ob pr m l n vs) = v_key ` set vs"
proof (induction n arbitrary: l)
  case (Suc n)
  have d: "distinct (map v_key vs)" using Suc.prems by (simp add: vals_ok_def)
  show ?case
  proof (cases "seg vs ob pr l")
    case (Some v)
    then have v: "v \<in> set vs" "length (v_value v) = 128" using Suc.prems by (auto simp: seg_Some [OF d] vals_ok_def)
    show ?thesis
    proof (cases "find_index (\<lambda>x. x = m) (ids_of (v_value v))")
      case k: (Some k)
      let ?v = "v\<lparr>v_value := remove_id (v_value v) k\<rparr>"
      have "k < 32" using find_index_Some [OF k] by simp
      then have "vals_ok (chain_put v_key ?v vs)" by (intro vals_ok_same_key Suc.prems v length_remove_id)
      moreover have "v_key ` set (chain_put v_key ?v vs) = v_key ` set vs"
        using v(1) unfolding keys_put by (auto simp: v_key_def)
      ultimately show ?thesis using Some k by (simp add: seg_def seg_key_def)
    qed (use Some Suc in \<open>simp add: seg_def seg_key_def\<close>)
  qed (use Suc.prems in \<open>simp add: seg_def seg_key_def\<close>)
qed simp

lemma same_keys_ok:
  assumes "bindery_ok b" and "vals_ok vs" and "v_key ` set vs = v_key ` set (vals b)"
  shows "bindery_ok (b\<lparr>vals := vs\<rparr>)"
proof (rule ok_vals [OF assms(1,2)])
  fix v assume "v \<in> set vs"
  then have "v_key v \<in> v_key ` set (vals b)" using assms(3) by blast
  then obtain w where w: "w \<in> set (vals b)" "v_key v = v_key w" by blast
  then have "(v_obj_id v, v_prop_id v) = (v_obj_id w, v_prop_id w)" by (simp add: v_key_def)
  moreover have "(v_obj_id w, v_prop_id w) \<in> p_key ` set (props b)" using assms(1) w(1) by (simp add: bindery_ok_def)
  ultimately show "(v_obj_id v, v_prop_id v) \<in> p_key ` set (props b)" by simp
qed

lemma ok_vals_ok: "bindery_ok b \<Longrightarrow> vals_ok (vals b)"
  by (simp add: bindery_ok_def)

lemma prop_delete_member_ok:
  assumes "bindery_ok b"
  shows "bindery_ok (snd (prop_delete_member env ob pr sec m b))"
proof -
  have "bindery_ok (b\<lparr>vals := del_member ob pr m 1 255 (vals b)\<rparr>)"
    by (rule same_keys_ok [OF assms]) (simp_all add: del_member_kept [OF ok_vals_ok [OF assms]])
  then show ?thesis using assms by (simp add: prop_delete_member_def Let_def)
qed

lemma add_member_kept:
  "vals_ok vs \<Longrightarrow> l + n = 256 \<Longrightarrow> 1 \<le> l \<Longrightarrow> (l \<noteq> 1 \<longrightarrow> seg vs ob pr (l - 1) \<noteq> None) \<Longrightarrow>
     values_kept ob pr vs (snd (add_member ob pr m l n vs))"
proof (induction n arbitrary: l)
  case (Suc n)
  have d: "distinct (map v_key vs)" using Suc.prems by (simp add: vals_ok_def)
  have l: "l < 256" using Suc.prems by simp
  show ?case
  proof (cases "seg vs ob pr l")
    case None
    let ?v = "\<lparr>v_obj_id = ob, v_prop_id = pr, v_segment = word_of_nat l, v_value = put_id (replicate 128 0) 0 m\<rparr>"
    have "v_segment ?v \<noteq> 1 \<Longrightarrow> l \<noteq> 1" by auto
    then have prev: "v_segment ?v \<noteq> 1 \<Longrightarrow> (v_obj_id ?v, v_prop_id ?v, v_segment ?v - 1) \<in> v_key ` set vs"
      using Suc.prems(3,4) by (auto simp: seg_None seg_key_def of_nat_diff)
    have nz: "v_segment ?v \<noteq> 0" using unat_seg [OF l] Suc.prems(3) by auto
    have "vals_ok (chain_put v_key ?v vs)" by (rule vals_ok_put [OF Suc.prems(1) _ nz prev]) (simp_all add: length_put_id)
    then show ?thesis using None set_put [of v_key ?v vs] by (auto simp: values_kept_def seg_def seg_key_def)
  next
    case s: (Some v)
    then have v: "v \<in> set vs" "v_key v = seg_key ob pr l" "length (v_value v) = 128"
      using Suc.prems(1) by (auto simp: seg_Some [OF d] vals_ok_def)
    show ?thesis
    proof (cases "find_index (\<lambda>x. x = 0) (ids_of (v_value v))")
      case None
      then show ?thesis using Suc.IH [of "Suc l"] Suc.prems s by (simp add: seg_def seg_key_def)
    next
      case (Some k)
      let ?v = "v\<lparr>v_value := put_id (v_value v) k m\<rparr>"
      have "k < 32" using find_index_Some [OF Some] by simp
      then have "vals_ok (chain_put v_key ?v vs)" by (intro vals_ok_same_key Suc.prems v length_put_id)
      then show ?thesis using s Some set_put [of v_key ?v vs] v(2)
        by (auto simp: values_kept_def seg_def seg_key_def v_key_def)
    qed
  qed
qed (auto simp: values_kept_def)

lemma prop_add_member_ok:
  assumes "bindery_ok b" and "(ob, pr) \<in> p_key ` set (props b)"
  shows "bindery_ok (snd (prop_add_member env ob pr sec m b))"
proof -
  have "values_kept ob pr (vals b) (snd (add_member ob pr m 1 255 (vals b)))"
    by (rule add_member_kept [OF ok_vals_ok [OF assms(1)]]) simp_all
  then have "bindery_ok (b\<lparr>vals := snd (add_member ob pr m 1 255 (vals b))\<rparr>)"
    by (rule kept_ok [OF assms(1) _ assms(2)])
  then show ?thesis using assms(1) by (simp add: prop_add_member_def Let_def split_beta)
qed

lemma ins_prop_val_ok:
  assumes ok: "bindery_ok b" and p: "(ob, p_id p) \<in> p_key ` set (props b)"
    and s: "1 \<le> s" "s \<le> 255" and len: "128 \<le> length value"
  shows "bindery_ok (snd (ins_prop_val env ob p s value erase b))"
proof (cases "b_acc env ob (p_security p) 0x11 = 0 \<and> dbm_ok env FNVAL \<and>
    \<not> (1 < s \<and> chain_find v_key (ob, p_id p, word_of_int (s - 1)) (vals b) = None)")
  case True
  let ?s = "word_of_int s :: u8"
  let ?v = "\<lparr>v_obj_id = ob, v_prop_id = p_id p, v_segment = ?s, v_value = take 128 value\<rparr>"
  let ?vs = "chain_put v_key ?v (vals b)"
  have u: "unat ?s = nat s" using s by (simp add: unat_eq_nat_uint uint_word_of_int)
  have v: "vals_ok ?vs"
  proof (rule vals_ok_put [OF ok_vals_ok [OF ok]])
    have "?s = 0 \<Longrightarrow> nat s = 0" using u by (metis unat_0)
    then show "v_segment ?v \<noteq> 0" using s by auto
    have "?s \<noteq> 1 \<Longrightarrow> 1 < s" using s by (cases "s = 1") auto
    then show "v_segment ?v \<noteq> 1 \<Longrightarrow> (v_obj_id ?v, v_prop_id ?v, v_segment ?v - 1) \<in> v_key ` set (vals b)"
      using True by (auto simp: chain_find_None wi_hom_sub)
  qed (use len in simp)
  have own: "w \<in> set ?vs \<Longrightarrow> (v_obj_id w, v_prop_id w) \<in> p_key ` set (props b)" for w
    using set_put [of v_key ?v "vals b"] ok p by (auto simp: bindery_ok_def)
  have "del_segments ob (p_id p) (unat ?s + 1) (255 - unat ?s) ?vs = filter (\<lambda>w. \<not> in_tail ob (p_id p) (unat ?s + 1) w) ?vs"
    using del_segments_ok [OF v, of "unat ?s + 1" ob "p_id p"] s u by simp
  then have "bindery_ok (b\<lparr>vals := del_segments ob (p_id p) (unat ?s + 1) (255 - unat ?s) ?vs\<rparr>)"
    using own by (simp only:) (intro ok_vals [OF ok] vals_ok_tail v; simp)
  moreover have "bindery_ok (b\<lparr>vals := ?vs\<rparr>)" using own by (intro ok_vals [OF ok] v)
  ultimately show ?thesis using True by (auto simp: ins_prop_val_def Let_def)
qed (use ok in \<open>auto simp: ins_prop_val_def Let_def\<close>)



section \<open>New objects and properties\<close>

lemma free_id_run: "free_id n used i \<in> used \<Longrightarrow> k \<le> n \<Longrightarrow> i + of_nat k \<in> used"
proof (induction n arbitrary: i k)
  case (Suc n)
  then have "i \<in> used" "free_id n used (i + 1) \<in> used" by (auto split: if_splits)
  then show ?case using Suc.IH [of "i + 1" "k - 1"] Suc.prems(2) by (cases k) (auto simp: add.assoc)
qed simp

lemma free_id_fresh:
  assumes "finite used" and "card used \<le> n" and "n < 2 ^ 32"
  shows "free_id n used i \<notin> used"
proof
  assume "free_id n used i \<in> used"
  then have sub: "(\<lambda>k. i + of_nat k) ` {..n} \<subseteq> used" using free_id_run by auto
  have "inj_on (\<lambda>k. i + of_nat k :: u32) {..n}"
  proof (rule inj_onI)
    fix k l assume k: "k \<in> {..n}" "l \<in> {..n}" "i + of_nat k = i + (of_nat l :: u32)"
    then have "unat (of_nat k :: u32) = unat (of_nat l :: u32)" by simp
    moreover have "unat (of_nat j :: u32) = j" if "j \<le> n" for j
      using that assms(3) by (simp add: unsigned_of_nat take_bit_nat_eq_self)
    ultimately show "k = l" using k by (metis atMost_iff)
  qed
  then have "card ((\<lambda>k. i + of_nat k) ` {..n}) = Suc n" by (simp add: card_image)
  then show False using card_mono [OF assms(1) sub] assms(2) by simp
qed

lemma nw_create_obj_ok: "bindery_ok b \<Longrightarrow> bindery_ok (snd (snd (nw_create_obj env ob w b)))"
  by (auto simp: nw_create_obj_def Let_def intro!: handle_iobj_ok ok_put_obj split: option.splits)

text \<open>C26. A created object gets an id that no object has, and is found by its name and type from then
  on; all other objects stay under their ids, and creating it a second time is refused.\<close>

theorem created_object_found:
  assumes "files_open env" and "scans_complete env" and "nw_create_obj env ob w b = (0, o1, b')"
    and "length (objs b) < 2 ^ 32" and "o_name q = o_name ob" and "o_type q = o_type ob"
  shows "o_id o1 \<notin> o_id ` set (objs b) \<and> o1 = ob\<lparr>o_id := o_id o1\<rparr> \<and> find_obj_id env q b' = (0, o1, b') \<and>
     (\<forall>i. i \<noteq> o_id o1 \<longrightarrow> chain_find o_id i (objs b') = chain_find o_id i (objs b)) \<and>
     props b' = props b \<and> vals b' = vals b \<and> fst (nw_create_obj env q w' b') = -0xee"
proof -
  define i where "i = free_id (length (objs b)) (o_id ` set (objs b))
     ((if w \<noteq> 0 then w - 1 else push_bit 16 (ucast (o_type ob)) + 1) + 1)"
  have acc: "b_acc env 0 0x33 0x02 = 0" using assms(3) by (auto simp: nw_create_obj_def Let_def split: if_splits)
  let ?b = "b\<lparr>objs := chain_put o_id o1 (objs b)\<rparr>"
  have e: "o1 = ob\<lparr>o_id := i\<rparr>" "b' = snd (snd (handle_iobj env 2 o1 ?b))"
    using assms(1,3) acc by (auto simp: nw_create_obj_def Let_def i_def split: option.splits)
  have id: "o_id o1 = i" by (simp add: e(1))
  have "card (o_id ` set (objs b)) \<le> length (objs b)"
    using card_image_le [of "set (objs b)" o_id] card_length [of "objs b"] by simp
  then have fresh: "i \<notin> o_id ` set (objs b)" unfolding i_def by (intro free_id_fresh assms(4)) simp_all
  have b': "b' = ?b\<lparr>iobjs := chain_put i_key (iobj_of o1) (iobjs b)\<rparr>"
    using assms(1) by (simp add: e(2) handle_iobj_def reindexed split: option.split)
  have "i_key (iobj_of o1) = (o_name q, o_type q)" by (simp add: i_key_def iobj_of_def e(1) assms(5,6))
  then have "chain_find i_key (o_name q, o_type q) (iobjs b') = Some (iobj_of o1)" by (simp add: b')
  then have "handle_iobj env 0 q b' = (0, q\<lparr>o_id := i\<rparr>, b')"
    using assms(1) by (simp add: handle_iobj_def iobj_of_def id)
  then have "find_obj_id env q b' = (0, o1, b')"
    using assms(1,5,6) by (simp add: find_obj_id_def b' id) (simp add: e(1))
  moreover have "\<exists>x \<in> set (obj_order env (objs b')). o_type x = o_type q \<and> o_name x = o_name q"
  proof (rule bexI [of _ o1])
    have "chain_find o_id i (objs b') = Some o1" by (simp add: b' id)
    then show "o1 \<in> set (obj_order env (objs b'))" using assms(2) by (auto dest: chain_find_key)
  qed (simp add: e(1) assms(5,6))
  then have "fst (nw_create_obj env q w' b') = -0xee"
    using acc assms(1) by (auto simp: nw_create_obj_def find_None_iff split: option.split)
  ultimately show ?thesis using fresh b' id e(1) by (simp add: assms)
qed

lemma slot_left:
  assumes "length own < 255"
  obtains k where "find (\<lambda>k. word_of_nat k \<notin> set (map p_id own)) [1..<256] = Some k" "1 \<le> k" "k < 256"
    "(word_of_nat k :: u8) \<notin> p_id ` set own"
proof (cases "find (\<lambda>k. word_of_nat k \<notin> set (map p_id own)) [1..<256]")
  case None
  then have sub: "(word_of_nat :: nat \<Rightarrow> u8) ` {1..<256} \<subseteq> p_id ` set own" by (auto simp: find_None_iff simp del: upt_Suc)
  have "inj_on (word_of_nat :: nat \<Rightarrow> u8) {1..<256}"
    by (rule inj_on_inverseI [where g = unat]) (simp add: unat_seg)
  then have "card ((word_of_nat :: nat \<Rightarrow> u8) ` {1..<256}) = 255" by (simp add: card_image)
  then have "255 \<le> card (p_id ` set own)" using card_mono [OF _ sub] by simp
  moreover have "card (p_id ` set own) \<le> length own"
    using card_image_le [of "set own" p_id] card_length [of own] by simp
  ultimately show ?thesis using assms by simp
next
  case (Some k)
  then have "k \<in> set [1..<256]" "word_of_nat k \<notin> set (map p_id own)" using find_SomeD by metis+
  then show ?thesis using that Some by auto
qed

lemma nw_create_obj_prop_spec:
  assumes env: "scans_complete env" and ok: "bindery_ok b" and c: "nw_create_obj_prop env ob p b = (r, p', b')"
    and own: "ob \<in> o_id ` set (objs b)" and few: "length (filter (\<lambda>q. p_obj_id q = ob) (props b)) < 255"
  shows "bindery_ok b' \<and> objs b' = objs b \<and> iobjs b' = iobjs b \<and> vals b' = vals b \<and>
     (r \<in> {0, -0xed} \<longrightarrow> (ob, p_id p') \<in> p_key ` set (props b'))"
proof -
  let ?own = "filter (\<lambda>q. p_obj_id q = ob) (prop_order env (props b))"
  have "mset ?own = mset (filter (\<lambda>q. p_obj_id q = ob) (props b))"
    using env by (simp add: scans_complete_def)
  then have "length ?own < 255" using few mset_eq_length by metis
  then obtain k where k: "find (\<lambda>k. word_of_nat k \<notin> set (map p_id ?own)) [1..<256] = Some k" "1 \<le> k" "k < 256"
    by (rule slot_left)
  have nz: "(word_of_nat k :: u8) \<noteq> 0" using unat_seg [OF k(3)] k(2) by auto
  show ?thesis
  proof (cases "find (\<lambda>q. p_name q = p_name p) ?own")
    case None
    let ?p = "p\<lparr>p_obj_id := ob, p_id := word_of_nat k\<rparr>"
    have "bindery_ok (b\<lparr>props := chain_put p_key ?p (props b)\<rparr>)"
      using nz own None env by (intro ok_put_prop [OF ok]) (auto simp: find_None_iff)
    then show ?thesis
      using None c k(1) keys_put [of p_key ?p "props b"] ok
      by (auto simp: nw_create_obj_prop_def Let_def p_key_def simp del: upt_Suc split: if_splits)
  next
    case (Some q)
    then have q: "q \<in> set (props b)" "p_obj_id q = ob" using find_SomeD [OF Some] env by auto
    let ?q = "q\<lparr>p_security := p_security p, p_flags := p_flags p\<rparr>"
    have ok1: "bindery_ok (b\<lparr>props := chain_put p_key ?q (props b)\<rparr>)"
      using ok_member_prop [OF ok q(1)] ok_names [OF ok q(1)] by (intro ok_put_prop [OF ok]) simp_all
    have keys: "(ob, p_id q) \<in> p_key ` set (chain_put p_key ?q (props b))" "(ob, p_id q) \<in> p_key ` set (props b)"
      using q unfolding keys_put by (auto simp: p_key_def)
    consider "r = -0xff" "b' = b" | "r = -0xed" "p_id p' = p_id q" "b' = b"
      | "r = -0xed" "p_id p' = p_id q" "b' = b\<lparr>props := chain_put p_key ?q (props b)\<rparr>"
      using Some c by (auto simp: nw_create_obj_prop_def Let_def split: if_splits)
    then show ?thesis using ok ok1 keys by cases simp_all
  qed
qed

section \<open>Requests\<close>

lemma find_prop_id_in:
  assumes "scans_complete env" and "find_prop_id env name ob l b = Inr p"
  shows "p \<in> set (props b) \<and> p_obj_id p = ob \<and> b_acc env ob (p_security p) 0x00 = 0"
proof -
  have "set (tl (dropWhile P xs)) \<subseteq> set xs" for P and xs :: "NETPROP list"
    by (meson set_dropWhileD subsetI tl_in)
  from this [of _ "filter (\<lambda>p. p_obj_id p = ob) (prop_order env (props b))"]
  have "set (tl (dropWhile P (filter (\<lambda>p. p_obj_id p = ob) (prop_order env (props b))))) \<subseteq>
      {p \<in> set (props b). p_obj_id p = ob}" for P
    using assms(1) by auto
  then show ?thesis using assms
    by (auto simp: find_prop_id_def Let_def dest!: find_SomeD split: option.splits if_splits)
qed

lemma prop_key_in: "p \<in> set ps \<Longrightarrow> p_obj_id p = ob \<Longrightarrow> (ob, p_id p) \<in> p_key ` set ps"
  by (auto simp: p_key_def)

lemma find_set_spec:
  assumes env: "scans_complete env" and ok: "bindery_ok b" and f: "find_set env ob name mob b = (r, b')"
  shows "bindery_ok b' \<and> props b' = props b \<and> vals b' = vals b \<and> objs b' = objs b \<and>
     (\<forall>x p m. r = Inr (x, p, m) \<longrightarrow> (o_id x, p_id p) \<in> p_key ` set (props b) \<and> p \<in> set (props b) \<and> p_obj_id p = o_id x)"
proof -
  obtain r1 o1 b1 where 1: "find_obj_id env ob b = (r1, o1, b1)" by (metis prod_cases3)
  obtain r2 m b2 where 2: "find_obj_id env mob b1 = (r2, m, b2)" by (metis prod_cases3)
  have b1: "bindery_ok b1" "props b1 = props b" "vals b1 = vals b" "objs b1 = objs b"
    using find_obj_id_ok [OF ok 1] find_obj_id_frame [OF 1] by auto
  have b2: "bindery_ok b2" "props b2 = props b" "vals b2 = vals b" "objs b2 = objs b"
    using find_obj_id_ok [OF b1(1) 2] find_obj_id_frame [OF 2] b1 by auto
  show ?thesis
  proof (cases "find_first_prop_id env name (o_id o1) b1")
    case (Inr p)
    then show ?thesis using f find_prop_id_in [OF env Inr] prop_key_in [of p "props b" "o_id o1"] b1 b2
      by (auto simp: find_set_def 1 2 split: if_splits)
  qed (use f b1 in \<open>auto simp: find_set_def 1 split: if_splits\<close>)
qed

lemma leave_sets_ok: "bindery_ok b \<Longrightarrow> bindery_ok (leave_sets env m b) \<and>
    objs (leave_sets env m b) = objs b \<and> props (leave_sets env m b) = props b"
proof -
  have "bindery_ok t \<Longrightarrow> bindery_ok (fold (\<lambda>(ob, pr) t. snd (prop_delete_member env ob pr 0 m t)) ss t) \<and>
    objs (fold (\<lambda>(ob, pr) t. snd (prop_delete_member env ob pr 0 m t)) ss t) = objs t \<and>
    props (fold (\<lambda>(ob, pr) t. snd (prop_delete_member env ob pr 0 m t)) ss t) = props t" for ss t
  proof (induction ss arbitrary: t)
    case (Cons s ss)
    obtain ob pr where s: "s = (ob, pr)" by fastforce
    have "objs (snd (prop_delete_member env ob pr 0 m t)) = objs t" "props (snd (prop_delete_member env ob pr 0 m t)) = props t"
      by (auto simp: prop_delete_member_def)
    then show ?case using Cons.IH [OF prop_delete_member_ok [OF Cons.prems, of env ob pr 0 m]] by (simp add: s)
  qed simp
  then show "bindery_ok b \<Longrightarrow> ?thesis" unfolding leave_sets_def by blast
qed

lemma loc_delete_obj_ok:
  assumes "files_open env" and "scans_complete env" and "bindery_ok b"
  shows "bindery_ok (snd (loc_delete_obj env m b))"
proof -
  let ?b1 = "b\<lparr>props := filter (\<lambda>p. p_obj_id p \<noteq> m) (props b), vals := filter (\<lambda>v. v_obj_id v \<noteq> m) (vals b)\<rparr>"
  have b1: "snd (loc_delete_property env m [42] 0 True b) = ?b1"
    using delete_by_name(1) [OF assms] without_all_ok [OF assms(3)] by simp
  have "bindery_ok ?b1" using ok_without_props [OF assms(3), of m "doomed env m [42] True b"] without_all_ok [OF assms(3)] by simp
  note L = leave_sets_ok [OF this, of env m]
  define b2 where "b2 = leave_sets env m ?b1"
  have ok2: "bindery_ok b2" and p2: "\<forall>p \<in> set (props b2). p_obj_id p \<noteq> m" using L by (auto simp: b2_def)
  have "chain_del o_id m (objs b2) = filter (\<lambda>x. o_id x \<noteq> m) (objs b2)"
    using ok2 by (intro chain_del_filter) (simp add: bindery_ok_def)
  moreover have "p_obj_id p \<in> o_id ` {x \<in> set (objs b2). o_id x \<noteq> m}" if p: "p \<in> set (props b2)" for p
  proof -
    obtain x where "x \<in> set (objs b2)" "p_obj_id p = o_id x" using ok_member_prop [OF ok2 p] by auto
    then show ?thesis using p2 p by auto
  qed
  ultimately have "bindery_ok (b2\<lparr>objs := chain_del o_id m (objs b2)\<rparr>)"
    using ok2 by (auto simp: bindery_ok_def distinct_map_filter)
  then have "bindery_ok (snd (drop_obj env m b2))"
    using ok2 by (auto simp: drop_obj_def handle_iobj_ok split: option.split)
  then show ?thesis using assms(3) ok2 \<open>bindery_ok ?b1\<close> by (auto simp: loc_delete_obj_def Let_def b1 b2_def)
qed

lemma chain_put_key_same: "key y = key x \<Longrightarrow> x \<in> set xs \<Longrightarrow> key ` set (chain_put key y xs) = key ` set xs"
  unfolding keys_put by auto

lemma nw_delete_obj_ok:
  "files_open env \<Longrightarrow> scans_complete env \<Longrightarrow> bindery_ok b \<Longrightarrow> bindery_ok (snd (snd (nw_delete_obj env ob b)))"
  using find_obj_id_ok loc_delete_obj_ok
  by (auto simp: nw_delete_obj_def split_beta) (metis prod.collapse)+

lemma nw_rename_obj_ok: "bindery_ok b \<Longrightarrow> bindery_ok (snd (snd (nw_rename_obj env ob new b)))"
proof -
  assume ok: "bindery_ok b"
  obtain r o1 b1 where 1: "find_obj_id env ob b = (r, o1, b1)" by (metis prod_cases3)
  note ok1 = find_obj_id_ok [OF ok 1]
  show ?thesis using ok1 handle_iobj_ok [OF ok1]
    by (auto simp: nw_rename_obj_def 1 Let_def intro!: handle_iobj_ok ok_put_obj split: option.split)
qed

lemma nw_change_obj_security_ok: "bindery_ok b \<Longrightarrow> bindery_ok (snd (snd (nw_change_obj_security env ob s b)))"
proof -
  assume ok: "bindery_ok b"
  obtain r o1 b1 where 1: "find_obj_id env ob b = (r, o1, b1)" by (metis prod_cases3)
  note ok1 = find_obj_id_ok [OF ok 1]
  show ?thesis using ok1
    by (auto simp: nw_change_obj_security_def 1 Let_def intro!: ok_put_obj split: option.split)
qed

lemma loc_change_prop_security_ok:
  assumes "scans_complete env" and "bindery_ok b"
  shows "bindery_ok (snd (loc_change_prop_security env name s ob b))"
proof (cases "find (\<lambda>p. p_obj_id p = ob \<and> name_match (p_name p) name) (prop_order env (props b))")
  case (Some p)
  then have p: "p \<in> set (props b)" using find_SomeD [OF Some] assms(1) by simp
  have "bindery_ok (b\<lparr>props := chain_put p_key (p\<lparr>p_security := s\<rparr>) (props b)\<rparr>)"
    by (rule ok_put_prop [OF assms(2)])
      (simp_all add: ok_member_prop [OF assms(2) p] ok_names [OF assms(2) p])
  then show ?thesis using Some assms(2) by (simp add: loc_change_prop_security_def Let_def)
qed (use assms in \<open>simp add: loc_change_prop_security_def\<close>)

lemma nw_change_prop_security_ok:
  assumes "scans_complete env" and "bindery_ok b"
  shows "bindery_ok (snd (nw_change_prop_security env t n nl pn pl s b))"
proof -
  obtain r o1 b1 where 1: "find_obj_id env (named_obj t n nl) b = (r, o1, b1)" by (metis prod_cases3)
  note ok1 = find_obj_id_ok [OF assms(2) 1]
  show ?thesis using ok1 loc_change_prop_security_ok [OF assms(1) ok1] by (simp add: nw_change_prop_security_def 1)
qed

lemma nw_delete_property_ok:
  assumes "files_open env" and "scans_complete env" and "bindery_ok b"
  shows "bindery_ok (snd (nw_delete_property env t n nl pn pl b))"
proof -
  obtain r o1 b1 where 1: "find_obj_id env (named_obj t n nl) b = (r, o1, b1)" by (metis prod_cases3)
  note ok1 = find_obj_id_ok [OF assms(3) 1]
  show ?thesis using ok1 ok_without_props [OF ok1]
    by (simp add: nw_delete_property_def 1 delete_by_name(1) [OF assms(1,2) ok1])
qed

lemma nw_write_prop_value_ok:
  assumes "scans_complete env" and "bindery_ok b" and "1 \<le> s" and "s \<le> 255" and "128 \<le> length v"
  shows "bindery_ok (snd (nw_write_prop_value env t n nl s e pn pl v b))"
proof -
  obtain r o1 b1 where 1: "find_obj_id env (named_obj t n nl) b = (r, o1, b1)" by (metis prod_cases3)
  note ok1 = find_obj_id_ok [OF assms(2) 1]
  show ?thesis
  proof (cases "find_first_prop_id env (strmaxcpy pn pl) (o_id o1) b1")
    case (Inr p)
    then have "(o_id o1, p_id p) \<in> p_key ` set (props b1)"
      using find_prop_id_in [OF assms(1) Inr] prop_key_in by blast
    then show ?thesis using ok1 ins_prop_val_ok [OF ok1 _ assms(3-5)] Inr by (simp add: nw_write_prop_value_def 1)
  qed (use ok1 in \<open>simp add: nw_write_prop_value_def 1\<close>)
qed

lemma nw_add_obj_to_set_ok:
  assumes "scans_complete env" and "bindery_ok b"
  shows "bindery_ok (snd (nw_add_obj_to_set env t n nl pn pl mt mn ml b))"
proof -
  obtain r b1 where f: "find_set env (named_obj t n nl) (strmaxcpy pn pl) (named_obj mt mn ml) b = (r, b1)" by fastforce
  note spec = find_set_spec [OF assms f]
  show ?thesis
  proof (cases r)
    case (Inr x)
    then obtain ob p m where x: "r = Inr (ob, p, m)" by (metis prod_cases3)
    then have "bindery_ok (snd (prop_add_member env (o_id ob) (p_id p) (p_security p) (o_id m) b1))"
      using spec by (intro prop_add_member_ok) auto
    then show ?thesis using spec by (simp add: nw_add_obj_to_set_def f x Let_def)
  qed (use spec in \<open>simp add: nw_add_obj_to_set_def f\<close>)
qed

lemma nw_delete_obj_from_set_ok:
  assumes "scans_complete env" and "bindery_ok b"
  shows "bindery_ok (snd (nw_delete_obj_from_set env t n nl pn pl mt mn ml b))"
proof -
  obtain r b1 where f: "find_set env (named_obj t n nl) (strmaxcpy pn pl) (named_obj mt mn ml) b = (r, b1)" by fastforce
  note spec = find_set_spec [OF assms f]
  show ?thesis
  proof (cases r)
    case (Inr x)
    then obtain ob p m where x: "r = Inr (ob, p, m)" by (metis prod_cases3)
    then show ?thesis using spec by (simp add: nw_delete_obj_from_set_def f prop_delete_member_ok)
  qed (use spec in \<open>simp add: nw_delete_obj_from_set_def f\<close>)
qed

text \<open>Every object still has room for a property: the search for a free property id succeeds.\<close>

definition room :: "bindery \<Rightarrow> bool" where
  "room b \<longleftrightarrow> (\<forall>ob. length (filter (\<lambda>p. p_obj_id p = ob) (props b)) < 255)"

lemma nw_create_prop_ok:
  assumes "scans_complete env" and "bindery_ok b" and "room b"
  shows "bindery_ok (snd (nw_create_prop env t n nl pn pl fl s b))"
proof -
  obtain r o1 b1 where 1: "find_obj_id env (named_obj t n nl) b = (r, o1, b1)" by (metis prod_cases3)
  note ok1 = find_obj_id_ok [OF assms(2) 1]
  have same: "props b1 = props b" "objs b1 = objs b" using find_obj_id_frame [OF 1] by auto
  let ?p = "\<lparr>p_obj_id = 0, p_id = 0, p_name = strmaxcpy pn pl, p_flags = word_of_int fl, p_security = word_of_int s\<rparr>"
  obtain r2 p2 b2 where 2: "nw_create_obj_prop env (o_id o1) ?p b1 = (r2, p2, b2)" by (metis prod_cases3)
  have "bindery_ok b2" if "r = 0"
  proof -
    have "o_id o1 \<in> o_id ` set (objs b1)" using find_obj_id_found [OF assms(1)] 1 that same by auto
    moreover have "length (filter (\<lambda>q. p_obj_id q = o_id o1) (props b1)) < 255" using assms(3) same by (simp add: room_def)
    ultimately show ?thesis using nw_create_obj_prop_spec [OF assms(1) ok1 2] by simp
  qed
  then show ?thesis using ok1 by (simp add: nw_create_prop_def 1 2 Let_def)
qed

section \<open>Writing and reading values\<close>

lemma seg_256: "vals_ok vs \<Longrightarrow> seg vs ob pr 256 = None"
  by (auto simp: seg_None seg_key_def vals_ok_def v_key_def)

lemma seg_tail:
  assumes "distinct (map v_key vs)" and "l < 256"
  shows "seg (filter (\<lambda>w. \<not> in_tail ob pr k w) vs) ob' pr' l = (if (ob', pr') = (ob, pr) \<and> k \<le> l then None else seg vs ob' pr' l)"
proof (cases "seg vs ob' pr' l")
  case (Some w)
  then have "v_key w = seg_key ob' pr' l" by (simp add: seg_Some [OF assms(1)])
  then have "in_tail ob pr k w \<longleftrightarrow> (ob', pr') = (ob, pr) \<and> k \<le> l"
    using unat_seg [OF assms(2)] by (auto simp: in_tail_def v_key_def seg_key_def)
  then show ?thesis using Some by (auto simp: seg_filter [OF assms(1)])
qed (simp add: seg_filter [OF assms(1)])

text \<open>What a successful write leaves in each segment.\<close>

lemma ins_prop_val_segs:
  assumes ok: "bindery_ok b" and i: "ins_prop_val env ob p s value erase b = (0, b')"
    and s: "1 \<le> s" "s \<le> 255" and len: "128 \<le> length value"
  defines "v \<equiv> \<lparr>v_obj_id = ob, v_prop_id = p_id p, v_segment = word_of_int s, v_value = take 128 value\<rparr>"
  shows "dbm_ok env FNVAL" and "vals_ok (vals b')"
    and "l < 256 \<Longrightarrow> seg (vals b') ob' pr' l =
       (if (ob', pr', l) = (ob, p_id p, nat s) then Some v
        else if erase = 0xff \<and> (ob', pr') = (ob, p_id p) \<and> nat s < l then None else seg (vals b) ob' pr' l)"
proof -
  let ?s = "word_of_int s :: u8"
  let ?vs = "chain_put v_key v (vals b)"
  have u: "unat ?s = nat s" using s by (simp add: unat_eq_nat_uint uint_word_of_int)
  have w: "word_of_nat (nat s) = ?s" using s by simp
  have "?s = 0 \<Longrightarrow> nat s = 0" using u by (metis unat_0)
  then have nz: "?s \<noteq> 0" using s by auto
  show "dbm_ok env FNVAL"
    using i by (auto simp: ins_prop_val_def Let_def acc_error_neg split: if_splits)
  have prev: "1 < s \<Longrightarrow> chain_find v_key (ob, p_id p, word_of_int (s - 1)) (vals b) \<noteq> None"
    and b': "b' = b\<lparr>vals := if erase = 0xff then del_segments ob (p_id p) (nat s + 1) (255 - nat s) ?vs else ?vs\<rparr>"
    using i u by (auto simp: ins_prop_val_def Let_def acc_error_neg v_def split: if_splits)
  have "?s \<noteq> 1 \<Longrightarrow> 1 < s" using s by (cases "s = 1") auto
  then have vs: "vals_ok ?vs"
    using prev nz len by (intro vals_ok_put [OF ok_vals_ok [OF ok]]) (auto simp: chain_find_None wi_hom_sub v_def)
  have vb: "vals b' = (if erase = 0xff then filter (\<lambda>w. \<not> in_tail ob (p_id p) (nat s + 1) w) ?vs else ?vs)"
    using del_segments_ok [OF vs, of "nat s + 1" ob "p_id p"] s unfolding b' by simp
  show "vals_ok (vals b')" using vs vals_ok_tail [OF vs] by (simp add: vb)
  assume l: "l < 256"
  have "seg ?vs ob' pr' l = (if (ob', pr', l) = (ob, p_id p, nat s) then Some v else seg (vals b) ob' pr' l)"
    using seg_put [of v ob "p_id p" "nat s" l] l s by (simp add: v_key_def seg_key_def w v_def)
  then show "seg (vals b') ob' pr' l =
       (if (ob', pr', l) = (ob, p_id p, nat s) then Some v
        else if erase = 0xff \<and> (ob', pr') = (ob, p_id p) \<and> nat s < l then None else seg (vals b) ob' pr' l)"
    using seg_tail [of ?vs l] vs l by (auto simp: vb vals_ok_def)
qed

text \<open>A segment of a property that was written is read back with its first 128 bytes; the answer says that
  more segments follow exactly when the next one existed and was not erased by the write, and no segment of another
  property, nor an earlier one of this property, changes.\<close>

theorem written_value_read:
  assumes "bindery_ok b" and "ins_prop_val env ob p s value erase b = (0, b')" and "b_acc env ob (p_security p) 0x10 = 0"
    and "1 \<le> s" and "s \<le> 255" and "128 \<le> length value"
  shows "loc_get_prop_val env ob (p_id p) (p_security p) s b' =
       Inr (take 128 value, if erase \<noteq> 0xff \<and> seg (vals b) ob (p_id p) (nat s + 1) \<noteq> None then 0xff else 0) \<and>
     (\<forall>ob' pr' l. l < 256 \<longrightarrow> (ob', pr') \<noteq> (ob, p_id p) \<or> l < nat s \<longrightarrow> seg (vals b') ob' pr' l = seg (vals b) ob' pr' l)"
proof -
  note segs = ins_prop_val_segs [OF assms(1,2,4-6)]
  have w: "word_of_nat (nat s) = (word_of_int s :: u8)" using assms(4) by simp
  have more: "chain_find v_key (ob, p_id p, word_of_int s + 1) (vals b') \<noteq> None \<longleftrightarrow>
      erase \<noteq> 0xff \<and> seg (vals b) ob (p_id p) (nat s + 1) \<noteq> None"
  proof (cases "s = 255")
    case True
    then show ?thesis using seg_256 [OF ok_vals_ok [OF assms(1)], of ob "p_id p"] seg_256 [OF segs(2), of ob "p_id p"]
      by (simp add: seg_def seg_key_def)
  next
    case False
    then have l: "nat s + 1 < 256" using assms(5) by linarith
    have k: "seg_key ob (p_id p) (nat s + 1) = (ob, p_id p, word_of_int s + 1)" by (simp add: seg_key_def w add.commute)
    show ?thesis using segs(3) [OF l, of ob "p_id p"] unfolding seg_def k by simp
  qed
  have "seg (vals b') ob (p_id p) (nat s) \<noteq> None \<and> map_option v_value (seg (vals b') ob (p_id p) (nat s)) = Some (take 128 value)"
    using segs(3) [of "nat s" ob "p_id p"] assms(5) by simp
  then have "loc_get_prop_val env ob (p_id p) (p_security p) s b' =
       Inr (take 128 value, if erase \<noteq> 0xff \<and> seg (vals b) ob (p_id p) (nat s + 1) \<noteq> None then 0xff else 0)"
    using more assms(3) segs(1) by (auto simp: loc_get_prop_val_def Let_def seg_def seg_key_def w)
  then show ?thesis using segs(3) by auto
qed

section \<open>A concrete bindery\<close>

definition guest :: NETOBJ where
  "guest = \<lparr>o_id = 2, o_name = cstr ''GUEST'', o_type = 1, o_flags = 0, o_security = 0x31\<rparr>"

definition everyone :: NETOBJ where
  "everyone = \<lparr>o_id = 3, o_name = cstr ''EVERYONE'', o_type = 2, o_flags = 0, o_security = 0x31\<rparr>"

definition group_members :: NETPROP where
  "group_members = \<lparr>p_obj_id = 3, p_id = 1, p_name = cstr ''GROUP_MEMBERS'', p_flags = 2, p_security = 0x31\<rparr>"

definition bindery0 :: bindery where
  "bindery0 = \<lparr>objs = [guest, everyone], iobjs = [], props = [group_members],
     vals = [\<lparr>v_obj_id = 3, v_prop_id = 1, v_segment = 1, v_value = put_id (replicate 128 0) 0 2\<rparr>]\<rparr>"

text \<open>The server itself acts, and every file is open.\<close>

definition server_env :: bind_env where
  "server_env = \<lparr>dbm_ok = (\<lambda>f. True), obj_order = (\<lambda>l. l), prop_order = (\<lambda>l. l), acting = None\<rparr>"

lemma server_env [simp]: "files_open server_env" "scans_complete server_env" "b_acc server_env i s f = 0"
  by (simp_all add: server_env_def files_open_def scans_complete_def b_acc_def)

lemma members_Nil [simp]: "members [] ob pr = {#}"
  by (simp add: members_def part_def seg_def)

lemma members_single:
  assumes "v_segment v \<noteq> 0"
  shows "members [v] ob pr = (if v_obj_id v = ob \<and> v_prop_id v = pr then live_ids (v_value v) else {#})"
proof -
  let ?l = "unat (v_segment v)"
  have k: "v_key v = seg_key (v_obj_id v) (v_prop_id v) ?l" by (simp add: v_key_def seg_key_def)
  have l: "1 \<le> ?l" "?l < 256" using assms u8_unat_less [of "v_segment v"] by (simp_all add: Suc_le_eq unat_gt_0)
  show ?thesis using members_put [OF k l, where vs = "[]"] by (auto simp: part_def seg_def)
qed

lemma bindery0_ok: "bindery_ok bindery0"
  by (simp add: bindery_ok_def bindery0_def guest_def everyone_def group_members_def vals_ok_def p_key_def v_key_def
      length_put_id)

lemma bindery0_members: "members (vals bindery0) ob pr = (if ob = 3 \<and> pr = 1 then {#2#} else {#})"
  by (auto simp: bindery0_def members_single live_single)


theorem deleted_object_leaves_no_trace_witness:
  "in_sets (snd (snd (nw_delete_obj server_env (named_obj 1 (cstr ''GUEST'') 5) bindery0))) 2 = {}"
proof -
  let ?q = "named_obj 1 (cstr ''GUEST'') 5"
  have "fst (find_obj_id server_env ?q bindery0) = 0 \<and> fst (snd (find_obj_id server_env ?q bindery0)) = guest" by code_simp
  then obtain b1 where f: "find_obj_id server_env ?q bindery0 = (0, guest, b1)" by (metis prod.collapse)
  have ok: "bindery_ok b1" and same: "objs b1 = objs bindery0" "props b1 = props bindery0" "vals b1 = vals bindery0"
    using find_obj_id_ok [OF bindery0_ok f] find_obj_id_frame [OF f] by auto
  obtain vs where "loc_delete_obj server_env 2 b1 =
        (0, \<lparr>objs = filter (\<lambda>x. o_id x \<noteq> 2) (objs b1), iobjs = chain_del i_key (o_name guest, o_type guest) (iobjs b1),
             props = filter (\<lambda>p. p_obj_id p \<noteq> 2) (props b1), vals = vs\<rparr>)"
    by (rule loc_delete_obj_spec [OF server_env(1,2) ok, of 2 guest])
      (simp_all only: same bindery0_members server_env, simp_all add: bindery0_def guest_def LOC_MAX_OBJS_def)
  then have "fst (nw_delete_obj server_env ?q bindery0) = 0 \<and> fst (snd (nw_delete_obj server_env ?q bindery0)) = guest"
    by (simp add: nw_delete_obj_def f) (simp add: guest_def)
  then have d: "nw_delete_obj server_env ?q bindery0 = (0, guest, snd (snd (nw_delete_obj server_env ?q bindery0)))"
    by (simp add: prod_eq_iff)
  show ?thesis
    using deleted_object_leaves_no_trace [OF server_env(1,2) bindery0_ok d]
    by (simp add: guest_def bindery0_members) (simp add: bindery0_def LOC_MAX_OBJS_def)
qed

theorem created_object_found_witness:
  "find_obj_id server_env (named_obj 1 (cstr ''JOE'') 3) (snd (snd (nw_create_obj server_env (named_obj 1 (cstr ''JOE'') 3) 0 bindery0))) =
   (0, (named_obj 1 (cstr ''JOE'') 3)\<lparr>o_id := 0x10002\<rparr>, snd (snd (nw_create_obj server_env (named_obj 1 (cstr ''JOE'') 3) 0 bindery0)))"
proof -
  let ?q = "named_obj 1 (cstr ''JOE'') 3"
  have "fst (nw_create_obj server_env ?q 0 bindery0) = 0 \<and>
      fst (snd (nw_create_obj server_env ?q 0 bindery0)) = ?q\<lparr>o_id := 0x10002\<rparr>" by code_simp
  then have c: "nw_create_obj server_env ?q 0 bindery0 = (0, ?q\<lparr>o_id := 0x10002\<rparr>, snd (snd (nw_create_obj server_env ?q 0 bindery0)))"
    by (simp add: prod_eq_iff)
  have "length (objs bindery0) < 2 ^ 32" by (simp add: bindery0_def)
  then show ?thesis using created_object_found [OF server_env(1,2) c _ refl refl] by blast
qed

theorem written_value_read_witness:
  "loc_get_prop_val server_env 3 1 0x31 1 (snd (ins_prop_val server_env 3 group_members 1 (replicate 128 7) 0xff bindery0)) =
     Inr (replicate 128 7, 0)"
proof -
  have "fst (ins_prop_val server_env 3 group_members 1 (replicate 128 7) 0xff bindery0) = 0"
    by (simp add: ins_prop_val_def Let_def)
  then have i: "ins_prop_val server_env 3 group_members 1 (replicate 128 7) 0xff bindery0 =
      (0, snd (ins_prop_val server_env 3 group_members 1 (replicate 128 7) 0xff bindery0))"
    by (simp add: prod_eq_iff)
  show ?thesis using written_value_read [OF bindery0_ok i] by (simp add: group_members_def)
qed

end
