(* ===== verification/Password.thy ===== *)
theory Password
  imports BinderySound Nwcrypt
begin

text \<open>Passwords of \<^verbatim>\<open>src/nwdbm.c\<close>: the keyed and the plain login test, the change of a password with
  its history, the login restrictions and the keyed change.  The calls outside the repository are a
  parameter: the user data base, \<^verbatim>\<open>crypt\<close>, the clock, and what a \<^verbatim>\<open>memcpy\<close> does whose
  areas overlap.\<close>

section \<open>Surroundings\<close>

record MYPASSWD =
  pw_uid :: int
  pw_gid :: int
  pw_passwd :: cstring
  pw_dir :: cstring
  pw_name :: cstring

text \<open>\<open>memcpy_up\<close> is what an overlapping copy leaves in its target.  \<open>expires\<close> says
  whether \<^verbatim>\<open>mktime\<close> of year, month and day gives a positive time, \<open>in_days\<close> is the date so many days from
  now.\<close>

record pw_env =
  password_scheme :: nat
  getpwnam :: "cstring \<Rightarrow> MYPASSWD option"
  getspnam :: "cstring \<Rightarrow> cstring option"
  crypt :: "cstring \<Rightarrow> cstring \<Rightarrow> cstring"
  memcpy_up :: "u8 list \<Rightarrow> u8 list \<Rightarrow> u8 list"
  expires :: "u8 \<Rightarrow> u8 \<Rightarrow> u8 \<Rightarrow> bool"
  in_days :: "u16 \<Rightarrow> u8 \<times> u8 \<times> u8"

definition PW_SCHEME_LOGIN :: nat where "PW_SCHEME_LOGIN = 2"
definition PW_SCHEME_ALLOW_EMPTY_PW :: nat where "PW_SCHEME_ALLOW_EMPTY_PW = 8"

definition scheme_has :: "pw_env \<Rightarrow> nat \<Rightarrow> bool" where
  "scheme_has pe flag = (password_scheme pe AND flag \<noteq> 0)"

definition pn_password :: cstring where "pn_password = cstr ''PASSWORD''"
definition pn_login_control :: cstring where "pn_login_control = cstr ''LOGIN_CONTROL''"
definition pn_unix_user :: cstring where "pn_unix_user = cstr ''UNIX_USER''"
definition pn_old_passwords :: cstring where "pn_old_passwords = cstr ''OLD_PASSWORDS''"
definition pn_user_defaults :: cstring where "pn_user_defaults = cstr ''USER_DEFAULTS''"

text \<open>A C string in a buffer.\<close>

definition str_of :: "u8 list \<Rightarrow> cstring" where
  "str_of buf = takeWhile (\<lambda>c. c \<noteq> 0) buf"

definition nw_getpwnam :: "bind_env \<Rightarrow> pw_env \<Rightarrow> u32 \<Rightarrow> bindery \<Rightarrow> MYPASSWD option" where
  "nw_getpwnam env pe obj_id b =
     (let (len, buff) = nw_get_prop_val_str env obj_id pn_unix_user b
      in if 0 < len then
           (case getpwnam pe (str_of buff) of
              None \<Rightarrow> None
            | Some pw \<Rightarrow>
                if obj_id \<noteq> 1 \<and> pw_uid pw = 0 then None
                else Some (let p1 = pw\<lparr>pw_passwd := take 79 (pw_passwd pw), pw_name := take 19 (pw_name pw),
                                   pw_dir := take 256 (pw_dir pw)\<rparr>
                           in if pw_passwd p1 = [0x78]
                              then (case getspnam pe (str_of buff) of
                                      Some s \<Rightarrow> p1\<lparr>pw_passwd := take 79 s\<rparr> | None \<Rightarrow> p1)
                              else p1))
         else None)"

definition get_guid :: "bind_env \<Rightarrow> pw_env \<Rightarrow> u32 \<Rightarrow> bindery \<Rightarrow> int \<times> int \<times> int \<times> cstring" where
  "get_guid env pe obj_id b =
     (case nw_getpwnam env pe obj_id b of
        Some pw \<Rightarrow> (0, pw_gid pw, pw_uid pw, strmaxcpy (pw_name pw) 20)
      | None \<Rightarrow> (-0xff, -1, -1, cstr ''UNKNOWN''))"

definition crypt_pw_ok :: "pw_env \<Rightarrow> cstring \<Rightarrow> cstring \<Rightarrow> bool" where
  "crypt_pw_ok pe password passwd = (crypt pe password passwd = passwd)"

section \<open>Login tests\<close>

text \<open>The result, the stored password and the answer that the key expects.\<close>

definition loc_nw_test_passwd ::
  "bind_env \<Rightarrow> u32 \<Rightarrow> u8 list \<Rightarrow> u8 list \<Rightarrow> bindery \<Rightarrow> int \<times> u8 list \<times> u8 list" where
  "loc_nw_test_passwd env obj_id vgl_key akt_key b =
     (let (len, value) = nw_get_prop_val_str env obj_id pn_password b
      in if 0 < len
         then let keybuff = nw_encrypt vgl_key value
              in (if take 8 akt_key \<noteq> keybuff then -0xff else 0, value, keybuff)
         else let stored = shuffle (u32_to_be32 obj_id) [] 0
              in (1, stored, nw_encrypt vgl_key stored))"

definition nw_test_passwd :: "bind_env \<Rightarrow> pw_env \<Rightarrow> u32 \<Rightarrow> u8 list \<Rightarrow> u8 list \<Rightarrow> bindery \<Rightarrow> int" where
  "nw_test_passwd env pe obj_id vgl_key akt_key b =
     (let (result, _, _) = loc_nw_test_passwd env obj_id vgl_key akt_key b
      in if result < 1 then result
         else if obj_id = 1 then -0xff
         else if scheme_has pe PW_SCHEME_LOGIN \<and> \<not> scheme_has pe PW_SCHEME_ALLOW_EMPTY_PW \<and>
                 (case nw_getpwnam env pe obj_id b of
                    Some pw \<Rightarrow> pw_passwd pw \<noteq> [] \<and> \<not> crypt_pw_ok pe [] (pw_passwd pw) | None \<Rightarrow> False)
         then -0xff else 0)"

definition nw_test_unenpasswd :: "bind_env \<Rightarrow> pw_env \<Rightarrow> u32 \<Rightarrow> cstring \<Rightarrow> bindery \<Rightarrow> int" where
  "nw_test_unenpasswd env pe obj_id password b =
     (let (len, stored) = nw_get_prop_val_str env obj_id pn_password b;
          up = upstr (take 99 password)
      in if password \<noteq> [] \<and> 0 < len \<and> shuffle (u32_to_be32 obj_id) up (length up) = take 16 stored then 0
         else case nw_getpwnam env pe obj_id b of
           Some pw \<Rightarrow>
             if crypt_pw_ok pe password (pw_passwd pw) \<or> crypt_pw_ok pe (downstr (take 99 password)) (pw_passwd pw)
             then 0 else -0xff
         | None \<Rightarrow> -0xff)"

section \<open>Login restrictions (nwdbm.h: LOGIN\_CONTROL, USER\_DEFAULTS)\<close>

record LOGIN_CONTROL =
  accountExpires :: "u8 list"
  accountExpired :: u8
  passwordExpiresYear :: u8
  passwordExpiresMonth :: u8
  passwordExpiresDay :: u8
  passwordGraceLogins :: u8
  expirationInterval :: "u8 list"
  graceReset :: u8
  minimumPasswordLength :: u8
  maxConcurrentConnections :: "u8 list"
  timeBitMap :: "u8 list"
  lastLoginDate :: "u8 list"
  restrictionFlags :: u8
  filler :: u8
  maxDiskBlocks :: "u8 list"
  badLogin :: "u8 list"

definition sizeof_LOGIN_CONTROL :: nat where "sizeof_LOGIN_CONTROL = 86"

definition slice :: "nat \<Rightarrow> nat \<Rightarrow> u8 list \<Rightarrow> u8 list" where
  "slice i n buf = take n (drop i buf)"

definition lc_of_bytes :: "u8 list \<Rightarrow> LOGIN_CONTROL" where
  "lc_of_bytes s =
     \<lparr>accountExpires = slice 0 3 s, accountExpired = s ! 3, passwordExpiresYear = s ! 4, passwordExpiresMonth = s ! 5,
      passwordExpiresDay = s ! 6, passwordGraceLogins = s ! 7, expirationInterval = slice 8 2 s, graceReset = s ! 10,
      minimumPasswordLength = s ! 11, maxConcurrentConnections = slice 12 2 s, timeBitMap = slice 14 42 s,
      lastLoginDate = slice 56 6 s, restrictionFlags = s ! 62, filler = s ! 63, maxDiskBlocks = slice 64 4 s,
      badLogin = slice 68 18 s\<rparr>"

definition lc_to_bytes :: "LOGIN_CONTROL \<Rightarrow> u8 list" where
  "lc_to_bytes lc =
     accountExpires lc @ [accountExpired lc, passwordExpiresYear lc, passwordExpiresMonth lc, passwordExpiresDay lc,
     passwordGraceLogins lc] @ expirationInterval lc @ [graceReset lc, minimumPasswordLength lc] @
     maxConcurrentConnections lc @ timeBitMap lc @ lastLoginDate lc @ [restrictionFlags lc, filler lc] @
     maxDiskBlocks lc @ badLogin lc"

text \<open>The restrictions that a user without LOGIN\_CONTROL has: those of USER\_DEFAULTS.\<close>

definition lc_of_defaults :: "u8 list \<Rightarrow> LOGIN_CONTROL" where
  "lc_of_defaults ud =
     \<lparr>accountExpires = slice 0 3 ud, accountExpired = 0, passwordExpiresYear = 0, passwordExpiresMonth = 0,
      passwordExpiresDay = 0, passwordGraceLogins = 0, expirationInterval = slice 4 2 ud, graceReset = ud ! 6,
      minimumPasswordLength = ud ! 7, maxConcurrentConnections = slice 8 2 ud, timeBitMap = slice 10 42 ud,
      lastLoginDate = replicate 6 0, restrictionFlags = ud ! 3, filler = 0, maxDiskBlocks = slice 60 4 ud,
      badLogin = replicate 18 0\<rparr>"

definition nw_get_login_control :: "bind_env \<Rightarrow> u32 \<Rightarrow> bindery \<Rightarrow> LOGIN_CONTROL option" where
  "nw_get_login_control env obj_id b =
     (case nw_get_prop_val_by_obj_id env obj_id 1 pn_login_control (length pn_login_control) b of
        Inr (segm, _, _) \<Rightarrow> Some (lc_of_bytes segm)
      | Inl _ \<Rightarrow>
          (case nw_get_prop_val_by_obj_id env 1 1 pn_user_defaults (length pn_user_defaults) b of
             Inr (segm, _, _) \<Rightarrow> Some (lc_of_defaults segm)
           | Inl _ \<Rightarrow> None))"

definition nw_set_login_control :: "bind_env \<Rightarrow> u32 \<Rightarrow> LOGIN_CONTROL \<Rightarrow> bindery \<Rightarrow> bindery" where
  "nw_set_login_control env obj_id lc b =
     snd (nw_new_obj_prop env obj_id [] 0 0 0 pn_login_control 0 0x32 (lc_to_bytes lc) sizeof_LOGIN_CONTROL True b)"

section \<open>Changing passwords\<close>

definition nw_update_oldpasswd :: "bind_env \<Rightarrow> pw_env \<Rightarrow> u32 \<Rightarrow> u8 list \<Rightarrow> bindery \<Rightarrow> int \<times> bindery" where
  "nw_update_oldpasswd env pe obj_id pwd b =
     (case nw_get_prop_val_by_obj_id env obj_id 1 pn_old_passwords (length pn_old_passwords) b of
        Inl _ \<Rightarrow> (0, b)
      | Inr (segm, _, _) \<Rightarrow>
          if \<exists>k \<in> set [0..<8]. take 16 pwd = slice (16 * k) 16 segm then (1, b)
          else (0, snd (nw_new_obj_prop env obj_id [] 0 0 0 pn_old_passwords 0 0x32
                  (take 16 pwd @ memcpy_up pe (take 112 segm) (drop 16 segm)) 128 True b)))"

definition nw_valid_keynewpasswd :: "bind_env \<Rightarrow> u32 \<Rightarrow> int \<Rightarrow> bindery \<Rightarrow> int" where
  "nw_valid_keynewpasswd env obj_id pwdlen b =
     (case nw_get_login_control env obj_id b of
        None \<Rightarrow> 0
      | Some lc \<Rightarrow> if pwdlen < uint (minimumPasswordLength lc) then -0xd8 else 0)"

text \<open>The date of the next change of the password.\<close>

definition renew_expiry :: "bind_env \<Rightarrow> pw_env \<Rightarrow> u32 \<Rightarrow> bindery \<Rightarrow> bindery" where
  "renew_expiry env pe obj_id b =
     (case nw_get_login_control env obj_id b of
        None \<Rightarrow> b
      | Some lc \<Rightarrow>
          if passwordExpiresYear lc \<noteq> 0 \<and> expires pe (passwordExpiresYear lc) (passwordExpiresMonth lc) (passwordExpiresDay lc)
          then let (y, m, d) = in_days pe (get_be16 (expirationInterval lc))
               in nw_set_login_control env obj_id
                    (lc\<lparr>passwordGraceLogins :=
                          (if passwordGraceLogins lc \<noteq> 255 then graceReset lc else passwordGraceLogins lc),
                        passwordExpiresYear := y, passwordExpiresMonth := m, passwordExpiresDay := d\<rparr>) b
          else b)"

definition nw_set_enpasswd ::
  "bind_env \<Rightarrow> pw_env \<Rightarrow> u32 \<Rightarrow> u8 list \<Rightarrow> bool \<Rightarrow> bindery \<Rightarrow> int \<times> bindery" where
  "nw_set_enpasswd env pe obj_id passwd dont_ch b =
     (if passwd \<noteq> [] \<and> hd passwd \<noteq> 0 then
        if \<not> dont_ch \<or> fst (nw_get_prop_val_str env obj_id pn_password b) < 1 then
          let (result, b1) = nw_update_oldpasswd env pe obj_id passwd b
          in if result \<noteq> 0 \<and> (case nw_get_login_control env obj_id b1 of
                               Some lc \<Rightarrow> restrictionFlags lc AND 2 \<noteq> 0 | None \<Rightarrow> False)
             then (-0xd7, b1)
             else (0, renew_expiry env pe obj_id
                        (snd (nw_new_obj_prop env obj_id [] 0 0 0 pn_password 0 0x44 passwd 16 True b1)))
        else (0, renew_expiry env pe obj_id b)
      else (0, renew_expiry env pe obj_id
                 (if \<not> dont_ch then snd (loc_delete_property env obj_id pn_password 0 True b) else b)))"

definition nw_set_passwd ::
  "bind_env \<Rightarrow> pw_env \<Rightarrow> u32 \<Rightarrow> cstring \<Rightarrow> bool \<Rightarrow> bindery \<Rightarrow> int \<times> bindery" where
  "nw_set_passwd env pe obj_id password dont_ch b =
     nw_set_enpasswd env pe obj_id
       (if password \<noteq> [] then shuffle (u32_to_be32 obj_id) password (length password) else []) dont_ch b"

definition real_len :: "u8 \<Rightarrow> u8 list \<Rightarrow> int" where
  "real_len cryptedlen stored = uint ((cryptedlen XOR stored ! 0 XOR stored ! 1) AND 0x3f)"

definition nw_keychange_passwd ::
  "bind_env \<Rightarrow> pw_env \<Rightarrow> u32 \<Rightarrow> u8 list \<Rightarrow> u8 list \<Rightarrow> u8 \<Rightarrow> u8 list \<Rightarrow> u32 \<Rightarrow> bindery \<Rightarrow> int \<times> bindery" where
  "nw_keychange_passwd env pe obj_id cryptkey oldpass cryptedlen newpass id_flags b =
     (let (result, stored, _) = loc_nw_test_passwd env obj_id cryptkey oldpass b;
          blank = shuffle (u32_to_be32 obj_id) [] 0;
          stored1 = (if result < 0 \<and> has id_flags 1 then blank else stored)
      in if result < 0 \<and> (\<not> has id_flags 1 \<or> take 8 oldpass \<noteq> nw_encrypt cryptkey blank) then (-0xff, b)
         else let v = nw_valid_keynewpasswd env obj_id (real_len cryptedlen stored1) b
              in if v < 0 then (v, b)
                 else let new = snd (nw_decrypt_newpass (slice 0 8 stored1) (slice 0 8 newpass)) @
                                snd (nw_decrypt_newpass (slice 8 8 stored1) (slice 8 8 newpass));
                          (r, b1) = nw_set_enpasswd env pe obj_id new False b
                      in if r < 0 then (r, b1) else (if new = blank then 1 else 0, b1))"

section \<open>The bindery as a store of property values\<close>

text \<open>The value of a property is its first segment.\<close>

definition prop_value :: "bindery \<Rightarrow> u32 \<Rightarrow> cstring \<Rightarrow> u8 list option" where
  "prop_value b ob name =
     (case chain_find n_key (ob, name) (props b) of
        None \<Rightarrow> None
      | Some p \<Rightarrow> map_option v_value (seg (vals b) ob (p_id p) 1))"

definition own_props :: "bindery \<Rightarrow> u32 \<Rightarrow> nat" where
  "own_props b ob = length (filter (\<lambda>p. p_obj_id p = ob) (props b))"

text \<open>A name without wildcards matches only itself.\<close>

definition literal :: "cstring \<Rightarrow> bool" where
  "literal name = (\<forall>c \<in> set name. c \<noteq> 42 \<and> c \<noteq> 63)"

lemma name_match_literal: "literal name \<Longrightarrow> name_match s name \<longleftrightarrow> s = name"
proof (induction name arbitrary: s)
  case (Cons c name)
  then show ?case by (cases s) (auto simp: literal_def)
qed simp

lemma chain_find_put_other:
  "(\<forall>x \<in> set xs. key x = key y \<longleftrightarrow> f x = f y) \<Longrightarrow>
     chain_find f k (chain_put key y xs) = (if k = f y then Some y else chain_find f k xs)"
  by (induction xs) auto

lemma find_by_name:
  assumes "distinct (map n_key xs)" and "set ys = set xs"
  shows "find (\<lambda>p. p_name p = name) (filter (\<lambda>p. p_obj_id p = ob) ys) = chain_find n_key (ob, name) xs"
proof (cases "chain_find n_key (ob, name) xs")
  case None
  then have "find (\<lambda>p. p_name p = name) (filter (\<lambda>p. p_obj_id p = ob) ys) = None"
    using assms(2) by (auto simp: find_None_iff chain_find_None n_key_def)
  then show ?thesis using None by simp
next
  case (Some p)
  then have p: "p \<in> set xs" "n_key p = (ob, name)" using chain_find_key by metis+
  have "find (\<lambda>p. p_name p = name) (filter (\<lambda>p. p_obj_id p = ob) ys) \<noteq> None"
    using p assms(2) by (auto simp: find_None_iff n_key_def)
  then obtain q where q: "find (\<lambda>p. p_name p = name) (filter (\<lambda>p. p_obj_id p = ob) ys) = Some q" by blast
  then have "q \<in> set xs" "n_key q = n_key p" using find_SomeD [OF q] assms(2) p(2) by (auto simp: n_key_def)
  then show ?thesis using q Some distinct_map_eq [OF assms(1) _ p(1)] by simp
qed

lemma server_acc: "acting env = None \<Longrightarrow> b_acc env i s f = 0"
  by (simp add: b_acc_def)

lemma get_value:
  assumes "files_open env" and "scans_complete env" and "acting env = None" and "bindery_ok b" and "literal name"
  shows "case prop_value b ob name of
       None \<Rightarrow> \<exists>e < 0. nw_get_prop_val_by_obj_id env ob 1 name (length name) b = Inl e
     | Some v \<Rightarrow> \<exists>mo fl. nw_get_prop_val_by_obj_id env ob 1 name (length name) b = Inr (v, mo, fl)"
proof -
  have "find (\<lambda>p. name_match (p_name p) name \<and> b_acc env ob (p_security p) 0x00 = 0)
        (filter (\<lambda>p. p_obj_id p = ob) (prop_order env (props b))) = chain_find n_key (ob, name) (props b)"
    using find_by_name [of "props b" "prop_order env (props b)" name ob] assms
    by (simp add: name_match_literal server_acc bindery_ok_def)
  then have f: "find_first_prop_id env name ob b =
      (case chain_find n_key (ob, name) (props b) of None \<Rightarrow> Inl (-0xfb) | Some p \<Rightarrow> Inr p)"
    using assms(1) by (simp add: find_prop_id_def)
  show ?thesis using assms(1,3)
    by (auto simp: nw_get_prop_val_by_obj_id_def strmaxcpy_def f prop_value_def loc_get_prop_val_def server_acc seg_def seg_key_def
        split: option.split)
qed

definition padded :: "u8 list \<Rightarrow> u8 list" where
  "padded value = take 128 value @ replicate (128 - length value) 0"

definition store_prop :: "bind_env \<Rightarrow> u32 \<Rightarrow> cstring \<Rightarrow> u8 \<Rightarrow> u8 list \<Rightarrow> bindery \<Rightarrow> bindery" where
  "store_prop env ob name sec value b =
     snd (nw_new_obj_prop env ob [] 0 0 0 name 0 (uint sec) value (length value) True b)"

lemma ins_prop_val_1:
  assumes "acting env = None" and "files_open env" and "bindery_ok b" and "length value = 128"
  obtains b' where "ins_prop_val env ob p 1 value 0xff b = (0, b')" "props b' = props b" "objs b' = objs b"
    "map_option v_value (seg (vals b') ob (p_id p) 1) = Some value"
    "\<And>ob' pr'. (ob', pr') \<noteq> (ob, p_id p) \<Longrightarrow> seg (vals b') ob' pr' 1 = seg (vals b) ob' pr' 1"
proof -
  obtain b' where i: "ins_prop_val env ob p 1 value 0xff b = (0, b')" and same: "props b' = props b" "objs b' = objs b"
    using assms(1,2) by (auto simp: ins_prop_val_def Let_def server_acc)
  have W: "loc_get_prop_val env ob (p_id p) (p_security p) 1 b' = Inr (take 128 value, 0)"
    "\<And>ob' pr'. (ob', pr') \<noteq> (ob, p_id p) \<Longrightarrow> seg (vals b') ob' pr' 1 = seg (vals b) ob' pr' 1"
    using written_value_read [OF assms(3) i server_acc [OF assms(1)]] assms(4) by auto
  have "map_option v_value (seg (vals b') ob (p_id p) 1) = Some value"
    using W(1) assms by (auto simp: loc_get_prop_val_def server_acc seg_def seg_key_def split: option.splits)
  then show thesis using that i same W(2) by blast
qed

lemma length_filter_put: "length (filter P (chain_put key y xs)) \<le> Suc (length (filter P xs))"
  by (induction xs) auto

lemma create_named:
  assumes env: "files_open env" "scans_complete env" and ok: "bindery_ok b" and few: "own_props b ob < 255"
    and c: "nw_create_obj_prop env ob p b = (r, p', b2)"
  shows "r \<in> {0, -0xed} \<and> (\<exists>x. chain_find n_key (ob, p_name p) (props b2) = Some x \<and> p_id x = p_id p') \<and>
     (\<forall>k. k \<noteq> (ob, p_name p) \<longrightarrow> chain_find n_key k (props b2) = chain_find n_key k (props b)) \<and>
     own_props b2 i \<le> Suc (own_props b i)"
proof -
  let ?own = "filter (\<lambda>q. p_obj_id q = ob) (prop_order env (props b))"
  have d: "distinct (map n_key (props b))" "distinct (map p_key (props b))" using ok by (auto simp: bindery_ok_def)
  have f: "find (\<lambda>q. p_name q = p_name p) ?own = chain_find n_key (ob, p_name p) (props b)"
    using find_by_name [OF d(1)] env(2) by simp
  have "mset ?own = mset (filter (\<lambda>q. p_obj_id q = ob) (props b))" using env(2) by (simp add: scans_complete_def)
  then have "length ?own < 255" using few unfolding own_props_def by (metis mset_eq_length)
  then obtain k where k: "find (\<lambda>k. word_of_nat k \<notin> set (map p_id ?own)) [1..<256] = Some k"
    and fresh: "(word_of_nat k :: u8) \<notin> p_id ` set ?own" by (rule slot_left)
  show ?thesis
  proof (cases "chain_find n_key (ob, p_name p) (props b)")
    case None
    let ?p = "p\<lparr>p_obj_id := ob, p_id := word_of_nat k\<rparr>"
    have e: "r = 0" "p' = ?p" "b2 = b\<lparr>props := chain_put p_key ?p (props b)\<rparr>"
      using c None f k env by (auto simp: nw_create_obj_prop_def)
    have agree: "\<forall>x \<in> set (props b). p_key x = p_key ?p \<longleftrightarrow> n_key x = n_key ?p"
      using fresh None env(2) by (auto simp: chain_find_None p_key_def n_key_def image_iff)
    have nk: "n_key ?p = (ob, p_name p)" by (simp add: n_key_def)
    note put = chain_find_put_other [OF agree, unfolded nk]
    show ?thesis using length_filter_put by (simp add: e own_props_def put)
  next
    case (Some q)
    let ?q = "q\<lparr>p_security := p_security p, p_flags := p_flags p\<rparr>"
    have q: "q \<in> set (props b)" "n_key q = (ob, p_name p)" using chain_find_key [OF Some] by auto
    have e: "r = -0xed" "p_id p' = p_id q" "b2 = b \<or> b2 = b\<lparr>props := chain_put p_key ?q (props b)\<rparr>"
      using c Some f env by (auto simp: nw_create_obj_prop_def)
    have same: "p_key ?q = p_key q" "n_key ?q = n_key q" by (simp_all add: p_key_def n_key_def)
    have "\<forall>x \<in> set (props b). p_key x = p_key ?q \<longleftrightarrow> n_key x = n_key ?q"
      unfolding same using distinct_map_eq [OF d(1) _ q(1)] distinct_map_eq [OF d(2) _ q(1)] by blast
    note put = chain_find_put_other [OF this, unfolded same q(2)]
    from e(3) show ?thesis
    proof
      assume "b2 = b"
      then show ?thesis using Some e(1,2) by simp
    next
      assume b2: "b2 = b\<lparr>props := chain_put p_key ?q (props b)\<rparr>"
      have "chain_find n_key (ob, p_name p) (props b2) = Some ?q" by (simp add: b2 put)
      moreover have "\<forall>k. k \<noteq> (ob, p_name p) \<longrightarrow> chain_find n_key k (props b2) = chain_find n_key k (props b)"
        by (simp add: b2 put)
      moreover have "own_props b2 i \<le> Suc (own_props b i)" unfolding own_props_def b2 by (simp add: length_filter_put)
      ultimately show ?thesis using e(1,2) by simp
    qed
  qed
qed

text \<open>What the store can be used for: the object exists and has room for so many more properties.\<close>

definition slots :: "bindery \<Rightarrow> u32 \<Rightarrow> nat" where
  "slots b ob = (if ob \<in> o_id ` set (objs b) then 255 - own_props b ob else 0)"

lemma store_prop_spec:
  assumes env: "files_open env" "scans_complete env" "acting env = None" and ok: "bindery_ok b"
    and room: "0 < slots b ob" and name: "name \<noteq> []" "length name \<le> 16" and v: "value \<noteq> []"
  shows "bindery_ok (store_prop env ob name sec value b) \<and>
     prop_value (store_prop env ob name sec value b) ob' name' =
       (if (ob', name') = (ob, name) then Some (padded value) else prop_value b ob' name') \<and>
     slots b i \<le> Suc (slots (store_prop env ob name sec value b) i)"
proof -
  let ?p = "\<lparr>p_obj_id = 0, p_id = 0, p_name = name, p_flags = 0, p_security = sec\<rparr>"
  obtain r p b2 where c: "nw_create_obj_prop env ob ?p b = (r, p, b2)" by (metis prod_cases3)
  have own: "ob \<in> o_id ` set (objs b)" "own_props b ob < 255" using room by (auto simp: slots_def split: if_splits)
  have S: "bindery_ok b2 \<and> objs b2 = objs b \<and> iobjs b2 = iobjs b \<and> vals b2 = vals b \<and>
      (r \<in> {0, -0xed} \<longrightarrow> (ob, p_id p) \<in> p_key ` set (props b2))"
    using nw_create_obj_prop_spec [OF env(2) ok c own(1)] own(2) by (simp add: own_props_def)
  note N = create_named [OF env(1,2) ok own(2) c]
  obtain x where x: "chain_find n_key (ob, name) (props b2) = Some x" "p_id x = p_id p"
    and others: "\<And>k. k \<noteq> (ob, name) \<Longrightarrow> chain_find n_key k (props b2) = chain_find n_key k (props b)"
    using N [of ob] by auto
  have x_in: "x \<in> set (props b2)" "p_obj_id x = ob" using chain_find_key [OF x(1)] by (auto simp: n_key_def)
  have len: "length (padded value) = 128" by (simp add: padded_def)
  obtain b3 where i: "ins_prop_val env ob p 1 (padded value) 0xff b2 = (0, b3)" "props b3 = props b2" "objs b3 = objs b2"
    and here: "map_option v_value (seg (vals b3) ob (p_id p) 1) = Some (padded value)"
    and other: "\<And>ob' pr'. (ob', pr') \<noteq> (ob, p_id p) \<Longrightarrow> seg (vals b3) ob' pr' 1 = seg (vals b2) ob' pr' 1"
    using ins_prop_val_1 [OF env(3,1) conjunct1 [OF S] len] by metis
  have ok3: "bindery_ok b3"
    using ins_prop_val_ok [of b2 ob p 1 "padded value" env "0xff"] S N i(1) len by auto
  have st: "store_prop env ob name sec value b = b3"
    using i(1) c N v name by (auto simp: store_prop_def nw_new_obj_prop_def server_acc [OF env(3)] strmaxcpy_def padded_def
        min_def Let_def)
  have "prop_value b3 ob' name' = (if (ob', name') = (ob, name) then Some (padded value) else prop_value b ob' name')"
  proof (cases "(ob', name') = (ob, name)")
    case True
    then show ?thesis using x here by (simp add: prop_value_def i(2))
  next
    case False
    have "seg (vals b3) ob' (p_id q) 1 = seg (vals b) ob' (p_id q) 1" if q: "chain_find n_key (ob', name') (props b) = Some q" for q
    proof -
      have q2: "chain_find n_key (ob', name') (props b2) = Some q" using others False q by simp
      have "q \<in> set (props b2)" "n_key q = (ob', name')" "n_key x = (ob, name)" using chain_find_key [OF q2] chain_find_key [OF x(1)] by auto
      then have "p_key q \<noteq> p_key x" using False S distinct_map_eq [of p_key "props b2" q x] x_in by (auto simp: bindery_ok_def)
      then have "(ob', p_id q) \<noteq> (ob, p_id p)" using \<open>n_key q = (ob', name')\<close> x(2) x_in(2) by (auto simp: p_key_def n_key_def)
      then show ?thesis using other S by simp
    qed
    then show ?thesis using others [OF False] False by (auto simp: prop_value_def i(2) split: option.split)
  qed
  moreover have "own_props b3 i \<le> Suc (own_props b i)" using N i(2) by (simp add: own_props_def)
  ultimately show ?thesis using ok3 S i(3) by (auto simp: st slots_def)
qed

lemma chain_find_filter:
  assumes "distinct (map key xs)"
  shows "chain_find key k (filter P xs) = (case chain_find key k xs of None \<Rightarrow> None | Some x \<Rightarrow> if P x then Some x else None)"
  using assms
proof (induction xs)
  case (Cons x xs)
  have "k = key x \<Longrightarrow> chain_find key k (filter P xs) = None" using Cons.prems by (auto simp: chain_find_None)
  then show ?case using Cons by (cases "key x = k") auto
qed simp

lemma doomed_named:
  assumes ok: "bindery_ok b" and name: "literal name" and p: "p \<in> set (props b)"
  shows "p_obj_id p = ob \<and> p_id p \<in> doomed env ob name True b \<longleftrightarrow> n_key p = (ob, name)"
proof
  assume "p_obj_id p = ob \<and> p_id p \<in> doomed env ob name True b"
  then obtain q where q: "q \<in> set (props b)" "p_obj_id q = ob" "p_name q = name" "p_id q = p_id p" "p_obj_id p = ob"
    using name by (auto simp: doomed_def name_match_literal)
  then have "p_key q = p_key p" by (simp add: p_key_def)
  moreover have "distinct (map p_key (props b))" using ok by (simp add: bindery_ok_def)
  ultimately have "q = p" using distinct_map_eq [OF _ q(1) p] by blast
  then show "n_key p = (ob, name)" using q by (simp add: n_key_def)
next
  assume "n_key p = (ob, name)"
  then show "p_obj_id p = ob \<and> p_id p \<in> doomed env ob name True b"
    using p name by (auto simp: n_key_def doomed_def name_match_literal)
qed

lemma deleted_props:
  assumes "files_open env" "scans_complete env" and ok: "bindery_ok b" and name: "literal name"
  shows "props (snd (loc_delete_property env ob name 0 True b)) = filter (\<lambda>p. n_key p \<noteq> (ob, name)) (props b)"
  unfolding delete_by_name(1) [OF assms(1,2) ok] without_props_def
  using doomed_named [OF ok name] by (auto intro!: filter_cong)

lemma delete_prop_spec:
  fixes ob :: u32
  assumes env: "files_open env" "scans_complete env" and ok: "bindery_ok b" and name: "literal name"
  defines "b' \<equiv> snd (loc_delete_property env ob name 0 True b)"
  shows "bindery_ok b' \<and> slots b i \<le> slots b' i \<and>
     prop_value b' ob' name' = (if (ob', name') = (ob, name) then None else prop_value b ob' name')"
proof -
  let ?D = "doomed env ob name True b"
  have b': "b' = without_props ob ?D b" unfolding b'_def by (rule delete_by_name(1) [OF env ok])
  have d: "distinct (map n_key (props b))" "distinct (map p_key (props b))" "distinct (map v_key (vals b))"
    using ok by (auto simp: bindery_ok_def vals_ok_def)
  note D = doomed_named [OF ok name, where ob = ob and env = env]
  have props: "props b' = filter (\<lambda>p. n_key p \<noteq> (ob, name)) (props b)" unfolding b'_def by (rule deleted_props [OF env ok name])
  have vals: "vals b' = filter (\<lambda>v. \<not> (v_obj_id v = ob \<and> v_prop_id v \<in> ?D)) (vals b)" by (simp add: b' without_props_def)
  have "prop_value b' ob' name' = (if (ob', name') = (ob, name) then None else prop_value b ob' name')"
  proof (cases "chain_find n_key (ob', name') (props b)")
    case None
    then show ?thesis by (simp add: prop_value_def props chain_find_filter [OF d(1)])
  next
    case (Some q)
    have q: "q \<in> set (props b)" "n_key q = (ob', name')" using chain_find_key [OF Some] by auto
    show ?thesis
    proof (cases "(ob', name') = (ob, name)")
      case False
      then have "\<not> (ob' = ob \<and> p_id q \<in> ?D)" using D [OF q(1)] q(2) by (auto simp: n_key_def)
      then have "\<not> (v_obj_id v = ob \<and> v_prop_id v \<in> ?D)" if "seg (vals b) ob' (p_id q) 1 = Some v" for v
        using that by (simp add: seg_Some [OF d(3)] v_key_def seg_key_def)
      then have "seg (vals b') ob' (p_id q) 1 = seg (vals b) ob' (p_id q) 1"
        by (simp add: vals seg_filter [OF d(3)] split: option.split)
      then show ?thesis using Some q(2) False by (auto simp: prop_value_def props chain_find_filter [OF d(1)])
    qed (use Some q in \<open>simp add: prop_value_def props chain_find_filter [OF d(1)]\<close>)
  qed
  moreover have "own_props b' i \<le> own_props b i" unfolding own_props_def props by (rule length_filter_filter)
  moreover have "bindery_ok b'" using ok_without_props [OF ok] by (simp add: b')
  moreover have "objs b' = objs b" by (simp add: b' without_props_def)
  ultimately show ?thesis by (auto simp: slots_def)
qed

section \<open>The store as an interface\<close>

text \<open>What the password routines use of the bindery: values under an object and a name, with a bound on the
  names that can still be added.\<close>

locale prop_store =
  fixes inv :: "'s \<Rightarrow> bool" and lookup :: "'s \<Rightarrow> u32 \<Rightarrow> cstring \<Rightarrow> u8 list option" and free :: "'s \<Rightarrow> u32 \<Rightarrow> nat"
    and put :: "u32 \<Rightarrow> cstring \<Rightarrow> u8 \<Rightarrow> u8 list \<Rightarrow> 's \<Rightarrow> 's" and del :: "u32 \<Rightarrow> cstring \<Rightarrow> 's \<Rightarrow> 's"
    and good :: "cstring \<Rightarrow> bool" and shape :: "u8 list \<Rightarrow> u8 list"
  assumes put_inv: "inv s \<Longrightarrow> 0 < free s ob \<Longrightarrow> good n \<Longrightarrow> v \<noteq> [] \<Longrightarrow> inv (put ob n c v s)"
    and put_free: "inv s \<Longrightarrow> 0 < free s ob \<Longrightarrow> good n \<Longrightarrow> v \<noteq> [] \<Longrightarrow> free s i \<le> Suc (free (put ob n c v s) i)"
    and lookup_put: "inv s \<Longrightarrow> 0 < free s ob \<Longrightarrow> good n \<Longrightarrow> v \<noteq> [] \<Longrightarrow>
      lookup (put ob n c v s) ob' n' = (if (ob', n') = (ob, n) then Some (shape v) else lookup s ob' n')"
    and del_inv: "inv s \<Longrightarrow> good n \<Longrightarrow> inv (del ob n s)"
    and del_free: "inv s \<Longrightarrow> good n \<Longrightarrow> free s i \<le> free (del ob n s) i"
    and lookup_del: "inv s \<Longrightarrow> good n \<Longrightarrow> lookup (del ob n s) ob' n' = (if (ob', n') = (ob, n) then None else lookup s ob' n')"
begin

text \<open>\<open>reaches k s t\<close>: from \<open>s\<close> one gets to \<open>t\<close> by at most \<open>k\<close> writes under
  other names than \<open>n\<close>.\<close>

definition keeps :: "nat \<Rightarrow> u32 \<Rightarrow> cstring \<Rightarrow> 's \<Rightarrow> 's \<Rightarrow> bool" where
  "keeps k ob n s t \<longleftrightarrow> inv t \<and> free s ob \<le> k + free t ob \<and> lookup t ob n = lookup s ob n"

lemma untouched_refl: "inv s \<Longrightarrow> keeps 0 ob n s s"
  by (simp add: keeps_def)

lemma untouched_put:
  "inv s \<Longrightarrow> 0 < free s ob \<Longrightarrow> good m \<Longrightarrow> v \<noteq> [] \<Longrightarrow> m \<noteq> n \<Longrightarrow> keeps 1 ob n s (put ob m c v s)"
  using put_free [of s ob m v ob c] by (simp add: keeps_def put_inv lookup_put)

lemma untouched_weaken: "keeps k ob n s t \<Longrightarrow> k \<le> l \<Longrightarrow> keeps l ob n s t"
  by (simp add: keeps_def)

lemma put_then_untouched:
  assumes "inv s" and "0 < free s ob" and "good n" and "v \<noteq> []" and "keeps k ob n (put ob n c v s) t"
  shows "inv t" and "lookup t ob n = Some (shape v)"
  using assms lookup_put [OF assms(1-4), of c ob n] by (auto simp: keeps_def)

end

definition store_inv :: "bind_env \<times> bindery \<Rightarrow> bool" where
  "store_inv s = (files_open (fst s) \<and> scans_complete (fst s) \<and> acting (fst s) = None \<and> bindery_ok (snd s))"

definition good_name :: "cstring \<Rightarrow> bool" where
  "good_name n = (n \<noteq> [] \<and> length n \<le> 16 \<and> literal n)"

interpretation bs: prop_store store_inv "\<lambda>s. prop_value (snd s)" "\<lambda>s. slots (snd s)"
  "\<lambda>ob n c v s. (fst s, store_prop (fst s) ob n c v (snd s))"
  "\<lambda>ob n s. (fst s, snd (loc_delete_property (fst s) ob n 0 True (snd s)))" good_name padded
  by unfold_locales (auto simp: store_inv_def good_name_def store_prop_spec delete_prop_spec)

section \<open>Password properties\<close>

text \<open>The theorems are about a sound bindery whose files are open, and an object that has room for the properties
  that a change may add.\<close>

named_theorems pn_names
lemmas pn_defs = pn_password_def pn_login_control_def pn_unix_user_def pn_old_passwords_def pn_user_defaults_def

lemma pn_good [pn_names]: "good_name pn_password" "good_name pn_login_control" "good_name pn_unix_user"
  "good_name pn_old_passwords" "good_name pn_user_defaults"
  by code_simp+

lemma pn_distinct [pn_names]: "pn_login_control \<noteq> pn_password" "pn_old_passwords \<noteq> pn_password"
  by code_simp+

lemma good_literal: "good_name n \<Longrightarrow> literal n" "good_name n \<Longrightarrow> n \<noteq> []" "good_name n \<Longrightarrow> length n \<le> 16"
  by (auto simp: good_name_def)

lemma value_length: "bindery_ok b \<Longrightarrow> prop_value b ob n = Some v \<Longrightarrow> length v = 128"
proof -
  assume ok: "bindery_ok b" and v: "prop_value b ob n = Some v"
  then obtain p :: NETPROP and w where w: "seg (vals b) ob (p_id p) 1 = Some w" "v = v_value w"
    by (auto simp: prop_value_def split: option.splits)
  have "distinct (map v_key (vals b))" using ok by (simp add: bindery_ok_def vals_ok_def)
  then have "w \<in> set (vals b)" using w(1) by (simp add: seg_Some)
  then show "length v = 128" using ok w(2) by (simp add: bindery_ok_def vals_ok_def)
qed

lemma get_prop_cases:
  assumes "store_inv (env, b)" and "good_name n"
  obtains (absent) e where "prop_value b ob n = None" "e < 0"
      "nw_get_prop_val_by_obj_id env ob 1 n (length n) b = Inl e"
  | (present) v mo fl where "prop_value b ob n = Some v" "length v = 128"
      "nw_get_prop_val_by_obj_id env ob 1 n (length n) b = Inr (v, mo, fl)"
proof -
  have ok: "bindery_ok b" using assms(1) by (simp add: store_inv_def)
  have "case prop_value b ob n of
       None \<Rightarrow> \<exists>e < 0. nw_get_prop_val_by_obj_id env ob 1 n (length n) b = Inl e
     | Some v \<Rightarrow> \<exists>mo fl. nw_get_prop_val_by_obj_id env ob 1 n (length n) b = Inr (v, mo, fl)"
    using assms by (intro get_value) (auto simp: store_inv_def good_literal)
  then show thesis using that value_length [OF ok] by (auto split: option.splits)
qed

lemma get_str:
  assumes "store_inv (env, b)" and "good_name n"
  shows "case prop_value b ob n of
       None \<Rightarrow> \<exists>e < 0. nw_get_prop_val_str env ob n b = (e, [])
     | Some v \<Rightarrow> nw_get_prop_val_str env ob n b = (int (length (str_of v)), v)"
  by (rule get_prop_cases [OF assms, of ob]) (auto simp: nw_get_prop_val_str_def str_of_def)

text \<open>LOGIN\_CONTROL and its 86 bytes.\<close>

text \<open>A LOGIN\_CONTROL that is read from a property and written back unchanged has the same 86 bytes.\<close>

theorem login_control_roundtrip:
  assumes "86 \<le> length s"
  shows "lc_to_bytes (lc_of_bytes s) = take sizeof_LOGIN_CONTROL s"
proof (rule nth_equalityI)
  show "length (lc_to_bytes (lc_of_bytes s)) = length (take sizeof_LOGIN_CONTROL s)"
    using assms by (simp add: lc_to_bytes_def lc_of_bytes_def slice_def sizeof_LOGIN_CONTROL_def)
  fix i assume "i < length (lc_to_bytes (lc_of_bytes s))"
  then have "i < 86" using assms by (simp add: lc_to_bytes_def lc_of_bytes_def slice_def)
  then show "lc_to_bytes (lc_of_bytes s) ! i = take sizeof_LOGIN_CONTROL s ! i"
    using assms
    by (auto simp: lc_to_bytes_def lc_of_bytes_def slice_def sizeof_LOGIN_CONTROL_def nth_append nth_Cons')
      (rule arg_cong [of _ _ "(!) s"]; arith)+
qed

lemma lc_length: "store_inv (env, b) \<Longrightarrow> nw_get_login_control env ob b = Some lc \<Longrightarrow> length (lc_to_bytes lc) = 86"
  by (rule get_prop_cases [where n = pn_login_control and ob = ob and env = env and b = b]; (rule pn_names)?;
      rule get_prop_cases [where n = pn_user_defaults and ob = 1 and env = env and b = b]; (rule pn_names)?)
    (auto simp: nw_get_login_control_def lc_to_bytes_def lc_of_bytes_def lc_of_defaults_def slice_def)

text \<open>The two writes beside the password itself.\<close>

abbreviation keeps_password :: "nat \<Rightarrow> u32 \<Rightarrow> bind_env \<Rightarrow> bindery \<Rightarrow> bindery \<Rightarrow> bool" where
  "keeps_password k ob env b b' \<equiv> bs.keeps k ob pn_password (env, b) (env, b')"

lemma keeps_store:
  assumes "store_inv (env, b)" and "0 < slots b ob" and "good_name n" and "n \<noteq> pn_password" and "v \<noteq> []"
  shows "keeps_password 1 ob env b (store_prop env ob n c v b)"
  using bs.untouched_put [of "(env, b)" ob n v pn_password c] assms by simp

lemma renew_expiry_keeps:
  assumes inv: "store_inv (env, b)" and room: "0 < slots b ob"
  shows "keeps_password 1 ob env b (renew_expiry env pe ob b)"
proof (cases "nw_get_login_control env ob b")
  case (Some lc)
  have put: "keeps_password 1 ob env b (nw_set_login_control env ob lc' b)" if "length (lc_to_bytes lc') = 86" for lc'
  proof -
    have "lc_to_bytes lc' \<noteq> []" using that by (intro notI) simp
    from keeps_store [OF inv room pn_good(2) pn_distinct(1) this, of "0x32"] show ?thesis
      using that by (simp add: store_prop_def nw_set_login_control_def sizeof_LOGIN_CONTROL_def)
  qed
  have "length (lc_to_bytes (lc\<lparr>passwordGraceLogins := g, passwordExpiresYear := y, passwordExpiresMonth := m,
      passwordExpiresDay := d\<rparr>)) = 86" for g y m d
    using lc_length [OF inv Some] by (simp add: lc_to_bytes_def)
  then show ?thesis using Some put bs.untouched_weaken [OF bs.untouched_refl [of "(env, b)", OF inv], of 1]
    by (auto simp: renew_expiry_def split: prod.split)
qed (use bs.untouched_weaken [OF bs.untouched_refl [of "(env, b)", OF inv], of 1] in \<open>simp add: renew_expiry_def\<close>)

lemma update_oldpasswd_keeps:
  assumes inv: "store_inv (env, b)" and room: "0 < slots b ob" and cp: "\<And>s t. length (memcpy_up pe s t) = length s"
    and h: "length h = 16"
  shows "keeps_password 1 ob env b (snd (nw_update_oldpasswd env pe ob h b))"
proof (rule get_prop_cases [OF inv pn_good(4), of ob])
  fix v mo fl
  assume v: "length v = 128" and g: "nw_get_prop_val_by_obj_id env ob 1 pn_old_passwords (length pn_old_passwords) b = Inr (v, mo, fl)"
  have l: "length (take 16 h @ memcpy_up pe (take 112 v) (drop 16 v)) = 128" using v h by (simp add: cp)
  then have "take 16 h @ memcpy_up pe (take 112 v) (drop 16 v) \<noteq> []" by (intro notI) simp
  from keeps_store [OF inv room pn_good(4) pn_distinct(2) this, of "0x32"]
  show ?thesis using g l bs.untouched_weaken [OF bs.untouched_refl [of "(env, b)", OF inv], of 1]
    by (auto simp: nw_update_oldpasswd_def store_prop_def)
qed (use bs.untouched_weaken [OF bs.untouched_refl [of "(env, b)", OF inv], of 1] in \<open>simp add: nw_update_oldpasswd_def\<close>)

lemma nw_encrypt_padded: "length h = 16 \<Longrightarrow> nw_encrypt key (padded h) = nw_encrypt key h"
proof -
  assume h: "length h = 16"
  have nth: "padded h ! i = h ! i" if "i < 16" for i using that h by (simp add: padded_def nth_append)
  have "strip_zeros (padded h) n = strip_zeros h n" if "n \<le> 16" for n
    using that nth by (intro strip_zeros_cong) auto
  then have "shuffle l (padded h) 16 = shuffle l h 16" for l
    using nth strip_zeros_le [of h 16] by (intro shuffle_cong) auto
  then show ?thesis by (simp add: nw_encrypt_def)
qed

text \<open>After a change of the password that is not refused the bindery holds the new hash.\<close>

lemma set_enpasswd_stores:
  assumes inv: "store_inv (env, b)" and room: "3 \<le> slots b ob" and cp: "\<And>s t. length (memcpy_up pe s t) = length s"
    and h: "length h = 16" "h ! 0 \<noteq> 0" and set: "nw_set_enpasswd env pe ob h False b = (0, b')"
  shows "store_inv (env, b') \<and> prop_value b' ob pn_password = Some (padded h)"
proof -
  obtain r b1 where u: "nw_update_oldpasswd env pe ob h b = (r, b1)" by fastforce
  have k1: "keeps_password 1 ob env b b1" using update_oldpasswd_keeps [OF inv _ cp h(1)] room u by (metis Suc_le_D snd_conv zero_less_Suc numeral_3_eq_3)
  then have inv1: "store_inv (env, b1)" and room1: "2 \<le> slots b1 ob" using room by (auto simp: bs.keeps_def)
  define b2 where "b2 = store_prop env ob pn_password 0x44 h b1"
  have hn: "h \<noteq> []" "hd h \<noteq> 0" using h by (cases h; simp)+
  have b': "b' = renew_expiry env pe ob b2"
    using set u hn h by (auto simp: nw_set_enpasswd_def b2_def store_prop_def split: if_splits)
  have inv2: "store_inv (env, b2)" using bs.put_inv [OF inv1, of ob pn_password h "0x44"] room1 hn pn_good by (simp add: b2_def)
  have "slots b1 ob \<le> Suc (slots b2 ob)" using bs.put_free [OF inv1, of ob pn_password h ob "0x44"] room1 hn pn_good by (simp add: b2_def)
  then have k2: "keeps_password 1 ob env b2 b'" unfolding b' using renew_expiry_keeps [OF inv2] room1 by simp
  show ?thesis
    using bs.put_then_untouched [of "(env, b1)" ob pn_password h 1 "0x44" "(env, b')"] inv1 room1 hn pn_good k2 by (simp add: b2_def)
qed

text \<open>C27. Once the server has set an encrypted password, and the first byte of it is not zero and the set was not
  refused (as one that was used before may be), the keyed login test accepts exactly the answer that the key and this password give, for every key and whatever the password scheme is.\<close>

theorem set_password_then_login:
  assumes "files_open env" and "scans_complete env" and "acting env = None" and "bindery_ok b"
    and "3 \<le> slots b ob" and "\<And>s t. length (memcpy_up pe s t) = length s" and "length h = 16" and "h ! 0 \<noteq> 0"
    and "nw_set_enpasswd env pe ob h False b = (0, b')"
  shows "bindery_ok b' \<and> nw_test_passwd env pe' ob key answer b' = (if take 8 answer = nw_encrypt key h then 0 else -0xff)"
proof -
  have S: "store_inv (env, b')" "prop_value b' ob pn_password = Some (padded h)"
    using set_enpasswd_stores [OF _ assms(5-9)] assms(1-4) by (auto simp: store_inv_def)
  have "0 < length (str_of (padded h))" using assms(7,8) by (cases h) (auto simp: padded_def str_of_def)
  then show ?thesis using get_str [OF S(1) pn_good(1), of ob] S
    by (auto simp: nw_test_passwd_def loc_nw_test_passwd_def nw_encrypt_padded assms(7) store_inv_def)
qed

lemma set_enpasswd_clears:
  assumes inv: "store_inv (env, b)" and room: "0 < slots b ob" and h: "h = [] \<or> hd h = 0"
    and set: "nw_set_enpasswd env pe ob h False b = (r, b')"
  shows "r = 0 \<and> store_inv (env, b') \<and> prop_value b' ob pn_password = None"
proof -
  define b1 where "b1 = snd (loc_delete_property env ob pn_password 0 True b)"
  have b': "r = 0" "b' = renew_expiry env pe ob b1" using h set by (auto simp: nw_set_enpasswd_def b1_def)
  have inv1: "store_inv (env, b1)" using bs.del_inv [OF inv pn_good(1), of ob] by (simp add: b1_def)
  have "slots b ob \<le> slots b1 ob" using bs.del_free [OF inv pn_good(1), of ob ob] by (simp add: b1_def)
  then have "keeps_password 1 ob env b1 b'" unfolding b' using renew_expiry_keeps [OF inv1] room by simp
  then show ?thesis
    using bs.lookup_del [OF inv pn_good(1), of ob ob pn_password] b'(1) by (simp add: bs.keeps_def b1_def)
qed

text \<open>C30. An empty password, or one whose hash begins with a zero byte, leaves the account without a
  password: the property is deleted, and unless Unix passwords are consulted every answer to every key is
  accepted, except for the supervisor, who can no longer log in at all.\<close>

theorem zero_hash_opens_account:
  assumes "files_open env" and "scans_complete env" and "acting env = None" and "bindery_ok b" and "0 < slots b ob"
    and "h = [] \<or> hd h = 0" and "nw_set_enpasswd env pe ob h False b = (r, b')"
  shows "r = 0 \<and> bindery_ok b' \<and> prop_value b' ob pn_password = None \<and>
     (\<not> scheme_has pe' PW_SCHEME_LOGIN \<longrightarrow> nw_test_passwd env pe' ob key answer b' = (if ob = 1 then -0xff else 0))"
proof -
  have inv: "store_inv (env, b)" using assms(1-4) by (simp add: store_inv_def)
  have S: "r = 0 \<and> store_inv (env, b') \<and> prop_value b' ob pn_password = None"
    by (rule set_enpasswd_clears [OF inv assms(5-7)])
  then obtain e where "e < 0" "nw_get_prop_val_str env ob pn_password b' = (e, [])"
    using get_str [OF _ pn_good(1), of env b' ob] by auto
  then have "\<not> scheme_has pe' PW_SCHEME_LOGIN \<longrightarrow> nw_test_passwd env pe' ob key answer b' = (if ob = 1 then -0xff else 0)"
    by (auto simp: nw_test_passwd_def loc_nw_test_passwd_def Let_def)
  then show ?thesis using S by (simp add: store_inv_def)
qed

lemma set_enpasswd_result: "fst (nw_set_enpasswd env pe ob h dont_ch b) \<in> {0, -0xd7}"
  by (simp add: nw_set_enpasswd_def split_beta)

lemma valid_keynewpasswd_result: "nw_valid_keynewpasswd env ob n b \<in> {0, -0xd8}"
  by (simp add: nw_valid_keynewpasswd_def split: option.split)

text \<open>C29. A keyed change of a password that is stored (its first byte is not zero) is refused with \<open>-0xff\<close>, and
  then changes nothing, exactly when the client has not shown that it knows the stored password, by the answer that
  the key and the stored value give; with one exception that the code makes: a client that acts with supervisor
  rights may answer with the blank password instead.\<close>

theorem keychange_needs_old_password:
  assumes "files_open env" and "scans_complete env" and "acting env = None" and "bindery_ok b"
    and "prop_value b ob pn_password = Some stored" and "stored ! 0 \<noteq> 0"
    and "nw_keychange_passwd env pe ob cryptkey oldpass cl newpass id_flags b = (r, b')"
  shows "(r = -0xff \<longleftrightarrow> take 8 oldpass \<noteq> nw_encrypt cryptkey stored \<and>
      \<not> (has id_flags 1 \<and> take 8 oldpass = nw_encrypt cryptkey (shuffle (u32_to_be32 ob) [] 0))) \<and>
    (r = -0xff \<longrightarrow> b' = b)"
proof -
  have inv: "store_inv (env, b)" using assms(1-4) by (simp add: store_inv_def)
  have "0 < length (str_of stored)" using value_length [OF assms(4,5)] assms(6) by (cases stored) (auto simp: str_of_def)
  then have t: "loc_nw_test_passwd env ob cryptkey oldpass b =
      (if take 8 oldpass \<noteq> nw_encrypt cryptkey stored then -0xff else 0, stored, nw_encrypt cryptkey stored)"
    using get_str [OF inv pn_good(1), of ob] assms(5) by (simp add: loc_nw_test_passwd_def Let_def)
  note range = set_enpasswd_result [of env pe ob] valid_keynewpasswd_result [of env ob]
  show ?thesis
  proof (cases "take 8 oldpass \<noteq> nw_encrypt cryptkey stored \<and>
      \<not> (has id_flags 1 \<and> take 8 oldpass = nw_encrypt cryptkey (shuffle (u32_to_be32 ob) [] 0))")
    case True
    then show ?thesis using assms(7) by (auto simp: nw_keychange_passwd_def t Let_def)
  next
    case False
    define stored1 where "stored1 = (if take 8 oldpass \<noteq> nw_encrypt cryptkey stored \<and> has id_flags 1
      then shuffle (u32_to_be32 ob) [] 0 else stored)"
    define new where "new = snd (nw_decrypt_newpass (slice 0 8 stored1) (slice 0 8 newpass)) @
      snd (nw_decrypt_newpass (slice 8 8 stored1) (slice 8 8 newpass))"
    define v where "v = nw_valid_keynewpasswd env ob (real_len cl stored1) b"
    define s where "s = nw_set_enpasswd env pe ob new False b"
    have "(r, b') = (if v < 0 then (v, b) else if fst s < 0 then s
        else (if new = shuffle (u32_to_be32 ob) [] 0 then 1 else 0, snd s))"
      unfolding assms(7) [symmetric] nw_keychange_passwd_def Let_def t v_def s_def new_def stored1_def
      using False by (auto simp: split_beta)
    then have "r \<in> {v, fst s, 0, 1}" by (auto split: if_splits)
    moreover have "v \<in> {0, -0xd8}" "fst s \<in> {0, -0xd7}" using range by (simp_all add: v_def s_def)
    ultimately show ?thesis using False by auto
  qed
qed

lemma length_newpassencrypt [simp]: "length (snd (newpassencrypt old new)) = 8"
proof -
  have "(newpass_round ^^ 16) x = newpass_round ((newpass_round ^^ 15) x)" for x by (simp add: numeral_eq_Suc)
  then show ?thesis by (simp add: newpassencrypt_def newpass_round_def)
qed

lemma slices: "length h = 16 \<Longrightarrow> slice 0 8 h @ slice 8 8 h = h"
  by (simp add: slice_def)


lemma length_shuffle [simp]: "length (shuffle lon buf n) = 16"
  by (simp add: shuffle_def shuffle1_def Let_def split: prod.split)

lemma length_nw_encrypt [simp]: "length (nw_encrypt key buf) = 8"
  by (simp add: nw_encrypt_def Let_def)

text \<open>A password set in upper case is accepted by the unencrypted login test in any
  case; only when its hash begins with a zero byte, no password is stored at all.\<close>

theorem plain_login_after_set_passwd:
  assumes "files_open env" and "scans_complete env" and "acting env = None" and "bindery_ok b"
    and "3 \<le> slots b ob" and "\<And>s t. length (memcpy_up pe s t) = length s"
    and "p \<noteq> []" and "length p \<le> 99" and "upstr q = p" and "nw_set_passwd env pe ob p False b = (0, b')"
  shows "if shuffle (u32_to_be32 ob) p (length p) ! 0 = 0 then prop_value b' ob pn_password = None
     else nw_test_unenpasswd env pe' ob q b' = 0"
proof -
  let ?h = "shuffle (u32_to_be32 ob) p (length p)"
  have inv: "store_inv (env, b)" using assms(1-4) by (simp add: store_inv_def)
  have set: "nw_set_enpasswd env pe ob ?h False b = (0, b')" using assms(7,10) by (simp add: nw_set_passwd_def)
  obtain c r where h: "?h = c # r" by (cases ?h) (use length_shuffle [of "u32_to_be32 ob" p "length p"] in auto)
  show ?thesis
  proof (cases "?h ! 0 = 0")
    case True
    then show ?thesis using set_enpasswd_clears [OF inv _ _ set] assms(5) h by simp
  next
    case False
    have S: "store_inv (env, b')" "prop_value b' ob pn_password = Some (padded ?h)"
      using set_enpasswd_stores [OF inv assms(5,6) length_shuffle False set] by auto
    have "0 < length (str_of (padded ?h))" using h False by (auto simp: padded_def str_of_def)
    moreover have "take 16 (padded ?h) = ?h" by (simp add: padded_def)
    moreover have "length q = length p" "q \<noteq> []" using assms(7,9) by (auto simp: upstr_def)
    ultimately show ?thesis using get_str [OF S(1) pn_good(1), of ob] S assms(8,9) False
      by (auto simp: nw_test_unenpasswd_def)
  qed
qed

section \<open>Witnesses\<close>

definition pw_env0 :: pw_env where
  "pw_env0 = \<lparr>password_scheme = 0, getpwnam = (\<lambda>n. None), getspnam = (\<lambda>n. None), crypt = (\<lambda>p s. []),
     memcpy_up = (\<lambda>s t. s), expires = (\<lambda>y m d. True), in_days = (\<lambda>n. (100, 1, 1))\<rparr>"

definition hash0 :: "u8 list" where
  "hash0 = [7, 1, 2, 3, 4, 5, 6, 7, 8, 9, 10, 11, 12, 13, 14, 15]"

lemma hash0: "length hash0 = 16" "hash0 ! 0 \<noteq> 0" "hash0 \<noteq> []" "hd hash0 \<noteq> 0"
  by (simp_all add: hash0_def)

lemma server0: "store_inv (server_env, bindery0)" "acting server_env = None" "slots bindery0 2 = 255"
  using bindery0_ok by (simp_all add: store_inv_def server_env_def slots_def own_props_def bindery0_def guest_def group_members_def
      files_open_def scans_complete_def)

lemma nothing_stored: "prop_value bindery0 2 n = None"
  by (simp add: prop_value_def bindery0_def n_key_def group_members_def)

lemma set_hash0: "nw_set_enpasswd server_env pw_env0 2 hash0 False bindery0 =
    (0, snd (nw_set_enpasswd server_env pw_env0 2 hash0 False bindery0))"
proof -
  have upd: "nw_update_oldpasswd server_env pw_env0 2 hash0 bindery0 = (0, bindery0)"
    by (rule get_prop_cases [OF server0(1) pn_good(4), of 2]) (simp_all add: nothing_stored nw_update_oldpasswd_def)
  have "nw_get_login_control server_env 2 bindery0 = x \<Longrightarrow> fst (nw_set_enpasswd server_env pw_env0 2 hash0 False bindery0) = 0" for x
    using hash0 by (simp add: nw_set_enpasswd_def upd)
  then show ?thesis by (simp add: prod_eq_iff)
qed

lemma cp0: "length (memcpy_up pw_env0 s t) = length s"
  by (simp add: pw_env0_def)

lemma no_restrictions: "nw_get_login_control server_env 2 bindery0 = None"
  by (rule get_prop_cases [OF server0(1) pn_good(2), of 2]; rule get_prop_cases [OF server0(1) pn_good(5), of 1])
    (simp_all add: nw_get_login_control_def nothing_stored, simp_all add: prop_value_def bindery0_def n_key_def group_members_def)

theorem set_password_then_login_witness:
  "nw_test_passwd server_env pw_env0 2 [1, 2, 3, 4, 5, 6, 7, 8] (nw_encrypt [1, 2, 3, 4, 5, 6, 7, 8] hash0)
     (snd (nw_set_enpasswd server_env pw_env0 2 hash0 False bindery0)) = 0"
  using set_password_then_login [OF server_env(1,2) server0(2) bindery0_ok _ cp0 hash0(1,2) set_hash0]
  by (simp add: server0(3))

theorem zero_hash_opens_account_witness:
  "nw_test_passwd server_env pw_env0 2 [1, 2, 3, 4, 5, 6, 7, 8] [] (snd (nw_set_enpasswd server_env pw_env0 2 (0 # hash0) False bindery0)) = 0"
  using zero_hash_opens_account [OF server_env(1,2) server0(2) bindery0_ok _ _ surjective_pairing, of 2 "0 # hash0" pw_env0 pw_env0]
  by (simp add: server0(3) scheme_has_def pw_env0_def)

theorem login_control_roundtrip_witness:
  "lc_to_bytes (lc_of_bytes (replicate 128 9)) = replicate 86 9"
  using login_control_roundtrip [of "replicate 128 9"] by (simp add: sizeof_LOGIN_CONTROL_def min_def)

theorem plain_login_after_set_passwd_witness:
  "if shuffle (u32_to_be32 2) (cstr ''SECRET'') 6 ! 0 = 0
   then prop_value (snd (nw_set_passwd server_env pw_env0 2 (cstr ''SECRET'') False bindery0)) 2 pn_password = None
   else nw_test_unenpasswd server_env pw_env0 2 (cstr ''sEcret'') (snd (nw_set_passwd server_env pw_env0 2 (cstr ''SECRET'') False bindery0)) = 0"
proof -
  have p: "cstr ''SECRET'' \<noteq> []" "length (cstr ''SECRET'') \<le> 99" "upstr (cstr ''sEcret'') = cstr ''SECRET''" by code_simp+
  have len: "length (cstr ''SECRET'') = 6" by code_simp
  have upd: "nw_update_oldpasswd server_env pw_env0 2 h bindery0 = (0, bindery0)" for h
    by (rule get_prop_cases [OF server0(1) pn_good(4), of 2]) (simp_all add: nothing_stored nw_update_oldpasswd_def)
  have "fst (nw_set_passwd server_env pw_env0 2 (cstr ''SECRET'') False bindery0) = 0"
    by (simp add: nw_set_passwd_def nw_set_enpasswd_def upd)
  then have set: "nw_set_passwd server_env pw_env0 2 (cstr ''SECRET'') False bindery0 =
      (0, snd (nw_set_passwd server_env pw_env0 2 (cstr ''SECRET'') False bindery0))" by (simp add: prod_eq_iff)
  show ?thesis
    using plain_login_after_set_passwd [OF server_env(1,2) server0(2) bindery0_ok _ cp0 p set, where pe' = pw_env0] len
    by (simp add: server0(3))
qed

text \<open>The same bindery with a password for GUEST, and the change of this password.\<close>

definition bindery1 :: bindery where
  "bindery1 = store_prop server_env 2 pn_password 0x44 hash0 bindery0"

lemma bindery1: "store_inv (server_env, bindery1)" "254 \<le> slots bindery1 2"
  "prop_value bindery1 ob n = (if ob = 2 \<and> n = pn_password then Some (padded hash0) else prop_value bindery0 ob n)"
  using bs.put_inv [OF server0(1), of 2 pn_password hash0 "0x44"] bs.put_free [OF server0(1), of 2 pn_password hash0 2 "0x44"]
    bs.lookup_put [OF server0(1), of 2 pn_password hash0 "0x44" ob n]
  by (simp_all add: server0(3) hash0 pn_good bindery1_def)

lemma no_value: "prop_value bindery0 1 n = None" "prop_value bindery0 2 n = None"
  by (simp_all add: prop_value_def bindery0_def n_key_def group_members_def)

lemma no_restrictions1: "nw_get_login_control server_env 2 bindery1 = None"
  by (rule get_prop_cases [OF bindery1(1) pn_good(2), of 2]; rule get_prop_cases [OF bindery1(1) pn_good(5), of 1])
    (simp_all add: nw_get_login_control_def bindery1(3) no_value pn_distinct)

definition key0 :: "u8 list" where "key0 = [1, 2, 3, 4, 5, 6, 7, 8]"
definition hash1 :: "u8 list" where "hash1 = rev hash0"

definition new_hash1 :: "u8 list" where
  "new_hash1 = snd (newpassencrypt (slice 0 8 (padded hash0)) (slice 0 8 hash1)) @
     snd (newpassencrypt (slice 8 8 (padded hash0)) (slice 8 8 hash1))"

lemma old_password0: "loc_nw_test_passwd server_env 2 key0 (nw_encrypt key0 (padded hash0)) bindery1 =
    (0, padded hash0, nw_encrypt key0 (padded hash0))"
  using get_str [OF bindery1(1) pn_good(1), of 2]
  by (simp add: bindery1(3) loc_nw_test_passwd_def Let_def str_of_def) (simp add: padded_def hash0_def)

lemma change_accepted:
  "0 \<le> fst (nw_keychange_passwd server_env pw_env0 2 key0 (nw_encrypt key0 (padded hash0)) 0 new_hash1 0 bindery1)"
proof -
  have upd: "nw_update_oldpasswd server_env pw_env0 2 h bindery1 = (0, bindery1)" for h
    by (rule get_prop_cases [OF bindery1(1) pn_good(4), of 2])
      (simp_all add: bindery1(3) no_value nw_update_oldpasswd_def pn_distinct)
  have "fst (nw_set_enpasswd server_env pw_env0 2 h False bindery1) = 0" for h
    by (simp add: nw_set_enpasswd_def upd no_restrictions1)
  then have "\<exists>b. nw_set_enpasswd server_env pw_env0 2 h False bindery1 = (0, b)" for h by (metis prod.collapse)
  then show ?thesis
    by (auto simp: nw_keychange_passwd_def old_password0 nw_valid_keynewpasswd_def no_restrictions1 Let_def split: prod.split)
      (metis fst_conv less_irrefl)+
qed

theorem keychange_needs_old_password_witness:
  "nw_keychange_passwd server_env pw_env0 2 key0 [] 0 hash0 0 bindery1 = (-0xff, bindery1)"
proof -
  have ok: "bindery_ok bindery1" using bindery1(1) by (simp add: store_inv_def)
  have p: "prop_value bindery1 2 pn_password = Some (padded hash0)" "padded hash0 ! 0 \<noteq> 0"
    by (simp_all add: bindery1(3)) (simp add: padded_def hash0_def)
  have "[] \<noteq> nw_encrypt k v" for k v using length_nw_encrypt [of k v] by (intro notI) simp
  then show ?thesis
    using keychange_needs_old_password [OF server_env(1,2) server0(2) ok p surjective_pairing, of pw_env0 key0 "[]" 0 hash0 0]
    by (simp add: prod_eq_iff has_def)
qed


end
