(* ===== verification/Nwqueue.thy ===== *)
theory Nwqueue
  imports BinderySound
begin

text \<open>The print queues of \<^verbatim>\<open>src/nwqueue.c\<close>, which the process \<^verbatim>\<open>nwbind\<close> keeps: the chain of
  queues, the jobs of a queue in order, the life of a job from its creation over the close by its
  client and the service by a queue server to its end, and the files of the jobs.  The job structures that go
  over the wire are records of byte arrays with the fields of \<^verbatim>\<open>include/queuedef.h\<close>.  Clock,
  local time, the outcome of \<^verbatim>\<open>unlink\<close> and of \<^verbatim>\<open>open\<close> are parameters (\<open>queue_env\<close>);
  \<^verbatim>\<open>time_t\<close> and \<^verbatim>\<open>long\<close> are printed with 32 bits.\<close>

section \<open>Data (nwqueue.c, queuedef.h)\<close>

record INT_QUEUE_JOB =
  client_connection :: int
  client_task :: int
  client_id :: u32
  entry_time :: int
  target_id :: u32
  execute_time :: int
  job_id :: int
  job_typ :: int
  job_position :: int
  job_control_flags :: u32
  server_station :: int
  server_task :: int
  server_id :: u32
  job_description :: "u8 list"
  file_entry_time :: int
  client_area :: "u8 list"

record QUEUE_SERVER =
  qs_connection :: int
  qs_user_id :: u32
  status_record :: "u8 list"

record NWE_QUEUE =
  q_id :: u32
  last_job_id :: int
  count_jobs :: int
  queue_jobs :: "INT_QUEUE_JOB list"
  q_status :: u32
  changed :: int
  queuedir :: cstring
  queuedir_len :: nat
  queuedir_downshift :: bool
  qserver :: "QUEUE_SERVER option"

record QUEUE_JOB =
  qj_record_in_use :: "u8 list"
  qj_record_previous :: "u8 list"
  qj_record_next :: "u8 list"
  qj_client_connection :: "u8 list"
  qj_client_task :: "u8 list"
  qj_client_id :: "u8 list"
  qj_target_id :: "u8 list"
  qj_target_execute_time :: "u8 list"
  qj_job_entry_time :: "u8 list"
  qj_job_id :: "u8 list"
  qj_job_typ :: "u8 list"
  qj_job_position :: "u8 list"
  qj_job_control_flags :: "u8 list"
  qj_job_file_name :: "u8 list"
  qj_job_file_handle :: "u8 list"
  qj_server_station :: "u8 list"
  qj_server_task :: "u8 list"
  qj_server_id :: "u8 list"
  qj_job_description :: "u8 list"
  qj_client_area :: "u8 list"

record QUEUE_JOB_OLD =
  qo_client_connection :: u8
  qo_client_task :: u8
  qo_client_id :: "u8 list"
  qo_target_id :: "u8 list"
  qo_target_execute_time :: "u8 list"
  qo_job_entry_time :: "u8 list"
  qo_job_id :: "u8 list"
  qo_job_typ :: "u8 list"
  qo_job_position :: u8
  qo_job_control_flags :: u8
  qo_job_file_name :: "u8 list"
  qo_job_file_handle :: "u8 list"
  qo_server_station :: u8
  qo_server_task :: u8
  qo_server_id :: "u8 list"
  qo_job_description :: "u8 list"
  qo_client_area :: "u8 list"

definition sizeof_QUEUE_JOB :: int where "sizeof_QUEUE_JOB = 280"
definition sizeof_QUEUE_JOB_OLD :: int where "sizeof_QUEUE_JOB_OLD = 256"

text \<open>The two layouts of a job in a request and in an answer: before and since version 3.11
  (\<^verbatim>\<open>old_call\<close>).\<close>

datatype wire_job = OldJob QUEUE_JOB_OLD | NewJob QUEUE_JOB

record tm =
  tm_year :: int
  tm_mon :: int
  tm_mday :: int
  tm_hour :: int
  tm_min :: int
  tm_sec :: int

record queue_env =
  now :: int
  localtime :: "int \<Rightarrow> tm"
  mktime :: "tm \<Rightarrow> int"
  unlink_ok :: "cstring \<Rightarrow> bool"
  open_ok :: "u32 \<Rightarrow> bool"
  sys_unixname :: cstring
  sys_sysname :: cstring
  sys_downshift :: bool
  stack :: cstring

text \<open>The directories that are made and removed: the one for the queue's own files
  (\<^verbatim>\<open>get_div_pathes\<close> with \<open>%x\<close> of the id) and the one on the volume.\<close>

datatype queue_dir = DivPath u32 | UnixPath cstring
datatype dir_event = Mkdir queue_dir nat | Rmdir queue_dir

text \<open>The state: the chain of queues, the files \<open>%x/queue\<close> that keep the jobs while the server is
  down, the sizes of the job files, the directories made and removed, and the flags of entry 18 of
  the configuration.\<close>

record qstate =
  nwe_queues :: "NWE_QUEUE list"
  qsaved :: "u32 \<Rightarrow> INT_QUEUE_JOB list option"
  qfiles :: "cstring \<Rightarrow> int option"
  qdirs :: "dir_event list"
  entry18_flags :: u32

section \<open>Queues and their jobs\<close>

definition new_queue :: "u32 \<Rightarrow> NWE_QUEUE" where
  "new_queue i = \<lparr>q_id = i, last_job_id = 0, count_jobs = 0, queue_jobs = [], q_status = 0, changed = 0,
     queuedir = [], queuedir_len = 0, queuedir_downshift = False, qserver = None\<rparr>"

definition free_queue :: "u32 \<Rightarrow> NWE_QUEUE list \<Rightarrow> NWE_QUEUE list" where
  "free_queue i qs = chain_del q_id i qs"

definition find_queue :: "qstate \<Rightarrow> u32 \<Rightarrow> NWE_QUEUE option" where
  "find_queue st i = chain_find q_id i (nwe_queues st)"

text \<open>A queue or a job that the code changes through its pointer.\<close>

definition put_queue :: "NWE_QUEUE \<Rightarrow> qstate \<Rightarrow> qstate" where
  "put_queue q st = st\<lparr>nwe_queues := chain_put q_id q (nwe_queues st)\<rparr>"

definition put_job :: "INT_QUEUE_JOB \<Rightarrow> NWE_QUEUE \<Rightarrow> NWE_QUEUE" where
  "put_job jo que = que\<lparr>queue_jobs := chain_put job_id jo (queue_jobs que)\<rparr>"

definition find_queue_job :: "NWE_QUEUE \<Rightarrow> int \<Rightarrow> INT_QUEUE_JOB option" where
  "find_queue_job que i = chain_find job_id i (queue_jobs que)"

definition next_id :: "int \<Rightarrow> int" where
  "next_id i = (if i + 1 > 999 then 1 else i + 1)"

text \<open>The search of a free job id comes back to where it started after at most 999 steps; it then
  gives up.\<close>

fun search_id :: "nat \<Rightarrow> int \<Rightarrow> int list \<Rightarrow> int \<Rightarrow> int option" where
  "search_id 0 verylastjobid used i = None"
| "search_id (Suc n) verylastjobid used i =
     (let i' = next_id i
      in if i' = verylastjobid then None
         else if i' \<in> set used then search_id n verylastjobid used i' else Some i')"

definition link_job :: "NWE_QUEUE \<Rightarrow> int \<Rightarrow> int \<Rightarrow> INT_QUEUE_JOB \<Rightarrow> INT_QUEUE_JOB option \<times> NWE_QUEUE" where
  "link_job que i pos p =
     (let p' = p\<lparr>job_position := pos, job_id := (if job_id p = 0 then i else job_id p)\<rparr>
      in (Some p', que\<lparr>last_job_id := i, queue_jobs := queue_jobs que @ [p'], changed := changed que + 1,
                       count_jobs := count_jobs que + 1\<rparr>))"

definition add_queue_job :: "NWE_QUEUE \<Rightarrow> INT_QUEUE_JOB \<Rightarrow> INT_QUEUE_JOB option \<times> NWE_QUEUE" where
  "add_queue_job que p =
     (if queue_jobs que = [] then link_job que (next_id (last_job_id que)) 1 p
      else let verylastjobid = (if last_job_id que \<noteq> 0 then last_job_id que else 1)
           in case search_id 999 verylastjobid (map job_id (queue_jobs que)) (last_job_id que) of
                None \<Rightarrow> (None, que\<lparr>last_job_id := verylastjobid\<rparr>)
              | Some i \<Rightarrow> link_job que i (job_position (last (queue_jobs que)) + 1) p)"

definition empty_job :: INT_QUEUE_JOB where
  "empty_job = \<lparr>client_connection = 0, client_task = 0, client_id = 0, entry_time = 0, target_id = 0,
     execute_time = 0, job_id = 0, job_typ = 0, job_position = 0, job_control_flags = 0, server_station = 0,
     server_task = 0, server_id = 0, job_description = replicate 50 0, file_entry_time = 0,
     client_area = replicate 152 0\<rparr>"

definition new_queue_job ::
  "queue_env \<Rightarrow> NWE_QUEUE \<Rightarrow> int \<Rightarrow> int \<Rightarrow> u32 \<Rightarrow> INT_QUEUE_JOB option \<times> NWE_QUEUE" where
  "new_queue_job qe que connection task object_id =
     add_queue_job que (empty_job\<lparr>entry_time := now qe, file_entry_time := now qe,
       client_connection := connection, client_task := task, client_id := object_id, job_id := 0\<rparr>)"

fun renumber :: "int \<Rightarrow> INT_QUEUE_JOB list \<Rightarrow> INT_QUEUE_JOB list" where
  "renumber pos [] = []"
| "renumber pos (j # js) = j\<lparr>job_position := pos\<rparr> # renumber (pos + 1) js"

text \<open>Unlinking a job that is not the first: those behind it take its position and the following.\<close>

fun unlink_job :: "int \<Rightarrow> INT_QUEUE_JOB list \<Rightarrow> INT_QUEUE_JOB list option" where
  "unlink_job i [] = None"
| "unlink_job i (tmp # js) =
     (if job_id tmp = i then Some (renumber (job_position tmp) js) else map_option ((#) tmp) (unlink_job i js))"

definition free_queue_job :: "NWE_QUEUE \<Rightarrow> int \<Rightarrow> NWE_QUEUE" where
  "free_queue_job que i =
     (case queue_jobs que of
        [] \<Rightarrow> que
      | qj # js \<Rightarrow>
          if job_id qj = i
          then que\<lparr>queue_jobs := renumber 1 js, changed := changed que + 1, count_jobs := count_jobs que - 1\<rparr>
          else case unlink_job i js of
                 None \<Rightarrow> que
               | Some js' \<Rightarrow> que\<lparr>queue_jobs := qj # js', changed := changed que + 1,
                                 count_jobs := count_jobs que - 1\<rparr>)"

text \<open>Reading and writing the jobs of a queue: what is written are the structures themselves, so that
  the file is the list of the jobs.  Jobs that are read are no longer open and no longer served.\<close>

definition correct_job :: "INT_QUEUE_JOB \<Rightarrow> INT_QUEUE_JOB" where
  "correct_job qj = qj\<lparr>server_station := 0, server_id := 0, job_control_flags := job_control_flags qj AND NOT 0x20\<rparr>"

definition r_w_queue_jobs :: "queue_env \<Rightarrow> nat \<Rightarrow> NWE_QUEUE \<Rightarrow> qstate \<Rightarrow> NWE_QUEUE \<times> qstate" where
  "r_w_queue_jobs qe mode q st =
     (if changed q \<noteq> 0 \<or> mode = 0 \<or> mode = 2 then
        if mode = 0 then
          (case (if open_ok qe (q_id q) then qsaved st (q_id q) else None) of
             None \<Rightarrow> (q\<lparr>changed := 0\<rparr>, st)
           | Some js \<Rightarrow> ((fold (\<lambda>j t. snd (add_queue_job t (correct_job j))) js q)\<lparr>changed := 0\<rparr>, st))
        else (q\<lparr>changed := 0\<rparr>,
              if open_ok qe (q_id q) then st\<lparr>qsaved := (qsaved st)(q_id q := Some (queue_jobs q))\<rparr> else st)
      else (q, st))"

section \<open>Times and file names\<close>

definition set_time_field :: "queue_env \<Rightarrow> int \<Rightarrow> u8 list" where
  "set_time_field qe ptime =
     (if ptime = -1 then replicate 6 0xff
      else let s_tm = localtime qe ptime
           in [word_of_int (tm_year s_tm), word_of_int (tm_mon s_tm + 1), word_of_int (tm_mday s_tm),
               word_of_int (tm_hour s_tm), word_of_int (tm_min s_tm), word_of_int (tm_sec s_tm)])"

definition get_time_field :: "queue_env \<Rightarrow> u8 list \<Rightarrow> int" where
  "get_time_field qe timef =
     (if timef ! 0 = 0xff then -1
      else mktime qe \<lparr>tm_year = uint (timef ! 0), tm_mon = uint (timef ! 1) - 1, tm_mday = uint (timef ! 2),
                      tm_hour = uint (timef ! 3), tm_min = uint (timef ! 4), tm_sec = uint (timef ! 5)\<rparr>)"

definition job_digit :: "nat \<Rightarrow> u8" where
  "job_digit d = (if d < 10 then of_nat (48 + d) else of_nat (55 + d))"

fun job_digits :: "nat \<Rightarrow> nat \<Rightarrow> nat \<Rightarrow> cstring" where
  "job_digits base 0 n = []"
| "job_digits base (Suc w) n = job_digits base w (n div base) @ [job_digit (n mod base)]"

text \<open>\<open>%08lX.%03d\<close>: eight hexadecimal job_digits of the time, three decimal job_digits of the job id, which is
  at most 999.\<close>

definition job_name :: "INT_QUEUE_JOB \<Rightarrow> cstring" where
  "job_name jo = job_digits 16 8 (unat (word_of_int (file_entry_time jo) :: u32)) @ [46] @ job_digits 10 3 (nat (job_id jo))"

definition build_queue_file_name :: "INT_QUEUE_JOB \<Rightarrow> u8 list" where
  "build_queue_file_name jo = of_nat (length (job_name jo)) # job_name jo @ [0]"

definition build_unix_queue_file :: "NWE_QUEUE \<Rightarrow> INT_QUEUE_JOB \<Rightarrow> cstring" where
  "build_unix_queue_file q jo =
     (if queuedir_len q \<noteq> 0
      then take (queuedir_len q) (queuedir q) @ [47] @
           (if queuedir_downshift q then downstr (job_name jo) else job_name jo)
      else [])"

definition get_qj_file_size :: "qstate \<Rightarrow> NWE_QUEUE \<Rightarrow> INT_QUEUE_JOB \<Rightarrow> int" where
  "get_qj_file_size st q qj = (case qfiles st (build_unix_queue_file q qj) of None \<Rightarrow> 0 | Some n \<Rightarrow> n)"

definition remove_queue_job_file :: "queue_env \<Rightarrow> NWE_QUEUE \<Rightarrow> INT_QUEUE_JOB \<Rightarrow> qstate \<Rightarrow> int \<times> qstate" where
  "remove_queue_job_file qe q qj st =
     (let buf = build_unix_queue_file q qj
      in case qfiles st buf of
           None \<Rightarrow> (0, st)
         | Some _ \<Rightarrow> if unlink_ok qe buf then (0, st\<lparr>qfiles := (qfiles st)(buf := None)\<rparr>) else (-1, st))"

section \<open>Job entries on the wire\<close>

definition fill_q_job_entry_old ::
  "queue_env \<Rightarrow> INT_QUEUE_JOB \<Rightarrow> QUEUE_JOB_OLD \<Rightarrow> bool \<Rightarrow> int \<times> QUEUE_JOB_OLD" where
  "fill_q_job_entry_old qe jo job full =
     (let job1 = job\<lparr>qo_client_connection := word_of_int (client_connection jo),
                     qo_client_task := word_of_int (client_task jo),
                     qo_client_id := u32_to_be32 (client_id jo), qo_target_id := u32_to_be32 (target_id jo),
                     qo_target_execute_time := set_time_field qe (execute_time jo),
                     qo_job_entry_time := set_time_field qe (entry_time jo),
                     qo_job_id := u16_to_be16 (word_of_int (job_id jo)),
                     qo_job_typ := u16_to_be16 (word_of_int (job_typ jo)),
                     qo_job_position := word_of_int (job_position jo),
                     qo_job_control_flags := ucast (job_control_flags jo),
                     qo_job_file_name := build_queue_file_name jo,
                     qo_server_station := word_of_int (server_station jo),
                     qo_server_task := word_of_int (server_task jo),
                     qo_server_id := u32_to_be32 (server_id jo)\<rparr>
      in if full
         then (sizeof_QUEUE_JOB_OLD,
               job1\<lparr>qo_job_description := job_description jo, qo_client_area := client_area jo\<rparr>)
         else (54, job1))"

text \<open>\<open>nxt\<close> is \<^verbatim>\<open>jo->next\<close>.\<close>

definition fill_q_job_entry ::
  "queue_env \<Rightarrow> INT_QUEUE_JOB \<Rightarrow> INT_QUEUE_JOB option \<Rightarrow> QUEUE_JOB \<Rightarrow> bool \<Rightarrow> int \<times> QUEUE_JOB" where
  "fill_q_job_entry qe jo nxt job full =
     (let job1 = job\<lparr>qj_record_in_use := replicate 2 0xff, qj_record_previous := replicate 4 0,
                     qj_record_next := (case nxt of Some j \<Rightarrow> u32_to_32 (word_of_int (job_id j))
                                        | None \<Rightarrow> replicate 4 0),
                     qj_client_connection := u32_to_32 (word_of_int (client_connection jo)),
                     qj_client_task := u32_to_32 (word_of_int (client_task jo)),
                     qj_client_id := u32_to_be32 (client_id jo), qj_target_id := u32_to_be32 (target_id jo),
                     qj_target_execute_time := set_time_field qe (execute_time jo),
                     qj_job_entry_time := set_time_field qe (entry_time jo),
                     qj_job_id := u16_to_be16 (word_of_int (job_id jo)) @ [0, 0],
                     qj_job_typ := u16_to_be16 (word_of_int (job_typ jo)),
                     qj_job_position := u16_to_16 (word_of_int (job_position jo)),
                     qj_job_control_flags := u16_to_16 (ucast (job_control_flags jo)),
                     qj_job_file_name := build_queue_file_name jo,
                     qj_server_station := u32_to_32 (word_of_int (server_station jo)),
                     qj_server_task := u32_to_32 (word_of_int (server_task jo)),
                     qj_server_id := u32_to_be32 (server_id jo)\<rparr>
      in if full
         then (sizeof_QUEUE_JOB, job1\<lparr>qj_job_description := job_description jo, qj_client_area := client_area jo\<rparr>)
         else (78, job1))"

fun next_job :: "int \<Rightarrow> INT_QUEUE_JOB list \<Rightarrow> INT_QUEUE_JOB option" where
  "next_job i (j # k # js) = (if job_id j = i then Some k else next_job i (k # js))"
| "next_job i _ = None"

text \<open>The answer in the layout that the call uses; \<open>resp\<close> is what the buffer of the answer held.\<close>

definition fill_entry ::
  "queue_env \<Rightarrow> NWE_QUEUE \<Rightarrow> INT_QUEUE_JOB \<Rightarrow> wire_job \<Rightarrow> int \<times> wire_job" where
  "fill_entry qe que jo resp =
     (case resp of
        OldJob job \<Rightarrow> let (n, job') = fill_q_job_entry_old qe jo job True in (n, OldJob job')
      | NewJob job \<Rightarrow>
          let (n, job') = fill_q_job_entry qe jo (next_job (job_id jo) (queue_jobs que)) job True in (n, NewJob job'))"

section \<open>Requests of clients\<close>

definition nw_get_q_dirname :: "bind_env \<Rightarrow> u32 \<Rightarrow> bindery \<Rightarrow> int \<times> u8 list" where
  "nw_get_q_dirname env i b = nw_get_prop_val_str env i (cstr ''Q_DIRECTORY'') b"

definition nw_get_q_prcommand :: "bind_env \<Rightarrow> u32 \<Rightarrow> bindery \<Rightarrow> int \<times> u8 list" where
  "nw_get_q_prcommand env i b = nw_get_prop_val_str env i (cstr ''Q_UNIX_PRINT'') b"

text \<open>What a request to create a job says of it.\<close>

definition copy_request :: "queue_env \<Rightarrow> wire_job \<Rightarrow> INT_QUEUE_JOB \<Rightarrow> INT_QUEUE_JOB" where
  "copy_request qe q_job jo =
     (case q_job of
        OldJob job \<Rightarrow>
          jo\<lparr>job_description := qo_job_description job, client_area := qo_client_area job,
             target_id := get_be32 (qo_target_id job),
             execute_time := get_time_field qe (qo_target_execute_time job),
             job_typ := uint (get_be16 (qo_job_typ job)),
             job_control_flags := ucast (qo_job_control_flags job) OR 0x20\<rparr>
      | NewJob job \<Rightarrow>
          jo\<lparr>job_description := qj_job_description job, client_area := qj_client_area job,
             target_id := get_be32 (qj_target_id job),
             execute_time := get_time_field qe (qj_target_execute_time job),
             job_typ := uint (get_be16 (qj_job_typ job)),
             job_control_flags := ucast (get_16 (qj_job_control_flags job)) OR 0x20\<rparr>)"

text \<open>The answer is the entry, a length byte and the name of the queue's directory.\<close>

definition nw_creat_queue_job ::
  "queue_env \<Rightarrow> bind_env \<Rightarrow> bindery \<Rightarrow> int \<Rightarrow> int \<Rightarrow> u32 \<Rightarrow> u32 \<Rightarrow> wire_job \<Rightarrow> wire_job \<Rightarrow> qstate \<Rightarrow>
     int \<times> (wire_job \<times> u8 list) option \<times> qstate" where
  "nw_creat_queue_job qe env b connection task object_id qid q_job resp st =
     (let (result, dirname) = nw_get_q_dirname env qid b
      in case find_queue st qid of
           None \<Rightarrow> (-0xd3, None, st)
         | Some que \<Rightarrow>
             if result > 0 then
               (case new_queue_job qe que connection task object_id of
                  (None, que1) \<Rightarrow> (-0xd4, None, put_queue que1 st)
                | (Some jo, que1) \<Rightarrow>
                    let jo1 = copy_request qe q_job jo; que2 = put_job jo1 que1;
                        (n, answer) = fill_entry qe que2 jo1 resp
                    in (result + 1 + n, Some (answer, word_of_int result # take (nat result) dirname),
                        put_queue que2 st))
             else (-0xd3, None, st))"

definition clear_open :: "INT_QUEUE_JOB \<Rightarrow> INT_QUEUE_JOB" where
  "clear_open jo = jo\<lparr>job_control_flags := job_control_flags jo AND NOT 0x20\<rparr>"

text \<open>The byte \<^verbatim>\<open>print_flags[1]\<close> is number 5 of the print area.\<close>

definition nw_close_queue_job ::
  "bind_env \<Rightarrow> bindery \<Rightarrow> u32 \<Rightarrow> int \<Rightarrow> qstate \<Rightarrow> int \<times> u8 list \<times> qstate" where
  "nw_close_queue_job env b qid i st =
     (case find_queue st qid of
        None \<Rightarrow> (-0xd8, [], st)
      | Some que \<Rightarrow>
          (case find_queue_job que i of
             None \<Rightarrow> (-0xff, [], st)
           | Some jo \<Rightarrow>
               let area = (if entry18_flags st AND 1 \<noteq> 0
                           then (client_area jo)[5 := client_area jo ! 5 AND NOT 0x80] else client_area jo);
                   que1 = put_job (clear_open (jo\<lparr>client_area := area\<rparr>)) que;
                   (n, command) = nw_get_q_prcommand env qid b
               in if n > -1
                  then (152 + n + 1, area @ word_of_int n # take (nat n) command,
                        put_queue (free_queue_job que1 i) st)
                  else (152 + 1, area @ [0], put_queue que1 st)))"

definition nw_get_queue_status :: "qstate \<Rightarrow> u32 \<Rightarrow> int + (u32 \<times> int \<times> (u32 \<times> int) list)" where
  "nw_get_queue_status st qid =
     (case find_queue st qid of
        None \<Rightarrow> Inl (-0xff)
      | Some q \<Rightarrow> Inr (q_status q, count_jobs q,
          (case qserver q of Some s \<Rightarrow> [(qs_user_id s, qs_connection s)] | None \<Rightarrow> [])))"

definition nw_set_queue_status :: "u32 \<Rightarrow> u32 \<Rightarrow> qstate \<Rightarrow> int \<times> qstate" where
  "nw_set_queue_status qid status st =
     (case find_queue st qid of
        None \<Rightarrow> (-0xd3, st)
      | Some q \<Rightarrow> (0, put_queue (q\<lparr>q_status := status\<rparr>) st))"

definition nw_get_q_job_entry ::
  "queue_env \<Rightarrow> qstate \<Rightarrow> u32 \<Rightarrow> int \<Rightarrow> u32 \<Rightarrow> wire_job \<Rightarrow> int \<times> wire_job" where
  "nw_get_q_job_entry qe st qid i fhandle resp =
     (case find_queue st qid of
        None \<Rightarrow> (-0xd5, resp)
      | Some q \<Rightarrow>
          (case find_queue_job q i of
             None \<Rightarrow> (-0xd5, resp)
           | Some qj \<Rightarrow>
               (case fill_entry qe q qj resp of
                  (n, OldJob job) \<Rightarrow> (n, OldJob (job\<lparr>qo_job_file_handle := u16_to_be16 0 @ u32_to_32 fhandle\<rparr>))
                | (n, NewJob job) \<Rightarrow> (n, NewJob (job\<lparr>qj_job_file_handle := u32_to_32 fhandle\<rparr>)))))"

definition nw_get_queue_job_list_old :: "qstate \<Rightarrow> u32 \<Rightarrow> int \<times> u8 list" where
  "nw_get_queue_job_list_old st qid =
     (case find_queue st qid of
        None \<Rightarrow> (-0xff, [])
      | Some q \<Rightarrow>
          let js = take 255 (queue_jobs q); count = length js
          in (2 + int count * 2,
              u16_to_be16 (of_nat count) @ concat (map (\<lambda>qj. u16_to_be16 (word_of_int (job_id qj))) js)))"

definition nw_get_queue_job_list :: "qstate \<Rightarrow> u32 \<Rightarrow> u32 \<Rightarrow> int \<times> u8 list" where
  "nw_get_queue_job_list st qid offset =
     (case find_queue st qid of
        None \<Rightarrow> (-0xff, [])
      | Some q \<Rightarrow>
          let from = (if offset = 0xffffffff then 0 else unat offset);
              js = take 125 (drop from (queue_jobs q)); fullcount = length (queue_jobs q); count = length js
          in (8 + int count * 4,
              u32_to_32 (of_nat fullcount) @ u32_to_32 (of_nat count) @
              concat (map (\<lambda>qj. u16_to_be16 (word_of_int (job_id qj)) @ [0, 0]) js)))"

definition nw_get_queue_job_file_size :: "qstate \<Rightarrow> u32 \<Rightarrow> int \<Rightarrow> int" where
  "nw_get_queue_job_file_size st qid i =
     (case find_queue st qid of
        None \<Rightarrow> -0xd5
      | Some q \<Rightarrow> (case find_queue_job q i of None \<Rightarrow> -0xd5 | Some qj \<Rightarrow> get_qj_file_size st q qj))"

definition nw_change_queue_job_entry :: "u32 \<Rightarrow> u8 list \<Rightarrow> int" where
  "nw_change_queue_job_entry qid qjstruct = -0xfb"

definition nw_remove_job_from_queue :: "queue_env \<Rightarrow> u32 \<Rightarrow> u32 \<Rightarrow> int \<Rightarrow> qstate \<Rightarrow> int \<times> qstate" where
  "nw_remove_job_from_queue qe user_id qid i st =
     (case find_queue st qid of
        None \<Rightarrow> (-0xff, st)
      | Some q \<Rightarrow>
          (case find_queue_job q i of
             None \<Rightarrow> (-0xff, st)
           | Some qj \<Rightarrow>
               if user_id = 1 \<or> user_id = client_id qj then
                 let (result, st1) = remove_queue_job_file qe q qj st
                 in if result = 0 then (0, put_queue (free_queue_job q i) st1) else (-0xd6, st1)
               else (-0xd6, st)))"

section \<open>Jobs of a connection that ends\<close>

fun replace1 :: "'a \<Rightarrow> 'a \<Rightarrow> 'a list \<Rightarrow> 'a list" where
  "replace1 x y [] = []"
| "replace1 x y (z # zs) = (if z = x then y # zs else z # replace1 x y zs)"

text \<open>A change through the pointer \<open>qj\<close> into the chain of jobs.\<close>

definition change_job :: "INT_QUEUE_JOB \<Rightarrow> INT_QUEUE_JOB \<Rightarrow> NWE_QUEUE \<Rightarrow> NWE_QUEUE" where
  "change_job qj qj' q = q\<lparr>queue_jobs := replace1 qj qj' (queue_jobs q)\<rparr>"

definition pending :: "int \<Rightarrow> int \<Rightarrow> INT_QUEUE_JOB \<Rightarrow> bool" where
  "pending connection task qj =
     (client_connection qj = connection \<and> (client_task qj = task \<or> task = -1) \<and>
      job_control_flags qj AND 0x20 \<noteq> 0)"

lemma length_renumber [simp]: "length (renumber pos js) = length js"
  by (induction js arbitrary: pos) auto

lemma length_unlink_job: "unlink_job i js = Some ks \<Longrightarrow> length js = Suc (length ks)"
  by (induction js arbitrary: ks) (auto split: if_splits)

lemma unlink_job_None: "unlink_job i js = None \<longleftrightarrow> i \<notin> job_id ` set js"
  by (induction js) auto

lemma length_free_queue_job:
  "i \<in> job_id ` set (queue_jobs q) \<Longrightarrow> Suc (length (queue_jobs (free_queue_job q i))) = length (queue_jobs q)"
  by (auto simp: free_queue_job_def unlink_job_None dest: length_unlink_job split: list.splits option.splits)

definition open_jobs :: "NWE_QUEUE \<Rightarrow> nat" where
  "open_jobs q = length (filter (\<lambda>qj. job_control_flags qj AND 0x20 \<noteq> 0) (queue_jobs q))"

lemma filter_renumber:
  "(\<And>j p. P (j\<lparr>job_position := p\<rparr>) = P j) \<Longrightarrow> length (filter P (renumber pos js)) = length (filter P js)"
  by (induction js arbitrary: pos) auto

lemma filter_unlink_job:
  "(\<And>j p. P (j\<lparr>job_position := p\<rparr>) = P j) \<Longrightarrow> unlink_job i js = Some ks \<Longrightarrow>
     length (filter P ks) \<le> length (filter P js)"
  by (induction js arbitrary: ks) (force simp: filter_renumber split: if_splits)+

lemma open_jobs_free: "open_jobs (free_queue_job q i) \<le> open_jobs q"
  unfolding open_jobs_def free_queue_job_def
  by (auto simp: filter_renumber split: list.splits option.splits
      dest!: filter_unlink_job [where P = "\<lambda>qj. job_control_flags qj AND 0x20 \<noteq> 0", rotated])

lemma length_replace1 [simp]: "length (replace1 x y zs) = length zs"
  by (induction zs) auto

lemma filter_replace1:
  "x \<in> set zs \<Longrightarrow> P x \<Longrightarrow> \<not> P y \<Longrightarrow> Suc (length (filter P (replace1 x y zs))) = length (filter P zs)"
  by (induction zs) auto

lemma clear_open_closed [simp]: "job_control_flags (clear_open qj) AND 0x20 = 0"
  by (simp add: clear_open_def and.assoc)

lemma find_Some_D: "find P xs = Some x \<Longrightarrow> x \<in> set xs \<and> P x"
  by (auto simp: find_Some_iff)

text \<open>After each job that is marked or removed the loop starts again at the first job.\<close>

function close_jobs :: "queue_env \<Rightarrow> int \<Rightarrow> int \<Rightarrow> NWE_QUEUE \<Rightarrow> qstate \<Rightarrow> NWE_QUEUE \<times> qstate" where
  "close_jobs qe connection task q st =
     (case find (pending connection task) (queue_jobs q) of
        None \<Rightarrow> (q, st)
      | Some qj \<Rightarrow>
          if get_qj_file_size st q qj > 0
          then close_jobs qe connection task (change_job qj (clear_open qj) q) st
          else close_jobs qe connection task (free_queue_job q (job_id qj))
                 (snd (remove_queue_job_file qe q qj st)))"
  by pat_completeness auto
termination
proof (relation "measure (\<lambda>(qe, c, t, q, st). length (queue_jobs q) + open_jobs q)")
  fix qe :: queue_env and connection task :: int and q :: NWE_QUEUE and st :: qstate and qj :: INT_QUEUE_JOB
  assume *: "find (pending connection task) (queue_jobs q) = Some qj"
  then have qj: "qj \<in> set (queue_jobs q)" "job_control_flags qj AND 0x20 \<noteq> 0"
    by (auto dest!: find_Some_D simp: pending_def)
  show "((qe, connection, task, change_job qj (clear_open qj) q, st), (qe, connection, task, q, st))
      \<in> measure (\<lambda>(qe, c, t, q, st). length (queue_jobs q) + open_jobs q)"
    using filter_replace1 [of qj "queue_jobs q" "\<lambda>qj. job_control_flags qj AND 0x20 \<noteq> 0" "clear_open qj"] qj
    by (simp add: change_job_def open_jobs_def)
  show "((qe, connection, task, free_queue_job q (job_id qj), snd (remove_queue_job_file qe q qj st)),
      (qe, connection, task, q, st)) \<in> measure (\<lambda>(qe, c, t, q, st). length (queue_jobs q) + open_jobs q)"
    using length_free_queue_job [of "job_id qj" q] open_jobs_free [of q "job_id qj"] qj by simp
qed simp

declare close_jobs.simps [simp del]

fun close_queues :: "queue_env \<Rightarrow> int \<Rightarrow> int \<Rightarrow> NWE_QUEUE list \<Rightarrow> qstate \<Rightarrow> NWE_QUEUE list \<times> qstate" where
  "close_queues qe connection task [] st = ([], st)"
| "close_queues qe connection task (q # qs) st =
     (let (q', st1) = close_jobs qe connection task q st; (qs', st2) = close_queues qe connection task qs st1
      in (q' # qs', st2))"

definition nw_close_connection_jobs :: "queue_env \<Rightarrow> int \<Rightarrow> int \<Rightarrow> qstate \<Rightarrow> qstate" where
  "nw_close_connection_jobs qe connection task st =
     (let (qs, st1) = close_queues qe connection task (nwe_queues st) st in st1\<lparr>nwe_queues := qs\<rparr>)"

section \<open>Queue servers\<close>

definition nw_attach_server_to_queue ::
  "bind_env \<Rightarrow> bindery \<Rightarrow> u32 \<Rightarrow> int \<Rightarrow> u32 \<Rightarrow> qstate \<Rightarrow> int \<times> qstate" where
  "nw_attach_server_to_queue env b user_id connection qid st =
     (case find_queue st qid of
        None \<Rightarrow> (-0xff, st)
      | Some q \<Rightarrow>
          let result = nw_is_member_in_set env qid (cstr ''Q_SERVERS'') user_id b
          in if result = 0
             then (0, put_queue (q\<lparr>qserver := Some \<lparr>qs_connection = connection, qs_user_id = user_id,
                                   status_record = replicate 64 0\<rparr>\<rparr>) st)
             else (result, st))"

definition is_qserver :: "NWE_QUEUE \<Rightarrow> u32 \<Rightarrow> int \<Rightarrow> bool" where
  "is_qserver q user_id connection =
     (case qserver q of None \<Rightarrow> False | Some s \<Rightarrow> qs_user_id s = user_id \<and> qs_connection s = connection)"

definition nw_detach_server_from_queue :: "u32 \<Rightarrow> int \<Rightarrow> u32 \<Rightarrow> qstate \<Rightarrow> int \<times> qstate" where
  "nw_detach_server_from_queue user_id connection qid st =
     (case find_queue st qid of
        None \<Rightarrow> (-0xff, st)
      | Some q \<Rightarrow> if is_qserver q user_id connection then (0, put_queue (q\<lparr>qserver := None\<rparr>) st) else (-0xff, st))"

definition servable :: "queue_env \<Rightarrow> u32 \<Rightarrow> int \<Rightarrow> INT_QUEUE_JOB \<Rightarrow> bool" where
  "servable qe user_id jtyp qj =
     (server_id qj = 0 \<and> job_control_flags qj AND 0x20 = 0 \<and> execute_time qj \<le> now qe \<and>
      (target_id qj = 0xffffffff \<or> target_id qj = user_id) \<and>
      (job_typ qj = 0xffff \<or> jtyp = 0xffff \<or> job_typ qj = jtyp))"

text \<open>The search for a job: an empty one is skipped, and after a minute removed; then the search
  starts again.\<close>

function pick_job ::
  "queue_env \<Rightarrow> u32 \<Rightarrow> int \<Rightarrow> NWE_QUEUE \<Rightarrow> qstate \<Rightarrow> INT_QUEUE_JOB option \<times> NWE_QUEUE \<times> qstate" where
  "pick_job qe user_id jtyp q st =
     (case find (\<lambda>qj. servable qe user_id jtyp qj \<and> (get_qj_file_size st q qj > 0 \<or> now qe - entry_time qj > 60))
             (queue_jobs q) of
        None \<Rightarrow> (None, q, st)
      | Some qj \<Rightarrow>
          if get_qj_file_size st q qj > 0 then (Some qj, q, st)
          else pick_job qe user_id jtyp (free_queue_job q (job_id qj)) (snd (remove_queue_job_file qe q qj st)))"
  by pat_completeness auto
termination
proof (relation "measure (\<lambda>(qe, u, t, q, st). length (queue_jobs q))", goal_cases)
  case (2 qe user_id jtyp q st qj)
  then have "job_id qj \<in> job_id ` set (queue_jobs q)" by (auto dest!: find_Some_D)
  from length_free_queue_job [OF this] show ?case by simp
qed simp

declare pick_job.simps [simp del]

definition nw_service_queue_job ::
  "queue_env \<Rightarrow> bind_env \<Rightarrow> bindery \<Rightarrow> u32 \<Rightarrow> int \<Rightarrow> int \<Rightarrow> u32 \<Rightarrow> int \<Rightarrow> wire_job \<Rightarrow> qstate \<Rightarrow>
     int \<times> (wire_job \<times> u8 list) option \<times> qstate" where
  "nw_service_queue_job qe env b user_id connection task qid jtyp resp st =
     (case find_queue st qid of
        None \<Rightarrow> (-0xd5, None, st)
      | Some q \<Rightarrow>
          if is_qserver q user_id connection \<and> q_status q AND 4 = 0 then
            (let (len, dirname) = nw_get_q_dirname env qid b
             in if len > 0 then
                  (case pick_job qe user_id jtyp q st of
                     (None, q1, st1) \<Rightarrow> (-0xd5, None, put_queue q1 st1)
                   | (Some fqj, q1, st1) \<Rightarrow>
                       let fqj1 = fqj\<lparr>server_id := user_id, server_station := connection, server_task := task\<rparr>;
                           q2 = change_job fqj fqj1 q1; (n, answer) = fill_entry qe q2 fqj1 resp
                       in (n + len + 1, Some (answer, word_of_int len # take (nat len) dirname),
                           put_queue q2 st1))
                else (-0xd5, None, st))
          else (-0xd5, None, st))"

text \<open>\<open>mode\<close> 0 is finish, another abort.\<close>

definition nw_finish_abort_queue_job ::
  "queue_env \<Rightarrow> nat \<Rightarrow> u32 \<Rightarrow> int \<Rightarrow> u32 \<Rightarrow> int \<Rightarrow> qstate \<Rightarrow> int \<times> qstate" where
  "nw_finish_abort_queue_job qe mode user_id connection qid i st =
     (case find_queue st qid of
        None \<Rightarrow> (-0xd8, st)
      | Some que \<Rightarrow>
          (case find_queue_job que i of
             None \<Rightarrow> (-0xff, st)
           | Some jo \<Rightarrow>
               if server_id jo = user_id \<and> server_station jo = connection then
                 if mode \<noteq> 0 \<and> job_control_flags jo AND 0x10 \<noteq> 0
                 then (0, put_queue (put_job (jo\<lparr>server_id := 0, server_station := 0\<rparr>) que) st)
                 else let (r, st1) = remove_queue_job_file qe que jo st
                      in if r = 0 then (0, put_queue (free_queue_job que i) st1) else (-0xd6, st1)
               else (-0xff, st)))"

section \<open>Making, reading and removing queues\<close>

definition mk_dir :: "queue_dir \<Rightarrow> nat \<Rightarrow> qstate \<Rightarrow> qstate" where
  "mk_dir d mode st = st\<lparr>qdirs := qdirs st @ [Mkdir d mode]\<rparr>"

text \<open>\<^verbatim>\<open>nwdbm_rmdir\<close> unlinks what is in the directory first.\<close>

definition rm_dir :: "queue_env \<Rightarrow> queue_dir \<Rightarrow> qstate \<Rightarrow> qstate" where
  "rm_dir qe d st =
     (let st1 = st\<lparr>qdirs := qdirs st @ [Rmdir d]\<rparr>
      in case d of
           DivPath i \<Rightarrow> st1\<lparr>qsaved := (qsaved st)(i := None)\<rparr>
         | UnixPath p \<Rightarrow>
             st1\<lparr>qfiles := (\<lambda>f. if take (length p + 1) f = p @ [47] \<and> 47 \<notin> set (drop (length p + 1) f) \<and> unlink_ok qe f
                               then None else qfiles st f)\<rparr>)"

text \<open>The directory of a queue: that of its volume, if that is the volume SYS, and the rest of the path.
  In all other cases only the start of the buffer is written, and behind it stands what was there.\<close>

definition build_unix_queue_dir :: "queue_env \<Rightarrow> bind_env \<Rightarrow> bindery \<Rightarrow> u32 \<Rightarrow> int \<times> cstring" where
  "build_unix_queue_dir qe env b qid =
     (let (result, value) = nw_get_q_dirname env qid b; buf1 = upstr (take (nat result) value);
          vol = takeWhile (\<lambda>c. c \<noteq> 58) buf1; p = drop (length vol + 1) buf1; n = length (sys_unixname qe)
      in if result > -1 \<and> 58 \<in> set buf1 then
           let result1 = result - int (length vol + 1)
           in if vol = sys_sysname qe then
                let buf = sys_unixname qe @ take (nat result1) p;
                    buf' = (if buf \<noteq> [] \<and> last buf = 47 then butlast buf else buf)
                in (int (length buf'), take n buf' @ (if sys_downshift qe then downstr (drop n buf') else drop n buf'))
              else (result1, sys_unixname qe @ stack qe)
         else (result, sys_unixname qe @ stack qe))"

definition exit_queues :: "queue_env \<Rightarrow> qstate \<Rightarrow> qstate" where
  "exit_queues qe st = (fold (\<lambda>q t. snd (r_w_queue_jobs qe 2 q t)) (nwe_queues st) st)\<lparr>nwe_queues := []\<rparr>"

text \<open>A queue that enters the chain, with the jobs of its file.\<close>

definition enter_queue :: "queue_env \<Rightarrow> u32 \<Rightarrow> int \<times> cstring \<Rightarrow> qstate \<Rightarrow> qstate" where
  "enter_queue qe i d st =
     (let (q, st1) = r_w_queue_jobs qe 0 ((new_queue i)\<lparr>queuedir := snd d, queuedir_len := nat (fst d),
                       queuedir_downshift := sys_downshift qe\<rparr>) st
      in st1\<lparr>nwe_queues := nwe_queues st1 @ [q]\<rparr>)"

definition nw_creat_queue ::
  "queue_env \<Rightarrow> bind_env \<Rightarrow> int \<Rightarrow> cstring \<Rightarrow> nat \<Rightarrow> cstring \<Rightarrow> nat \<Rightarrow> bindery \<Rightarrow> qstate \<Rightarrow>
     int \<times> u32 option \<times> bindery \<times> qstate" where
  "nw_creat_queue qe env q_typ q_name q_name_len path path_len b st =
     (if q_typ \<noteq> 3 then (-0xfb, None, b, st)
      else let (result, ob, b1) = nw_create_obj env
                 \<lparr>o_id = 0, o_name = strmaxcpy q_name (min 47 q_name_len), o_type = word_of_int q_typ, o_flags = 0,
                  o_security = 0x31\<rparr> 0 b
           in if result \<noteq> 0 then (result, None, b1, st)
              else let i = o_id ob;
                       q_directory = (if path_len \<noteq> 0 \<and> path_len < 230 then upstr (take path_len path)
                                      else cstr ''SYS:SYSTEM'') @ [47] @ job_digits 16 8 (unat i) @ cstr ''.QDR'';
                       item = (\<lambda>t. snd (nw_new_obj_prop env i [] 0 0 0 (cstr ''Q_DIRECTORY'') 0 0x31 q_directory
                                     (length q_directory) True t));
                       set_of = (\<lambda>n t. snd (nw_new_obj_prop env i [] 0 0 0 (cstr n) 2 0x31 [] 0 False t));
                       b2 = set_of ''Q_SERVERS'' (set_of ''Q_OPERATORS'' (set_of ''Q_USERS'' (item b1)));
                       st1 = mk_dir (DivPath i) 448 st; d = build_unix_queue_dir qe env b2 i
                   in if fst d > 0 then (0, Some i, b2, enter_queue qe i d (mk_dir (UnixPath (snd d)) 509 st1))
                      else (-1, Some i, b2, st1))"

definition nw_destroy_queue ::
  "queue_env \<Rightarrow> bind_env \<Rightarrow> u32 \<Rightarrow> bindery \<Rightarrow> qstate \<Rightarrow> int \<times> bindery \<times> qstate" where
  "nw_destroy_queue qe env qid b st =
     (case nw_get_obj env qid b of
        Inl e \<Rightarrow> (e, b, st)
      | Inr ob \<Rightarrow>
          if o_type ob = 3 then
            let st1 = rm_dir qe (DivPath qid) st; (result, buf) = build_unix_queue_dir qe env b qid
            in if result > 0 then
                 let st2 = (case find_queue st1 qid of
                              None \<Rightarrow> st1
                            | Some q \<Rightarrow> st1\<lparr>nwe_queues := free_queue qid (nwe_queues st1)\<rparr>)
                 in (0, snd (snd (nw_delete_obj env ob b)), rm_dir qe (UnixPath buf) st2)
               else (-0xd3, b, st1)
          else (-0xd3, b, st))"

text \<open>The body of the loop in \<^verbatim>\<open>init_queues\<close>, and the loop over the objects of type 3: each scan goes
  on behind the object found last.  There are at most as many as objects, and one more scan that finds
  nothing.\<close>

definition init_queue :: "queue_env \<Rightarrow> bind_env \<Rightarrow> bindery \<Rightarrow> NETOBJ \<Rightarrow> qstate \<Rightarrow> qstate" where
  "init_queue qe env b x st =
     (let st1 = mk_dir (DivPath (o_id x)) 448 st; d = build_unix_queue_dir qe env b (o_id x)
      in if fst d > 0 then enter_queue qe (o_id x) d st1 else st1)"

fun init_loop :: "nat \<Rightarrow> queue_env \<Rightarrow> bind_env \<Rightarrow> bindery \<Rightarrow> u32 \<Rightarrow> qstate \<Rightarrow> qstate" where
  "init_loop 0 qe env b last_obj_id st = st"
| "init_loop (Suc n) qe env b last_obj_id st =
     (let (result, x) = scan_for_obj env \<lparr>o_id = 0, o_name = [42], o_type = 3, o_flags = 0, o_security = 0\<rparr>
                          last_obj_id True b
      in if result \<noteq> 0 then st else init_loop n qe env b (o_id x) (init_queue qe env b x st))"

definition init_queues :: "queue_env \<Rightarrow> bind_env \<Rightarrow> bindery \<Rightarrow> u32 \<Rightarrow> qstate \<Rightarrow> qstate" where
  "init_queues qe env b flags st =
     init_loop (Suc (length (objs b))) qe env b 0xffffffff (exit_queues qe (st\<lparr>entry18_flags := flags\<rparr>))"

end
