(* ===== verification/QueueLaws.thy ===== *)
theory QueueLaws
  imports Nwqueue
begin

text \<open>What the print queues of \<^verbatim>\<open>src/nwqueue.c\<close> guarantee: the search of a free job id is
  complete; a queue is sound (\<open>queue_ok\<close>) and stays so in every run (\<open>queue_step\<close>); a ready job is
  served; a served job stays with its queue server; the end of a connection closes its own jobs; a restart
  brings the jobs back; a new job is appended and the lists of jobs are complete.  At the end stands a concrete
  queue for the instances of the theorems.\<close>

section \<open>The search of a free job id\<close>

lemma next_id_pow:
  "1 \<le> v \<Longrightarrow> v \<le> 999 \<Longrightarrow> (next_id ^^ m) v = (v - 1 + int m) mod 999 + 1"
proof (induction m)
  case (Suc m)
  have "next_id ((v - 1 + int m) mod 999 + 1) = (v - 1 + int m + 1) mod 999 + 1"
  proof -
    let ?r = "(v - 1 + int m) mod 999"
    have "(v - 1 + int m + 1) mod 999 = (?r + 1) mod 999" by (simp add: mod_add_left_eq)
    moreover have "0 \<le> ?r" "?r < 999" by simp_all
    ultimately show ?thesis by (cases "?r = 998") (auto simp: next_id_def)
  qed
  then show ?case using Suc by (simp add: algebra_simps)
qed simp

lemma next_id_range: "0 \<le> i \<Longrightarrow> 1 \<le> next_id i \<and> next_id i \<le> 999"
  by (simp add: next_id_def)

lemma search_id_Some:
  "search_id n v used i = Some k \<Longrightarrow> 0 \<le> i \<Longrightarrow> k \<notin> set used \<and> 1 \<le> k \<and> k \<le> 999"
proof (induction n arbitrary: i)
  case (Suc n)
  then show ?case using next_id_range [of i] by (auto simp: Let_def split: if_splits)
qed simp

lemma search_id_None:
  "search_id n v used i = None \<Longrightarrow> 1 \<le> m \<Longrightarrow> m \<le> n \<Longrightarrow>
     (\<And>l. 1 \<le> l \<Longrightarrow> l \<le> m \<Longrightarrow> (next_id ^^ l) i \<noteq> v) \<Longrightarrow> (next_id ^^ m) i \<in> set used"
proof (induction n arbitrary: i m)
  case (Suc n)
  have "next_id i \<noteq> v" using Suc.prems(2) Suc.prems(4) [of 1] by simp
  with Suc.prems(1) have in_used: "next_id i \<in> set used" and rest: "search_id n v used (next_id i) = None"
    by (auto simp: Let_def split: if_splits)
  obtain m' where m: "m = Suc m'" using Suc.prems(2) by (cases m) auto
  show ?case
  proof (cases "m' = 0")
    case False
    have "(next_id ^^ m') (next_id i) \<in> set used"
      using Suc.prems(3) Suc.prems(4) [of "Suc _"] m False
      by (intro Suc.IH [OF rest]) (simp_all add: funpow_swap1)
    then show ?thesis using m by (simp add: funpow_swap1)
  qed (use in_used m in simp)
qed simp

lemma search_id_full:
  assumes v: "1 \<le> v" "v \<le> 999" and None: "search_id 999 v used v = None"
  shows "{1..999} - {v} \<subseteq> set used"
proof
  fix k assume k: "k \<in> {1..999} - {v}"
  define m where "m = nat ((k - v) mod 999)"
  have "(k - v) mod 999 \<noteq> 0"
  proof
    assume "(k - v) mod 999 = 0"
    then obtain t where "k - v = 999 * t" by (auto elim: dvdE)
    then show False using k v by (cases "t < 0"; cases "t = 0") auto
  qed
  moreover have r: "0 \<le> (k - v) mod 999" "(k - v) mod 999 < 999" by simp_all
  ultimately have m: "1 \<le> m" "m \<le> 998" unfolding m_def by linarith+
  have "(next_id ^^ l) v \<noteq> v" if "1 \<le> l" "l \<le> m" for l
  proof
    assume "(next_id ^^ l) v = v"
    then have "(v - 1 + int l) mod 999 = (v - 1) mod 999" using v by (simp add: next_id_pow)
    then have "999 dvd int l" by (simp add: mod_eq_dvd_iff)
    then show False using that m by (auto dest: zdvd_imp_le)
  qed
  then have "(next_id ^^ m) v \<in> set used" using m by (intro search_id_None [OF None]) auto
  moreover have "(next_id ^^ m) v = k"
  proof -
    have "(v - 1 + int m) mod 999 = (v - 1 + (k - v)) mod 999" using r unfolding m_def by (simp add: mod_add_right_eq)
    then show ?thesis using k v by (simp add: next_id_pow)
  qed
  ultimately show "k \<in> set used" by simp
qed

lemma search_id_succeeds:
  assumes v: "1 \<le> v" "v \<le> 999" and few: "length used < 998"
  shows "search_id 999 v used v \<noteq> None"
proof
  assume "search_id 999 v used v = None"
  from search_id_full [OF v this] have "card ({1..999} - {v}) \<le> card (set used)" by (intro card_mono) auto
  moreover have "card ({1..999} - {v}) = 998" using v by simp
  ultimately show False using few card_length [of used] by linarith
qed

section \<open>Soundness of a queue\<close>

definition job_ok :: "INT_QUEUE_JOB \<Rightarrow> bool" where
  "job_ok j = (1 \<le> job_id j \<and> job_id j \<le> 999 \<and> (server_id j \<noteq> 0 \<longrightarrow> job_control_flags j AND 0x20 = 0))"

definition jobs_ok :: "INT_QUEUE_JOB list \<Rightarrow> bool" where
  "jobs_ok js = (distinct (map job_id js) \<and> list_all job_ok js)"

definition queue_ok :: "NWE_QUEUE \<Rightarrow> bool" where
  "queue_ok q =
     (jobs_ok (queue_jobs q) \<and> map job_position (queue_jobs q) = map int [1..<length (queue_jobs q) + 1] \<and>
      count_jobs q = int (length (queue_jobs q)) \<and> 0 \<le> last_job_id q \<and> last_job_id q \<le> 999 \<and>
      (queue_jobs q \<noteq> [] \<longrightarrow> last_job_id q \<noteq> 0))"

definition qstate_ok :: "qstate \<Rightarrow> bool" where
  "qstate_ok st = (list_all queue_ok (nwe_queues st) \<and> (\<forall>i js. qsaved st i = Some js \<longrightarrow> jobs_ok js))"

lemma jobs_ok_simps [simp]:
  "jobs_ok []"
  "jobs_ok (j # js) \<longleftrightarrow> job_ok j \<and> job_id j \<notin> job_id ` set js \<and> jobs_ok js"
  "jobs_ok (js @ [j]) \<longleftrightarrow> job_ok j \<and> job_id j \<notin> job_id ` set js \<and> jobs_ok js"
  by (auto simp: jobs_ok_def)

lemma job_ok_position [simp]: "job_ok (j\<lparr>job_position := p\<rparr>) = job_ok j"
  by (simp add: job_ok_def)

lemma link_job_ok:
  assumes q: "queue_ok q" and i: "1 \<le> i" "i \<le> 999" and pos: "pos = int (length (queue_jobs q)) + 1"
    and p: "job_ok (p\<lparr>job_id := if job_id p = 0 then i else job_id p\<rparr>)"
      "(if job_id p = 0 then i else job_id p) \<notin> job_id ` set (queue_jobs q)"
  shows "queue_ok (snd (link_job q i pos p))"
  using assms by (simp add: queue_ok_def link_job_def Let_def job_ok_def)

lemma last_position: "queue_ok q \<Longrightarrow> queue_jobs q \<noteq> [] \<Longrightarrow> job_position (last (queue_jobs q)) = int (length (queue_jobs q))"
proof -
  assume "queue_ok q" "queue_jobs q \<noteq> []"
  then have "map job_position (queue_jobs q) = map int [1..<length (queue_jobs q) + 1]" by (simp add: queue_ok_def)
  then have "last (map job_position (queue_jobs q)) = last (map int [1..<length (queue_jobs q) + 1])" by simp
  then show ?thesis using \<open>queue_jobs q \<noteq> []\<close> by (simp add: last_map Suc_le_eq)
qed

text \<open>Either the queue takes the job at its end under an id of its own, or all the other ids are in use.\<close>

lemma add_queue_job_cases:
  assumes q: "queue_ok q"
  obtains (full) v where "add_queue_job q p = (None, q\<lparr>last_job_id := v\<rparr>)" "v = last_job_id q" "1 \<le> v" "v \<le> 999"
      "{1..999} - {v} \<subseteq> job_id ` set (queue_jobs q)" "998 \<le> length (queue_jobs q)"
    | (linked) i where "add_queue_job q p = link_job q i (int (length (queue_jobs q)) + 1) p" "1 \<le> i" "i \<le> 999"
      "i \<notin> job_id ` set (queue_jobs q)"
proof (cases "queue_jobs q = []")
  case True
  with q show thesis using next_id_range [of "last_job_id q"]
    by (intro linked [of "next_id (last_job_id q)"]) (auto simp: add_queue_job_def queue_ok_def)
next
  case False
  with q have v: "1 \<le> last_job_id q" "last_job_id q \<le> 999" "last_job_id q \<noteq> 0" by (auto simp: queue_ok_def)
  let ?s = "search_id 999 (last_job_id q) (map job_id (queue_jobs q)) (last_job_id q)"
  show thesis
  proof (cases ?s)
    case None
    moreover have "998 \<le> length (queue_jobs q)"
      using search_id_succeeds [OF v(1,2), of "map job_id (queue_jobs q)"] None by (intro leI) auto
    ultimately show thesis using search_id_full [OF v(1,2) None] False v
      by (intro full [of "last_job_id q"]) (auto simp: add_queue_job_def)
  next
    case (Some i)
    from search_id_Some [OF this] v False Some
    show thesis by (intro linked [of i]) (auto simp: add_queue_job_def last_position [OF q])
  qed
qed

lemma add_queue_job_ok:
  assumes q: "queue_ok q" and p: "job_ok p \<and> job_id p \<notin> job_id ` set (queue_jobs q) \<or>
      job_id p = 0 \<and> job_ok (p\<lparr>job_id := 1\<rparr>)"
  shows "queue_ok (snd (add_queue_job q p))"
proof (rule add_queue_job_cases [OF q, of p])
  fix v assume "add_queue_job q p = (None, q\<lparr>last_job_id := v\<rparr>)" "v = last_job_id q"
  then show ?thesis using q by simp
next
  fix i assume *: "add_queue_job q p = link_job q i (int (length (queue_jobs q)) + 1) p" "1 \<le> i" "i \<le> 999"
    "i \<notin> job_id ` set (queue_jobs q)"
  have "queue_ok (snd (link_job q i (int (length (queue_jobs q)) + 1) p))"
    using p * by (intro link_job_ok [OF q]) (auto simp: job_ok_def)
  then show ?thesis using * by simp
qed

lemma map_position_renumber: "map job_position (renumber pos js) = map (\<lambda>k. pos + int k) [0..<length js]"
  by (induction js arbitrary: pos) (auto simp: upt_conv_Cons map_Suc_upt [symmetric] simp del: upt_Suc)

lemma renumber_ids [simp]: "map job_id (renumber pos js) = map job_id js"
  by (induction js arbitrary: pos) auto

lemma renumber_ok [simp]: "list_all job_ok (renumber pos js) = list_all job_ok js"
  by (induction js arbitrary: pos) auto

lemma renumber_jobs_ok [simp]: "jobs_ok (renumber pos js) = jobs_ok js"
  by (simp add: jobs_ok_def)

lemma positions_iff:
  "map job_position js = map (\<lambda>k. pos + int k) [0..<length js] \<longleftrightarrow> renumber pos js = js"
proof (induction js arbitrary: pos)
  case (Cons j js)
  have "map (\<lambda>k. pos + int k) [0..<length (j # js)] = pos # map (\<lambda>k. (pos + 1) + int k) [0..<length js]"
    by (simp add: upt_conv_Cons map_Suc_upt [symmetric] del: upt_Suc)
  then show ?case using Cons [of "pos + 1"] by (cases j) auto
qed simp

lemma positions_1: "map int [1..<n + 1] = map (\<lambda>k. 1 + int k) [0..<n]"
  by (simp add: map_Suc_upt [symmetric] del: upt_Suc)

lemma positions_Suc: "map int [Suc 0..<Suc n] = map (\<lambda>k. 1 + int k) [0..<n]"
  using positions_1 [of n] by simp

text \<open>With positions counted from 1 the removal of a job is a filter followed by a new count.\<close>

lemma filter_other: "i \<notin> job_id ` set js \<Longrightarrow> filter (\<lambda>j. job_id j \<noteq> i) js = js"
  by (rule filter_True) auto

lemma unlink_job_renumber:
  "renumber pos js = js \<Longrightarrow> distinct (map job_id js) \<Longrightarrow> i \<in> job_id ` set js \<Longrightarrow>
     unlink_job i js = Some (renumber pos (filter (\<lambda>j. job_id j \<noteq> i) js))"
proof (induction js arbitrary: pos)
  case (Cons j js)
  then have pos: "job_position j = pos" "renumber (pos + 1) js = js" by (cases j; auto)+
  show ?case
  proof (cases "job_id j = i")
    case True
    with Cons.prems have "i \<notin> job_id ` set js" by auto
    with True pos show ?thesis by (simp add: filter_other)
  next
    case False
    with Cons pos have "unlink_job i js = Some (renumber (pos + 1) (filter (\<lambda>j. job_id j \<noteq> i) js))" by auto
    with False pos show ?thesis by simp
  qed
qed simp

lemma free_queue_job_eq:
  assumes q: "queue_ok q"
  shows "free_queue_job q i =
    (if i \<in> job_id ` set (queue_jobs q)
     then q\<lparr>queue_jobs := renumber 1 (filter (\<lambda>j. job_id j \<noteq> i) (queue_jobs q)), changed := changed q + 1,
            count_jobs := count_jobs q - 1\<rparr>
     else q)"
proof (cases "queue_jobs q")
  case (Cons j js)
  have "map job_position (queue_jobs q) = map (\<lambda>k. 1 + int k) [0..<length (queue_jobs q)]"
    using q unfolding queue_ok_def positions_1 by blast
  then have ren: "renumber 1 (j # js) = j # js" unfolding positions_iff Cons .
  from q Cons have d: "distinct (map job_id (j # js))" by (simp add: queue_ok_def jobs_ok_def)
  show ?thesis
  proof (cases "job_id j = i")
    case True
    with d have "i \<notin> job_id ` set js" by auto
    with True Cons show ?thesis by (simp add: free_queue_job_def filter_other)
  next
    case False
    show ?thesis
    proof (cases "i \<in> job_id ` set js")
      case True
      from ren have "renumber 2 js = js" by simp
      from unlink_job_renumber [OF this _ True] d False Cons True ren show ?thesis by (auto simp: free_queue_job_def)
    next
      case None: False
      then have "unlink_job i js = None" by (simp add: unlink_job_None)
      with None False Cons show ?thesis by (auto simp: free_queue_job_def)
    qed
  qed
qed (simp add: free_queue_job_def)

lemma free_queue_job_ok [intro]: 
  assumes "queue_ok q"
  shows "queue_ok (free_queue_job q i)"
proof (cases "i \<in> job_id ` set (queue_jobs q)")
  case True
  let ?js = "filter (\<lambda>j. job_id j \<noteq> i) (queue_jobs q)"
  have "jobs_ok ?js" using assms by (auto simp: queue_ok_def jobs_ok_def distinct_map_filter list_all_iff)
  moreover have "Suc (length ?js) = length (queue_jobs q)"
    using length_free_queue_job [OF True] True by (simp add: free_queue_job_eq [OF assms])
  ultimately show ?thesis using assms True
    by (auto simp: free_queue_job_eq queue_ok_def map_position_renumber positions_Suc [symmetric] simp del: upt_Suc)
qed (simp add: free_queue_job_eq assms)

section \<open>Every operation keeps the queues sound\<close>

lemma map_replace1: "f y = f x \<Longrightarrow> map f (replace1 x y zs) = map f zs"
  by (induction zs) auto

lemma set_replace1: "set (replace1 x y zs) \<subseteq> insert y (set zs)"
  by (induction zs) auto

lemma chain_put_replace1: "chain_find key (key y) xs = Some x \<Longrightarrow> chain_put key y xs = replace1 x y xs"
  by (induction xs) (auto dest: chain_find_key split: if_splits)

lemma change_job_ok:
  assumes "queue_ok q" and "job_id y = job_id x" "job_position y = job_position x" "job_ok y"
  shows "queue_ok (change_job x y q)"
proof -
  have "list_all job_ok (replace1 x y (queue_jobs q))"
    using assms set_replace1 [of x y "queue_jobs q"] by (auto simp: queue_ok_def jobs_ok_def list_all_iff)
  moreover have "replace1 x y (queue_jobs q) \<noteq> [] \<longleftrightarrow> queue_jobs q \<noteq> []"
    by (cases "queue_jobs q") auto
  ultimately show ?thesis using assms by (auto simp: queue_ok_def jobs_ok_def change_job_def map_replace1)
qed

lemma put_job_change:
  "find_queue_job q i = Some x \<Longrightarrow> job_id y = i \<Longrightarrow> put_job y q = change_job x y q"
  by (simp add: find_queue_job_def put_job_def change_job_def chain_put_replace1)

lemma find_queue_job_D:
  "find_queue_job q i = Some x \<Longrightarrow> job_id x = i \<and> x \<in> set (queue_jobs q)"
  by (auto simp: find_queue_job_def dest: chain_find_key)

lemma queue_ok_job: "queue_ok q \<Longrightarrow> x \<in> set (queue_jobs q) \<Longrightarrow> job_ok x"
  by (simp add: queue_ok_def jobs_ok_def list_all_iff)

lemma put_job_ok:
  assumes "queue_ok q" "find_queue_job q i = Some x" "job_id y = i" "job_position y = job_position x" "job_ok y"
  shows "queue_ok (put_job y q)"
  using assms find_queue_job_D [OF assms(2)] by (auto simp: put_job_change intro: change_job_ok)

lemma queue_ok_frame:
  "queue_ok (q\<lparr>q_status := s\<rparr>) = queue_ok q" "queue_ok (q\<lparr>qserver := v\<rparr>) = queue_ok q"
  "queue_ok (q\<lparr>changed := c\<rparr>) = queue_ok q"
  by (simp_all add: queue_ok_def)

lemma find_queue_ok: "qstate_ok st \<Longrightarrow> find_queue st i = Some q \<Longrightarrow> queue_ok q \<and> q_id q = i"
  by (auto simp: qstate_ok_def find_queue_def list_all_iff dest: chain_find_key)

lemma put_queue_ok [intro]: "qstate_ok st \<Longrightarrow> queue_ok q \<Longrightarrow> qstate_ok (put_queue q st)"
  using set_put [of q_id q "nwe_queues st"] by (auto simp: qstate_ok_def put_queue_def list_all_iff)

lemma put_found_ok:
  "qstate_ok st \<Longrightarrow> find_queue st i = Some q \<Longrightarrow> (queue_ok q \<Longrightarrow> queue_ok q') \<Longrightarrow> qstate_ok (put_queue q' st)"
  using find_queue_ok by blast

lemma remove_file_frame [simp]:
  "nwe_queues (snd (remove_queue_job_file qe q qj st)) = nwe_queues st"
  "qsaved (snd (remove_queue_job_file qe q qj st)) = qsaved st"
  by (auto simp: remove_queue_job_file_def Let_def split: option.splits)

lemma remove_file_ok [simp]: "qstate_ok (snd (remove_queue_job_file qe q qj st)) = qstate_ok st"
  by (simp add: qstate_ok_def)

text \<open>A new job: the queue takes it at the end, open and not served.\<close>

lemma new_queue_job_cases:
  assumes q: "queue_ok q"
  obtains (full) v where "new_queue_job qe q c t ob = (None, q)" "998 \<le> length (queue_jobs q)"
    | (linked) jo q1 where "new_queue_job qe q c t ob = (Some jo, q1)" "queue_ok q1" "find_queue_job q1 (job_id jo) = Some jo"
      "queue_jobs q1 = queue_jobs q @ [jo]" "job_id jo \<notin> job_id ` set (queue_jobs q)" "1 \<le> job_id jo" "job_id jo \<le> 999"
      "client_connection jo = c" "client_task jo = t" "client_id jo = ob" "server_id jo = 0"
      "job_position jo = int (length (queue_jobs q)) + 1" "q_id q1 = q_id q"
proof -
  let ?p = "empty_job\<lparr>entry_time := now qe, file_entry_time := now qe, client_connection := c, client_task := t,
    client_id := ob, job_id := 0\<rparr>"
  have new: "new_queue_job qe q c t ob = add_queue_job q ?p" by (simp add: new_queue_job_def)
  have ok: "queue_ok (snd (add_queue_job q ?p))"
    by (rule add_queue_job_ok [OF q]) (simp add: job_ok_def empty_job_def)
  show thesis
  proof (rule add_queue_job_cases [OF q, of ?p])
    fix v assume "add_queue_job q ?p = (None, q\<lparr>last_job_id := v\<rparr>)" "v = last_job_id q" "998 \<le> length (queue_jobs q)"
    then show thesis by (intro full) (simp_all add: new)
  next
    fix i assume *: "add_queue_job q ?p = link_job q i (int (length (queue_jobs q)) + 1) ?p" "1 \<le> i" "i \<le> 999"
      "i \<notin> job_id ` set (queue_jobs q)"
    have find: "chain_find key k (xs @ [x]) = Some x" if "k \<notin> key ` set xs" "key x = k" for key :: "INT_QUEUE_JOB \<Rightarrow> int" and k xs x
      using that by (induction xs) auto
    show thesis
      by (rule linked [OF _ ok]) (use * find in \<open>auto simp: new link_job_def Let_def find_queue_job_def empty_job_def\<close>)
  qed
qed

lemma job_ok_copy [simp]:
  "server_id jo = 0 \<Longrightarrow> job_ok (copy_request qe r jo) = job_ok jo"
  "job_id (copy_request qe r jo) = job_id jo" "job_position (copy_request qe r jo) = job_position jo"
  "server_id (copy_request qe r jo) = server_id jo"
  by (auto simp: copy_request_def job_ok_def split: wire_job.splits)

lemma nw_creat_queue_job_ok:
  assumes "qstate_ok st"
  shows "qstate_ok (snd (snd (nw_creat_queue_job qe env b c t ob qid r resp st)))"
proof (cases "find_queue st qid")
  case (Some que)
  with assms have que: "queue_ok que" by (simp add: find_queue_ok)
  show ?thesis
  proof (rule new_queue_job_cases [OF que, of qe c t ob])
    fix v assume "new_queue_job qe que c t ob = (None, que)"
    then show ?thesis using assms Some que by (auto simp: nw_creat_queue_job_def split: prod.splits)
  next
    fix jo q1 assume *: "new_queue_job qe que c t ob = (Some jo, q1)" "queue_ok q1"
      "find_queue_job q1 (job_id jo) = Some jo" "server_id jo = 0"
    then have "queue_ok (put_job (copy_request qe r jo) q1)"
      by (intro put_job_ok [OF *(2,3)]) (auto dest: find_queue_job_D intro: queue_ok_job)
    then show ?thesis using assms Some * by (auto simp: nw_creat_queue_job_def Let_def split: prod.splits)
  qed
qed (use assms in \<open>auto simp: nw_creat_queue_job_def split: prod.splits\<close>)

lemma job_ok_clear [simp]:
  "job_ok j \<Longrightarrow> job_ok (clear_open j)" "job_id (clear_open j) = job_id j"
  "job_position (clear_open j) = job_position j" "server_id (clear_open j) = server_id j"
  "job_ok (j\<lparr>client_area := a\<rparr>) = job_ok j"
  by (auto simp: clear_open_def job_ok_def and.assoc)

lemma nw_close_queue_job_ok:
  assumes "qstate_ok st"
  shows "qstate_ok (snd (snd (nw_close_queue_job env b qid i st)))"
proof (cases "find_queue st qid")
  case (Some que)
  with assms have que: "queue_ok que" by (simp add: find_queue_ok)
  have "queue_ok (put_job (clear_open (jo\<lparr>client_area := a\<rparr>)) que)" if "find_queue_job que i = Some jo" for jo a
    using that que find_queue_job_D [OF that] by (intro put_job_ok) (auto dest: queue_ok_job)
  moreover from this have "queue_ok (put_job (clear_open jo) que)" if "find_queue_job que i = Some jo" for jo
    using that by (metis INT_QUEUE_JOB.surjective INT_QUEUE_JOB.update_convs(16))
  ultimately show ?thesis using assms Some
    by (auto simp: nw_close_queue_job_def Let_def intro!: put_queue_ok free_queue_job_ok split: option.splits prod.splits)
qed (use assms in \<open>auto simp: nw_close_queue_job_def\<close>)

lemma nw_set_queue_status_ok: "qstate_ok st \<Longrightarrow> qstate_ok (snd (nw_set_queue_status qid s st))"
  by (auto simp: nw_set_queue_status_def queue_ok_frame split: option.splits intro: put_found_ok)

lemma remove_file_st1: "remove_queue_job_file qe q qj st = (r, st1) \<Longrightarrow> qstate_ok st \<Longrightarrow> qstate_ok st1"
  using remove_file_ok [of qe q qj st] by simp

lemma nw_remove_job_ok:
  assumes "qstate_ok st"
  shows "qstate_ok (snd (nw_remove_job_from_queue qe u qid i st))"
proof (cases "find_queue st qid")
  case (Some q)
  with assms have "queue_ok q" by (simp add: find_queue_ok)
  then show ?thesis using assms Some
    by (auto simp: nw_remove_job_from_queue_def Let_def split: option.splits prod.splits dest: remove_file_st1)
qed (use assms in \<open>simp add: nw_remove_job_from_queue_def\<close>)

lemma close_jobs_ok:
  "queue_ok q \<Longrightarrow> queue_ok (fst (close_jobs qe c t q st)) \<and> qsaved (snd (close_jobs qe c t q st)) = qsaved st \<and>
     nwe_queues (snd (close_jobs qe c t q st)) = nwe_queues st"
proof (induction qe c t q st rule: close_jobs.induct)
  case (1 qe c t q st)
  show ?case
  proof (cases "find (pending c t) (queue_jobs q)")
    case (Some qj)
    then have "qj \<in> set (queue_jobs q)" by (auto dest: find_Some_D)
    with "1.prems" have "queue_ok (change_job qj (clear_open qj) q)"
      by (intro change_job_ok) (auto dest: queue_ok_job)
    with 1 Some show ?thesis by (subst (1 2 3) close_jobs.simps) (simp add: free_queue_job_ok)
  qed (use "1.prems" in \<open>simp add: close_jobs.simps\<close>)
qed

lemma close_queues_ok:
  "list_all queue_ok qs \<Longrightarrow> list_all queue_ok (fst (close_queues qe c t qs st)) \<and>
     qsaved (snd (close_queues qe c t qs st)) = qsaved st"
proof (induction qs arbitrary: st)
  case (Cons q qs)
  obtain q' st1 where 1: "close_jobs qe c t q st = (q', st1)" by fastforce
  obtain qs' st2 where 2: "close_queues qe c t qs st1 = (qs', st2)" by fastforce
  show ?case using Cons.prems Cons.IH [of st1] close_jobs_ok [of q qe c t st] by (simp add: 1 2)
qed simp

lemma nw_close_connection_jobs_ok: "qstate_ok st \<Longrightarrow> qstate_ok (nw_close_connection_jobs qe c t st)"
  using close_queues_ok [of "nwe_queues st" qe c t st]
  by (auto simp: nw_close_connection_jobs_def qstate_ok_def split: prod.splits)

lemma nw_attach_server_ok: "qstate_ok st \<Longrightarrow> qstate_ok (snd (nw_attach_server_to_queue env b u c qid st))"
  by (auto simp: nw_attach_server_to_queue_def Let_def queue_ok_frame split: option.splits intro: put_found_ok)

lemma nw_detach_server_ok: "qstate_ok st \<Longrightarrow> qstate_ok (snd (nw_detach_server_from_queue u c qid st))"
  by (auto simp: nw_detach_server_from_queue_def queue_ok_frame split: option.splits intro: put_found_ok)

text \<open>What \<open>pick_job\<close> returns is a job of the remaining queue that may be served and is not empty.\<close>

lemma pick_job_spec:
  "queue_ok q \<Longrightarrow> pick_job qe u jt q st = (r, q1, st1) \<Longrightarrow>
     queue_ok q1 \<and> qsaved st1 = qsaved st \<and> nwe_queues st1 = nwe_queues st \<and> q_id q1 = q_id q \<and>
     (\<forall>j. r = Some j \<longrightarrow> j \<in> set (queue_jobs q1) \<and> servable qe u jt j \<and> get_qj_file_size st1 q1 j > 0)"
proof (induction qe u jt q st rule: pick_job.induct)
  case (1 qe u jt q st)
  let ?f = "find (\<lambda>qj. servable qe u jt qj \<and> (get_qj_file_size st q qj > 0 \<or> now qe - entry_time qj > 60)) (queue_jobs q)"
  show ?case
  proof (cases ?f)
    case None
    with "1.prems" show ?thesis by (auto simp: pick_job.simps)
  next
    case (Some qj)
    have qid: "q_id (free_queue_job q i) = q_id q" for i
      using "1.prems"(1) by (simp add: free_queue_job_eq)
    show ?thesis
    proof (cases "get_qj_file_size st q qj > 0")
      case True
      with Some "1.prems" show ?thesis by (auto simp: pick_job.simps dest: find_Some_D)
    next
      case False
      with Some "1.prems"(2) have "pick_job qe u jt (free_queue_job q (job_id qj)) (snd (remove_queue_job_file qe q qj st)) = (r, q1, st1)"
        by (subst (asm) pick_job.simps) simp
      from "1.IH" [OF Some False free_queue_job_ok [OF "1.prems"(1)] this] qid show ?thesis by auto
    qed
  qed
qed

lemma served_ok:
  "queue_ok q \<Longrightarrow> j \<in> set (queue_jobs q) \<Longrightarrow> servable qe u jt j \<Longrightarrow>
     queue_ok (change_job j (j\<lparr>server_id := u, server_station := c, server_task := t\<rparr>) q)"
  by (rule change_job_ok) (auto simp: job_ok_def servable_def dest: queue_ok_job)

lemma nw_service_queue_job_ok:
  assumes "qstate_ok st"
  shows "qstate_ok (snd (snd (nw_service_queue_job qe env b u c t qid jt resp st)))"
proof (cases "find_queue st qid")
  case (Some q)
  with assms have q: "queue_ok q" by (simp add: find_queue_ok)
  obtain r q1 st1 where pick: "pick_job qe u jt q st = (r, q1, st1)" by (metis prod_cases3)
  note spec = pick_job_spec [OF q pick]
  then have "qstate_ok st1" using assms by (simp add: qstate_ok_def)
  with spec show ?thesis using assms Some pick
    by (cases r) (auto simp: nw_service_queue_job_def Let_def intro!: put_queue_ok intro: served_ok split: prod.splits)
qed (use assms in \<open>simp add: nw_service_queue_job_def\<close>)

lemma nw_finish_abort_ok:
  assumes "qstate_ok st"
  shows "qstate_ok (snd (nw_finish_abort_queue_job qe mode u c qid i st))"
proof (cases "find_queue st qid")
  case (Some que)
  with assms have que: "queue_ok que" by (simp add: find_queue_ok)
  have "queue_ok (put_job (jo\<lparr>server_id := 0, server_station := 0\<rparr>) que)" if "find_queue_job que i = Some jo" for jo
    using that que find_queue_job_D [OF that] queue_ok_job [of que jo] by (intro put_job_ok) (auto simp: job_ok_def)
  then show ?thesis using assms Some que
    by (auto simp: nw_finish_abort_queue_job_def Let_def split: option.splits prod.splits dest: remove_file_st1)
qed (use assms in \<open>simp add: nw_finish_abort_queue_job_def\<close>)

section \<open>Saving and reading the queues\<close>

lemma job_ok_correct [simp]: "job_ok j \<Longrightarrow> job_ok (correct_job j)" "job_id (correct_job j) = job_id j"
  by (auto simp: job_ok_def correct_job_def)

lemma link_job_read:
  "1 \<le> job_id p \<Longrightarrow> link_job q i pos p =
     (Some (p\<lparr>job_position := pos\<rparr>), q\<lparr>last_job_id := i, queue_jobs := queue_jobs q @ [p\<lparr>job_position := pos\<rparr>],
        changed := changed q + 1, count_jobs := count_jobs q + 1\<rparr>)"
  by (auto simp: link_job_def Let_def)

definition read_all :: "INT_QUEUE_JOB list \<Rightarrow> NWE_QUEUE \<Rightarrow> NWE_QUEUE" where
  "read_all js q = fold (\<lambda>j t. snd (add_queue_job t (correct_job j))) js q"

lemma read_all_simps [simp]:
  "read_all [] q = q" "read_all (j # js) q = read_all js (snd (add_queue_job q (correct_job j)))"
  by (simp_all add: read_all_def)

lemma read_jobs:
  assumes "queue_ok q" and "jobs_ok js" and "\<forall>j \<in> set js. job_id j \<notin> job_id ` set (queue_jobs q)"
  shows "queue_ok (read_all js q)"
    and "length (queue_jobs q) + length js \<le> 998 \<Longrightarrow> queue_jobs (read_all js q) =
      queue_jobs q @ renumber (int (length (queue_jobs q)) + 1) (map correct_job js)"
proof -
  have "queue_ok (read_all js q) \<and> (length (queue_jobs q) + length js \<le> 998 \<longrightarrow> queue_jobs (read_all js q) =
      queue_jobs q @ renumber (int (length (queue_jobs q)) + 1) (map correct_job js))"
    using assms
  proof (induction js arbitrary: q)
    case (Cons j js)
    let ?q = "snd (add_queue_job q (correct_job j))"
    have j: "job_ok (correct_job j)" "1 \<le> job_id j" using Cons.prems by (auto simp: job_ok_def correct_job_def)
    have ok: "queue_ok ?q" using Cons.prems j by (intro add_queue_job_ok) auto
    show ?case
    proof (rule add_queue_job_cases [OF Cons.prems(1), of "correct_job j"])
      fix v assume "add_queue_job q (correct_job j) = (None, q\<lparr>last_job_id := v\<rparr>)" "v = last_job_id q"
        "998 \<le> length (queue_jobs q)"
      then show ?thesis using Cons.IH [of q] Cons.prems by simp
    next
      fix i assume "add_queue_job q (correct_job j) = link_job q i (int (length (queue_jobs q)) + 1) (correct_job j)"
      then have q: "queue_jobs ?q = queue_jobs q @ [(correct_job j)\<lparr>job_position := int (length (queue_jobs q)) + 1\<rparr>]"
        using j by (simp add: link_job_read)
      have "job_id j \<notin> job_id ` set js" using Cons.prems by simp
      then have "\<forall>k \<in> set js. job_id k \<noteq> job_id j" by (metis imageI)
      moreover have "job_id ` set (queue_jobs ?q) = insert (job_id j) (job_id ` set (queue_jobs q))" by (simp add: q)
      ultimately have "\<forall>k \<in> set js. job_id k \<notin> job_id ` set (queue_jobs ?q)" using Cons.prems(3) by simp
      with Cons.IH [OF ok] Cons.prems show ?thesis by (simp add: q)
    qed
  qed simp
  then show "queue_ok (read_all js q)" "length (queue_jobs q) + length js \<le> 998 \<Longrightarrow> queue_jobs (read_all js q) =
      queue_jobs q @ renumber (int (length (queue_jobs q)) + 1) (map correct_job js)" by blast+
qed

lemma read_id: "q_id (read_all js q) = q_id q"
proof (induction js arbitrary: q)
  case (Cons j js)
  have "q_id (snd (add_queue_job q (correct_job j))) = q_id q"
    by (auto simp: add_queue_job_def link_job_def Let_def split: option.splits)
  with Cons show ?case by simp
qed simp

lemma new_queue_ok [simp]: "queue_ok ((new_queue i)\<lparr>queuedir := d, queuedir_len := n, queuedir_downshift := s\<rparr>)"
  by (simp add: queue_ok_def new_queue_def)

lemma r_w_read_frame: "snd (r_w_queue_jobs qe 0 q st) = st" "q_id (fst (r_w_queue_jobs qe 0 q st)) = q_id q"
  by (auto simp: r_w_queue_jobs_def read_id [unfolded read_all_def] split: option.splits)

text \<open>A queue that enters the chain has the jobs of its file, with the marks of the last session taken back.\<close>

lemma enter_queue_jobs:
  assumes "qstate_ok st"
  obtains q where "enter_queue qe i d st = st\<lparr>nwe_queues := nwe_queues st @ [q]\<rparr>" "queue_ok q" "q_id q = i"
    "\<And>js. open_ok qe i \<Longrightarrow> qsaved st i = Some js \<Longrightarrow> length js \<le> 998 \<Longrightarrow>
       queue_jobs q = renumber 1 (map correct_job js)"
proof -
  let ?n = "(new_queue i)\<lparr>queuedir := snd d, queuedir_len := nat (fst d), queuedir_downshift := sys_downshift qe\<rparr>"
  let ?q = "fst (r_w_queue_jobs qe 0 ?n st)"
  have empty: "queue_jobs ?n = []" "q_id ?n = i" by (simp_all add: new_queue_def)
  have saved: "jobs_ok js" if "qsaved st i = Some js" for js using that assms by (auto simp: qstate_ok_def)
  have "queue_ok ?q"
    using saved read_jobs(1) [of ?n, unfolded read_all_def] by (auto simp: r_w_queue_jobs_def empty queue_ok_frame split: option.splits)
  moreover have "queue_jobs ?q = renumber 1 (map correct_job js)"
    if "open_ok qe i" "qsaved st i = Some js" "length js \<le> 998" for js
  proof -
    have "queue_jobs (read_all js ?n) = queue_jobs ?n @ renumber (int (length (queue_jobs ?n)) + 1) (map correct_job js)"
      using that saved by (intro read_jobs(2)) (simp_all add: empty)
    then show ?thesis using that by (simp add: r_w_queue_jobs_def read_all_def empty)
  qed
  moreover have "enter_queue qe i d st = st\<lparr>nwe_queues := nwe_queues st @ [?q]\<rparr>"
    using r_w_read_frame [of qe ?n st] by (simp add: enter_queue_def split: prod.splits) (metis fst_conv snd_conv)
  ultimately show thesis using r_w_read_frame(2) [of qe ?n st] empty that by metis
qed

lemma enter_queue_ok: "qstate_ok st \<Longrightarrow> qstate_ok (enter_queue qe i d st)"
  by (rule enter_queue_jobs [of st qe i d]) (auto simp: qstate_ok_def)

lemma dir_ok [simp]: "qstate_ok (mk_dir d m st) = qstate_ok st"
  by (simp add: qstate_ok_def mk_dir_def)

lemma rm_dir_ok: "qstate_ok st \<Longrightarrow> qstate_ok (rm_dir qe d st)"
  by (auto simp: qstate_ok_def rm_dir_def Let_def split: queue_dir.splits)

lemma write_ok: "queue_ok q \<Longrightarrow> qstate_ok st \<Longrightarrow> qstate_ok (snd (r_w_queue_jobs qe 2 q st))"
  by (auto simp: r_w_queue_jobs_def qstate_ok_def queue_ok_def)

lemma exit_queues_ok: "qstate_ok st \<Longrightarrow> qstate_ok (exit_queues qe st)"
proof -
  have "qstate_ok (fold (\<lambda>q t. snd (r_w_queue_jobs qe 2 q t)) qs st)" if "list_all queue_ok qs" "qstate_ok st" for qs st
    using that by (induction qs arbitrary: st) (auto intro: write_ok)
  note saved = this [of "nwe_queues st" st]
  assume "qstate_ok st"
  with saved have "qstate_ok (fold (\<lambda>q t. snd (r_w_queue_jobs qe 2 q t)) (nwe_queues st) st)"
    by (simp add: qstate_ok_def)
  then show "qstate_ok (exit_queues qe st)" by (simp add: exit_queues_def qstate_ok_def)
qed

lemma init_queue_ok: "qstate_ok st \<Longrightarrow> qstate_ok (init_queue qe env b x st)"
  by (simp add: init_queue_def Let_def enter_queue_ok)

lemma init_queues_ok:
  assumes "qstate_ok st"
  shows "qstate_ok (init_queues qe env b flags st)"
proof -
  have "qstate_ok (init_loop n qe env b l t)" if "qstate_ok t" for n l t
    using that by (induction n arbitrary: l t) (auto intro: init_queue_ok split: prod.splits)
  moreover have "qstate_ok (exit_queues qe (st\<lparr>entry18_flags := flags\<rparr>))"
    using assms by (intro exit_queues_ok) (simp add: qstate_ok_def)
  ultimately show ?thesis unfolding init_queues_def by blast
qed

lemma nw_creat_queue_ok: "qstate_ok st \<Longrightarrow> qstate_ok (snd (snd (snd (nw_creat_queue qe env t n l p pl b st))))"
  by (auto simp: nw_creat_queue_def Let_def enter_queue_ok split: prod.splits)

lemma nw_destroy_queue_ok: "qstate_ok st \<Longrightarrow> qstate_ok (snd (snd (nw_destroy_queue qe env qid b st)))"
proof -
  assume st: "qstate_ok st"
  have "qstate_ok (st1\<lparr>nwe_queues := free_queue i (nwe_queues st1)\<rparr>)" if "qstate_ok st1" for st1 i
    using that set_del [of q_id i "nwe_queues st1"] by (auto simp: qstate_ok_def free_queue_def list_all_iff)
  with st show ?thesis
    by (auto simp: nw_destroy_queue_def Let_def intro!: rm_dir_ok split: sum.splits prod.splits option.splits)
qed

section \<open>The runs of the queue server\<close>

inductive queue_step :: "qstate \<Rightarrow> qstate \<Rightarrow> bool" where
  creat_job: "queue_step st (snd (snd (nw_creat_queue_job qe env b c t ob qid r resp st)))"
| close_job: "queue_step st (snd (snd (nw_close_queue_job env b qid i st)))"
| set_status: "queue_step st (snd (nw_set_queue_status qid s st))"
| remove_job: "queue_step st (snd (nw_remove_job_from_queue qe u qid i st))"
| close_conn: "queue_step st (nw_close_connection_jobs qe c t st)"
| attach: "queue_step st (snd (nw_attach_server_to_queue env b u c qid st))"
| detach: "queue_step st (snd (nw_detach_server_from_queue u c qid st))"
| service: "queue_step st (snd (snd (nw_service_queue_job qe env b u c t qid jt resp st)))"
| finish_abort: "queue_step st (snd (nw_finish_abort_queue_job qe mode u c qid i st))"
| creat_queue: "queue_step st (snd (snd (snd (nw_creat_queue qe env qt n l p pl b st))))"
| destroy_queue: "queue_step st (snd (snd (nw_destroy_queue qe env qid b st)))"
| init: "queue_step st (init_queues qe env b flags st)"
| exit: "queue_step st (exit_queues qe st)"
| files: "queue_step st (st\<lparr>qfiles := f\<rparr>)"

lemma queue_step_ok: "queue_step st st' \<Longrightarrow> qstate_ok st \<Longrightarrow> qstate_ok st'"
proof (induction rule: queue_step.induct)
  case (files st f)
  then show ?case by (simp add: qstate_ok_def)
qed (auto intro: nw_creat_queue_job_ok nw_close_queue_job_ok nw_set_queue_status_ok nw_remove_job_ok
    nw_close_connection_jobs_ok nw_attach_server_ok nw_detach_server_ok nw_service_queue_job_ok nw_finish_abort_ok
    nw_creat_queue_ok nw_destroy_queue_ok init_queues_ok exit_queues_ok)

definition queues0 :: "(cstring \<Rightarrow> int option) \<Rightarrow> qstate" where
  "queues0 files = \<lparr>nwe_queues = [], qsaved = (\<lambda>i. None), qfiles = files, qdirs = [], entry18_flags = 0\<rparr>"

lemma queue_run_ok: "queue_step\<^sup>*\<^sup>* (queues0 files) st \<Longrightarrow> qstate_ok st"
  by (induction rule: rtranclp_induct) (auto simp: qstate_ok_def queues0_def dest: queue_step_ok)

text \<open>C6. In every run of the queue server, with requests in any order, by any clients and queue servers, with
  restarts and with files that come and go: the jobs of a queue have different ids between 1 and 999, their
  positions count from 1, the counter of jobs is right, and no job that its client is still writing is being served.\<close>

theorem queues_stay_sound:
  assumes "queue_step\<^sup>*\<^sup>* (queues0 files) st"
  shows "qstate_ok st"
  using assms by (rule queue_run_ok)

section \<open>Service\<close>

text \<open>What a removal leaves of the other jobs: all but the position.\<close>

definition same_job :: "INT_QUEUE_JOB \<Rightarrow> INT_QUEUE_JOB \<Rightarrow> bool" where
  "same_job j k = (j\<lparr>job_position := 0\<rparr> = k\<lparr>job_position := 0\<rparr>)"

lemma same_job_refl [simp]: "same_job j j" and same_job_trans: "same_job j k \<Longrightarrow> same_job k l \<Longrightarrow> same_job j l"
  and same_job_position [simp]: "same_job (j\<lparr>job_position := p\<rparr>) k = same_job j k"
    "same_job j (k\<lparr>job_position := p\<rparr>) = same_job j k"
  by (simp_all add: same_job_def)

lemma same_job_D:
  "same_job j k \<Longrightarrow> job_id j = job_id k \<and> server_id j = server_id k \<and> server_station j = server_station k \<and>
     server_task j = server_task k \<and> servable qe u jt j = servable qe u jt k \<and>
     build_unix_queue_file q j = build_unix_queue_file q k \<and> entry_time j = entry_time k \<and>
     client_connection j = client_connection k \<and> client_id j = client_id k \<and>
     job_control_flags j = job_control_flags k"
  unfolding same_job_def
  by (cases j; cases k) (auto simp: servable_def build_unix_queue_file_def job_name_def)

lemma rel_renumber: "list_all2 same_job (renumber pos js) js"
  by (induction js arbitrary: pos) auto

lemma rel_member: "list_all2 same_job js ks \<Longrightarrow> k \<in> set ks \<Longrightarrow> \<exists>j \<in> set js. same_job j k"
  by (metis in_set_conv_nth list_all2_conv_all_nth)

text \<open>The jobs before the job \<open>i\<close> that nobody serves yet.\<close>

definition waiting_before :: "int \<Rightarrow> INT_QUEUE_JOB list \<Rightarrow> nat" where
  "waiting_before i js = length (filter (\<lambda>j. server_id j = 0) (takeWhile (\<lambda>j. job_id j \<noteq> i) js))"

lemma waiting_rel: "list_all2 same_job js ks \<Longrightarrow> waiting_before i js = waiting_before i ks"
  by (induction rule: list_all2_induct) (auto simp: waiting_before_def dest: same_job_D)

lemma waiting_filter: "i \<noteq> k \<Longrightarrow> waiting_before i (filter (\<lambda>j. job_id j \<noteq> k) js) \<le> waiting_before i js"
  by (induction js) (auto simp: waiting_before_def)

lemma free_keeps:
  assumes q: "queue_ok q" and j: "j \<in> set (queue_jobs q)" "job_id j \<noteq> k"
  shows "\<exists>j' \<in> set (queue_jobs (free_queue_job q k)). same_job j' j"
    and "waiting_before (job_id j) (queue_jobs (free_queue_job q k)) \<le> waiting_before (job_id j) (queue_jobs q)"
proof -
  let ?f = "filter (\<lambda>j. job_id j \<noteq> k) (queue_jobs q)"
  have "j \<in> set ?f" using j by simp
  from rel_member [OF rel_renumber this, of 1]
  show "\<exists>j' \<in> set (queue_jobs (free_queue_job q k)). same_job j' j"
    using same_job_refl j(1) by (cases "k \<in> job_id ` set (queue_jobs q)") (auto simp: free_queue_job_eq [OF q] intro: bexI [of _ j])
  show "waiting_before (job_id j) (queue_jobs (free_queue_job q k)) \<le> waiting_before (job_id j) (queue_jobs q)"
    using waiting_filter [of "job_id j" k] j by (auto simp: free_queue_job_eq [OF q] waiting_rel [OF rel_renumber])
qed

lemma free_frame:
  "queue_ok q \<Longrightarrow> q_id (free_queue_job q k) = q_id q" "queue_ok q \<Longrightarrow> q_status (free_queue_job q k) = q_status q"
  "queue_ok q \<Longrightarrow> qserver (free_queue_job q k) = qserver q"
  "queue_ok q \<Longrightarrow> build_unix_queue_file (free_queue_job q k) j = build_unix_queue_file q j"
  by (simp_all add: free_queue_job_eq build_unix_queue_file_def)

text \<open>Only empty files are removed while a job is searched, so that no job becomes empty by it.\<close>

lemma size_after_remove:
  assumes "get_qj_file_size st q x \<le> 0"
  shows "get_qj_file_size (snd (remove_queue_job_file qe q x st)) q' j > 0 \<longleftrightarrow> get_qj_file_size st q' j > 0"
  using assms by (auto simp: get_qj_file_size_def remove_queue_job_file_def Let_def split: option.splits)

lemma size_free: "queue_ok q \<Longrightarrow> get_qj_file_size st (free_queue_job q k) j = get_qj_file_size st q j"
  by (simp add: get_qj_file_size_def free_frame)

lemma size_same: "same_job j k \<Longrightarrow> get_qj_file_size st q j = get_qj_file_size st q k"
  using same_job_D [of j k _ _ _ q] by (simp add: get_qj_file_size_def)

lemma ids_unique: "queue_ok q \<Longrightarrow> x \<in> set (queue_jobs q) \<Longrightarrow> y \<in> set (queue_jobs q) \<Longrightarrow> job_id x = job_id y \<Longrightarrow> x = y"
  by (auto simp: queue_ok_def jobs_ok_def distinct_map inj_on_def)

lemma find_split: "find P xs = Some x \<Longrightarrow> \<exists>pre suf. xs = pre @ x # suf \<and> (\<forall>k \<in> set pre. \<not> P k)"
proof (induction xs)
  case (Cons y ys)
  show ?case
  proof (cases "P y")
    case False
    with Cons obtain pre suf where "ys = pre @ x # suf" "\<forall>k \<in> set pre. \<not> P k" by auto
    with False show ?thesis by (intro exI [of _ "y # pre"] exI [of _ suf]) auto
  next
    case True
    with Cons.prems have "y # ys = [] @ x # ys" by simp
    then show ?thesis by (intro exI [of _ "[]"] exI [of _ ys]) simp
  qed
qed simp

text \<open>The search keeps every job that is served or that has something to print, and does not move it
  back.\<close>

lemma pick_job_keeps:
  assumes "queue_ok q" "pick_job qe u jt q st = (r, q1, st1)" "j \<in> set (queue_jobs q)"
    "server_id j \<noteq> 0 \<or> get_qj_file_size st q j > 0"
  shows "(\<exists>j' \<in> set (queue_jobs q1). same_job j' j) \<and>
     waiting_before (job_id j) (queue_jobs q1) \<le> waiting_before (job_id j) (queue_jobs q) \<and>
     q_status q1 = q_status q \<and> qserver q1 = qserver q \<and>
     (\<forall>k. get_qj_file_size st1 q1 k > 0 \<longleftrightarrow> get_qj_file_size st q k > 0)"
  using assms
proof (induction qe u jt q st arbitrary: j rule: pick_job.induct)
  case (1 qe u jt q st)
  let ?f = "find (\<lambda>qj. servable qe u jt qj \<and> (get_qj_file_size st q qj > 0 \<or> now qe - entry_time qj > 60)) (queue_jobs q)"
  show ?case
  proof (cases "\<exists>qj. ?f = Some qj \<and> \<not> get_qj_file_size st q qj > 0")
    case False
    then have "q1 = q \<and> st1 = st" using "1.prems"(2) by (auto simp: pick_job.simps split: option.splits if_splits)
    then show ?thesis using "1.prems"(3) by (auto intro!: bexI [of _ j])
  next
    case True
    then obtain x where x: "?f = Some x" "\<not> get_qj_file_size st q x > 0" by blast
    then have x': "x \<in> set (queue_jobs q)" "servable qe u jt x" by (auto dest: find_Some_D)
    let ?q = "free_queue_job q (job_id x)" and ?st = "snd (remove_queue_job_file qe q x st)"
    have rec: "pick_job qe u jt ?q ?st = (r, q1, st1)"
      using x "1.prems"(2) by (subst (asm) pick_job.simps) simp
    have size: "get_qj_file_size ?st ?q k > 0 \<longleftrightarrow> get_qj_file_size st q k > 0" for k
      using x(2) "1.prems"(1) by (simp add: size_free size_after_remove)
    have other: "job_id j \<noteq> job_id x"
      using ids_unique [OF "1.prems"(1,3) x'(1)] x x' "1.prems"(4) by (auto simp: servable_def)
    obtain j' where j': "j' \<in> set (queue_jobs ?q)" "same_job j' j"
      using free_keeps(1) [OF "1.prems"(1,3) other] by blast
    have "server_id j' \<noteq> 0 \<or> get_qj_file_size ?st ?q j' > 0"
      using "1.prems"(4) size size_same [OF j'(2)] same_job_D [OF j'(2)] by auto
    from "1.IH" [OF x free_queue_job_ok [OF "1.prems"(1)] rec j'(1) this]
      free_keeps(2) [OF "1.prems"(1,3) other] same_job_D [OF j'(2)] size
    show ?thesis using "1.prems"(1) j'(2) by (auto simp: free_frame intro: same_job_trans)
  qed
qed

lemma pick_job_finds:
  assumes "queue_ok q" "j \<in> set (queue_jobs q)" "servable qe u jt j" "get_qj_file_size st q j > 0"
  obtains f q1 st1 where "pick_job qe u jt q st = (Some f, q1, st1)"
    "job_id f = job_id j \<or> f \<in> set (takeWhile (\<lambda>k. job_id k \<noteq> job_id j) (queue_jobs q1))"
proof -
  have "\<exists>f q1 st1. pick_job qe u jt q st = (Some f, q1, st1) \<and>
    (job_id f = job_id j \<or> f \<in> set (takeWhile (\<lambda>k. job_id k \<noteq> job_id j) (queue_jobs q1)))"
    using assms
  proof (induction qe u jt q st arbitrary: j rule: pick_job.induct)
    case (1 qe u jt q st)
    let ?P = "\<lambda>qj. servable qe u jt qj \<and> (get_qj_file_size st q qj > 0 \<or> now qe - entry_time qj > 60)"
    from "1.prems" obtain x where x: "find ?P (queue_jobs q) = Some x" by (cases "find ?P (queue_jobs q)") (auto simp: find_None_iff)
    have x': "x \<in> set (queue_jobs q)" "?P x" using x by (auto dest: find_Some_D)
    show ?case
    proof (cases "get_qj_file_size st q x > 0")
      case True
      from x obtain pre suf where s: "queue_jobs q = pre @ x # suf" "\<forall>k \<in> set pre. \<not> ?P k"
        using find_split [OF x] by blast
      have "job_id x = job_id j \<or> x \<in> set (takeWhile (\<lambda>k. job_id k \<noteq> job_id j) (queue_jobs q))"
      proof (cases "job_id x = job_id j")
        case False
        have "\<forall>k \<in> set pre. job_id k \<noteq> job_id j"
          using s "1.prems" ids_unique [OF "1.prems"(1), of _ j] by fastforce
        with False s show ?thesis by (simp add: takeWhile_append2)
      qed simp
      with True x show ?thesis by (auto simp: pick_job.simps)
    next
      case False
      let ?q = "free_queue_job q (job_id x)" and ?st = "snd (remove_queue_job_file qe q x st)"
      have other: "job_id j \<noteq> job_id x" using ids_unique [OF "1.prems"(1,2) x'(1)] False "1.prems"(4) by auto
      obtain j' where j': "j' \<in> set (queue_jobs ?q)" "same_job j' j"
        using free_keeps(1) [OF "1.prems"(1,2) other] by blast
      have "get_qj_file_size ?st ?q j' > 0" "servable qe u jt j'"
        using "1.prems" False size_same [OF j'(2)] same_job_D [OF j'(2)] by (auto simp: size_free size_after_remove)
      from "1.IH" [OF x False free_queue_job_ok [OF "1.prems"(1)] j'(1) this(2,1)] same_job_D [OF j'(2)] x False
      show ?thesis by (subst pick_job.simps) simp
    qed
  qed
  then show thesis using that by blast
qed

lemma in_replace1: "x \<in> set zs \<Longrightarrow> y \<in> set (replace1 x y zs)"
  by (induction zs) auto

lemma keep_replace1: "k \<in> set zs \<Longrightarrow> k \<noteq> x \<Longrightarrow> k \<in> set (replace1 x y zs)"
  by (induction zs) auto

lemma waiting_replace1:
  assumes "x \<in> set (takeWhile (\<lambda>k. job_id k \<noteq> i) zs)" "job_id y = job_id x" "server_id x = 0" "server_id y \<noteq> 0"
  shows "Suc (waiting_before i (replace1 x y zs)) = waiting_before i zs"
proof -
  have "takeWhile (\<lambda>k. job_id k \<noteq> i) (replace1 x y zs) = replace1 x y (takeWhile (\<lambda>k. job_id k \<noteq> i) zs)"
    using assms(1,2) by (induction zs) (auto split: if_splits)
  then show ?thesis using filter_replace1 [OF assms(1), of "\<lambda>j. server_id j = 0" y] assms by (simp add: waiting_before_def)
qed

lemma find_put_queue [simp]:
  "find_queue (put_queue q st) i = (if i = q_id q then Some q else find_queue st i)"
  by (simp add: find_queue_def put_queue_def)

lemma size_put_queue [simp]: "get_qj_file_size (put_queue q st) = get_qj_file_size st"
  by (simp add: fun_eq_iff get_qj_file_size_def put_queue_def)

text \<open>One request for a job: it gives out the job \<open>j\<close> or one that waited before it.\<close>

lemma service_progress:
  assumes st: "qstate_ok st" and q: "find_queue st qid = Some q" "is_qserver q u c" "q_status q AND 4 = 0"
    and d: "fst (nw_get_q_dirname env qid b) > 0" and u: "u \<noteq> 0"
    and j: "j \<in> set (queue_jobs q)" "servable qe u jt j" "get_qj_file_size st q j > 0"
    and st'_def: "st' = snd (snd (nw_service_queue_job qe env b u c t qid jt resp st))"
  obtains q' where "find_queue st' qid = Some q'" "is_qserver q' u c" "q_status q' AND 4 = 0"
    "(\<exists>j' \<in> set (queue_jobs q'). job_id j' = job_id j \<and> server_id j' = u \<and> server_station j' = c) \<or>
     (\<exists>j' \<in> set (queue_jobs q'). same_job j' j \<and> get_qj_file_size st' q' j' > 0 \<and>
        waiting_before (job_id j) (queue_jobs q') < waiting_before (job_id j) (queue_jobs q))"
proof -
  have ok: "queue_ok q" "q_id q = qid" using st q by (simp_all add: find_queue_ok)
  obtain f q1 st1 where pick: "pick_job qe u jt q st = (Some f, q1, st1)"
    and f: "job_id f = job_id j \<or> f \<in> set (takeWhile (\<lambda>k. job_id k \<noteq> job_id j) (queue_jobs q1))"
    by (rule pick_job_finds [OF ok(1) j])
  have spec: "f \<in> set (queue_jobs q1)" "servable qe u jt f" "q_id q1 = qid" "nwe_queues st1 = nwe_queues st"
    using pick_job_spec [OF ok(1) pick] ok by auto
  obtain j1 where j1: "j1 \<in> set (queue_jobs q1)" "same_job j1 j"
    and wait: "waiting_before (job_id j) (queue_jobs q1) \<le> waiting_before (job_id j) (queue_jobs q)"
    and frame: "q_status q1 = q_status q" "qserver q1 = qserver q"
      "\<And>k. get_qj_file_size st1 q1 k > 0 \<longleftrightarrow> get_qj_file_size st q k > 0"
    using pick_job_keeps [OF ok(1) pick j(1)] j(3) by auto
  let ?f = "f\<lparr>server_id := u, server_station := c, server_task := t\<rparr>"
  let ?q = "change_job f ?f q1"
  have st': "st' = put_queue ?q st1"
    using q d pick by (auto simp: st'_def nw_service_queue_job_def Let_def split: prod.splits)
  have id: "q_id ?q = qid" using spec by (simp add: change_job_def)
  show thesis
  proof (rule that [of ?q])
    show "find_queue st' qid = Some ?q" using id by (simp add: st')
    show "is_qserver ?q u c" "q_status ?q AND 4 = 0" using q frame by (simp_all add: is_qserver_def change_job_def)
    show "(\<exists>j' \<in> set (queue_jobs ?q). job_id j' = job_id j \<and> server_id j' = u \<and> server_station j' = c) \<or>
     (\<exists>j' \<in> set (queue_jobs ?q). same_job j' j \<and> get_qj_file_size st' ?q j' > 0 \<and>
        waiting_before (job_id j) (queue_jobs ?q) < waiting_before (job_id j) (queue_jobs q))"
    proof (cases "job_id f = job_id j")
      case True
      with in_replace1 [OF spec(1), of ?f] show ?thesis by (auto simp: change_job_def intro!: bexI [of _ ?f])
    next
      case False
      then have "j1 \<noteq> f" using same_job_D [OF j1(2)] by auto
      then have "j1 \<in> set (queue_jobs ?q)" using keep_replace1 [OF j1(1)] by (simp add: change_job_def)
      moreover have "get_qj_file_size st1 ?q j1 = get_qj_file_size st1 q1 j1"
        by (simp add: get_qj_file_size_def build_unix_queue_file_def change_job_def)
      moreover have "waiting_before (job_id j) (queue_jobs ?q) < waiting_before (job_id j) (queue_jobs q)"
        using waiting_replace1 [of f "job_id j" "queue_jobs q1" ?f] f False spec(2) u wait
        by (simp add: change_job_def servable_def)
      ultimately show ?thesis using j1 frame(3) [of j1] size_same [OF j1(2), of st q] j(3) by (auto simp: st')
    qed
  qed
qed

text \<open>C31. A job that is ready is served: it is closed by its client, its time has come, it is meant for
  this queue server and has something to print.  A queue server that is attached and keeps asking gets it after at
  most as many requests as jobs wait before it, and one more; nothing else is asked of the order of the jobs or
  of the other jobs, empty ones and ones of other servers included.\<close>

theorem ready_job_is_served:
  assumes "qstate_ok st" and "find_queue st qid = Some q" "is_qserver q u c" "q_status q AND 4 = 0"
    and "fst (nw_get_q_dirname env qid b) > 0" and "u \<noteq> 0"
    and "j \<in> set (queue_jobs q)" "servable qe u jt j" "get_qj_file_size st q j > 0"
  shows "\<exists>k \<le> Suc (waiting_before (job_id j) (queue_jobs q)). \<exists>q' j'.
    find_queue (((\<lambda>s. snd (snd (nw_service_queue_job qe env b u c t qid jt resp s))) ^^ k) st) qid = Some q' \<and>
    j' \<in> set (queue_jobs q') \<and> job_id j' = job_id j \<and> server_id j' = u \<and> server_station j' = c"
  using assms
proof (induction "waiting_before (job_id j) (queue_jobs q)" arbitrary: st q j rule: less_induct)
  case less
  let ?run = "\<lambda>s. snd (snd (nw_service_queue_job qe env b u c t qid jt resp s))"
  obtain q' where q': "find_queue (?run st) qid = Some q'" "is_qserver q' u c" "q_status q' AND 4 = 0"
    "(\<exists>j' \<in> set (queue_jobs q'). job_id j' = job_id j \<and> server_id j' = u \<and> server_station j' = c) \<or>
     (\<exists>j' \<in> set (queue_jobs q'). same_job j' j \<and> get_qj_file_size (?run st) q' j' > 0 \<and>
        waiting_before (job_id j) (queue_jobs q') < waiting_before (job_id j) (queue_jobs q))"
    by (rule service_progress [OF less.prems refl, of t resp])
  from q'(4) show ?case
  proof
    assume "\<exists>j' \<in> set (queue_jobs q'). job_id j' = job_id j \<and> server_id j' = u \<and> server_station j' = c"
    with q'(1) show ?thesis by (intro exI [of _ 1]) auto
  next
    assume "\<exists>j' \<in> set (queue_jobs q'). same_job j' j \<and> get_qj_file_size (?run st) q' j' > 0 \<and>
        waiting_before (job_id j) (queue_jobs q') < waiting_before (job_id j) (queue_jobs q)"
    then obtain j' where j': "j' \<in> set (queue_jobs q')" "same_job j' j" "get_qj_file_size (?run st) q' j' > 0"
      and fewer: "waiting_before (job_id j) (queue_jobs q') < waiting_before (job_id j) (queue_jobs q)" by blast
    have same: "job_id j' = job_id j" "servable qe u jt j'" using same_job_D [OF j'(2)] less.prems(8) by auto
    from less.hyps [OF _ nw_service_queue_job_ok [OF less.prems(1)] q'(1-3) less.prems(5,6) j'(1) same(2) j'(3)] fewer same(1)
    obtain k where k: "k \<le> Suc (waiting_before (job_id j) (queue_jobs q'))" and "\<exists>q'' j''.
      find_queue ((?run ^^ k) (?run st)) qid = Some q'' \<and> j'' \<in> set (queue_jobs q'') \<and> job_id j'' = job_id j \<and>
      server_id j'' = u \<and> server_station j'' = c" by auto
    then have "\<exists>q'' j''. find_queue ((?run ^^ Suc k) st) qid = Some q'' \<and> j'' \<in> set (queue_jobs q'') \<and>
      job_id j'' = job_id j \<and> server_id j'' = u \<and> server_station j'' = c" by (simp only: funpow_Suc_right o_apply)
    with k fewer show ?thesis by (intro exI [of _ "Suc k"]) auto
  qed
qed

section \<open>The end of a connection\<close>

text \<open>What the end of a connection, or of one of its tasks, makes of the jobs of a queue.\<close>

definition close_pending :: "qstate \<Rightarrow> NWE_QUEUE \<Rightarrow> int \<Rightarrow> int \<Rightarrow> INT_QUEUE_JOB list" where
  "close_pending st q c t =
     renumber 1 (map (\<lambda>j. if pending c t j then clear_open j else j)
       (filter (\<lambda>j. pending c t j \<longrightarrow> get_qj_file_size st q j > 0) (queue_jobs q)))"

lemma renumber_map_filter:
  assumes "\<And>j p. P (j\<lparr>job_position := p\<rparr>) = P j" and "\<And>j p. f (j\<lparr>job_position := p\<rparr>) = (f j)\<lparr>job_position := p\<rparr>"
  shows "renumber pos (map f (filter P (renumber pos' js))) = renumber pos (map f (filter P js))"
  using assms(1) by (induction js arbitrary: pos pos') (simp_all add: assms(2))

lemma map_filter_replace1:
  "P x \<Longrightarrow> P y \<Longrightarrow> f x = f y \<Longrightarrow> map f (filter P (replace1 x y js)) = map f (filter P js)"
  by (induction js) auto

lemma position_irrelevant [simp]:
  "pending c t (j\<lparr>job_position := p\<rparr>) = pending c t j" "clear_open (j\<lparr>job_position := p\<rparr>) = (clear_open j)\<lparr>job_position := p\<rparr>"
  "get_qj_file_size st q (j\<lparr>job_position := p\<rparr>) = get_qj_file_size st q j" "\<not> pending c t (clear_open j)"
  "get_qj_file_size st q (clear_open j) = get_qj_file_size st q j"
  by (simp_all add: pending_def clear_open_def get_qj_file_size_def build_unix_queue_file_def job_name_def and.assoc)

lemma size_frame:
  "queuedir_len q' = queuedir_len q \<Longrightarrow> queuedir q' = queuedir q \<Longrightarrow> queuedir_downshift q' = queuedir_downshift q \<Longrightarrow>
     get_qj_file_size st q' j = get_qj_file_size st q j"
  by (simp add: get_qj_file_size_def build_unix_queue_file_def)

lemma close_jobs_spec:
  "queue_ok q \<Longrightarrow> queue_jobs (fst (close_jobs qe c t q st)) = close_pending st q c t \<and>
     q_id (fst (close_jobs qe c t q st)) = q_id q \<and>
     (\<forall>q' j. get_qj_file_size (snd (close_jobs qe c t q st)) q' j > 0 \<longleftrightarrow> get_qj_file_size st q' j > 0)"
proof (induction qe c t q st rule: close_jobs.induct)
  case (1 qe c t q st)
  have pos: "renumber 1 (queue_jobs q) = queue_jobs q"
    using "1.prems" unfolding queue_ok_def positions_1 positions_iff by blast
  show ?case
  proof (cases "find (pending c t) (queue_jobs q)")
    case None
    then have "\<forall>j \<in> set (queue_jobs q). \<not> pending c t j" by (auto simp: find_None_iff)
    then have "close_pending st q c t = queue_jobs q" by (simp add: close_pending_def pos cong: map_cong filter_cong)
    with None show ?thesis by (simp add: close_jobs.simps)
  next
    case (Some x)
    then have x: "x \<in> set (queue_jobs q)" "pending c t x" by (auto dest: find_Some_D)
    show ?thesis
    proof (cases "get_qj_file_size st q x > 0")
      case True
      let ?q = "change_job x (clear_open x) q"
      have "queue_ok ?q" using "1.prems" x by (intro change_job_ok) (auto dest: queue_ok_job)
      moreover have "close_pending st ?q c t = close_pending st q c t"
        using x True unfolding close_pending_def change_job_def
        by (simp add: size_frame [of "q\<lparr>queue_jobs := _\<rparr>" q] map_filter_replace1)
      ultimately show ?thesis using "1.IH"(1) [OF Some True] Some True
        by (subst (1 2 3) close_jobs.simps) (simp add: change_job_def)
    next
      case False
      let ?q = "free_queue_job q (job_id x)" and ?st = "snd (remove_queue_job_file qe q x st)"
      have size: "get_qj_file_size ?st q' j > 0 \<longleftrightarrow> get_qj_file_size st q' j > 0" for q' j
        using False by (simp add: size_after_remove)
      have fr: "get_qj_file_size st ?q j = get_qj_file_size st q j" for j by (rule size_free [OF "1.prems"])
      have jobs: "queue_jobs ?q = renumber 1 (filter (\<lambda>j. job_id j \<noteq> job_id x) (queue_jobs q))"
        using x by (simp add: free_queue_job_eq [OF "1.prems"])
      have "filter (\<lambda>j. job_id j \<noteq> job_id x \<and> (pending c t j \<longrightarrow> get_qj_file_size st q j > 0)) (queue_jobs q) =
        filter (\<lambda>j. pending c t j \<longrightarrow> get_qj_file_size st q j > 0) (queue_jobs q)"
        using ids_unique [OF "1.prems" _ x(1)] x False by (intro filter_cong) auto
      then have "close_pending ?st ?q c t = close_pending st q c t"
        unfolding close_pending_def jobs by (simp add: size fr renumber_map_filter)
      then show ?thesis using "1.IH"(2) [OF Some False free_queue_job_ok [OF "1.prems"]] Some False size
        by (subst (1 2 3) close_jobs.simps) (simp add: free_frame "1.prems")
    qed
  qed
qed

lemma connection_closes:
  assumes "qstate_ok st"
  shows "map (\<lambda>q. (q_id q, queue_jobs q)) (nwe_queues (nw_close_connection_jobs qe c t st)) =
    map (\<lambda>q. (q_id q, close_pending st q c t)) (nwe_queues st)"
proof -
  have "map (\<lambda>q. (q_id q, queue_jobs q)) (fst (close_queues qe c t qs st1)) = map (\<lambda>q. (q_id q, close_pending st q c t)) qs"
    if "list_all queue_ok qs" "\<forall>q j. get_qj_file_size st1 q j > 0 \<longleftrightarrow> get_qj_file_size st q j > 0" for qs st1
    using that
  proof (induction qs arbitrary: st1)
    case (Cons q qs)
    obtain q' st2 where 1: "close_jobs qe c t q st1 = (q', st2)" by fastforce
    obtain qs' st3 where 2: "close_queues qe c t qs st2 = (qs', st3)" by fastforce
    have "close_pending st1 q c t = close_pending st q c t" using Cons.prems(2) by (simp add: close_pending_def)
    with Cons.IH [of st2] Cons.prems close_jobs_spec [of q qe c t st1] show ?case by (simp add: 1 2)
  qed simp
  from this [of "nwe_queues st" st] assms show ?thesis
    by (simp add: nw_close_connection_jobs_def qstate_ok_def split: prod.splits) (metis fst_conv)
qed

text \<open>C33. The end of a connection closes exactly its own open jobs: those with something to print stay in their
  place and are ready to be served, the empty ones go, all the others stay as they were.  The loop, which starts again
  from the first job after each change, ends.\<close>

theorem connection_end_closes_jobs:
  "qstate_ok st \<Longrightarrow> map (\<lambda>q. (q_id q, queue_jobs q)) (nwe_queues (nw_close_connection_jobs qe c t st)) =
     map (\<lambda>q. (q_id q, close_pending st q c t)) (nwe_queues st)"
  by (rule connection_closes)

section \<open>Jobs that are served\<close>

definition holds_job :: "u32 \<Rightarrow> INT_QUEUE_JOB \<Rightarrow> qstate \<Rightarrow> bool" where
  "holds_job qid j st = (\<exists>q. find_queue st qid = Some q \<and> (\<exists>j' \<in> set (queue_jobs q). same_job j' j))"

text \<open>The requests that do not concern the job \<open>j\<close> of the queue \<open>qid\<close>: those of other clients and
  other queue servers, and requests about other jobs.\<close>

inductive foreign_step :: "u32 \<Rightarrow> INT_QUEUE_JOB \<Rightarrow> qstate \<Rightarrow> qstate \<Rightarrow> bool" for qid j where
  creat_job: "foreign_step qid j st (snd (snd (nw_creat_queue_job qe env b c t ob qid' r resp st)))"
| close_job: "qid' \<noteq> qid \<or> i \<noteq> job_id j \<Longrightarrow> foreign_step qid j st (snd (snd (nw_close_queue_job env b qid' i st)))"
| set_status: "foreign_step qid j st (snd (nw_set_queue_status qid' s st))"
| remove_job: "qid' \<noteq> qid \<or> i \<noteq> job_id j \<or> u \<noteq> 1 \<and> u \<noteq> client_id j \<Longrightarrow>
    foreign_step qid j st (snd (nw_remove_job_from_queue qe u qid' i st))"
| close_conn: "foreign_step qid j st (nw_close_connection_jobs qe c t st)"
| attach: "foreign_step qid j st (snd (nw_attach_server_to_queue env b u c qid' st))"
| detach: "foreign_step qid j st (snd (nw_detach_server_from_queue u c qid' st))"
| service: "foreign_step qid j st (snd (snd (nw_service_queue_job qe env b u c t qid' jt resp st)))"
| finish_abort: "qid' \<noteq> qid \<or> i \<noteq> job_id j \<or> u \<noteq> server_id j \<or> c \<noteq> server_station j \<Longrightarrow>
    foreign_step qid j st (snd (nw_finish_abort_queue_job qe mode u c qid' i st))"

lemma foreign_is_step: "foreign_step qid j st st' \<Longrightarrow> queue_step st st'"
  by (induction rule: foreign_step.induct) (auto intro: queue_step.intros)

text \<open>A request replaces one queue; the job is kept if that queue keeps it.\<close>

lemma holds_put:
  assumes "qstate_ok st" "holds_job qid j st" "find_queue st qid' = Some q" "q_id q2 = q_id q" "nwe_queues st1 = nwe_queues st"
    and "qid' = qid \<Longrightarrow> \<exists>j' \<in> set (queue_jobs q). same_job j' j \<Longrightarrow> \<exists>j' \<in> set (queue_jobs q2). same_job j' j"
  shows "holds_job qid j (put_queue q2 st1)"
proof -
  have "q_id q = qid'" using assms(1,3) by (simp add: find_queue_ok)
  moreover have "find_queue st1 qid = find_queue st qid" using assms(5) by (simp add: find_queue_def)
  moreover have "\<exists>j' \<in> set (queue_jobs q). same_job j' j" if "qid' = qid"
    using assms(2,3) that by (simp add: holds_job_def)
  ultimately show ?thesis using assms(2,4,6) by (cases "qid' = qid") (simp_all add: holds_job_def)
qed

lemma holds_free:
  assumes "queue_ok q" "\<exists>j' \<in> set (queue_jobs q). same_job j' j" "job_id j \<noteq> i"
  shows "\<exists>j' \<in> set (queue_jobs (free_queue_job q i)). same_job j' j"
proof -
  from assms(2) obtain k where k: "k \<in> set (queue_jobs q)" "same_job k j" by blast
  from free_keeps(1) [OF assms(1) k(1), of i] same_job_D [OF k(2)] assms(3) k(2) show ?thesis
    by (auto intro: same_job_trans)
qed

lemma holds_change:
  assumes "\<exists>j' \<in> set (queue_jobs q). same_job j' j" "job_id j \<noteq> job_id x"
  shows "\<exists>j' \<in> set (queue_jobs (change_job x y q)). same_job j' j"
proof -
  from assms(1) obtain k where k: "k \<in> set (queue_jobs q)" "same_job k j" by blast
  with assms(2) have "k \<noteq> x" using same_job_D [OF k(2)] by auto
  from keep_replace1 [OF k(1) this] k(2) show ?thesis by (auto simp: change_job_def)
qed

lemma holds_put_job:
  assumes "find_queue_job q i = Some x" "job_id y = i" "\<exists>j' \<in> set (queue_jobs q). same_job j' j" "job_id j \<noteq> i"
  shows "\<exists>j' \<in> set (queue_jobs (put_job y q)). same_job j' j"
  using holds_change [OF assms(3), of x y] assms find_queue_job_D [OF assms(1)] by (simp add: put_job_change)

lemma put_job_id [simp]: "q_id (put_job y q) = q_id q" and change_job_id [simp]: "q_id (change_job x y q) = q_id q"
  by (simp_all add: put_job_def change_job_def)

lemma holds_frame: "nwe_queues st1 = nwe_queues st \<Longrightarrow> holds_job qid j st1 = holds_job qid j st"
  by (simp add: holds_job_def find_queue_def)

lemma holds_creat:
  assumes ok: "qstate_ok st" and h: "holds_job qid j st"
  shows "holds_job qid j (snd (snd (nw_creat_queue_job qe env b c t ob qid' r resp st)))"
proof (cases "find_queue st qid'")
  case (Some que)
  then have que: "queue_ok que" using ok by (simp add: find_queue_ok)
  show ?thesis
  proof (rule new_queue_job_cases [OF que, of qe c t ob])
    assume "new_queue_job qe que c t ob = (None, que)"
    then show ?thesis using h Some ok
      by (auto simp: nw_creat_queue_job_def intro: holds_put split: prod.splits)
  next
    fix jo q1 assume *: "new_queue_job qe que c t ob = (Some jo, q1)" "queue_ok q1" "find_queue_job q1 (job_id jo) = Some jo"
      "queue_jobs q1 = queue_jobs que @ [jo]" "job_id jo \<notin> job_id ` set (queue_jobs que)" "q_id q1 = q_id que"
    have keep: "\<exists>j' \<in> set (queue_jobs (put_job (copy_request qe r jo) q1)). same_job j' j"
      if k: "\<exists>j' \<in> set (queue_jobs que). same_job j' j"
    proof (rule holds_put_job [OF *(3)])
      from k have "job_id j \<in> job_id ` set (queue_jobs que)" by (metis image_eqI same_job_D)
      with *(5) show "job_id j \<noteq> job_id jo" by auto
    qed (use k *(4) in auto)
    have "holds_job qid j (put_queue (put_job (copy_request qe r jo) q1) st)"
      by (rule holds_put [OF ok h Some]) (use keep *(6) in auto)
    then show ?thesis using h Some * by (auto simp: nw_creat_queue_job_def Let_def split: prod.splits)
  qed
qed (use h in \<open>auto simp: nw_creat_queue_job_def split: prod.splits\<close>)

lemma holds_close_job:
  assumes ok: "qstate_ok st" and h: "holds_job qid j st" and other: "qid' \<noteq> qid \<or> i \<noteq> job_id j"
  shows "holds_job qid j (snd (snd (nw_close_queue_job env b qid' i st)))"
proof (cases "find_queue st qid'")
  case (Some q)
  then have q: "queue_ok q" using ok by (simp add: find_queue_ok)
  show ?thesis
  proof (cases "find_queue_job q i")
    case (Some jo)
    note id = find_queue_job_D [OF Some]
    have ok_put: "queue_ok (put_job y q)" if "y = clear_open (jo\<lparr>client_area := a\<rparr>)" for y a
      using that id queue_ok_job [OF q] by (intro put_job_ok [OF q Some]) auto
    have keep: "\<exists>j' \<in> set (queue_jobs (put_job y q)). same_job j' j"
      if "y = clear_open (jo\<lparr>client_area := a\<rparr>)" "qid' = qid" "\<exists>j' \<in> set (queue_jobs q). same_job j' j" for y a
      by (rule holds_put_job [OF Some _ that(3)]) (use that id other in auto)
    have "holds_job qid j (put_queue (put_job y q) st) \<and> holds_job qid j (put_queue (free_queue_job (put_job y q) i) st)"
      if y: "y = clear_open (jo\<lparr>client_area := a\<rparr>)" for y a
    proof
      show "holds_job qid j (put_queue (put_job y q) st)"
        by (rule holds_put [OF ok h \<open>find_queue st qid' = Some q\<close>]) (simp_all add: keep [OF y])
      show "holds_job qid j (put_queue (free_queue_job (put_job y q) i) st)"
        by (rule holds_put [OF ok h \<open>find_queue st qid' = Some q\<close>])
           (use other in \<open>auto simp: free_frame ok_put [OF y] intro: holds_free [OF ok_put [OF y] keep [OF y]]\<close>)
    qed
    note both = this [OF refl]
    have "jo\<lparr>client_area := client_area jo\<rparr> = jo" by simp
    with both both [of "client_area jo"] show ?thesis using \<open>find_queue st qid' = Some q\<close> Some
      by (simp add: nw_close_queue_job_def Let_def split: prod.splits)
  qed (use h Some in \<open>simp add: nw_close_queue_job_def\<close>)
qed (use h in \<open>simp add: nw_close_queue_job_def\<close>)

lemma holds_remove:
  assumes ok: "qstate_ok st" and h: "holds_job qid j st"
    and other: "qid' \<noteq> qid \<or> i \<noteq> job_id j \<or> u \<noteq> 1 \<and> u \<noteq> client_id j"
  shows "holds_job qid j (snd (nw_remove_job_from_queue qe u qid' i st))"
proof (cases "find_queue st qid'")
  case (Some q)
  then have q: "queue_ok q" using ok by (simp add: find_queue_ok)
  have "holds_job qid j (put_queue (free_queue_job q i) st1)"
    if x: "find_queue_job q i = Some x" "u = 1 \<or> u = client_id x" and st1: "nwe_queues st1 = nwe_queues st" for x st1
  proof (rule holds_put [OF ok h Some _ st1])
    show "q_id (free_queue_job q i) = q_id q" using q by (simp add: free_frame)
    assume same: "qid' = qid" "\<exists>j' \<in> set (queue_jobs q). same_job j' j"
    then obtain k where k: "k \<in> set (queue_jobs q)" "same_job k j" by blast
    note D = same_job_D [OF k(2)]
    have "job_id j \<noteq> i"
    proof
      assume "job_id j = i"
      then have "k = x" using ids_unique [OF q k(1), of x] find_queue_job_D [OF x(1)] D by simp
      then show False using other same(1) x(2) D \<open>job_id j = i\<close> by auto
    qed
    then show "\<exists>j' \<in> set (queue_jobs (free_queue_job q i)). same_job j' j" by (rule holds_free [OF q same(2)])
  qed
  moreover have "nwe_queues st1 = nwe_queues st \<and> holds_job qid j st1"
    if "remove_queue_job_file qe q x st = (r, st1)" for x r st1
    using remove_file_frame(1) [of qe q x st] that h holds_frame [of st1 st] by simp
  ultimately show ?thesis using h Some
    by (auto simp: nw_remove_job_from_queue_def Let_def split: option.splits prod.splits)
qed (use h in \<open>simp add: nw_remove_job_from_queue_def\<close>)

lemma holds_finish:
  assumes ok: "qstate_ok st" and h: "holds_job qid j st"
    and other: "qid' \<noteq> qid \<or> i \<noteq> job_id j \<or> u \<noteq> server_id j \<or> c \<noteq> server_station j"
  shows "holds_job qid j (snd (nw_finish_abort_queue_job qe mode u c qid' i st))"
proof (cases "find_queue st qid'")
  case (Some q)
  then have q: "queue_ok q" using ok by (simp add: find_queue_ok)
  have another: "job_id j \<noteq> i"
    if x: "find_queue_job q i = Some x" "server_id x = u \<and> server_station x = c" "qid' = qid" and
      same: "\<exists>j' \<in> set (queue_jobs q). same_job j' j" for x
  proof
    from same obtain k where k: "k \<in> set (queue_jobs q)" "same_job k j" by blast
    note D = same_job_D [OF k(2)]
    assume "job_id j = i"
    then have "k = x" using ids_unique [OF q k(1), of x] find_queue_job_D [OF x(1)] D by simp
    then show False using other x(2,3) D \<open>job_id j = i\<close> by auto
  qed
  have "holds_job qid j (put_queue (free_queue_job q i) st1)"
    if "find_queue_job q i = Some x" "server_id x = u \<and> server_station x = c" "nwe_queues st1 = nwe_queues st" for x st1
    by (rule holds_put [OF ok h Some _ that(3)]) (simp_all add: free_frame q holds_free [OF q _ another [OF that(1,2)]])
  moreover have "holds_job qid j (put_queue (put_job (x\<lparr>server_id := 0, server_station := 0\<rparr>) q) st)"
    if "find_queue_job q i = Some x" "server_id x = u \<and> server_station x = c" for x
    by (rule holds_put [OF ok h Some])
       (use find_queue_job_D [OF that(1)] in \<open>simp_all add: holds_put_job [OF that(1) _ _ another [OF that]]\<close>)
  moreover have "nwe_queues st1 = nwe_queues st \<and> holds_job qid j st1"
    if "remove_queue_job_file qe q x st = (r, st1)" for x r st1
    using remove_file_frame(1) [of qe q x st] that h holds_frame [of st1 st] by simp
  ultimately show ?thesis using h Some
    by (auto simp: nw_finish_abort_queue_job_def Let_def split: option.splits prod.splits)
qed (use h in \<open>simp add: nw_finish_abort_queue_job_def\<close>)

lemma holds_service:
  assumes ok: "qstate_ok st" and h: "holds_job qid j st" and served: "server_id j \<noteq> 0"
  shows "holds_job qid j (snd (snd (nw_service_queue_job qe env b u c t qid' jt resp st)))"
proof (cases "find_queue st qid'")
  case (Some q)
  then have q: "queue_ok q" using ok by (simp add: find_queue_ok)
  obtain r q1 st1 where pick: "pick_job qe u jt q st = (r, q1, st1)" by (metis prod_cases3)
  note spec = pick_job_spec [OF q pick]
  have keep: "\<exists>j' \<in> set (queue_jobs q1). same_job j' j" if same: "\<exists>j' \<in> set (queue_jobs q). same_job j' j"
  proof -
    from same obtain k where k: "k \<in> set (queue_jobs q)" "same_job k j" by blast
    then have "server_id k \<noteq> 0" using same_job_D [OF k(2)] served by simp
    with pick_job_keeps [OF q pick k(1)] k(2) show ?thesis by (auto intro: same_job_trans)
  qed
  have given: "\<exists>j' \<in> set (queue_jobs (change_job f y q1)). same_job j' j"
    if f: "r = Some f" and same: "\<exists>j' \<in> set (queue_jobs q1). same_job j' j" for f y
  proof -
    from same obtain k where k: "k \<in> set (queue_jobs q1)" "same_job k j" by blast
    have "k \<noteq> f" using spec f same_job_D [OF k(2)] served by (auto simp: servable_def)
    from keep_replace1 [OF k(1) this] k(2) show ?thesis by (auto simp: change_job_def)
  qed
  have "holds_job qid j (put_queue q1 st1)" by (rule holds_put [OF ok h Some]) (use spec keep in auto)
  moreover have "holds_job qid j (put_queue (change_job f y q1) st1)" if "r = Some f" for f y
    by (rule holds_put [OF ok h Some]) (use spec keep given [OF that] in auto)
  ultimately show ?thesis using h Some pick
    by (auto simp: nw_service_queue_job_def Let_def split: prod.splits option.splits)
qed (use h in \<open>simp add: nw_service_queue_job_def\<close>)

lemma holds_close_conn:
  assumes ok: "qstate_ok st" and h: "holds_job qid j st" and served: "server_id j \<noteq> 0"
  shows "holds_job qid j (nw_close_connection_jobs qe c t st)"
proof -
  from h obtain q k where q: "find_queue st qid = Some q" "k \<in> set (queue_jobs q)" "same_job k j"
    by (auto simp: holds_job_def)
  then have "queue_ok q" using ok by (simp add: find_queue_ok)
  from queue_ok_job [OF this q(2)] have np: "\<not> pending c t k"
    using served same_job_D [OF q(3)] by (auto simp: job_ok_def pending_def)
  then have "k \<in> set (map (\<lambda>j. if pending c t j then clear_open j else j)
      (filter (\<lambda>j. pending c t j \<longrightarrow> get_qj_file_size st q j > 0) (queue_jobs q)))"
    using q(2) by (intro image_eqI [of _ _ k] | simp)+
  from rel_member [OF rel_renumber this, of 1] q(3)
  have kept: "\<exists>j' \<in> set (close_pending st q c t). same_job j' j"
    by (auto simp: close_pending_def intro: same_job_trans)
  have find: "map_option queue_jobs (chain_find q_id i qs') = map_option g (chain_find q_id i qs)"
    if "map (\<lambda>q. (q_id q, queue_jobs q)) qs' = map (\<lambda>q. (q_id q, g q)) qs"
    for qs' qs :: "NWE_QUEUE list" and g i
    using that by (induction qs' qs rule: list_induct2') auto
  have "map_option queue_jobs (find_queue (nw_close_connection_jobs qe c t st) qid) = Some (close_pending st q c t)"
    using find [OF connection_closes [OF ok]] q(1) by (simp add: find_queue_def)
  with kept show ?thesis by (auto simp: holds_job_def)
qed

lemma foreign_step_holds:
  "foreign_step qid j st st' \<Longrightarrow> qstate_ok st \<Longrightarrow> server_id j \<noteq> 0 \<Longrightarrow> holds_job qid j st \<Longrightarrow> holds_job qid j st'"
proof (induction rule: foreign_step.induct)
  case (set_status st qid' s)
  then show ?case by (auto simp: nw_set_queue_status_def intro!: holds_put split: option.splits)
next
  case (attach st env b u c qid')
  then show ?case by (auto simp: nw_attach_server_to_queue_def Let_def intro!: holds_put split: option.splits)
next
  case (detach st u c qid')
  then show ?case by (auto simp: nw_detach_server_from_queue_def intro!: holds_put split: option.splits)
qed (simp_all add: holds_creat holds_close_job holds_remove holds_close_conn holds_service holds_finish)

text \<open>C32. A job belongs to one queue server: once a queue server has taken it, no sequence of new jobs, closes of
  other jobs, changes of the status, removals that are not by the owner or the supervisor, ends of
  connections, attaches and detaches, services of whomever, and ends of a service by another queue server or on another
  connection takes it away, changes it or gives it to somebody else.  Not among them are a close of that very job,
  which the code accepts from any client, its removal by the owner or the supervisor, the end of the service by
  its own queue server, the creation and destruction of queues, and a restart.\<close>

theorem served_job_stays:
  assumes "(foreign_step qid j)\<^sup>*\<^sup>* st st'" and "qstate_ok st" "server_id j \<noteq> 0" "holds_job qid j st"
  shows "holds_job qid j st'"
proof -
  have "qstate_ok st' \<and> holds_job qid j st'" using assms
    by (induction rule: rtranclp_induct) (auto intro: foreign_step_holds dest: foreign_is_step queue_step_ok)
  then show ?thesis ..
qed

section \<open>New jobs and lists of jobs\<close>

lemma chain_put_snoc: "key y \<notin> key ` set xs \<Longrightarrow> key x = key y \<Longrightarrow> chain_put key y (xs @ [x]) = xs @ [y]"
  by (induction xs) auto

text \<open>C35. A request for a new job succeeds as long as the queue holds less than 998 jobs: the job goes to the end of the
  queue under an id that no other job of the queue has, belongs to the client, is open and is served by nobody.\<close>

theorem new_job_is_queued:
  assumes "qstate_ok st" "find_queue st qid = Some que" "length (queue_jobs que) < 998"
    and "fst (nw_get_q_dirname env qid b) > 0"
  shows "\<exists>n answer que' jo. nw_creat_queue_job qe env b c t ob qid r resp st = (n, Some answer, put_queue que' st) \<and>
    queue_jobs que' = queue_jobs que @ [jo] \<and> job_id jo \<notin> job_id ` set (queue_jobs que) \<and>
    1 \<le> job_id jo \<and> job_id jo \<le> 999 \<and> job_position jo = int (length (queue_jobs que)) + 1 \<and>
    client_connection jo = c \<and> client_task jo = t \<and> client_id jo = ob \<and>
    job_control_flags jo AND 0x20 \<noteq> 0 \<and> server_id jo = 0"
proof -
  have que: "queue_ok que" using assms by (simp add: find_queue_ok)
  obtain len dirname where d: "nw_get_q_dirname env qid b = (len, dirname)" "len > 0" using assms(4) by (cases "nw_get_q_dirname env qid b") auto
  show ?thesis
  proof (rule new_queue_job_cases [OF que, of qe c t ob])
    assume "998 \<le> length (queue_jobs que)"
    with assms(3) show ?thesis by simp
  next
    fix jo q1 assume *: "new_queue_job qe que c t ob = (Some jo, q1)" "queue_jobs q1 = queue_jobs que @ [jo]"
      "job_id jo \<notin> job_id ` set (queue_jobs que)" "1 \<le> job_id jo" "job_id jo \<le> 999" "client_connection jo = c"
      "client_task jo = t" "client_id jo = ob" "server_id jo = 0" "job_position jo = int (length (queue_jobs que)) + 1"
    let ?jo = "copy_request qe r jo" and ?q = "put_job (copy_request qe r jo) q1"
    have "(x OR 0x20) AND 0x20 = (0x20 :: u32)" for x by (rule bit_word_eqI) (auto simp: bit_simps)
    then have flag: "(x OR 0x20) AND 0x20 \<noteq> (0 :: u32)" for x by simp
    have jo: "queue_jobs ?q = queue_jobs que @ [?jo]" using * by (simp add: put_job_def chain_put_snoc)
    have "client_connection ?jo = c" "client_task ?jo = t" "client_id ?jo = ob" "job_control_flags ?jo AND 0x20 \<noteq> 0"
      using * flag by (auto simp: copy_request_def split: wire_job.splits)
    with * jo d assms(2) show ?thesis
      by (auto simp: nw_creat_queue_job_def Let_def split: prod.splits intro!: exI [of _ ?q])
  qed
qed

text \<open>The ids in an answer to a request for the list of jobs.\<close>

definition listed :: "u8 list \<Rightarrow> int list" where
  "listed r = map (\<lambda>k. uint (get_be16 (drop (8 + 4 * k) r))) [0..<unat (get_32 (drop 4 r))]"

lemma drop_concat_4:
  "(\<And>x. length (f x) = 4) \<Longrightarrow> drop (4 * k) (concat (map f js)) = concat (map f (drop k js))"
proof (induction js arbitrary: k)
  case (Cons j js)
  then show ?case by (cases k) (auto simp: drop_append)
qed simp

lemma uint_job_id: "1 \<le> i \<Longrightarrow> i \<le> 999 \<Longrightarrow> uint (word_of_int i :: u16) = i"
  by (simp add: uint_word_of_int)

lemma listed_answer:
  assumes "find_queue st qid = Some q" "queue_ok q" "offset \<noteq> 0xffffffff"
  shows "listed (snd (nw_get_queue_job_list st qid offset)) = map job_id (take 125 (drop (unat offset) (queue_jobs q)))"
proof -
  let ?js = "take 125 (drop (unat offset) (queue_jobs q))" and ?f = "\<lambda>qj. u16_to_be16 (word_of_int (job_id qj)) @ [0, 0]"
  let ?r = "u32_to_32 (of_nat (length (queue_jobs q))) @ u32_to_32 (of_nat (length ?js)) @ concat (map ?f ?js)"
  have r: "snd (nw_get_queue_job_list st qid offset) = ?r" using assms by (simp add: nw_get_queue_job_list_def Let_def)
  have four: "length (u32_to_32 x) = 4" "length (?f j) = 4" for x j by (simp_all add: u32_to_32_def u16_to_be16_def)
  have count: "unat (get_32 (drop 4 ?r)) = length ?js" by (simp add: four unat_of_nat)
  have entry: "uint (get_be16 (drop (8 + 4 * k) ?r)) = job_id (?js ! k)" if k: "k < length ?js" for k
  proof -
    have "drop (8 + 4 * k) ?r = drop (4 * k) (concat (map ?f ?js))" by (simp add: four)
    also have "\<dots> = concat (map ?f (drop k ?js))" by (rule drop_concat_4) (rule four)
    also have "drop k ?js = ?js ! k # drop (Suc k) ?js" using k by (rule Cons_nth_drop_Suc [symmetric])
    finally have "drop (8 + 4 * k) ?r = u16_to_be16 (word_of_int (job_id (?js ! k))) @ [0, 0] @ concat (map ?f (drop (Suc k) ?js))"
      by simp
    moreover have "?js ! k \<in> set (queue_jobs q)" using nth_mem [OF k] by (meson in_set_dropD in_set_takeD)
    then have "1 \<le> job_id (?js ! k)" "job_id (?js ! k) \<le> 999" using queue_ok_job [OF assms(2)] by (auto simp: job_ok_def)
    ultimately show ?thesis by (simp add: uint_job_id)
  qed
  show ?thesis unfolding r listed_def count
    using entry by (intro nth_equalityI) (simp_all only: length_map length_upt nth_map nth_upt diff_zero add_0)
qed

lemma concat_chunks: "concat (map (\<lambda>k. take n (drop (n * k) xs)) [0..<m]) = take (n * m) xs"
proof (induction m)
  case (Suc m)
  have "take (n * Suc m) xs = take (n * m) xs @ take n (drop (n * m) xs)" by (simp only: take_add [symmetric] mult_Suc_right add.commute)
  with Suc show ?case by simp
qed simp

lemma at_most_999:
  assumes "queue_ok q"
  shows "length (queue_jobs q) \<le> 999"
proof -
  have "job_id ` set (queue_jobs q) \<subseteq> {1..999}" using queue_ok_job [OF assms] by (force simp: job_ok_def)
  then have "card (job_id ` set (queue_jobs q)) \<le> card {1..999 :: int}" by (intro card_mono) auto
  moreover have "card (job_id ` set (queue_jobs q)) = length (queue_jobs q)"
    using assms by (metis distinct_card length_map list.set_map queue_ok_def jobs_ok_def)
  ultimately show ?thesis by simp
qed

text \<open>A client that asks for the list of jobs in pieces of 125, with the offsets 0, 125 to 875, gets the ids of all
  jobs, each once and in the order of the queue.\<close>

theorem job_list_is_complete:
  assumes "qstate_ok st" "find_queue st qid = Some q"
  shows "concat (map (\<lambda>k. listed (snd (nw_get_queue_job_list st qid (of_nat (125 * k))))) [0..<8]) = map job_id (queue_jobs q)"
proof -
  have q: "queue_ok q" using assms by (simp add: find_queue_ok)
  have "listed (snd (nw_get_queue_job_list st qid (of_nat (125 * k)))) = map job_id (take 125 (drop (125 * k) (queue_jobs q)))"
    if "k < 8" for k
  proof -
    have "unat (of_nat (125 * k) :: u32) = 125 * k" using that by (simp add: unat_of_nat del: of_nat_mult)
    moreover from this have "of_nat (125 * k) \<noteq> (0xffffffff :: u32)" using that by force
    ultimately show ?thesis using listed_answer [OF assms(2) q, of "of_nat (125 * k)"] by simp
  qed
  then have "map (\<lambda>k. listed (snd (nw_get_queue_job_list st qid (of_nat (125 * k))))) [0..<8] =
    map (\<lambda>k. map job_id (take 125 (drop (125 * k) (queue_jobs q)))) [0..<8]" by (intro map_cong) auto
  also have "concat \<dots> = map job_id (concat (map (\<lambda>k. take 125 (drop (125 * k) (queue_jobs q))) [0..<8]))"
    by (simp add: map_concat comp_def)
  also have "\<dots> = map job_id (queue_jobs q)" using at_most_999 [OF q] by (simp only: concat_chunks) simp
  finally show ?thesis .
qed

section \<open>Restart\<close>

lemma exit_saves:
  assumes "distinct (map q_id qs)" "q \<in> set qs" "open_ok qe (q_id q)"
  shows "qsaved (fold (\<lambda>q t. snd (r_w_queue_jobs qe 2 q t)) qs st) (q_id q) = Some (queue_jobs q)"
proof -
  have other: "qsaved (fold (\<lambda>q t. snd (r_w_queue_jobs qe 2 q t)) qs st) i = qsaved st i" if "i \<notin> q_id ` set qs" for qs st i
    using that by (induction qs arbitrary: st) (auto simp: r_w_queue_jobs_def)
  show ?thesis using assms
  proof (induction qs arbitrary: st)
    case (Cons x qs)
    show ?case
    proof (cases "q = x")
      case True
      with Cons.prems have "q_id q \<notin> q_id ` set qs" by auto
      from other [OF this] True Cons.prems show ?thesis by (simp add: r_w_queue_jobs_def)
    qed (use Cons in auto)
  qed simp
qed

text \<open>The scans of the loop find the queues one after the other.\<close>

lemma find_None_filter: "find P xs = None \<Longrightarrow> filter P xs = []"
  by (simp add: find_None_iff filter_empty_conv)

lemma init_loop_scan:
  assumes open_obj: "dbm_ok env FNOBJ"
    and l: "obj_order env (objs b) = pre @ suf" "distinct (map o_id (pre @ suf))"
    and ids: "\<forall>x \<in> set (pre @ suf). o_id x \<noteq> 0 \<and> o_id x \<noteq> 0xffffffff"
    and last: "if pre = [] then last_id = 0xffffffff else last_id = o_id (last pre)" and n: "length suf < n"
  shows "init_loop n qe env b last_id st = fold (init_queue qe env b) (filter (\<lambda>x. o_type x = 3) suf) st"
  using l ids last n
proof (induction n arbitrary: pre suf last_id st)
  case (Suc n)
  let ?wild = "\<lparr>o_id = 0, o_name = [42], o_type = 3, o_flags = 0, o_security = 0\<rparr> :: NETOBJ"
  have P: "obj_matches env ?wild True = (\<lambda>x. o_type x = 3)" by (simp add: obj_matches_def fun_eq_iff)
  have rest: "(if last_id \<noteq> 0 \<and> last_id \<noteq> 0xffffffff
      then tl (dropWhile (\<lambda>x. o_id x \<noteq> last_id) (pre @ suf)) else pre @ suf) = suf"
  proof (cases "pre = []")
    case False
    then obtain p x where pre: "pre = p @ [x]" by (cases pre rule: rev_cases) auto
    with Suc.prems(2) have "o_id x \<notin> o_id ` set p" by simp
    then have "\<forall>y \<in> set p. o_id y \<noteq> o_id x" by (metis imageI)
    then have "dropWhile (\<lambda>y. o_id y \<noteq> o_id x) (p @ x # suf) = x # suf" by (simp add: dropWhile_append2)
    with pre Suc.prems(3,4) show ?thesis by simp
  qed (use Suc.prems(4) in simp)
  have scan: "scan_for_obj env ?wild last_id True b =
      (case find (\<lambda>x. o_type x = 3) suf of None \<Rightarrow> (-0xfc, ?wild) | Some x \<Rightarrow> (0, x))"
    using open_obj rest Suc.prems(1) by (simp add: scan_for_obj_def Let_def P)
  show ?case
  proof (cases "find (\<lambda>x. o_type x = 3) suf")
    case None
    then show ?thesis by (simp add: scan find_None_filter)
  next
    case (Some x)
    from find_split [OF Some] obtain s1 s2 where s: "suf = s1 @ x # s2" "\<forall>k \<in> set s1. o_type k \<noteq> 3" by blast
    have x: "o_type x = 3" using Some by (auto dest: find_Some_D)
    have "init_loop n qe env b (o_id x) (init_queue qe env b x st) =
        fold (init_queue qe env b) (filter (\<lambda>x. o_type x = 3) s2) (init_queue qe env b x st)"
      using Suc.prems s by (intro Suc.IH [of "pre @ s1 @ [x]" s2]) auto
    then show ?thesis using Some s x by (simp add: scan)
  qed
qed simp

lemma init_queues_eq:
  assumes "dbm_ok env FNOBJ" "scans_complete env" "distinct (map o_id (objs b))"
    and "\<forall>x \<in> set (objs b). o_id x \<noteq> 0 \<and> o_id x \<noteq> 0xffffffff"
  shows "init_queues qe env b flags st = fold (init_queue qe env b)
    (filter (\<lambda>x. o_type x = 3) (obj_order env (objs b))) (exit_queues qe (st\<lparr>entry18_flags := flags\<rparr>))"
proof -
  have "mset (obj_order env (objs b)) = mset (objs b)" using assms(2) by (simp add: scans_complete_def)
  then have "set (obj_order env (objs b)) = set (objs b)" "length (obj_order env (objs b)) = length (objs b)"
    "distinct (map o_id (obj_order env (objs b)))"
    using assms(3) by (metis set_mset_mset, metis size_mset, metis mset_map mset_eq_imp_distinct_iff)
  with assms(4) init_loop_scan [OF assms(1), of b "[]" "obj_order env (objs b)" "0xffffffff" "Suc (length (objs b))" qe]
  show ?thesis by (simp add: init_queues_def del: init_loop.simps)
qed

text \<open>Every queue that is set up has the jobs of its file, and the files stay as they are.\<close>

definition restored :: "queue_env \<Rightarrow> (u32 \<Rightarrow> INT_QUEUE_JOB list option) \<Rightarrow> qstate \<Rightarrow> bool" where
  "restored qe saved st =
     (qstate_ok st \<and> qsaved st = saved \<and>
      (\<forall>q \<in> set (nwe_queues st). \<forall>js. open_ok qe (q_id q) \<longrightarrow> saved (q_id q) = Some js \<longrightarrow> length js \<le> 998 \<longrightarrow>
         queue_jobs q = renumber 1 (map correct_job js)))"

lemma init_queue_restored:
  assumes "restored qe saved st"
  shows "restored qe saved (init_queue qe env b x st)" and
    "q_id ` set (nwe_queues (init_queue qe env b x st)) =
       q_id ` set (nwe_queues st) \<union> (if fst (build_unix_queue_dir qe env b (o_id x)) > 0 then {o_id x} else {})"
proof -
  let ?st = "mk_dir (DivPath (o_id x)) 448 st"
  have st: "nwe_queues ?st = nwe_queues st" "qsaved ?st = saved" "qstate_ok ?st"
    using assms by (simp_all add: restored_def mk_dir_def qstate_ok_def)
  have "restored qe saved (init_queue qe env b x st) \<and> q_id ` set (nwe_queues (init_queue qe env b x st)) =
       q_id ` set (nwe_queues st) \<union> (if fst (build_unix_queue_dir qe env b (o_id x)) > 0 then {o_id x} else {})"
  proof (cases "fst (build_unix_queue_dir qe env b (o_id x)) > 0")
    case True
    obtain q where q: "enter_queue qe (o_id x) (build_unix_queue_dir qe env b (o_id x)) ?st =
        ?st\<lparr>nwe_queues := nwe_queues ?st @ [q]\<rparr>" "queue_ok q" "q_id q = o_id x"
      "\<And>js. open_ok qe (o_id x) \<Longrightarrow> qsaved ?st (o_id x) = Some js \<Longrightarrow> length js \<le> 998 \<Longrightarrow>
         queue_jobs q = renumber 1 (map correct_job js)"
      using enter_queue_jobs [OF st(3)] by metis
    have "qstate_ok (?st\<lparr>nwe_queues := nwe_queues ?st @ [q]\<rparr>)" using q(2) st(3) by (simp add: qstate_ok_def)
    with q st True assms show ?thesis by (auto simp: init_queue_def Let_def restored_def)
  qed (use st assms in \<open>auto simp: init_queue_def Let_def restored_def\<close>)
  then show "restored qe saved (init_queue qe env b x st)"
    "q_id ` set (nwe_queues (init_queue qe env b x st)) =
       q_id ` set (nwe_queues st) \<union> (if fst (build_unix_queue_dir qe env b (o_id x)) > 0 then {o_id x} else {})" by blast+
qed

lemma fold_restored:
  "restored qe saved st \<Longrightarrow> restored qe saved (fold (init_queue qe env b) xs st) \<and>
     (\<forall>x \<in> set xs. fst (build_unix_queue_dir qe env b (o_id x)) > 0 \<longrightarrow>
        o_id x \<in> q_id ` set (nwe_queues (fold (init_queue qe env b) xs st))) \<and>
     q_id ` set (nwe_queues st) \<subseteq> q_id ` set (nwe_queues (fold (init_queue qe env b) xs st))"
proof (induction xs arbitrary: st)
  case (Cons x xs)
  note step = init_queue_restored [OF Cons.prems, of env b x]
  note IH = Cons.IH [OF step(1)]
  have "q_id ` set (nwe_queues st) \<subseteq> q_id ` set (nwe_queues (init_queue qe env b x st))"
    "fst (build_unix_queue_dir qe env b (o_id x)) > 0 \<Longrightarrow> o_id x \<in> q_id ` set (nwe_queues (init_queue qe env b x st))"
    by (simp_all add: step(2))
  then show ?case using IH by (simp del: init_loop.simps) blast
qed simp

lemma correct_positions: "queue_ok q \<Longrightarrow> renumber 1 (map correct_job (queue_jobs q)) = map correct_job (queue_jobs q)"
proof -
  have "renumber p (map correct_job js) = map correct_job (renumber p js)" for p js
    by (induction js arbitrary: p) (auto simp: correct_job_def)
  moreover assume "queue_ok q"
  then have "renumber 1 (queue_jobs q) = queue_jobs q" unfolding queue_ok_def positions_1 positions_iff by blast
  ultimately show ?thesis by simp
qed

lemma restored_jobs:
  "restored qe saved st \<Longrightarrow> q \<in> set (nwe_queues st) \<Longrightarrow> open_ok qe (q_id q) \<Longrightarrow> saved (q_id q) = Some js \<Longrightarrow>
     length js \<le> 998 \<Longrightarrow> queue_jobs q = renumber 1 (map correct_job js)"
  by (simp add: restored_def)

text \<open>C34. A restart of the server loses no job: when the queues are written and read again, every queue whose
  object is in the bindery and whose file can be opened comes back with the same jobs in the same order, only that no
  job is open or being served any more.\<close>

theorem queues_survive_restart:
  assumes "dbm_ok env FNOBJ" "scans_complete env" "bindery_ok b" "\<forall>x \<in> set (objs b). o_id x \<noteq> 0 \<and> o_id x \<noteq> 0xffffffff"
    and "qstate_ok st" "distinct (map q_id (nwe_queues st))"
    and "q \<in> set (nwe_queues st)" "open_ok qe (q_id q)" "length (queue_jobs q) \<le> 998"
    and "x \<in> set (objs b)" "o_id x = q_id q" "o_type x = 3" "fst (build_unix_queue_dir qe env b (q_id q)) > 0"
  shows "\<exists>q' \<in> set (nwe_queues (init_queues qe env b flags st)). q_id q' = q_id q \<and>
    queue_jobs q' = map correct_job (queue_jobs q)"
proof -
  let ?st = "exit_queues qe (st\<lparr>entry18_flags := flags\<rparr>)" and ?l = "filter (\<lambda>x. o_type x = 3) (obj_order env (objs b))"
  have "qstate_ok (st\<lparr>entry18_flags := flags\<rparr>)" using assms(5) by (simp add: qstate_ok_def)
  then have r: "restored qe (qsaved ?st) ?st" by (simp add: restored_def exit_queues_ok) (simp add: exit_queues_def)
  have saved: "qsaved ?st (q_id q) = Some (queue_jobs q)"
    using exit_saves [OF assms(6,7,8)] by (simp add: exit_queues_def)
  have "set (obj_order env (objs b)) = set (objs b)"
    using assms(2) by (metis scans_complete_def set_mset_mset)
  then have "x \<in> set ?l" using assms(10,12) by simp
  from fold_restored [OF r, of env b ?l, THEN conjunct2, THEN conjunct1, rule_format, OF this]
  have "q_id q \<in> q_id ` set (nwe_queues (fold (init_queue qe env b) ?l ?st))" using assms(11,13) by simp
  moreover have eq: "init_queues qe env b flags st = fold (init_queue qe env b) ?l ?st"
    using assms(3) by (intro init_queues_eq [OF assms(1,2) _ assms(4)]) (simp add: bindery_ok_def)
  ultimately obtain q' where q': "q' \<in> set (nwe_queues (init_queues qe env b flags st))" "q_id q' = q_id q"
    by (metis imageE)
  have "restored qe (qsaved ?st) (init_queues qe env b flags st)" using fold_restored [OF r, of env b ?l] eq by simp
  then have "queue_jobs q' = renumber 1 (map correct_job (queue_jobs q))"
    using restored_jobs [OF _ q'(1)] q'(2) saved assms(8,9) by simp
  then have "queue_jobs q' = map correct_job (queue_jobs q)"
    using assms(5,7) by (simp add: correct_positions qstate_ok_def list_all_iff)
  with q' show ?thesis by blast
qed

section \<open>A concrete queue\<close>

definition qid0 :: u32 where "qid0 = 0x30001"

definition queue_bindery :: bindery where
  "queue_bindery = \<lparr>objs = [\<lparr>o_id = qid0, o_name = cstr ''LASER'', o_type = 3, o_flags = 0, o_security = 0x31\<rparr>], iobjs = [],
     props = [\<lparr>p_obj_id = qid0, p_id = 1, p_name = cstr ''Q_DIRECTORY'', p_flags = 0, p_security = 0x31\<rparr>],
     vals = [\<lparr>v_obj_id = qid0, v_prop_id = 1, v_segment = 1, v_value = cstr ''SYS:PRT'' @ replicate 121 0\<rparr>]\<rparr>"

definition qe0 :: queue_env where
  "qe0 = \<lparr>now = 100, localtime = (\<lambda>t. \<lparr>tm_year = 98, tm_mon = 5, tm_mday = 4, tm_hour = 12, tm_min = 0, tm_sec = t mod 60\<rparr>),
     mktime = tm_sec, unlink_ok = (\<lambda>f. True), open_ok = (\<lambda>i. True), sys_unixname = cstr ''/sys/'', sys_sysname = cstr ''SYS'',
     sys_downshift = True, stack = []\<rparr>"

text \<open>Three jobs of client 5: one is being served by the queue server 7 on connection 2, one is ready, one
  is still open.\<close>

definition served0 :: INT_QUEUE_JOB where
  "served0 = empty_job\<lparr>client_connection := 5, client_id := 3, target_id := 0xffffffff, execute_time := -1, job_id := 1,
     job_typ := 0xffff, job_position := 1, server_id := 7, server_station := 2\<rparr>"

definition ready0 :: INT_QUEUE_JOB where
  "ready0 = empty_job\<lparr>client_connection := 5, client_id := 3, target_id := 0xffffffff, execute_time := -1, job_id := 2,
     job_typ := 0xffff, job_position := 2\<rparr>"

definition open0 :: INT_QUEUE_JOB where
  "open0 = empty_job\<lparr>client_connection := 5, client_id := 3, target_id := 0xffffffff, execute_time := -1, job_id := 3,
     job_typ := 0xffff, job_position := 3, job_control_flags := 0x20\<rparr>"

definition queue0 :: NWE_QUEUE where
  "queue0 = (new_queue qid0)\<lparr>last_job_id := 3, count_jobs := 3, queue_jobs := [served0, ready0, open0],
     queuedir := cstr ''/sys/prt'', queuedir_len := 8, queuedir_downshift := True,
     qserver := Some \<lparr>qs_connection = 2, qs_user_id = 7, status_record = replicate 64 0\<rparr>\<rparr>"

definition qstate0 :: qstate where
  "qstate0 = \<lparr>nwe_queues = [queue0], qsaved = (\<lambda>i. None), qfiles = (\<lambda>f. Some 10), qdirs = [], entry18_flags = 0\<rparr>"

lemmas jobs0 = served0_def ready0_def open0_def empty_job_def

lemma queue0_jobs [simp]: "queue_jobs queue0 = [served0, ready0, open0]" "q_id queue0 = qid0" "q_status queue0 = 0"
  by (simp_all add: queue0_def new_queue_def)

lemma qstate0_ok: "qstate_ok qstate0"
  by (simp add: qstate_ok_def qstate0_def queue_ok_def job_ok_def)
     (simp add: queue0_def new_queue_def jobs0 upt_rec)

lemma find_queue0: "find_queue qstate0 qid0 = Some queue0"
  by (simp add: find_queue_def qstate0_def)

lemma size0: "get_qj_file_size qstate0 q j = 10"
  by (simp add: get_qj_file_size_def qstate0_def)

lemma dirname0: "nw_get_q_dirname server_env qid0 queue_bindery = (7, cstr ''SYS:PRT'' @ replicate 121 0)"
  by code_simp

text \<open>A request for a new job: no target server, no time, type 0xffff, the rest zero.\<close>

definition request0 :: wire_job where
  "request0 = OldJob \<lparr>qo_client_connection = 0, qo_client_task = 0, qo_client_id = replicate 4 0,
     qo_target_id = replicate 4 255, qo_target_execute_time = replicate 6 255, qo_job_entry_time = replicate 6 0,
     qo_job_id = [0, 0], qo_job_typ = [255, 255], qo_job_position = 0, qo_job_control_flags = 0,
     qo_job_file_name = replicate 14 0, qo_job_file_handle = replicate 6 0, qo_server_station = 0, qo_server_task = 0,
     qo_server_id = replicate 4 0, qo_job_description = replicate 50 0, qo_client_area = replicate 152 0\<rparr>"

theorem ready_job_is_served_witness:
  "\<exists>k \<le> Suc (waiting_before 2 [served0, ready0, open0]). \<exists>q' j'.
     find_queue (((\<lambda>s. snd (snd (nw_service_queue_job qe0 server_env queue_bindery 7 2 1 qid0 0xffff request0 s))) ^^ k) qstate0) qid0
       = Some q' \<and> j' \<in> set (queue_jobs q') \<and> job_id j' = 2 \<and> server_id j' = 7 \<and> server_station j' = 2"
proof -
  have "is_qserver queue0 7 2" by (simp add: is_qserver_def queue0_def)
  moreover have "servable qe0 7 0xffff ready0" "job_id ready0 = 2" by (simp_all add: servable_def jobs0 qe0_def)
  ultimately show ?thesis
    using ready_job_is_served [OF qstate0_ok find_queue0, of 7 2 server_env queue_bindery ready0 qe0 "0xffff" 1 request0]
    by (simp add: dirname0 size0)
qed

theorem served_job_stays_witness:
  "holds_job qid0 served0 (snd (snd (nw_service_queue_job qe0 server_env queue_bindery 9 4 1 qid0 0xffff request0 qstate0)))"
proof -
  have h: "holds_job qid0 served0 qstate0" by (simp add: holds_job_def find_queue0)
  have s: "server_id served0 \<noteq> 0" by (simp add: jobs0)
  have "(foreign_step qid0 served0)\<^sup>*\<^sup>* qstate0
    (snd (snd (nw_service_queue_job qe0 server_env queue_bindery 9 4 1 qid0 0xffff request0 qstate0)))"
    by (rule r_into_rtranclp) (rule foreign_step.service)
  from served_job_stays [OF this qstate0_ok s h] show ?thesis .
qed

theorem connection_end_closes_jobs_witness:
  "map (\<lambda>q. (q_id q, queue_jobs q)) (nwe_queues (nw_close_connection_jobs qe0 5 (-1) qstate0)) =
     [(qid0, [served0, ready0, clear_open open0])]"
proof -
  have "close_pending qstate0 queue0 5 (-1) = [served0, ready0, clear_open open0]"
    by (simp add: close_pending_def size0 pending_def) (simp add: jobs0 clear_open_def)
  then show ?thesis using connection_end_closes_jobs [OF qstate0_ok, of qe0 5 "-1"] by (simp add: qstate0_def)
qed

theorem new_job_is_queued_witness:
  "\<exists>n answer que' jo. nw_creat_queue_job qe0 server_env queue_bindery 6 1 4 qid0 request0 request0 qstate0 =
     (n, Some answer, put_queue que' qstate0) \<and> queue_jobs que' = [served0, ready0, open0, jo] \<and> job_id jo \<notin> {1, 2, 3} \<and>
     client_id jo = 4 \<and> job_position jo = 4"
proof -
  have "job_id served0 = 1" "job_id ready0 = 2" "job_id open0 = 3" by (simp_all add: jobs0)
  with new_job_is_queued [OF qstate0_ok find_queue0, of server_env queue_bindery qe0 6 1 4 request0 request0] show ?thesis
    by (fastforce simp: dirname0)
qed

theorem job_list_is_complete_witness:
  "concat (map (\<lambda>k. listed (snd (nw_get_queue_job_list qstate0 qid0 (of_nat (125 * k))))) [0..<8]) = [1, 2, 3]"
  using job_list_is_complete [OF qstate0_ok find_queue0] by (simp add: jobs0)

theorem queues_survive_restart_witness:
  "\<exists>q' \<in> set (nwe_queues (init_queues qe0 server_env queue_bindery 0 qstate0)). q_id q' = qid0 \<and>
     queue_jobs q' = [correct_job served0, ready0, clear_open open0]"
proof -
  have "bindery_ok queue_bindery"
    by (simp add: bindery_ok_def queue_bindery_def vals_ok_def p_key_def v_key_def n_key_def cstr_def)
  moreover have "fst (build_unix_queue_dir qe0 server_env queue_bindery qid0) = 8" by code_simp
  moreover have "correct_job ready0 = ready0" "correct_job open0 = clear_open open0"
    by (simp_all add: jobs0 correct_job_def clear_open_def)
  moreover have "nwe_queues qstate0 = [queue0]" "objs queue_bindery = [\<lparr>o_id = qid0, o_name = cstr ''LASER'', o_type = 3,
      o_flags = 0, o_security = 0x31\<rparr>]" "dbm_ok server_env FNOBJ" "open_ok qe0 qid0" "qid0 \<noteq> 0" "qid0 \<noteq> 0xffffffff"
    by (simp_all add: qstate0_def queue_bindery_def server_env_def qe0_def qid0_def)
  ultimately show ?thesis
    using queues_survive_restart [of server_env queue_bindery qstate0 queue0 qe0 _ 0] qstate0_ok by simp
qed

theorem queues_stay_sound_witness:
  "qstate_ok (snd (nw_set_queue_status qid0 4 (init_queues qe0 server_env queue_bindery 0 (queues0 (\<lambda>f. None)))))"
  by (rule queues_stay_sound [of "\<lambda>f. None"])
     (meson queue_step.init queue_step.set_status converse_rtranclp_into_rtranclp rtranclp.rtrancl_refl)

end
