(* ===== verification/Nwbind.thy ===== *)
theory Nwbind
  imports Password Nwqueue Sema
begin

text \<open>The process \<^verbatim>\<open>nwbind\<close> of \<^verbatim>\<open>src/nwbind.c\<close>: it keeps the connections, executes the
  requests of clients about messages, logins, the bindery, the queues and the semaphores
  (\<^verbatim>\<open>handle_fxx\<close>), and takes orders from the other processes of the server
  (\<^verbatim>\<open>handle_ctrl\<close>).  A request is the buffer behind the packet header; an answer is its completion
  code, its connection status and its bytes.  What goes to other processes, to the console and to the login
  records is a list of events.  The part of the data base is \<open>Bindery\<close> and \<open>Password\<close>, that of the queues
  \<open>Nwqueue\<close>, that of the semaphores \<open>Sema\<close>.\<close>

section \<open>State\<close>

record NWCONN_REQUEST =
  rq_sequence :: int
  rq_function :: nat
  rq_sendtime :: int
  rq_data :: "u8 list"

record CONNECTION =
  client_adr :: "u8 list"
  object_id :: u32
  id_flags :: u32
  crypt_key :: "u8 list"
  t_login :: int
  message :: cstring
  active :: bool
  send_to_sock :: u16
  pid_nwconn :: u32
  request_nwconn :: "NWCONN_REQUEST option"
  last_used_sequence :: int
  cn_semas :: conn_semas

text \<open>What leaves the process: to \<^verbatim>\<open>nwserv\<close> (\<^verbatim>\<open>write_to_nwserv\<close>), to a client's
  \<^verbatim>\<open>nwconn\<close>, to the console and the login records, and signals.\<close>

datatype bind_event =
    ResetWdog int | HandleMsg int | DownServer
  | ToNwconn int NWCONN_REQUEST
  | Console cstring | Utmp bool int u32 "u8 list" cstring | Kill u32
  | UserDirs u32 cstring int int

record bind_state =
  connections :: "CONNECTION list"
  bind_db :: bindery
  sema_tab :: sema_table
  bind_queues :: qstate
  server_goes_down :: int
  outs :: "bind_event list"

text \<open>What a request depends on from outside: the surroundings of the data base, the passwords and the
  queues, the clock, random bytes, the configuration, the bytes that the answer buffer holds before, and the
  memory beside the array of connections, which two requests read.\<close>

record nb_env =
  dbs :: bind_env
  pwe :: pw_env
  que :: queue_env
  akttime :: int
  tm_wday :: "int \<Rightarrow> int"
  new_key :: "u8 list"
  entry8_flags :: u32
  my_nwname :: cstring
  tells_server_version :: int
  max_nw_vols :: int
  network_serial_nmbr :: u32
  network_appl_nmbr :: u16
  old_answer :: "u8 list"
  outside :: "int \<Rightarrow> CONNECTION"

record reply =
  completition :: u8
  connect_status :: u8
  answer :: "u8 list"

definition reply_ok :: "u8 list \<Rightarrow> reply" where
  "reply_ok d = \<lparr>completition = 0, connect_status = 0, answer = d\<rparr>"

definition reply_code :: "u8 \<Rightarrow> reply" where
  "reply_code c = \<lparr>completition = c, connect_status = 0, answer = []\<rparr>"

definition reply_error :: "int \<Rightarrow> reply" where
  "reply_error result = reply_code (word_of_int (- result))"

text \<open>The two ways the requests look at a result: an error is negative, or it is anything but zero.\<close>

definition reply_neg :: "int \<Rightarrow> reply" where
  "reply_neg result = (if result < 0 then reply_error result else reply_ok [])"

definition reply_nonzero :: "int \<Rightarrow> reply" where
  "reply_nonzero result = (if result \<noteq> 0 then reply_error result else reply_ok [])"

section \<open>Access to the state\<close>

definition conn_at :: "nb_env \<Rightarrow> bind_state \<Rightarrow> int \<Rightarrow> CONNECTION" where
  "conn_at ne st k =
     (if 0 \<le> k \<and> k < int (length (connections st)) then connections st ! nat k else outside ne k)"

definition act_c :: "bind_state \<Rightarrow> nat \<Rightarrow> CONNECTION" where
  "act_c st a = connections st ! a"

definition upd_conn :: "nat \<Rightarrow> (CONNECTION \<Rightarrow> CONNECTION) \<Rightarrow> bind_state \<Rightarrow> bind_state" where
  "upd_conn k f st = st\<lparr>connections := (connections st)[k := f (connections st ! k)]\<rparr>"

definition emit :: "bind_event \<Rightarrow> bind_state \<Rightarrow> bind_state" where
  "emit e st = st\<lparr>outs := outs st @ [e]\<rparr>"

text \<open>Access to the data base on behalf of the connection, and of the server itself
  (\<^verbatim>\<open>internal_act\<close>).\<close>

definition as_conn :: "nb_env \<Rightarrow> bind_state \<Rightarrow> nat \<Rightarrow> bind_env" where
  "as_conn ne st a = (dbs ne)\<lparr>acting := Some (object_id (act_c st a), id_flags (act_c st a))\<rparr>"

definition internal :: "nb_env \<Rightarrow> bind_env" where
  "internal ne = (dbs ne)\<lparr>acting := None\<rparr>"

definition is_su :: "bind_state \<Rightarrow> nat \<Rightarrow> bool" where
  "is_su st a = has (id_flags (act_c st a)) 1"

definition have_su_rights :: "bind_env \<Rightarrow> u32 \<Rightarrow> bindery \<Rightarrow> bool" where
  "have_su_rights env i b = (i = 1 \<or> nw_is_security_equal env 1 i b = 0)"

text \<open>Reading a request: numbers and counted strings.\<close>

definition be16_at :: "buffer \<Rightarrow> nat \<Rightarrow> u16" where "be16_at p k = get_be16 (bytes_at p k 2)"
definition be32_at :: "buffer \<Rightarrow> nat \<Rightarrow> u32" where "be32_at p k = get_be32 (bytes_at p k 4)"
definition name_at :: "buffer \<Rightarrow> nat \<Rightarrow> cstring" where
  "name_at p k = str_of (bytes_at p (k + 1) (unat (p k)))"
definition after :: "buffer \<Rightarrow> nat \<Rightarrow> nat" where "after p k = k + 1 + unat (p k)"

definition obj_of :: "u16 \<Rightarrow> cstring \<Rightarrow> NETOBJ" where
  "obj_of t n = \<lparr>o_id = 0, o_name = n, o_type = t, o_flags = 0, o_security = 0\<rparr>"

section \<open>Login restrictions\<close>

definition nw_valid_newpasswd :: "bind_env \<Rightarrow> u32 \<Rightarrow> cstring \<Rightarrow> bindery \<Rightarrow> int" where
  "nw_valid_newpasswd env obj_id newpasswd b =
     (case nw_get_login_control env obj_id b of
        None \<Rightarrow> 0
      | Some lc \<Rightarrow> if int (length newpasswd) < uint (minimumPasswordLength lc) then -0xd8 else 0)"

text \<open>The last second of a day.\<close>

definition end_of_day :: "nb_env \<Rightarrow> u8 \<Rightarrow> u8 \<Rightarrow> u8 \<Rightarrow> int" where
  "end_of_day ne y m d =
     (if y \<noteq> 0 then mktime (que ne) \<lparr>tm_year = uint y, tm_mon = uint m - 1, tm_mday = uint d, tm_hour = 23,
                                     tm_min = 59, tm_sec = 59\<rparr>
      else 0)"

definition half_hours :: "nb_env \<Rightarrow> nat" where
  "half_hours ne =
     (let t = now (que ne); tm = localtime (que ne) t
      in nat (tm_wday ne t * 48 + tm_hour tm * 2 + (if tm_min tm \<ge> 30 then 1 else 0)))"

definition nw_test_time_access :: "nb_env \<Rightarrow> u32 \<Rightarrow> bindery \<Rightarrow> int \<times> bindery" where
  "nw_test_time_access ne obj_id b =
     (case nw_get_login_control (internal ne) obj_id b of
        None \<Rightarrow> (0, b)
      | Some lc \<Rightarrow>
          let t = now (que ne);
              expiry = end_of_day ne (accountExpires lc ! 0) (accountExpires lc ! 1) (accountExpires lc ! 2);
              hh = half_hours ne;
              pw_expiry = end_of_day ne (passwordExpiresYear lc) (passwordExpiresMonth lc) (passwordExpiresDay lc)
          in if accountExpired lc \<noteq> 0 then (-0xdc, b)
             else if expiry > 0 \<and> t > expiry then (-0xdc, b)
             else if \<not> bit (timeBitMap lc ! (hh div 8)) (hh mod 8) then (-0xda, b)
             else if pw_expiry > 0 \<and> t > pw_expiry then
               if passwordGraceLogins lc = 0 then (-0xde, b)
               else if passwordGraceLogins lc \<noteq> 255
               then (-0xdf, nw_set_login_control (internal ne) obj_id
                              (lc\<lparr>passwordGraceLogins := passwordGraceLogins lc - 1\<rparr>) b)
               else (0, b)
             else (0, b))"

definition count_logins :: "CONNECTION list \<Rightarrow> u32 \<Rightarrow> nat" where
  "count_logins cs obj_id = length (filter (\<lambda>c. active c \<and> object_id c = obj_id) cs)"

definition station_allowed :: "u8 list \<Rightarrow> u8 list \<Rightarrow> bool" where
  "station_allowed adr buff =
     (\<exists>k \<in> set [0..<12]. take 4 adr = slice (10 * k) 4 buff \<and>
        (slice 4 6 adr = slice (10 * k + 4) 6 buff \<or> slice (10 * k + 4) 6 buff = replicate 6 0xff))"

definition nw_test_adr_access :: "nb_env \<Rightarrow> u32 \<Rightarrow> u8 list \<Rightarrow> CONNECTION list \<Rightarrow> bindery \<Rightarrow> int" where
  "nw_test_adr_access ne obj_id adr cs b =
     (if (case nw_get_prop_val_by_obj_id (internal ne) obj_id 1 (cstr ''NODE_CONTROL'') 12 b of
            Inr (buff, _, _) \<Rightarrow> \<not> station_allowed adr buff | Inl _ \<Rightarrow> False)
      then -0xdb
      else case nw_get_login_control (internal ne) obj_id b of
        None \<Rightarrow> 0
      | Some lc \<Rightarrow>
          let j = count_logins cs obj_id; limit = unat (get_be16 (maxConcurrentConnections lc))
          in if j > 0 \<and> limit \<noteq> 0 \<and> j \<ge> limit then -0xd9 else 0)"

definition set_last_login :: "nb_env \<Rightarrow> u32 \<Rightarrow> bindery \<Rightarrow> bindery" where
  "set_last_login ne obj_id b =
     (case nw_get_login_control (internal ne) obj_id b of
        None \<Rightarrow> b
      | Some lc \<Rightarrow>
          let tm = localtime (que ne) (now (que ne))
          in nw_set_login_control (internal ne) obj_id
               (lc\<lparr>lastLoginDate := [word_of_int (tm_year tm), word_of_int (tm_mon tm + 1), word_of_int (tm_mday tm),
                     word_of_int (tm_hour tm), word_of_int (tm_min tm), word_of_int (tm_sec tm)]\<rparr>) b)"

definition nw_test_adr_time_access :: "nb_env \<Rightarrow> u32 \<Rightarrow> u8 list \<Rightarrow> CONNECTION list \<Rightarrow> bindery \<Rightarrow> int \<times> bindery" where
  "nw_test_adr_time_access ne obj_id adr cs b =
     (if obj_id = 1 \<and> entry8_flags ne AND 8 \<noteq> 0 then (0, set_last_login ne obj_id b)
      else let r = nw_test_adr_access ne obj_id adr cs b;
               (result, b1) = (if r = 0 then nw_test_time_access ne obj_id b else (r, b))
           in (result, if result = 0 \<or> result = -0xdf then set_last_login ne obj_id b1 else b1))"

section \<open>Connections\<close>

definition sent_down_message :: "bind_state \<Rightarrow> bind_state" where
  "sent_down_message st =
     fold (\<lambda>k t. if active (connections t ! k)
                 then emit (HandleMsg (int k + 1)) (upd_conn k (\<lambda>c. c\<lparr>message := cstr ''MARS_NWE IS DIEING''\<rparr>) t)
                 else t)
       [0..<length (connections st)] (st\<lparr>server_goes_down := server_goes_down st + 1\<rparr>)"

text \<open>\<open>addr\<close> is the address of the client, the socket of its \<^verbatim>\<open>nwconn\<close> and its process id.\<close>

definition open_clear_connection :: "int \<Rightarrow> bool \<Rightarrow> u8 list option \<Rightarrow> bind_state \<Rightarrow> bind_state" where
  "open_clear_connection conn activate addr st =
     (if conn > 0 \<and> conn - 1 < int (length (connections st)) then
        let k = nat (conn - 1); c = connections st ! k;
            c1 = c\<lparr>active := activate, message := [], t_login := 0\<rparr>;
            (c2, st2) =
              (case (if activate then addr else None) of
                 Some ad \<Rightarrow> (c1\<lparr>client_adr := take 12 ad, send_to_sock := get_be16 (drop 12 ad),
                              pid_nwconn := get_be32 (drop 14 ad)\<rparr>, st)
               | None \<Rightarrow>
                   let st1 = (if object_id c \<noteq> 0 then emit (Utmp False conn (pid_nwconn c) (client_adr c) []) st else st);
                       (cs, t) = (if c_count (cn_semas c) \<noteq> 0 then clear_conn_semas (cn_semas c) (sema_tab st)
                                  else (cn_semas c, sema_tab st))
                   in (c1\<lparr>cn_semas := cs\<rparr>, st1\<lparr>sema_tab := t\<rparr>))
        in upd_conn k (\<lambda>_. c2\<lparr>object_id := 0, id_flags := 0, request_nwconn := None, last_used_sequence := 0\<rparr>) st2
      else st)"

definition get_login_time :: "nb_env \<Rightarrow> CONNECTION \<Rightarrow> u8 list" where
  "get_login_time ne cx =
     (let tm = localtime (que ne) (t_login cx)
      in [word_of_int (tm_year tm), word_of_int (tm_mon tm + 1), word_of_int (tm_mday tm), word_of_int (tm_hour tm),
          word_of_int (tm_min tm), word_of_int (tm_sec tm), word_of_int (tm_wday ne (t_login cx))])"

text \<open>The login itself: from here on the connection acts as the object.\<close>

definition build_login_response :: "nb_env \<Rightarrow> nat \<Rightarrow> u32 \<Rightarrow> bind_state \<Rightarrow> u8 list \<times> bind_state" where
  "build_login_response ne a obj_id st =
     (let flags = (if have_su_rights (internal ne) obj_id (bind_db st) then 1 else 0);
          st1 = upd_conn a (\<lambda>c. c\<lparr>object_id := obj_id, t_login := akttime ne, id_flags := flags\<rparr>) st;
          (_, gid, uid, pw_name) = get_guid (internal ne) (pwe ne) obj_id (bind_db st);
          groups = get_groups_i_m_in (internal ne) obj_id (bind_db st)
      in (u32_to_32 (word_of_int gid) @ u32_to_32 (word_of_int uid) @ u32_to_32 flags @ u32_to_32 obj_id @
          u32_to_32 (of_nat (length groups)) @ concat (map u32_to_32 groups) @ [of_nat (length pw_name)] @ pw_name,
          emit (Utmp True (int a + 1) (pid_nwconn (act_c st a)) (client_adr (act_c st a)) pw_name) st1))"

end
