(* ===== verification/BindRequests.thy ===== *)
theory BindRequests
  imports Nwbind
begin

text \<open>The requests that \<^verbatim>\<open>handle_fxx\<close> of \<^verbatim>\<open>src/nwbind.c\<close> executes: one definition per
  case of its switches, then the dispatch over function and subfunction.  \<open>a\<close> is the index of the calling
  connection (\<^verbatim>\<open>act_connection\<close> is one more), \<open>p\<close> the request behind the subfunction
  (\<^verbatim>\<open>rdata\<close>).  Names fit into the arrays they are copied to, as in \<open>Bindery\<close>.\<close>

section \<open>Messages (0x15)\<close>

definition msg_text :: "buffer \<Rightarrow> nat \<Rightarrow> cstring" where
  "msg_text p k = str_of (bytes_at p (k + 1) (min 58 (unat (p k))))"

fun send_messages :: "cstring \<Rightarrow> u8 list \<Rightarrow> bind_state \<Rightarrow> u8 list \<times> bool \<times> bind_state" where
  "send_messages msg [] st = ([], False, st)"
| "send_messages msg (n # ns) st =
     (let connr = int (unat n); k = unat n - 1
      in if connr > 0 \<and> connr - 1 < int (length (connections st)) \<and> active (connections st ! k) then
           let (result, st1) = (if message (connections st ! k) = [] then (0, upd_conn k (\<lambda>c. c\<lparr>message := msg\<rparr>) st)
                                else (0xfc, st));
               (rs, _, st2) = send_messages msg ns (emit (HandleMsg connr) st1)
           in (result # rs, True, st2)
         else let (rs, found, st2) = send_messages msg ns st in (0xff # rs, found, st2))"

definition send_broadcast :: "buffer \<Rightarrow> bind_state \<Rightarrow> reply \<times> bind_state" where
  "send_broadcast p st =
     (let n = unat (p 0); (rs, one_found, st1) = send_messages (msg_text p (n + 1)) (bytes_at p 1 n) st
      in (if one_found then reply_ok (p 0 # rs) else reply_code 0xff, st1))"

definition get_broadcast :: "nat \<Rightarrow> bind_state \<Rightarrow> reply \<times> bind_state" where
  "get_broadcast a st =
     (let m = take 58 (message (act_c st a))
      in (reply_ok (of_nat (length m) # m), upd_conn a (\<lambda>c. c\<lparr>message := []\<rparr>) st))"

definition broadcast_to_console :: "buffer \<Rightarrow> bind_state \<Rightarrow> reply \<times> bind_state" where
  "broadcast_to_console p st = (reply_ok [], emit (Console (str_of (bytes_at p 1 (min 59 (unat (p 0)))))) st)"

definition handle_messages :: "nat \<Rightarrow> nat \<Rightarrow> buffer \<Rightarrow> bind_state \<Rightarrow> reply \<times> bind_state" where
  "handle_messages a ufunc p st =
     (if ufunc = 0x00 then send_broadcast p st
      else if ufunc = 0x01 then get_broadcast a st
      else if ufunc = 0x03 then (reply_ok [], st)
      else if ufunc = 0x09 then broadcast_to_console p st
      else (reply_code 0xfb, st))"

section \<open>Quota (0x16)\<close>

definition handle_quota :: "nb_env \<Rightarrow> nat \<Rightarrow> nat \<Rightarrow> buffer \<Rightarrow> bind_state \<Rightarrow> reply \<times> bind_state" where
  "handle_quota ne a ufunc p st =
     (if ufunc = 0x21 \<or> ufunc = 0x22 \<or> ufunc = 0x29 then
        let i = be32_at p 1; (r, gid, uid, _) = get_guid (internal ne) (pwe ne) i (bind_db st);
            denied = (if is_su st a \<or> (object_id (act_c st a) = i \<and> ufunc = 0x29) then 0 else 1)
        in (\<lparr>completition = (if r \<noteq> 0 then 0xff else 0), connect_status = 0,
             answer = u32_to_32 (word_of_int gid) @ u32_to_32 (word_of_int uid) @ u32_to_32 denied\<rparr>, st)
      else (reply_code 0xfb, st))"

section \<open>Server and connections (0x17)\<close>

definition padded_to :: "nat \<Rightarrow> u8 list \<Rightarrow> u8 list" where
  "padded_to n s = take n s @ replicate (n - length (take n s)) 0"

definition get_server_info :: "nb_env \<Rightarrow> bind_state \<Rightarrow> reply" where
  "get_server_info ne st =
     (let act = filter (\<lambda>k. active (connections st ! k)) [0..<length (connections st)];
          peak = (if act = [] then 0 else last act + 1);
          (version, subversion) = (if tells_server_version ne = 0 then (2, 15)
                                   else (3, if tells_server_version ne = 2 then 12 else 11))
      in reply_ok (padded_to 48 (take 47 (my_nwname ne)) @ [version, subversion] @
           u16_to_be16 (of_nat (length (connections st))) @ u16_to_be16 (of_nat (length act)) @
           u16_to_be16 (of_int (max_nw_vols ne)) @ [0, 0, 0] @ u16_to_be16 (of_nat peak) @
           [0, 0, 0, 0, 0, 1, 0] @ replicate 60 0))"

definition get_serial_number :: "nb_env \<Rightarrow> reply" where
  "get_serial_number ne = reply_ok (u32_to_be32 (network_serial_nmbr ne) @ u16_to_be16 (network_appl_nmbr ne))"

text \<open>The connection number of a request: one byte, unless there are more than 255 connections.\<close>

definition old_number :: "nat \<Rightarrow> buffer \<Rightarrow> bind_state \<Rightarrow> int" where
  "old_number a p st = (if length (connections st) < 256 then int (unat (p 0)) else int a + 1)"

definition new_number :: "buffer \<Rightarrow> int" where
  "new_number p = sint (get_32 (bytes_at p 0 4))"

definition get_internet_address :: "nat \<Rightarrow> bool \<Rightarrow> buffer \<Rightarrow> bind_state \<Rightarrow> reply" where
  "get_internet_address a old p st =
     (let conn = (if old then old_number a p st else new_number p)
      in if conn > 0 \<and> conn \<le> int (length (connections st)) \<and> active (connections st ! nat (conn - 1))
         then reply_ok (client_adr (connections st ! nat (conn - 1)) @ (if old then [] else [2]))
         else reply_code 0xff)"

definition object_connections :: "u32 \<Rightarrow> nat \<Rightarrow> bind_state \<Rightarrow> nat list" where
  "object_connections i from st =
     take 255 (filter (\<lambda>k. active (connections st ! k) \<and> object_id (connections st ! k) = i)
       [from..<length (connections st)])"

definition get_object_connections :: "nb_env \<Rightarrow> nat \<Rightarrow> buffer \<Rightarrow> bind_state \<Rightarrow> reply \<times> bind_state" where
  "get_object_connections ne a p st =
     (let (result, ob, b) = find_obj_id (as_conn ne st a) (obj_of (be16_at p 0) (upstr (name_at p 2))) (bind_db st);
          ks = object_connections (o_id ob) 0 st
      in (if result = 0 then reply_ok (of_nat (length ks) # map (\<lambda>k. of_nat (k + 1)) ks) else reply_error result,
          st\<lparr>bind_db := b\<rparr>))"

definition get_object_connections_new :: "nb_env \<Rightarrow> nat \<Rightarrow> buffer \<Rightarrow> bind_state \<Rightarrow> reply \<times> bind_state" where
  "get_object_connections_new ne a p st =
     (let (result, ob, b) = find_obj_id (as_conn ne st a) (obj_of (be16_at p 4) (upstr (name_at p 6))) (bind_db st);
          searchnr = sint (be32_at p 0);
          ks = object_connections (o_id ob) (nat (max (-1) (searchnr - 1) + 1)) st
      in (if result = 0 then reply_ok (of_nat (length ks) # concat (map (\<lambda>k. u16_to_16 (of_nat (k + 1))) ks))
          else reply_error result, st\<lparr>bind_db := b\<rparr>))"

definition get_connection_info :: "nb_env \<Rightarrow> nat \<Rightarrow> bool \<Rightarrow> buffer \<Rightarrow> bind_state \<Rightarrow> reply" where
  "get_connection_info ne a old p st =
     (let conn = (if old then old_number a p st else new_number p); cx = conn_at ne st (conn - 1)
      in if conn \<noteq> 0 \<and> conn \<le> int (length (connections st)) \<and> active cx then
           (case nw_get_obj (as_conn ne st a) (object_id cx) (bind_db st) of
              Inr ob \<Rightarrow> reply_ok (u32_to_be32 (o_id ob) @ u16_to_be16 (o_type ob) @ padded_to 48 (o_name ob) @
                                 get_login_time ne cx @ [0])
            | Inl _ \<Rightarrow> reply_ok (replicate 62 0))
         else if conn = 0 \<or> conn > int (length (connections st)) then reply_code 0xfd
         else reply_ok (replicate 62 0))"

section \<open>Logins\<close>

definition PW_SCHEME_CHANGE_PW :: nat where "PW_SCHEME_CHANGE_PW = 1"
definition PW_SCHEME_GET_KEY_FAIL :: nat where "PW_SCHEME_GET_KEY_FAIL = 4"

definition get_crypt_key :: "nb_env \<Rightarrow> nat \<Rightarrow> bind_state \<Rightarrow> reply \<times> bind_state" where
  "get_crypt_key ne a st =
     (\<lparr>completition = (if scheme_has (pwe ne) PW_SCHEME_GET_KEY_FAIL then 0xfb else 0), connect_status = 0,
       answer = new_key ne\<rparr>, upd_conn a (\<lambda>c. c\<lparr>crypt_key := new_key ne\<rparr>) st)"

text \<open>The restrictions of a user, and the login if nothing but an old password stands against it.\<close>

definition restrict_login :: "nb_env \<Rightarrow> nat \<Rightarrow> NETOBJ \<Rightarrow> bind_state \<Rightarrow> int \<times> bind_state" where
  "restrict_login ne a ob st =
     (if o_type ob = 1 then
        let (r, b) = nw_test_adr_time_access ne (o_id ob) (client_adr (act_c st a)) (connections st) (bind_db st)
        in (r, st\<lparr>bind_db := b\<rparr>)
      else (0, st))"

definition finish_login :: "nb_env \<Rightarrow> nat \<Rightarrow> u32 \<Rightarrow> int \<Rightarrow> bind_state \<Rightarrow> reply \<times> bind_state" where
  "finish_login ne a i result st =
     (if result = 0 \<or> result = -0xdf then
        let (d, st1) = build_login_response ne a i st in ((if result = 0 then reply_ok d else (reply_error result)\<lparr>answer := d\<rparr>), st1)
      else (reply_error result, st))"

definition login_plain :: "nb_env \<Rightarrow> nat \<Rightarrow> buffer \<Rightarrow> bind_state \<Rightarrow> reply \<times> bind_state" where
  "login_plain ne a p st =
     (let name = upstr (take 47 (name_at p 2)); password = take 79 (name_at p (after p 2));
          (result, ob, b) = find_obj_id (as_conn ne st a) (obj_of (be16_at p 0) name) (bind_db st);
          st1 = st\<lparr>bind_db := b\<rparr>;
          r = (if result \<noteq> 0 then result
               else if scheme_has (pwe ne) PW_SCHEME_LOGIN then nw_test_unenpasswd (internal ne) (pwe ne) (o_id ob) password b
               else -0xff)
      in if r = 0 then let (r1, st2) = restrict_login ne a ob st1 in finish_login ne a (o_id ob) r1 st2
         else finish_login ne a (o_id ob) r st1)"

definition login_keyed :: "nb_env \<Rightarrow> nat \<Rightarrow> buffer \<Rightarrow> bind_state \<Rightarrow> reply \<times> bind_state" where
  "login_keyed ne a p st =
     (let name = upstr (take 47 (name_at p 10));
          (result, ob, b) = find_obj_id (as_conn ne st a) (obj_of (be16_at p 8) name) (bind_db st);
          st1 = st\<lparr>bind_db := b\<rparr>;
          r = (if result \<noteq> 0 then result
               else nw_test_passwd (internal ne) (pwe ne) (o_id ob) (crypt_key (act_c st a)) (bytes_at p 0 8) b)
      in if r > -1 then let (r1, st2) = restrict_login ne a ob st1 in finish_login ne a (o_id ob) r1 st2
         else finish_login ne a (o_id ob) r st1)"

definition verify_password :: "nb_env \<Rightarrow> nat \<Rightarrow> buffer \<Rightarrow> bind_state \<Rightarrow> reply \<times> bind_state" where
  "verify_password ne a p st =
     (let (result, ob, b) = find_obj_id (as_conn ne st a) (obj_of (be16_at p 8) (upstr (name_at p 10))) (bind_db st);
          r = (if result \<noteq> 0 then result
               else nw_test_passwd (internal ne) (pwe ne) (o_id ob) (crypt_key (act_c st a)) (bytes_at p 0 8) b)
      in (reply_neg r, st\<lparr>bind_db := b\<rparr>))"

definition test_ins_unx_user :: "nb_env \<Rightarrow> u32 \<Rightarrow> bind_state \<Rightarrow> bind_state" where
  "test_ins_unx_user ne i st =
     (case nw_get_obj (internal ne) i (bind_db st) of
        Inl _ \<Rightarrow> st
      | Inr ob \<Rightarrow>
          (case nw_getpwnam (internal ne) (pwe ne) i (bind_db st) of
             None \<Rightarrow>
               let unxname = downstr (take 49 (o_name ob))
               in (case getpwnam (pwe ne) unxname of
                     Some pw \<Rightarrow>
                       if pw_uid pw \<noteq> 0
                       then emit (UserDirs i (o_name ob) (pw_uid pw) (pw_gid pw))
                              (st\<lparr>bind_db := add_user_2_unx (internal ne) i unxname (bind_db st)\<rparr>)
                       else st
                   | None \<Rightarrow> st)
           | Some mpw \<Rightarrow> if pw_uid mpw \<noteq> 0 then emit (UserDirs i (o_name ob) (pw_uid mpw) (pw_gid mpw)) st else st))"

definition change_password_keyed :: "nb_env \<Rightarrow> nat \<Rightarrow> buffer \<Rightarrow> bind_state \<Rightarrow> reply \<times> bind_state" where
  "change_password_keyed ne a p st =
     (let (result, ob, b) = find_obj_id (as_conn ne st a) (obj_of (be16_at p 8) (upstr (name_at p 10))) (bind_db st);
          i = o_id ob; k = after p 10;
          r1 = (if result \<noteq> 0 then result else if i \<noteq> 1 then test_allow_password_change (internal ne) i b else 0);
          (r2, b2) = (if r1 = 0 then nw_keychange_passwd (internal ne) (pwe ne) i (crypt_key (act_c st a)) (bytes_at p 0 8) (p k)
                                        (bytes_at p (k + 1) 16) (id_flags (act_c st a)) b
                      else (r1, b));
          st1 = st\<lparr>bind_db := b2\<rparr>
      in (reply_neg r2, if r2 = 0 then test_ins_unx_user ne i st1 else st1))"

definition change_password_plain :: "nb_env \<Rightarrow> nat \<Rightarrow> buffer \<Rightarrow> bind_state \<Rightarrow> reply \<times> bind_state" where
  "change_password_plain ne a p st =
     (if scheme_has (pwe ne) PW_SCHEME_CHANGE_PW then
        let (result, ob, b) = find_obj_id (as_conn ne st a) (obj_of (be16_at p 0) (upstr (take 47 (name_at p 2)))) (bind_db st);
            old_at = after p 2; oldpassword = take 49 (name_at p old_at);
            newpassword = take 49 (name_at p (after p old_at)); me = object_id (act_c st a);
            allowed = test_allow_password_change (internal ne) me b;
            valid = nw_valid_newpasswd (internal ne) me newpassword b;
            tested = nw_test_unenpasswd (internal ne) (pwe ne) (o_id ob) oldpassword b;
            r = (if result \<noteq> 0 then result else if is_su st a then 0 else if allowed \<noteq> 0 then allowed
                 else if valid \<noteq> 0 then valid else tested);
            (r2, b2) = (if r \<noteq> 0 then (r, b)
                        else if \<not> is_su st a \<or> newpassword \<noteq> [] \<or> \<not> scheme_has (pwe ne) PW_SCHEME_LOGIN
                        then nw_set_passwd (internal ne) (pwe ne) (o_id ob) newpassword False b
                        else (-0xff, b))
        in (reply_neg r2, st\<lparr>bind_db := b2\<rparr>)
      else (reply_code 0xff, st))"

section \<open>Bindery requests\<close>

text \<open>A request on the data base alone.\<close>

definition db_request :: "(bindery \<Rightarrow> reply \<times> bindery) \<Rightarrow> bind_state \<Rightarrow> reply \<times> bind_state" where
  "db_request f st = (let (r, b) = f (bind_db st) in (r, st\<lparr>bind_db := b\<rparr>))"

definition create_object :: "bind_env \<Rightarrow> buffer \<Rightarrow> bindery \<Rightarrow> reply \<times> bindery" where
  "create_object env p b =
     (let (result, _, b1) = nw_create_obj env
            \<lparr>o_id = 0, o_name = name_at p 4, o_type = be16_at p 2, o_flags = p 0, o_security = p 1\<rparr> 0 b
      in (reply_neg result, b1))"

definition delete_object :: "bind_env \<Rightarrow> buffer \<Rightarrow> bindery \<Rightarrow> reply \<times> bindery" where
  "delete_object env p b =
     (let (result, _, b1) = nw_delete_obj env (obj_of (be16_at p 0) (name_at p 2)) b in (reply_neg result, b1))"

definition rename_object :: "bind_env \<Rightarrow> bool \<Rightarrow> buffer \<Rightarrow> bindery \<Rightarrow> reply \<times> bindery" where
  "rename_object env su p b =
     (if su then let (result, _, b1) = nw_rename_obj env (obj_of (be16_at p 0) (name_at p 2)) (name_at p (after p 2)) b
                 in (reply_nonzero result, b1)
      else (reply_error (-0xff), b))"

definition object_entry :: "NETOBJ \<Rightarrow> u8 list" where
  "object_entry ob = u32_to_be32 (o_id ob) @ u16_to_be16 (o_type ob) @ padded_to 48 (o_name ob)"

definition get_object_id :: "bind_env \<Rightarrow> buffer \<Rightarrow> bindery \<Rightarrow> reply \<times> bindery" where
  "get_object_id env p b =
     (let (result, ob, b1) = find_obj_id env (obj_of (be16_at p 0) (upstr (name_at p 2))) b
      in (if result = 0 then reply_ok (object_entry ob) else reply_error result, b1))"

definition get_object_name :: "bind_env \<Rightarrow> buffer \<Rightarrow> bindery \<Rightarrow> reply \<times> bindery" where
  "get_object_name env p b =
     (case nw_get_obj env (be32_at p 0) b of
        Inr ob \<Rightarrow> (reply_ok (object_entry ob), b) | Inl e \<Rightarrow> (reply_error e, b))"

definition scan_object :: "bind_env \<Rightarrow> buffer \<Rightarrow> bindery \<Rightarrow> reply \<times> bindery" where
  "scan_object env p b =
     (let (result, ob) = scan_for_obj env (obj_of (be16_at p 4) (upstr (name_at p 6))) (be32_at p 0) False b
      in (if result = 0
          then reply_ok (object_entry ob @ [o_flags ob, o_security ob, if nw_obj_has_prop env (o_id ob) b > 0 then 0xff else 0])
          else reply_error result, b))"

definition change_object_security :: "bind_env \<Rightarrow> bool \<Rightarrow> buffer \<Rightarrow> bindery \<Rightarrow> reply \<times> bindery" where
  "change_object_security env su p b =
     (if su then let (result, _, b1) = nw_change_obj_security env (obj_of (be16_at p 1) (take 47 (name_at p 3))) (p 0) b
                 in (reply_neg result, b1)
      else (reply_error (-0xff), b))"

definition create_property :: "bind_env \<Rightarrow> buffer \<Rightarrow> bindery \<Rightarrow> reply \<times> bindery" where
  "create_property env p b =
     (let k = after p 2;
          (result, b1) = nw_create_prop env (uint (be16_at p 0)) (name_at p 2) (unat (p 2)) (name_at p (k + 2)) (unat (p (k + 2)))
                           (uint (p k)) (uint (p (k + 1))) b
      in (reply_nonzero result, b1))"

definition delete_property :: "bind_env \<Rightarrow> buffer \<Rightarrow> bindery \<Rightarrow> reply \<times> bindery" where
  "delete_property env p b =
     (let k = after p 2;
          (result, b1) = nw_delete_property env (uint (be16_at p 0)) (name_at p 2) (unat (p 2)) (name_at p k) (unat (p k)) b
      in (reply_neg result, b1))"

definition change_property_security :: "bind_env \<Rightarrow> buffer \<Rightarrow> bindery \<Rightarrow> reply \<times> bindery" where
  "change_property_security env p b =
     (let k = after p 2;
          (result, b1) = nw_change_prop_security env (uint (be16_at p 0)) (name_at p 2) (unat (p 2))
                           (name_at p (k + 1)) (unat (p (k + 1))) (uint (p k)) b
      in (reply_nonzero result, b1))"

definition scan_property :: "bind_env \<Rightarrow> buffer \<Rightarrow> bindery \<Rightarrow> reply \<times> bindery" where
  "scan_property env p b =
     (let k = after p 2;
          ((result, prop, last), b1) = nw_scan_property env (uint (be16_at p 0)) (name_at p 2) (unat (p 2))
                                         (name_at p (k + 4)) (unat (p (k + 4))) (be32_at p k) b
      in (case prop of
            Some pr \<Rightarrow> if result > -1
                       then reply_ok (padded_to 16 (p_name pr) @ [p_flags pr, p_security pr] @ u32_to_be32 last @
                                      [word_of_int result, 0])
                       else reply_error result
          | None \<Rightarrow> reply_error result, b1))"

definition read_property :: "bind_env \<Rightarrow> buffer \<Rightarrow> bindery \<Rightarrow> reply \<times> bindery" where
  "read_property env p b =
     (let k = after p 2
      in case nw_get_prop_val env (uint (be16_at p 0)) (name_at p 2) (unat (p 2)) (int (unat (p k)))
                (name_at p (k + 1)) (unat (p (k + 1))) b of
           (Inr (value, more_segments, flags), b1) \<Rightarrow> (reply_ok (value @ [more_segments, flags]), b1)
         | (Inl e, b1) \<Rightarrow> (reply_error e, b1))"

definition write_property :: "bind_env \<Rightarrow> buffer \<Rightarrow> bindery \<Rightarrow> reply \<times> bindery" where
  "write_property env p b =
     (let k = after p 2;
          (result, b1) = nw_write_prop_value env (uint (be16_at p 0)) (name_at p 2) (unat (p 2)) (int (unat (p k)))
                           (int (unat (p (k + 1)))) (name_at p (k + 2)) (unat (p (k + 2))) (bytes_at p (after p (k + 2)) 128) b
      in (reply_nonzero result, b1))"

text \<open>The three requests on sets have one layout: object, property, member.\<close>

definition set_request ::
  "(int \<Rightarrow> cstring \<Rightarrow> nat \<Rightarrow> cstring \<Rightarrow> nat \<Rightarrow> int \<Rightarrow> cstring \<Rightarrow> nat \<Rightarrow> bindery \<Rightarrow> int \<times> bindery) \<Rightarrow>
     buffer \<Rightarrow> bindery \<Rightarrow> reply \<times> bindery" where
  "set_request f p b =
     (let k = after p 2; m = after p k;
          (result, b1) = f (uint (be16_at p 0)) (name_at p 2) (unat (p 2)) (name_at p k) (unat (p k))
                           (uint (be16_at p m)) (name_at p (m + 2)) (unat (p (m + 2))) b
      in (reply_nonzero result, b1))"

definition get_access_level :: "nat \<Rightarrow> bind_state \<Rightarrow> reply" where
  "get_access_level a st =
     (let i = object_id (act_c st a)
      in if i = 0 then reply_ok [0, 0xff, 0xff, 0xff, 0xff]
         else reply_ok ((if is_su st a then 0x33 else 0x22) # u32_to_be32 i))"

definition get_access_level_of :: "nb_env \<Rightarrow> nat \<Rightarrow> buffer \<Rightarrow> bind_state \<Rightarrow> reply" where
  "get_access_level_of ne a p st =
     (case nw_get_obj (as_conn ne st a) (be32_at p 0) (bind_db st) of
        Inl e \<Rightarrow> reply_error e
      | Inr ob \<Rightarrow> reply_ok [if is_su st a then 0x33 else if object_id (act_c st a) = o_id ob then 0x22 else 0x11])"

definition is_manager :: "nat \<Rightarrow> bind_state \<Rightarrow> reply" where
  "is_manager a st = (if is_su st a then reply_ok [] else reply_code 0xff)"

section \<open>Queue requests\<close>

text \<open>The jobs of requests and answers as bytes (\<^verbatim>\<open>include/queuedef.h\<close>).\<close>

definition job_old_of :: "u8 list \<Rightarrow> QUEUE_JOB_OLD" where
  "job_old_of s = \<lparr>qo_client_connection = s ! 0, qo_client_task = s ! 1, qo_client_id = slice 2 4 s, qo_target_id = slice 6 4 s,
     qo_target_execute_time = slice 10 6 s, qo_job_entry_time = slice 16 6 s, qo_job_id = slice 22 2 s,
     qo_job_typ = slice 24 2 s, qo_job_position = s ! 26, qo_job_control_flags = s ! 27, qo_job_file_name = slice 28 14 s,
     qo_job_file_handle = slice 42 6 s, qo_server_station = s ! 48, qo_server_task = s ! 49, qo_server_id = slice 50 4 s,
     qo_job_description = slice 54 50 s, qo_client_area = slice 104 152 s\<rparr>"

definition job_new_of :: "u8 list \<Rightarrow> QUEUE_JOB" where
  "job_new_of s = \<lparr>qj_record_in_use = slice 0 2 s, qj_record_previous = slice 2 4 s, qj_record_next = slice 6 4 s,
     qj_client_connection = slice 10 4 s, qj_client_task = slice 14 4 s, qj_client_id = slice 18 4 s, qj_target_id = slice 22 4 s,
     qj_target_execute_time = slice 26 6 s, qj_job_entry_time = slice 32 6 s, qj_job_id = slice 38 4 s, qj_job_typ = slice 42 2 s,
     qj_job_position = slice 44 2 s, qj_job_control_flags = slice 46 2 s, qj_job_file_name = slice 48 14 s,
     qj_job_file_handle = slice 62 4 s, qj_server_station = slice 66 4 s, qj_server_task = slice 70 4 s, qj_server_id = slice 74 4 s,
     qj_job_description = slice 78 50 s, qj_client_area = slice 128 152 s\<rparr>"

definition job_of :: "bool \<Rightarrow> u8 list \<Rightarrow> wire_job" where
  "job_of old s = (if old then OldJob (job_old_of s) else NewJob (job_new_of s))"

definition job_bytes :: "wire_job \<Rightarrow> u8 list" where
  "job_bytes w =
     (case w of
        OldJob j \<Rightarrow> [qo_client_connection j, qo_client_task j] @ qo_client_id j @ qo_target_id j @ qo_target_execute_time j @
          qo_job_entry_time j @ qo_job_id j @ qo_job_typ j @ [qo_job_position j, qo_job_control_flags j] @ qo_job_file_name j @
          qo_job_file_handle j @ [qo_server_station j, qo_server_task j] @ qo_server_id j @ qo_job_description j @ qo_client_area j
      | NewJob j \<Rightarrow> qj_record_in_use j @ qj_record_previous j @ qj_record_next j @ qj_client_connection j @ qj_client_task j @
          qj_client_id j @ qj_target_id j @ qj_target_execute_time j @ qj_job_entry_time j @ qj_job_id j @ qj_job_typ j @
          qj_job_position j @ qj_job_control_flags j @ qj_job_file_name j @ qj_job_file_handle j @ qj_server_station j @
          qj_server_task j @ qj_server_id j @ qj_job_description j @ qj_client_area j)"

text \<open>Answers that carry bytes, and a job with the directory behind it.\<close>

definition reply_bytes :: "int \<Rightarrow> u8 list \<Rightarrow> reply" where
  "reply_bytes result d = (if result > -1 then reply_ok d else reply_error result)"

definition reply_job :: "int \<times> (wire_job \<times> u8 list) option \<times> qstate \<Rightarrow> bind_state \<Rightarrow> reply \<times> bind_state" where
  "reply_job r st =
     (case r of
        (result, Some (w, dir), q) \<Rightarrow> (reply_bytes result (job_bytes w @ dir), st\<lparr>bind_queues := q\<rparr>)
      | (result, None, q) \<Rightarrow> (reply_error result, st\<lparr>bind_queues := q\<rparr>))"

definition queue_result :: "int \<times> qstate \<Rightarrow> bind_state \<Rightarrow> reply \<times> bind_state" where
  "queue_result r st = (reply_neg (fst r), st\<lparr>bind_queues := snd r\<rparr>)"

definition create_queue :: "nb_env \<Rightarrow> nat \<Rightarrow> buffer \<Rightarrow> bind_state \<Rightarrow> reply \<times> bind_state" where
  "create_queue ne a p st =
     (let k = after p 2 + 1;
          (result, qid, b, q) = nw_creat_queue (que ne) (as_conn ne st a) (uint (be16_at p 0)) (name_at p 2) (unat (p 2))
                                  (name_at p k) (unat (p k)) (bind_db st) (bind_queues st)
      in (case qid of
            Some i \<Rightarrow> if result > -1 then reply_ok (u32_to_be32 i) else reply_error result
          | None \<Rightarrow> reply_error result, st\<lparr>bind_db := b, bind_queues := q\<rparr>))"

definition destroy_queue :: "nb_env \<Rightarrow> nat \<Rightarrow> buffer \<Rightarrow> bind_state \<Rightarrow> reply \<times> bind_state" where
  "destroy_queue ne a p st =
     (if is_su st a then
        let (result, b, q) = nw_destroy_queue (que ne) (as_conn ne st a) (be32_at p 0) (bind_db st) (bind_queues st)
        in (reply_neg result, st\<lparr>bind_db := b, bind_queues := q\<rparr>)
      else (reply_error (-0xd3), st))"

definition queue_status_old :: "buffer \<Rightarrow> bind_state \<Rightarrow> reply" where
  "queue_status_old p st =
     (case nw_get_queue_status (bind_queues st) (be32_at p 0) of
        Inl e \<Rightarrow> reply_error e
      | Inr (status, entries, servers) \<Rightarrow>
          reply_ok (u32_to_be32 (be32_at p 0) @ [ucast status, word_of_int entries, of_nat (length servers)] @
            concat (map (\<lambda>s. u32_to_be32 (fst s)) servers) @ map (\<lambda>s. word_of_int (snd s)) servers))"

definition queue_status_new :: "buffer \<Rightarrow> bind_state \<Rightarrow> reply" where
  "queue_status_new p st =
     (case nw_get_queue_status (bind_queues st) (be32_at p 0) of
        Inl e \<Rightarrow> reply_error e
      | Inr (status, entries, servers) \<Rightarrow>
          reply_ok (u32_to_be32 (be32_at p 0) @ u32_to_32 status @ u32_to_32 (word_of_int entries) @
            u32_to_32 (of_nat (length servers)) @ concat (map (\<lambda>s. u32_to_be32 (fst s)) servers) @
            concat (map (\<lambda>s. u32_to_32 (word_of_int (snd s))) servers)))"

definition set_queue_status :: "nat \<Rightarrow> buffer \<Rightarrow> bind_state \<Rightarrow> reply \<times> bind_state" where
  "set_queue_status a p st =
     (if is_su st a then queue_result (nw_set_queue_status (be32_at p 0) (ucast (p 4)) (bind_queues st)) st
      else (reply_error (-0xd3), st))"

definition job_number :: "buffer \<Rightarrow> int" where "job_number p = uint (be16_at p 4)"

definition job_file_size :: "bool \<Rightarrow> buffer \<Rightarrow> bind_state \<Rightarrow> reply" where
  "job_file_size old p st =
     (let result = nw_get_queue_job_file_size (bind_queues st) (be32_at p 0) (job_number p)
      in reply_bytes result (u32_to_be32 (be32_at p 0) @ u16_to_be16 (word_of_int (job_number p)) @
           (if old then [] else [0, 0]) @ u32_to_be32 (word_of_int result)))"

definition abort_job :: "nb_env \<Rightarrow> nat \<Rightarrow> buffer \<Rightarrow> bind_state \<Rightarrow> reply \<times> bind_state" where
  "abort_job ne a p st =
     (let (result, q) = nw_finish_abort_queue_job (que ne) 1 (object_id (act_c st a)) (int a + 1) (be32_at p 0) (job_number p)
                          (bind_queues st)
      in (if result < 0 then reply_error result else reply_ok [0, 0], st\<lparr>bind_queues := q\<rparr>))"

text \<open>The subfunctions of the queues; \<^const>\<open>None\<close> for the others.  \<open>task\<close> is from the packet header.\<close>

definition handle_queues :: "nb_env \<Rightarrow> nat \<Rightarrow> int \<Rightarrow> nat \<Rightarrow> buffer \<Rightarrow> bind_state \<Rightarrow> (reply \<times> bind_state) option" where
  "handle_queues ne a task ufunc p st =
     (let qid = be32_at p 0; me = object_id (act_c st a); conn = int a + 1; q = bind_queues st; env = as_conn ne st a
      in if ufunc = 0x64 then Some (create_queue ne a p st)
         else if ufunc = 0x65 then Some (destroy_queue ne a p st)
         else if ufunc = 0x66 then Some (queue_status_old p st, st)
         else if ufunc \<in> {0x67, 0x7e} then Some (set_queue_status a p st)
         else if ufunc \<in> {0x6a, 0x80} then Some (queue_result (nw_remove_job_from_queue (que ne) me qid (job_number p) q) st)
         else if ufunc = 0x6b then
           Some (let (result, d) = nw_get_queue_job_list_old q qid in (reply_bytes result d, st))
         else if ufunc \<in> {0x68, 0x79} then
           Some (reply_job (nw_creat_queue_job (que ne) env (bind_db st) conn task me qid
                   (job_of (ufunc = 0x68) (bytes_at p 4 280)) (job_of (ufunc = 0x68) (old_answer ne)) q) st)
         else if ufunc \<in> {0x6c, 0x7a} then
           Some (let (result, w) = nw_get_q_job_entry (que ne) q qid (job_number p) (be32_at p 8)
                                     (job_of (ufunc = 0x6c) (old_answer ne))
                 in (reply_bytes result (job_bytes w), st))
         else if ufunc \<in> {0x69, 0x7f} then
           Some (let (result, d, q1) = nw_close_queue_job env (bind_db st) qid (job_number p) q
                 in (reply_bytes result d, st\<lparr>bind_queues := q1\<rparr>))
         else if ufunc = 0x6f then Some (queue_result (nw_attach_server_to_queue env (bind_db st) me conn qid q) st)
         else if ufunc = 0x70 then Some (queue_result (nw_detach_server_from_queue me conn qid q) st)
         else if ufunc \<in> {0x78, 0x87} then Some (job_file_size (ufunc = 0x78) p st, st)
         else if ufunc \<in> {0x71, 0x7c} then
           Some (reply_job (nw_service_queue_job (que ne) env (bind_db st) me conn task qid (job_number p)
                   (job_of (ufunc = 0x71) (old_answer ne)) q) st)
         else if ufunc = 0x7b then Some (reply_neg (nw_change_queue_job_entry qid (bytes_at p 4 280)), st)
         else if ufunc = 0x7d then Some (queue_status_new p st, st)
         else if ufunc = 0x81 then
           Some (let (result, d) = nw_get_queue_job_list q qid (be32_at p 4) in (reply_bytes result d, st))
         else if ufunc \<in> {0x72, 0x83} then
           Some (queue_result (nw_finish_abort_queue_job (que ne) 0 me conn qid (job_number p) q) st)
         else if ufunc \<in> {0x73, 0x84} then Some (abort_job ne a p st)
         else None)"

section \<open>Server administration\<close>

definition description_strings :: reply where
  "description_strings = reply_ok (cstr ''KoanSoftware.com'' @ [0] @ cstr ''14-Jun-03'' @ [0] @ cstr ''(C)M.Stover'' @ [0])"

fun console_messages :: "nat \<Rightarrow> cstring \<Rightarrow> u8 list \<Rightarrow> bool \<Rightarrow> bind_state \<Rightarrow> bool \<times> bind_state" where
  "console_messages a msg [] flag st = (flag, st)"
| "console_messages a msg (n # ns) flag st =
     (let conn = int (unat n); k = unat n - 1
      in if conn = int a + 1 then console_messages a msg ns True (upd_conn a (\<lambda>c. c\<lparr>message := msg\<rparr>) st)
         else if conn \<noteq> 0 \<and> conn - 1 < int (length (connections st)) \<and> object_id (connections st ! k) \<noteq> 0
         then console_messages a msg ns flag (emit (HandleMsg conn) (upd_conn k (\<lambda>c. c\<lparr>message := msg\<rparr>) st))
         else console_messages a msg ns flag st)"

definition console_broadcast :: "nat \<Rightarrow> buffer \<Rightarrow> bind_state \<Rightarrow> reply \<times> bind_state" where
  "console_broadcast a p st =
     (let n = unat (p 0); msg = msg_text p (n + 1);
          (flag, st1) = (if n \<noteq> 0 then console_messages a msg (bytes_at p 1 n) False st
                         else (True, upd_conn a (\<lambda>c. c\<lparr>message := msg\<rparr>) st))
      in ((reply_ok [])\<lparr>connect_status := (if flag then 0x40 else 0)\<rparr>, st1))"

text \<open>Clear connection: the number is a byte of the request minus one, modulo 256, and is used as it is.\<close>

definition clear_connection_number :: "nb_env \<Rightarrow> buffer \<Rightarrow> bind_state \<Rightarrow> reply \<times> bind_state" where
  "clear_connection_number ne p st =
     (let k = unat (p 0 - 1); cn = conn_at ne st (int k)
      in (reply_ok [],
          if active cn then
            (let st1 = emit (HandleMsg (int k + 1))
                         (if k < length (connections st)
                          then upd_conn k (\<lambda>c. c\<lparr>message := cstr ''MARS_NWE has killed your connection''\<rparr>) st else st)
             in if sint (pid_nwconn cn) > -1 then emit (Kill (pid_nwconn cn)) st1 else st1)
          else st))"

definition down_server :: "nb_env \<Rightarrow> nat \<Rightarrow> bind_state \<Rightarrow> reply \<times> bind_state" where
  "down_server ne a st =
     (if have_su_rights (internal ne) (object_id (act_c st a)) (bind_db st) then (reply_ok [], emit DownServer st)
      else (reply_code 0xc6, st))"

section \<open>Dispatch (handle\_fxx)\<close>

text \<open>The subfunctions of 0x17 in groups; \<^const>\<open>None\<close> for a subfunction that is not in the group.\<close>

definition handle_conns :: "nb_env \<Rightarrow> nat \<Rightarrow> nat \<Rightarrow> buffer \<Rightarrow> bind_state \<Rightarrow> (reply \<times> bind_state) option" where
  "handle_conns ne a ufunc p st =
     (if ufunc \<in> {0x01, 0x0c, 0x0e} then Some (reply_code 0xff, st)
      else if ufunc = 0x11 then Some (get_server_info ne st, st)
      else if ufunc = 0x12 then Some (get_serial_number ne, st)
      else if ufunc \<in> {0x13, 0x1a} then Some (get_internet_address a (ufunc = 0x13) p st, st)
      else if ufunc = 0x14 then Some (login_plain ne a p st)
      else if ufunc = 0x15 then Some (get_object_connections ne a p st)
      else if ufunc \<in> {0x16, 0x1c} then Some (get_connection_info ne a (ufunc = 0x16) p st, st)
      else if ufunc = 0x17 then Some (get_crypt_key ne a st)
      else if ufunc = 0x18 then Some (login_keyed ne a p st)
      else if ufunc = 0x1b then Some (get_object_connections_new ne a p st)
      else if ufunc = 0x40 then Some (change_password_plain ne a p st)
      else if ufunc \<in> {0x44, 0x45} then Some (reply_ok [], st)
      else if ufunc = 0x46 then Some (get_access_level a st, st)
      else if ufunc = 0x48 then Some (get_access_level_of ne a p st, st)
      else if ufunc = 0x49 then Some (is_manager a st, st)
      else if ufunc = 0x4a then Some (verify_password ne a p st)
      else if ufunc = 0x4b then Some (change_password_keyed ne a p st)
      else if ufunc = 0xc8 then Some (reply_ok [], st)
      else if ufunc = 0xc9 then Some (description_strings, st)
      else if ufunc = 0xcd then Some (reply_ok [1], st)
      else if ufunc = 0xd1 then Some (console_broadcast a p st)
      else if ufunc = 0xd2 then Some (clear_connection_number ne p st)
      else if ufunc = 0xd3 then Some (down_server ne a st)
      else None)"

definition handle_bindery ::
  "bind_env \<Rightarrow> bool \<Rightarrow> nat \<Rightarrow> buffer \<Rightarrow> (bindery \<Rightarrow> reply \<times> bindery) option" where
  "handle_bindery env su ufunc p =
     (if ufunc = 0x32 then Some (create_object env p)
      else if ufunc = 0x33 then Some (delete_object env p)
      else if ufunc = 0x34 then Some (rename_object env su p)
      else if ufunc = 0x35 then Some (get_object_id env p)
      else if ufunc = 0x36 then Some (get_object_name env p)
      else if ufunc = 0x37 then Some (scan_object env p)
      else if ufunc = 0x38 then Some (change_object_security env su p)
      else if ufunc = 0x39 then Some (create_property env p)
      else if ufunc = 0x3a then Some (delete_property env p)
      else if ufunc = 0x3b then Some (change_property_security env p)
      else if ufunc = 0x3c then Some (scan_property env p)
      else if ufunc = 0x3d then Some (read_property env p)
      else if ufunc = 0x3e then Some (write_property env p)
      else if ufunc = 0x41 then Some (set_request (nw_add_obj_to_set env) p)
      else if ufunc = 0x42 then Some (set_request (nw_delete_obj_from_set env) p)
      else if ufunc = 0x43 then Some (set_request (nw_is_obj_in_set env) p)
      else None)"

definition handle_17 :: "nb_env \<Rightarrow> nat \<Rightarrow> int \<Rightarrow> nat \<Rightarrow> buffer \<Rightarrow> bind_state \<Rightarrow> reply \<times> bind_state" where
  "handle_17 ne a task ufunc p st =
     (case handle_conns ne a ufunc p st of
        Some r \<Rightarrow> r
      | None \<Rightarrow>
          (case handle_bindery (as_conn ne st a) (is_su st a) ufunc p of
             Some f \<Rightarrow> db_request f st
           | None \<Rightarrow>
               (case handle_queues ne a task ufunc p st of
                  Some r \<Rightarrow> r
                | None \<Rightarrow> (reply_code 0xfb, st))))"

definition end_of_job :: "nb_env \<Rightarrow> nat \<Rightarrow> int \<Rightarrow> bind_state \<Rightarrow> reply \<times> bind_state" where
  "end_of_job ne a task st =
     (reply_ok [], if entry8_flags ne AND 0x200 = 0
                   then st\<lparr>bind_queues := nw_close_connection_jobs (que ne) (int a + 1) task (bind_queues st)\<rparr> else st)"

definition logout :: "nb_env \<Rightarrow> nat \<Rightarrow> bind_state \<Rightarrow> reply \<times> bind_state" where
  "logout ne a st =
     (let st1 = st\<lparr>bind_queues := nw_close_connection_jobs (que ne) (int a + 1) (-1) (bind_queues st)\<rparr>
      in (reply_ok [], upd_conn a (\<lambda>c. c\<lparr>object_id := 0, id_flags := 0\<rparr>)
                         (emit (Utmp False (int a + 1) (pid_nwconn (act_c st a)) (client_adr (act_c st a)) []) st1)))"

definition semaphore_request :: "nat \<Rightarrow> nat \<Rightarrow> buffer \<Rightarrow> bind_state \<Rightarrow> reply \<times> bind_state" where
  "semaphore_request a ufunc p st =
     (let (result, d, c, t) = handle_func_0x20 (cn_semas (act_c st a)) p ufunc (sema_tab st)
      in (reply_bytes result d, upd_conn a (\<lambda>x. x\<lparr>cn_semas := c\<rparr>) (st\<lparr>sema_tab := t\<rparr>)))"

text \<open>\<open>p\<close> is the data of the packet.  Function 0x20 has its subfunction in the first byte, the others have it
  behind a length of two bytes.  A message that waits for the connection sets a bit of the status.\<close>

definition handle_fxx :: "nb_env \<Rightarrow> nat \<Rightarrow> nat \<Rightarrow> int \<Rightarrow> buffer \<Rightarrow> bind_state \<Rightarrow> reply \<times> bind_state" where
  "handle_fxx ne a func task p st =
     (let ufunc = unat (p (if func = 0x20 then 0 else 2)); rdata = (\<lambda>k. p (k + (if func = 0x20 then 1 else 3)));
          (r, st1) =
            (if func = 0x15 then handle_messages a ufunc rdata st
             else if func = 0x16 then handle_quota ne a ufunc rdata st
             else if func = 0x17 then handle_17 ne a task ufunc rdata st
             else if func = 0x18 then end_of_job ne a task st
             else if func = 0x19 then logout ne a st
             else if func = 0x20 then semaphore_request a ufunc rdata st
             else (reply_code 0xfb, st))
      in (if message (act_c st1 a) \<noteq> [] then r\<lparr>connect_status := connect_status r OR 0x40\<rparr> else r, st1))"

section \<open>Orders of the other processes, and the main loop\<close>

definition handle_bind_calls :: "buffer \<Rightarrow> bind_env \<Rightarrow> bindery \<Rightarrow> bindery" where
  "handle_bind_calls p env b =
     (let t = be16_at p 2; n = name_at p 4; k = after p 4
      in if p 0 = 0x01
         then snd (nw_new_obj_prop env 0 n (uint t) 1 0x40 (cstr ''NET_ADDRESS'') 1 0x40 (bytes_at p k 12) 12 True b)
         else if p 0 = 0x02 then snd (snd (nw_delete_obj env (obj_of t n) b))
         else b)"

text \<open>The orders of \<^verbatim>\<open>handle_ctrl\<close>, after the length checks of \<^verbatim>\<open>xread\<close>.\<close>

datatype ctrl = InsertConn int "u8 list" | BindCall buffer | ClearConn int | Reinit | ServerDown

definition handle_ctrl :: "nb_env \<Rightarrow> (bindery \<Rightarrow> bindery) \<Rightarrow> ctrl \<Rightarrow> bind_state \<Rightarrow> bind_state" where
  "handle_ctrl ne fill_standard what st =
     (case what of
        InsertConn conn buf \<Rightarrow> open_clear_connection conn True (Some buf) st
      | BindCall p \<Rightarrow> st\<lparr>bind_db := handle_bind_calls p (internal ne) (bind_db st)\<rparr>
      | ClearConn conn \<Rightarrow> open_clear_connection conn False None st
      | Reinit \<Rightarrow> st\<lparr>bind_db := fill_standard (bind_db st)\<rparr>
      | ServerDown \<Rightarrow> sent_down_message st)"

definition send_request_to_nwconn :: "nb_env \<Rightarrow> int \<Rightarrow> nat \<Rightarrow> u8 list \<Rightarrow> bind_state \<Rightarrow> bind_state" where
  "send_request_to_nwconn ne connection func data st =
     (let k = nat (connection - 1); c = connections st ! k;
          n = (if last_used_sequence c + 1 > 255 then 1 else last_used_sequence c + 1);
          rq = \<lparr>rq_sequence = n, rq_function = func, rq_sendtime = now (que ne), rq_data = data\<rparr>
      in if active c \<and> send_to_sock c \<noteq> 0
         then emit (ToNwconn connection rq) (upd_conn k (\<lambda>c. c\<lparr>last_used_sequence := n, request_nwconn := Some rq\<rparr>) st)
         else st)"

definition handle_usr2 :: "nb_env \<Rightarrow> bind_state \<Rightarrow> bind_state" where
  "handle_usr2 ne st =
     fold (\<lambda>k t. if active (connections t ! k) then send_request_to_nwconn ne (int k + 1) 1 [0, 0, 0, 0] t else t)
       [0..<length (connections st)] st"

text \<open>One packet in the main loop: a request of a client comes by way of its \<^verbatim>\<open>nwconn\<close>; \<open>local\<close> says that
  net and node of the sender are those of this server, \<open>ncp\<close> that its socket is that of the core service.\<close>

datatype packet =
    FromClient int nat int buffer
  | FromNwconn int int
  | FromNwserv ctrl

definition nwbind_receive ::
  "nb_env \<Rightarrow> (bindery \<Rightarrow> bindery) \<Rightarrow> bool \<Rightarrow> bool \<Rightarrow> packet \<Rightarrow> bind_state \<Rightarrow> reply option \<times> bind_state" where
  "nwbind_receive ne fill_standard local ncp pkt st =
     (case pkt of
        FromClient conn func task p \<Rightarrow>
          if 0 < conn \<and> conn \<le> int (length (connections st)) \<and> active (connections st ! nat (conn - 1)) \<and> local
          then if func = 0 then (None, emit (ResetWdog conn) st)
               else let (r, st1) = handle_fxx ne (nat (conn - 1)) func task p st in (Some r, st1)
          else (None, st)
      | FromNwconn conn sequence \<Rightarrow>
          (None,
           if 0 < conn \<and> conn \<le> int (length (connections st)) \<and> active (connections st ! nat (conn - 1)) \<and>
              (case request_nwconn (connections st ! nat (conn - 1)) of Some rq \<Rightarrow> rq_sequence rq = sequence | None \<Rightarrow> False) \<and>
              local \<and> ncp
           then upd_conn (nat (conn - 1)) (\<lambda>c. c\<lparr>request_nwconn := None\<rparr>) st else st)
      | FromNwserv what \<Rightarrow> (None, if local then handle_ctrl ne fill_standard what st else st))"

text \<open>The end of the process clears every connection, from the last to the first.\<close>

definition nwbind_exit :: "bind_state \<Rightarrow> bind_state" where
  "nwbind_exit st = fold (\<lambda>k t. open_clear_connection (int k) False None t) (rev [1..<length (connections st) + 1]) st"

end
