(* ===== verification/BindLaws.thy ===== *)
theory BindLaws
  imports BindRequests QueueLaws
begin

text \<open>What the requests of \<^verbatim>\<open>src/nwbind.c\<close> guarantee together: only a connection with the flag of a
  supervisor changes the set of objects; a connection becomes an object only by its password; a value leaves the
  data base only with the right to read it; the number of logins of a user stays within its limit; and no
  request damages the queues or the data base.\<close>

section \<open>What a request leaves alone\<close>

text \<open>A part of the state that messages and events do not touch.\<close>

locale message_part =
  fixes look :: "bind_state \<Rightarrow> 'v"
  assumes look_message [simp]: "look (upd_conn k (\<lambda>c. c\<lparr>message := m\<rparr>) st) = look st"
    and look_emit [simp]: "look (emit e st) = look st"
begin

lemma send_messages: "look (snd (snd (send_messages msg ns st))) = look st"
proof (induction ns arbitrary: st)
  case (Cons n ns)
  then show ?case by (auto simp: Let_def split: prod.splits) (metis snd_conv look_emit look_message)+
qed simp

lemma console_messages: "look (snd (console_messages a msg ns flag st)) = look st"
  by (induction ns arbitrary: flag st) (simp_all add: Let_def)

lemma message_requests:
  "look (snd (handle_messages a ufunc p st)) = look st" "look (snd (console_broadcast a p st)) = look st"
  "look (snd (clear_connection_number ne p st)) = look st" "look (snd (down_server ne a st)) = look st"
  using send_messages [of "msg_text p (unat (p 0) + 1)" "bytes_at p 1 (unat (p 0))" st]
    console_messages [of a "msg_text p (unat (p 0) + 1)" "bytes_at p 1 (unat (p 0))" False st]
  by (auto simp: handle_messages_def send_broadcast_def get_broadcast_def broadcast_to_console_def console_broadcast_def
      clear_connection_number_def down_server_def Let_def split: prod.splits)

end

text \<open>A part that does not belong to the connections at all.\<close>

locale state_part = message_part +
  assumes look_conns [simp]: "look (upd_conn k f st) = look st"
begin

lemma login_requests:
  "look (snd (get_crypt_key ne a st)) = look st" "look (snd (build_login_response ne a i st)) = look st"
  by (auto simp: get_crypt_key_def build_login_response_def Let_def split: prod.splits)

lemma finish_login: "look (snd (finish_login ne a i r st)) = look st"
  using login_requests(2) [of ne a i st] by (auto simp: finish_login_def Let_def split: prod.splits)

end

text \<open>A part that the data base and the keys do not belong to is left alone by every request of 0x17 but the logins
  and the queue requests, and by those too if it leaves out the queues.\<close>

locale request_part = message_part +
  assumes look_db [simp]: "look (st\<lparr>bind_db := b\<rparr>) = look st"
    and look_crypt_key [simp]: "look (upd_conn k (\<lambda>c. c\<lparr>crypt_key := key\<rparr>) st) = look st"
begin

lemma unx_user [simp]: "look (test_ins_unx_user ne i st) = look st"
  by (simp add: test_ins_unx_user_def Let_def split: sum.split option.split)

lemma db_requests [simp]:
  "look (snd (verify_password ne a p st)) = look st" "look (snd (change_password_keyed ne a p st)) = look st"
  "look (snd (change_password_plain ne a p st)) = look st" "look (snd (get_object_connections ne a p st)) = look st"
  "look (snd (get_object_connections_new ne a p st)) = look st" "look (snd (db_request f st)) = look st"
  "look (snd (get_crypt_key ne a st)) = look st"
  by (simp_all add: verify_password_def change_password_keyed_def change_password_plain_def get_object_connections_def
      get_object_connections_new_def db_request_def get_crypt_key_def Let_def split_beta)

lemma conns_frame: "handle_conns ne a ufunc p st = Some r \<Longrightarrow> ufunc \<noteq> 0x14 \<Longrightarrow> ufunc \<noteq> 0x18 \<Longrightarrow> look (snd r) = look st"
  unfolding handle_conns_def by (auto simp: message_requests split: if_splits)

lemma restrict_frame: "restrict_login ne a ob st = (r, st') \<Longrightarrow> look st' = look st"
  by (auto simp: restrict_login_def split: if_splits prod.splits)

end

locale conn_part = request_part +
  assumes look_queues [simp]: "look (st\<lparr>bind_queues := q\<rparr>) = look st"
begin

lemma look_both [simp]: "look (st\<lparr>bind_db := b, bind_queues := q\<rparr>) = look st"
  using look_queues [of q "st\<lparr>bind_db := b\<rparr>"] by simp

lemma queues_frame: "handle_queues ne a task ufunc p st = Some r \<Longrightarrow> look (snd r) = look st"
  unfolding handle_queues_def
  by (auto simp: create_queue_def destroy_queue_def set_queue_status_def queue_result_def abort_job_def reply_job_def Let_def
      split: if_splits prod.splits option.splits)

lemma end_of_job_frame [simp]: "look (snd (end_of_job ne a task st)) = look st"
  by (simp add: end_of_job_def)

lemma frame_17: "ufunc \<noteq> 0x14 \<Longrightarrow> ufunc \<noteq> 0x18 \<Longrightarrow> look (snd (handle_17 ne a task ufunc p st)) = look st"
  by (auto simp: handle_17_def conns_frame queues_frame split: option.split)

end

interpretation db_part: state_part bind_db by unfold_locales (simp_all add: upd_conn_def emit_def)
interpretation queue_part: state_part bind_queues by unfold_locales (simp_all add: upd_conn_def emit_def)
interpretation sema_part: state_part sema_tab by unfold_locales (simp_all add: upd_conn_def emit_def)

section \<open>The objects of the data base\<close>

lemma objs_handle_iobj [simp]: "objs (snd (snd (handle_iobj env m x b))) = objs b"
  by (auto simp: handle_iobj_def split: option.splits)

lemma objs_find_obj_id: "find_obj_id env x b = (r, y, b') \<Longrightarrow> objs b' = objs b"
  by (drule find_obj_id_frame) auto

lemma objs_snd_find [simp]: "objs (snd (snd (find_obj_id env x b))) = objs b"
  using objs_find_obj_id by (metis prod.collapse)

lemma objs_ins_prop_val [simp]: "objs (snd (ins_prop_val env i p s v e b)) = objs b"
  by (auto simp: ins_prop_val_def Let_def)

lemma objs_create_obj_prop [simp]: "objs (snd (snd (nw_create_obj_prop env i p b))) = objs b"
  by (auto simp: nw_create_obj_prop_def Let_def split: option.splits)

lemma objs_delete_property [simp]: "objs (snd (loc_delete_property env i n p e b)) = objs b"
  by (auto simp: loc_delete_property_def Let_def split: prod.splits)

lemma objs_members [simp]:
  "objs (snd (prop_add_member env i p s m b)) = objs b" "objs (snd (prop_delete_member env i p s m b)) = objs b"
  by (auto simp: prop_add_member_def prop_delete_member_def Let_def split: prod.splits)

lemma objs_new_obj_prop [simp]: "objs (snd (nw_new_obj_prop env i [] t fl s pn pf ps v n e b)) = objs b"
proof -
  obtain r q b2 where c: "nw_create_obj_prop env i
    \<lparr>p_obj_id = 0, p_id = 0, p_name = strmaxcpy pn 16, p_flags = word_of_int pf, p_security = word_of_int ps\<rparr> b = (r, q, b2)"
    by (metis prod_cases3)
  then have "objs b2 = objs b" by (metis objs_create_obj_prop snd_conv)
  then show ?thesis by (simp add: nw_new_obj_prop_def Let_def c)
qed

lemma objs_login_control [simp]: "objs (nw_set_login_control env i lc b) = objs b"
  by (simp add: nw_set_login_control_def)

lemma objs_find_set: "find_set env x n m b = (r, b') \<Longrightarrow> objs b' = objs b"
  by (auto simp: find_set_def Let_def split: prod.splits if_splits sum.splits dest!: objs_find_obj_id)

lemma objs_set_passwd:
  "objs (snd (nw_update_oldpasswd env pe i w b)) = objs b" "objs (renew_expiry env pe i b) = objs b"
  "objs (snd (nw_set_enpasswd env pe i w d b)) = objs b" "objs (snd (nw_set_passwd env pe i c d b)) = objs b"
  "objs (snd (nw_keychange_passwd env pe i k old l new fl b)) = objs b"
proof -
  show 1: "objs (snd (nw_update_oldpasswd env pe i w b)) = objs b" for w b
    by (auto simp: nw_update_oldpasswd_def split: sum.splits)
  show 2: "objs (renew_expiry env pe i b) = objs b" for b
    by (auto simp: renew_expiry_def Let_def split: option.splits prod.splits)
  show 3: "objs (snd (nw_set_enpasswd env pe i w d b)) = objs b" for w d b
    using 1 [of w b] by (auto simp: nw_set_enpasswd_def Let_def 2 split: prod.splits)
  show "objs (snd (nw_set_passwd env pe i c d b)) = objs b" by (simp add: nw_set_passwd_def 3)
  show "objs (snd (nw_keychange_passwd env pe i k old l new fl b)) = objs b"
    using 3 by (auto simp: nw_keychange_passwd_def Let_def split: prod.splits) (metis snd_conv)+
qed

lemma objs_test_adr_time [simp]:
  "objs (snd (nw_test_adr_time_access ne i adr cs b)) = objs b" 
proof -
  have "objs (snd (nw_test_time_access ne i b)) = objs b"
    by (auto simp: nw_test_time_access_def Let_def split: option.splits)
  moreover have "objs (set_last_login ne i b) = objs b" for b
    by (auto simp: set_last_login_def Let_def split: option.splits)
  ultimately show ?thesis by (auto simp: nw_test_adr_time_access_def Let_def split: prod.splits)
qed

section \<open>Only a supervisor changes the objects\<close>

definition user_env :: "bind_env \<Rightarrow> bool" where
  "user_env env = (case acting env of None \<Rightarrow> False | Some (_, fl) \<Rightarrow> \<not> has fl 1)"

lemma user_as_conn: "\<not> is_su st a \<Longrightarrow> user_env (as_conn ne st a)"
  by (simp add: user_env_def as_conn_def is_su_def)

lemma user_acc: "user_env env \<Longrightarrow> b_acc env i 0x33 0x02 \<noteq> 0" "user_env env \<Longrightarrow> b_acc env i 0x33 0x03 \<noteq> 0"
  by (auto simp: user_env_def b_acc_def acc_error_def drop_bit_eq_div split: option.splits prod.splits)

lemma user_creates_nothing: "user_env env \<Longrightarrow> nw_create_obj env ob w b = (b_acc env 0 0x33 0x02, ob, b)"
  by (simp add: nw_create_obj_def user_acc Let_def)

lemma objs_user:
  assumes "user_env env"
  shows "objs (snd (create_object env p b)) = objs b" "objs (snd (delete_object env p b)) = objs b"
    "objs (snd (rename_object env False p b)) = objs b" "objs (snd (change_object_security env False p b)) = objs b"
  using assms
  by (auto simp: create_object_def user_creates_nothing delete_object_def nw_delete_obj_def loc_delete_obj_def user_acc
      rename_object_def change_object_security_def dest: objs_find_obj_id split: prod.splits)

text \<open>The same for operations whose results are taken apart.\<close>

lemma objs_results:
  "find_obj_id env x b = (r, y, b') \<Longrightarrow> objs b' = objs b" "nw_create_obj_prop env i q b = (r, q', b') \<Longrightarrow> objs b' = objs b"
  "loc_delete_property env i n k e b = (r, b') \<Longrightarrow> objs b' = objs b" "ins_prop_val env i q m w k2 b = (r, b') \<Longrightarrow> objs b' = objs b"
  using objs_find_obj_id objs_create_obj_prop objs_delete_property objs_ins_prop_val by (metis snd_conv)+

lemma objs_properties:
  "objs (snd (get_object_id env p b)) = objs b" "objs (snd (get_object_name env p b)) = objs b"
  "objs (snd (scan_object env p b)) = objs b" "objs (snd (create_property env p b)) = objs b"
  "objs (snd (delete_property env p b)) = objs b" "objs (snd (change_property_security env p b)) = objs b"
  "objs (snd (scan_property env p b)) = objs b" "objs (snd (read_property env p b)) = objs b"
  "objs (snd (write_property env p b)) = objs b"
proof -
  show "objs (snd (get_object_id env p b)) = objs b" "objs (snd (get_object_name env p b)) = objs b"
    "objs (snd (scan_object env p b)) = objs b"
    by (auto simp: get_object_id_def get_object_name_def scan_object_def Let_def split: prod.splits sum.splits
        dest: objs_find_obj_id)
  show "objs (snd (create_property env p b)) = objs b" "objs (snd (delete_property env p b)) = objs b"
    by (auto simp: create_property_def nw_create_prop_def delete_property_def nw_delete_property_def Let_def
        split: prod.splits if_splits dest!: objs_results)
  show "objs (snd (change_property_security env p b)) = objs b" "objs (snd (scan_property env p b)) = objs b"
    by (auto simp: change_property_security_def nw_change_prop_security_def loc_change_prop_security_def
        scan_property_def nw_scan_property_def Let_def
        split: prod.splits if_splits option.splits sum.splits dest!: objs_results)
  show "objs (snd (read_property env p b)) = objs b" "objs (snd (write_property env p b)) = objs b"
    by (auto simp: read_property_def nw_get_prop_val_def write_property_def nw_write_prop_value_def Let_def
        split: prod.splits if_splits option.splits sum.splits dest!: objs_results)
qed

lemma objs_sets:
  "objs (snd (set_request (nw_add_obj_to_set env) p b)) = objs b"
  "objs (snd (set_request (nw_delete_obj_from_set env) p b)) = objs b"
  "objs (snd (set_request (nw_is_obj_in_set env) p b)) = objs b"
proof -
  have "objs (snd (nw_add_obj_to_set env t n l q m u v w b)) = objs b"
    "objs (snd (nw_delete_obj_from_set env t n l q m u v w b)) = objs b"
    "objs (snd (nw_is_obj_in_set env t n l q m u v w b)) = objs b" for t n l q m u v w
    by (auto simp: nw_add_obj_to_set_def nw_delete_obj_from_set_def nw_is_obj_in_set_def Let_def
        split: prod.splits sum.splits dest: objs_find_set)
  then show "objs (snd (set_request (nw_add_obj_to_set env) p b)) = objs b"
    "objs (snd (set_request (nw_delete_obj_from_set env) p b)) = objs b"
    "objs (snd (set_request (nw_is_obj_in_set env) p b)) = objs b"
    by (auto simp: set_request_def Let_def split: prod.splits) (metis snd_conv)+
qed

lemma objs_restrict_login: "restrict_login ne a ob st = (r, st') \<Longrightarrow> objs (bind_db st') = objs (bind_db st)"
  by (auto simp: restrict_login_def split: if_splits prod.splits) (metis snd_conv objs_test_adr_time)

lemma objs_finish_login [simp]: "objs (bind_db (snd (finish_login ne a i r st))) = objs (bind_db st)"
  by (simp add: db_part.finish_login)

lemma objs_logins:
  "objs (bind_db (snd (login_plain ne a p st))) = objs (bind_db st)"
  "objs (bind_db (snd (login_keyed ne a p st))) = objs (bind_db st)"
  "objs (bind_db (snd (verify_password ne a p st))) = objs (bind_db st)"
  "objs (bind_db (snd (get_object_connections ne a p st))) = objs (bind_db st)"
  "objs (bind_db (snd (get_object_connections_new ne a p st))) = objs (bind_db st)"
  by (auto simp: login_plain_def login_keyed_def verify_password_def get_object_connections_def get_object_connections_new_def
      Let_def split: prod.splits if_splits dest!: objs_results(1) objs_restrict_login)

lemma objs_unx_user: "objs (bind_db (test_ins_unx_user ne i st)) = objs (bind_db st)"
  by (auto simp: test_ins_unx_user_def add_user_2_unx_def Let_def split: sum.splits option.splits)

lemma objs_passwd_results:
  "nw_set_passwd env pe i w d b = (r, b') \<Longrightarrow> objs b' = objs b"
  "nw_keychange_passwd env pe i k old l new fl b = (r, b') \<Longrightarrow> objs b' = objs b"
  using objs_set_passwd(4,5) by (metis snd_conv)+

lemma objs_password_changes:
  "objs (bind_db (snd (change_password_keyed ne a p st))) = objs (bind_db st)"
  "objs (bind_db (snd (change_password_plain ne a p st))) = objs (bind_db st)"
  by (auto simp: change_password_keyed_def change_password_plain_def Let_def objs_unx_user
      split: prod.splits if_splits dest!: objs_results(1) objs_passwd_results)

lemma objs_conns:
  "handle_conns ne a ufunc p st = Some r \<Longrightarrow> objs (bind_db (snd r)) = objs (bind_db st)"
  unfolding handle_conns_def
  by (auto simp: objs_logins objs_password_changes db_part.message_requests db_part.login_requests split: if_splits)

lemma objs_bindery:
  "handle_bindery env su ufunc p = Some f \<Longrightarrow> user_env env \<Longrightarrow> \<not> su \<Longrightarrow> objs (snd (f b)) = objs b"
  unfolding handle_bindery_def by (auto simp: objs_user objs_properties objs_sets split: if_splits)

lemma db_reply_job [simp]: "bind_db (snd (reply_job r st)) = bind_db st"
  by (simp add: reply_job_def split: prod.splits option.splits)

lemma objs_queues:
  "handle_queues ne a task ufunc p st = Some r \<Longrightarrow> \<not> is_su st a \<Longrightarrow> objs (bind_db (snd r)) = objs (bind_db st)"
proof -
  assume su: "\<not> is_su st a"
  have "bind_db (snd (create_queue ne a p st)) = bind_db st"
    by (simp add: create_queue_def nw_creat_queue_def user_creates_nothing [OF user_as_conn [OF su]]
        user_acc [OF user_as_conn [OF su]])
  then show "handle_queues ne a task ufunc p st = Some r \<Longrightarrow> objs (bind_db (snd r)) = objs (bind_db st)"
    unfolding handle_queues_def
    by (auto simp: su destroy_queue_def set_queue_status_def queue_result_def abort_job_def Let_def
        split: if_splits prod.splits)
qed

text \<open>The state after a request is that after its case, and most cases leave the data base alone.\<close>

lemma handle_fxx_state:
  "snd (handle_fxx ne a func task p st) =
     (if func = 0x15 then snd (handle_messages a (unat (p 2)) (\<lambda>k. p (k + 3)) st)
      else if func = 0x16 then snd (handle_quota ne a (unat (p 2)) (\<lambda>k. p (k + 3)) st)
      else if func = 0x17 then snd (handle_17 ne a task (unat (p 2)) (\<lambda>k. p (k + 3)) st)
      else if func = 0x18 then snd (end_of_job ne a task st)
      else if func = 0x19 then snd (logout ne a st)
      else if func = 0x20 then snd (semaphore_request a (unat (p 0)) (\<lambda>k. p (k + 1)) st)
      else st)"
  unfolding handle_fxx_def by (auto simp: Let_def split_beta)

lemma handle_quota_state [simp]: "snd (handle_quota ne a ufunc p st) = st"
  by (simp add: handle_quota_def Let_def split_beta)

lemma db_frames:
  "bind_db (snd (end_of_job ne a task st)) = bind_db st" "bind_db (snd (logout ne a st)) = bind_db st"
  "bind_db (snd (semaphore_request a ufunc p st)) = bind_db st"
  by (simp_all add: end_of_job_def logout_def semaphore_request_def Let_def split_beta)

text \<open>C3. Only a supervisor changes the objects of the bindery: whatever request a connection without the flag of
  a supervisor sends, with whatever contents, the objects with their ids, names, types and securities are afterwards
  what they were, logins, password changes and queue requests included.\<close>

theorem only_supervisors_change_objects:
  assumes "\<not> is_su st a"
  shows "objs (bind_db (snd (handle_fxx ne a func task p st))) = objs (bind_db st)"
proof -
  have 17: "objs (bind_db (snd (handle_17 ne a task u q st))) = objs (bind_db st)" for u q
  proof (cases "handle_conns ne a u q st")
    case None
    have "objs (bind_db (snd (db_request f st))) = objs (bind_db st)"
      if "handle_bindery (as_conn ne st a) (is_su st a) u q = Some f" for f
      using objs_bindery [OF that user_as_conn [OF assms] assms, of "bind_db st"]
      by (cases "f (bind_db st)") (simp add: db_request_def)
    with None objs_queues [OF _ assms, of ne task u q] show ?thesis
      by (simp add: handle_17_def split: option.splits)
  qed (simp add: handle_17_def objs_conns)
  show ?thesis
    by (simp add: handle_fxx_state 17 db_part.message_requests db_frames)
qed

section \<open>A connection becomes an object only by its password\<close>

definition ident :: "CONNECTION \<Rightarrow> u32 \<times> u32 \<times> bool" where
  "ident c = (object_id c, id_flags c, active c)"

definition idents :: "bind_state \<Rightarrow> (u32 \<times> u32 \<times> bool) list" where
  "idents st = map ident (connections st)"

lemma ident_simps [simp]: "ident (c\<lparr>message := m\<rparr>) = ident c" "ident (c\<lparr>crypt_key := k\<rparr>) = ident c"
  "ident (c\<lparr>cn_semas := x\<rparr>) = ident c"
  by (simp_all add: ident_def)

lemma idents_upd [simp]:
  assumes "\<And>c. ident (f c) = ident c"
  shows "idents (upd_conn k f st) = idents st"
  using assms list_update_id [of "idents st" k]
  by (cases "k < length (connections st)") (simp_all add: idents_def upd_conn_def map_update list_update_beyond)

lemma idents_frame [simp]: "idents (emit e st) = idents st" "idents (st\<lparr>bind_db := b\<rparr>) = idents st"
  "idents (st\<lparr>bind_queues := q\<rparr>) = idents st"
  "idents (st\<lparr>sema_tab := t\<rparr>) = idents st"
  by (simp_all add: idents_def emit_def)

lemma length_idents [simp]: "length (idents st) = length (connections st)"
  by (simp add: idents_def)

lemma idents_nth: "k < length (connections st) \<Longrightarrow> idents st ! k = ident (connections st ! k)"
  by (simp add: idents_def)

interpretation ident_part: conn_part idents by unfold_locales simp_all

lemma idents_semaphore [simp]: "idents (snd (semaphore_request a ufunc p st)) = idents st"
  by (simp add: semaphore_request_def Let_def split_beta)

text \<open>What a login request must show: the answer to the challenge that the server gave this connection, made
  from the stored hash, or the password itself.  An object without a password needs none, unless it is the
  supervisor or has a password as a Unix user.\<close>

definition shows_password :: "nb_env \<Rightarrow> nat \<Rightarrow> nat \<Rightarrow> buffer \<Rightarrow> bind_state \<Rightarrow> u32 \<Rightarrow> bool" where
  "shows_password ne a ufunc p st i =
     (let (len, stored) = nw_get_prop_val_str (internal ne) i pn_password (bind_db st)
      in if ufunc = 0x18
         then if 0 < len then bytes_at p 0 8 = nw_encrypt (crypt_key (act_c st a)) stored else i \<noteq> 1
         else let password = take 79 (name_at p (after p 2)); up = upstr password
              in password \<noteq> [] \<and> 0 < len \<and> shuffle (u32_to_be32 i) up (length up) = take 16 stored \<or>
                 (case nw_getpwnam (internal ne) (pwe ne) i (bind_db st) of
                    Some pw \<Rightarrow> crypt_pw_ok (pwe ne) password (pw_passwd pw) \<or>
                               crypt_pw_ok (pwe ne) (downstr password) (pw_passwd pw)
                  | None \<Rightarrow> False))"

lemma find_obj_id_result: "find_obj_id env x b = (r, y, b') \<Longrightarrow> r \<in> {0, -0xff, -0xfc} \<and> props b' = props b \<and> vals b' = vals b"
proof -
  assume f: "find_obj_id env x b = (r, y, b')"
  have "props b' = props b \<and> vals b' = vals b" using find_obj_id_frame [OF f] by auto
  moreover have "r \<in> {0, -0xff, -0xfc}" using f
    by (auto simp: find_obj_id_def scan_for_obj_def Let_def split: option.splits prod.splits if_splits)
  ultimately show ?thesis by simp
qed

lemma same_values:
  assumes "props b' = props b" "vals b' = vals b"
  shows "nw_get_prop_val_str env i n b' = nw_get_prop_val_str env i n b" "nw_getpwnam env pe i b' = nw_getpwnam env pe i b"
    "nw_get_login_control env i b' = nw_get_login_control env i b"
proof -
  have f: "find_prop_id env n i l b' = find_prop_id env n i l b" for n l i unfolding find_prop_id_def assms ..
  have l: "loc_get_prop_val env i k s m b' = loc_get_prop_val env i k s m b" for k s m i
    unfolding loc_get_prop_val_def assms ..
  show 1: "nw_get_prop_val_str env i n b' = nw_get_prop_val_str env i n b" for n
    unfolding nw_get_prop_val_str_def nw_get_prop_val_by_obj_id_def f l ..
  show "nw_get_login_control env i b' = nw_get_login_control env i b"
    unfolding nw_get_login_control_def nw_get_prop_val_by_obj_id_def l f ..
  show "nw_getpwnam env pe i b' = nw_getpwnam env pe i b" by (simp add: nw_getpwnam_def 1)
qed

lemma keyed_test:
  "-1 < nw_test_passwd (internal ne) (pwe ne) i (crypt_key (act_c st a)) (bytes_at p 0 8) b \<Longrightarrow> props b = props (bind_db st) \<Longrightarrow>
     vals b = vals (bind_db st) \<Longrightarrow> shows_password ne a 0x18 p st i"
  unfolding nw_test_passwd_def loc_nw_test_passwd_def shows_password_def
  by (auto simp: same_values [of b "bind_db st"] bytes_at_def Let_def split: prod.splits if_splits)

lemma plain_test:
  "nw_test_unenpasswd (internal ne) (pwe ne) i (take 79 (name_at p (after p 2))) b = 0 \<Longrightarrow> props b = props (bind_db st) \<Longrightarrow>
     vals b = vals (bind_db st) \<Longrightarrow> shows_password ne a 0x14 p st i"
  unfolding nw_test_unenpasswd_def shows_password_def
  by (auto simp: same_values [of b "bind_db st"] Let_def min_def split: prod.splits if_splits option.splits)

lemma finish_login_idents:
  "idents (snd (finish_login ne a i r st)) =
     (if r = 0 \<or> r = -0xdf then (idents st)[a := (i, if have_su_rights (internal ne) i (bind_db st) then 1 else 0, active (act_c st a))]
      else idents st)"
  by (simp add: finish_login_def build_login_response_def Let_def split_beta) (simp add: idents_def ident_def act_c_def upd_conn_def map_update)

text \<open>What a login of a user requires of the connections that the user has already.\<close>

definition within_limit :: "nb_env \<Rightarrow> bind_state \<Rightarrow> NETOBJ \<Rightarrow> bool" where
  "within_limit ne st ob =
     (o_type ob = 1 \<and> \<not> (o_id ob = 1 \<and> entry8_flags ne AND 8 \<noteq> 0) \<longrightarrow>
      (case nw_get_login_control (internal ne) (o_id ob) (bind_db st) of
         Some lc \<Rightarrow> unat (get_be16 (maxConcurrentConnections lc)) \<noteq> 0 \<longrightarrow>
                    count_logins (connections st) (o_id ob) < unat (get_be16 (maxConcurrentConnections lc))
       | None \<Rightarrow> True))"

lemma restrict_limit: "restrict_login ne a ob st = (r, st1) \<Longrightarrow> r = 0 \<or> r = -0xdf \<Longrightarrow> within_limit ne st ob"
  by (auto simp: restrict_login_def within_limit_def nw_test_adr_time_access_def nw_test_adr_access_def Let_def
      split: if_splits prod.splits option.splits)

lemma within_limit_values: "props b = props (bind_db st) \<Longrightarrow> vals b = vals (bind_db st) \<Longrightarrow>
    within_limit ne (st\<lparr>bind_db := b\<rparr>) ob \<longleftrightarrow> within_limit ne st ob"
  by (simp add: within_limit_def same_values(3) [of b "bind_db st"] split: option.split)

definition logged_in :: "nb_env \<Rightarrow> nat \<Rightarrow> nat \<Rightarrow> buffer \<Rightarrow> bind_state \<Rightarrow> bind_state \<Rightarrow> bool" where
  "logged_in ne a ufunc p st st' =
     (\<exists>env x ob b. find_obj_id env x (bind_db st) = (0, ob, b) \<and> obj_order env = obj_order (dbs ne) \<and> within_limit ne st ob \<and>
        shows_password ne a ufunc p st (o_id ob) \<and>
        idents st' = (idents st)[a := (o_id ob, if have_su_rights (internal ne) (o_id ob) (bind_db st') then 1 else 0, active (act_c st a))])"

lemma logged_inD:
  "logged_in ne a ufunc p st st' \<Longrightarrow> \<exists>x. idents st' = (idents st)[a := x] \<and> shows_password ne a ufunc p st (fst x) \<and>
     (fst (snd x) = 0 \<or> have_su_rights (internal ne) (fst x) (bind_db st'))"
  unfolding logged_in_def by (elim exE conjE, rule exI, rule conjI, assumption) simp

lemma login_finished:
  assumes "find_obj_id env x (bind_db st) = (0, ob, b)" "obj_order env = obj_order (dbs ne)"
    "r = 0 \<or> r = -0xdf \<longrightarrow> within_limit ne st ob" "shows_password ne a ufunc p st (o_id ob)" "idents st1 = idents st" "active (act_c st1 a) = active (act_c st a)"
  shows "idents (snd (finish_login ne a (o_id ob) r st1)) = idents st \<or>
    logged_in ne a ufunc p st (snd (finish_login ne a (o_id ob) r st1))"
proof (cases "r = 0 \<or> r = -0xdf")
  case True
  then show ?thesis using assms unfolding logged_in_def
    by (intro disjI2 exI [of _ env] exI [of _ x] exI [of _ ob] exI [of _ b]) (simp add: finish_login_idents db_part.finish_login)
qed (use assms in \<open>simp add: finish_login_idents\<close>)

lemma login_keyed_idents:
  "idents (snd (login_keyed ne a p st)) = idents st \<or> logged_in ne a 0x18 p st (snd (login_keyed ne a p st))"
proof -
  obtain r ob b where f: "find_obj_id (as_conn ne st a) (obj_of (be16_at p 8) (upstr (take 47 (name_at p 10)))) (bind_db st) = (r, ob, b)"
    by (metis prod_cases3)
  let ?t = "nw_test_passwd (internal ne) (pwe ne) (o_id ob) (crypt_key (act_c st a)) (bytes_at p 0 8) b"
  obtain r1 st1 where l: "restrict_login ne a ob (st\<lparr>bind_db := b\<rparr>) = (r1, st1)" by fastforce
  then have st1: "idents st1 = idents st" "active (act_c st1 a) = active (act_c st a)"
    by (auto simp: restrict_login_def act_c_def split: if_splits prod.splits)
  note fr = find_obj_id_result [OF f]
  show ?thesis
  proof (cases "r = 0 \<and> -1 < ?t")
    case True
    then have "shows_password ne a 0x18 p st (o_id ob)" using keyed_test fr by blast
    moreover have "login_keyed ne a p st = finish_login ne a (o_id ob) r1 st1" using True by (simp add: login_keyed_def f l)
    moreover have "r1 = 0 \<or> r1 = -0xdf \<longrightarrow> within_limit ne st ob" using restrict_limit [OF l] within_limit_values fr by blast
    ultimately show ?thesis using login_finished [OF _ _ _ _ st1] f True by (simp add: as_conn_def)
  next
    case False
    moreover have "?t \<noteq> -0xdf" by (simp add: nw_test_passwd_def loc_nw_test_passwd_def Let_def split: prod.split)
    ultimately have "idents (snd (login_keyed ne a p st)) = idents st" using fr
      by (auto simp: login_keyed_def f Let_def finish_login_idents)
    then show ?thesis ..
  qed
qed

lemma login_plain_idents:
  "idents (snd (login_plain ne a p st)) = idents st \<or> logged_in ne a 0x14 p st (snd (login_plain ne a p st))"
proof -
  obtain r ob b where f: "find_obj_id (as_conn ne st a) (obj_of (be16_at p 0) (upstr (take 47 (name_at p 2)))) (bind_db st) = (r, ob, b)"
    by (metis prod_cases3)
  let ?t = "nw_test_unenpasswd (internal ne) (pwe ne) (o_id ob) (take 79 (name_at p (after p 2))) b"
  obtain r1 st1 where l: "restrict_login ne a ob (st\<lparr>bind_db := b\<rparr>) = (r1, st1)" by fastforce
  then have st1: "idents st1 = idents st" "active (act_c st1 a) = active (act_c st a)"
    by (auto simp: restrict_login_def act_c_def split: if_splits prod.splits)
  note fr = find_obj_id_result [OF f]
  show ?thesis
  proof (cases "r = 0 \<and> scheme_has (pwe ne) PW_SCHEME_LOGIN \<and> ?t = 0")
    case True
    then have "shows_password ne a 0x14 p st (o_id ob)" using plain_test fr by blast
    moreover have "login_plain ne a p st = finish_login ne a (o_id ob) r1 st1" using True by (simp add: login_plain_def f l)
    moreover have "r1 = 0 \<or> r1 = -0xdf \<longrightarrow> within_limit ne st ob" using restrict_limit [OF l] within_limit_values fr by blast
    ultimately show ?thesis using login_finished [OF _ _ _ _ st1] f True by (simp add: as_conn_def)
  next
    case False
    moreover have "?t = 0 \<or> ?t = -0xff" by (auto simp: nw_test_unenpasswd_def Let_def split: prod.split option.split)
    ultimately have "idents (snd (login_plain ne a p st)) = idents st" using fr
      by (auto simp: login_plain_def f Let_def finish_login_idents)
    then show ?thesis ..
  qed
qed

lemma handle_17_idents:
  "idents (snd (handle_17 ne a task u q st)) = idents st \<or>
     u \<in> {0x14, 0x18} \<and> logged_in ne a u q st (snd (handle_17 ne a task u q st))"
proof -
  consider "u = 0x14" | "u = 0x18" | "u \<noteq> 0x14" "u \<noteq> 0x18" by blast
  then show ?thesis
  proof cases
    case 1
    then have "handle_17 ne a task u q st = login_plain ne a q st" by (simp add: handle_17_def handle_conns_def)
    then show ?thesis using 1 login_plain_idents [of ne a q st] by simp
  next
    case 2
    then have "handle_17 ne a task u q st = login_keyed ne a q st" by (simp add: handle_17_def handle_conns_def)
    then show ?thesis using 2 login_keyed_idents [of ne a q st] by simp
  qed (simp add: ident_part.frame_17)
qed

lemma fxx_idents:
  "idents (snd (handle_fxx ne a func task p st)) = idents st \<or>
     func = 0x19 \<and> idents (snd (handle_fxx ne a func task p st)) = (idents st)[a := (0, 0, active (act_c st a))] \<or>
     func = 0x17 \<and> unat (p 2) \<in> {0x14, 0x18} \<and>
       logged_in ne a (unat (p 2)) (\<lambda>j. p (j + 3)) st (snd (handle_fxx ne a func task p st))"
proof (cases "func = 0x17")
  case True
  with handle_17_idents [of ne a task "unat (p 2)" "\<lambda>j. p (j + 3)" st] show ?thesis by (simp add: handle_fxx_state)
next
  case False
  then show ?thesis
    by (simp add: handle_fxx_state ident_part.message_requests logout_def) (simp add: idents_def ident_def act_c_def upd_conn_def map_update emit_def)
qed


section \<open>The number of logins\<close>

definition counts :: "u32 \<Rightarrow> u32 \<times> u32 \<times> bool \<Rightarrow> bool" where
  "counts i x = (snd (snd x) \<and> fst x = i)"

lemma count_idents: "count_logins (connections st) i = length (filter (counts i) (idents st))"
  by (simp add: count_logins_def idents_def counts_def ident_def filter_map comp_def)

lemma filter_update: "length (filter P (xs[a := x])) \<le> length (filter P xs) + (if P x then 1 else 0)"
proof (induction xs arbitrary: a)
  case (Cons y ys)
  show ?case
  proof (cases a)
    case (Suc n)
    then show ?thesis using Cons.IH [of n] by (simp split: if_splits)
  qed simp
qed simp

lemma count_update: "idents st' = (idents st)[a := x] \<Longrightarrow>
    count_logins (connections st') i \<le> count_logins (connections st) i + (if counts i x then 1 else 0)"
  by (simp only: count_idents filter_update)

lemma find_obj_id_in: "find_obj_id env x b = (0, ob, b') \<Longrightarrow> set (obj_order env (objs b)) = set (objs b) \<Longrightarrow> ob \<in> set (objs b)"
  by (auto simp: find_obj_id_def scan_for_obj_def Let_def split: option.splits prod.splits if_splits
      dest!: find_SomeD chain_find_key)

text \<open>One request: a user whose restrictions allow a number of connections is logged in at most that often afterwards, if
  he was before.\<close>

lemma login_limit_step:
  assumes "scans_complete (dbs ne)" and "\<forall>x \<in> set (objs (bind_db st)). o_id x = i \<longrightarrow> o_type x = 1"
    and "i \<noteq> 0" and "i = 1 \<longrightarrow> entry8_flags ne AND 8 = 0"
    and "nw_get_login_control (internal ne) i (bind_db st) = Some lc"
    and "unat (get_be16 (maxConcurrentConnections lc)) = limit" and "limit \<noteq> 0"
    and "count_logins (connections st) i \<le> limit"
  shows "count_logins (connections (snd (handle_fxx ne a func task p st))) i \<le> limit"
proof -
  let ?st = "snd (handle_fxx ne a func task p st)"
  have "set (obj_order (dbs ne) (objs (bind_db st))) = set (objs (bind_db st))"
    using assms(1) by (metis scans_complete_def set_mset_mset)
  then have ob: "o_type ob = 1" if "find_obj_id env x (bind_db st) = (0, ob, b)" "obj_order env = obj_order (dbs ne)" "o_id ob = i"
    for env x ob b using find_obj_id_in [OF that(1)] that(2,3) assms(2) by simp
  consider "idents ?st = idents st" | "idents ?st = (idents st)[a := (0, 0, active (act_c st a))]"
    | "logged_in ne a (unat (p 2)) (\<lambda>j. p (j + 3)) st ?st"
    using fxx_idents [of ne a func task p st] by blast
  then show ?thesis
  proof cases
    case 2
    then show ?thesis using count_update [OF 2, of i] assms(3,8) by (simp add: counts_def)
  next
    case 3
    then obtain env x b o' f where f: "find_obj_id env x (bind_db st) = (0, o', b)" "obj_order env = obj_order (dbs ne)"
      "within_limit ne st o'" "idents ?st = (idents st)[a := (o_id o', f)]" unfolding logged_in_def by blast
    show ?thesis
    proof (cases "o_id o' = i")
      case True
      then have "count_logins (connections st) i < limit" using f(3) ob [OF f(1,2)] assms(4-7) by (auto simp: within_limit_def)
      then show ?thesis using count_update [OF f(4), of i] by (simp split: if_splits)
    next
      case False
      then show ?thesis using count_update [OF f(4), of i] assms(8) by (simp add: counts_def)
    qed
  qed (use assms(8) in \<open>simp add: count_idents\<close>)
qed

section \<open>A value leaves the data base only with the right to read it\<close>

definition may_read :: "CONNECTION \<Rightarrow> NETPROP \<Rightarrow> bool" where
  "may_read c pr =
     (let s = p_security pr AND 15
      in s = 0 \<or> s = 1 \<and> object_id c \<noteq> 0 \<or> s = 2 \<and> (object_id c = p_obj_id pr \<or> has (id_flags c) 1) \<or>
         s = 3 \<and> has (id_flags c) 1)"

lemma read_acc: "b_acc (as_conn ne st a) (p_obj_id pr) (p_security pr) 0x10 = 0 \<Longrightarrow> may_read (act_c st a) pr"
  by (auto simp: b_acc_def as_conn_def may_read_def acc_error_def Let_def word_gt_0 split: if_splits)

lemma read_value:
  assumes "nw_get_prop_val_by_obj_id env i k n l b = Inr (vl, mo, fl)" and "scans_complete env"
  obtains pr v where "pr \<in> set (props b)" "v \<in> set (vals b)" "vl = v_value v" "v_obj_id v = i" "p_obj_id pr = i"
    "v_prop_id v = p_id pr" "b_acc env i (p_security pr) 0x10 = 0"
proof -
  obtain pr where f: "find_first_prop_id env (strmaxcpy n l) i b = Inr pr"
    and g: "loc_get_prop_val env i (p_id pr) (p_security pr) k b = Inr (vl, mo)"
    using assms(1) by (auto simp: nw_get_prop_val_by_obj_id_def split: sum.splits prod.splits)
  have "pr \<in> set (props b) \<and> p_obj_id pr = i" using f assms(2)
    by (auto simp: find_prop_id_def Let_def split: if_splits option.splits dest!: find_SomeD)
  moreover obtain v where "chain_find v_key (i, p_id pr, word_of_int k) (vals b) = Some v" "vl = v_value v"
    "b_acc env i (p_security pr) 0x10 = 0"
    using g by (auto simp: loc_get_prop_val_def Let_def split: if_splits option.splits)
  moreover from this(1) have "v \<in> set (vals b)" "v_obj_id v = i" "v_prop_id v = p_id pr"
    by (auto dest!: chain_find_key simp: v_key_def)
  ultimately show thesis using that by blast
qed

lemma read_property_answer:
  assumes "answer (fst (read_property env p b)) \<noteq> []" and "scans_complete env"
  obtains pr v mo fl where "pr \<in> set (props b)" "v \<in> set (vals b)" "answer (fst (read_property env p b)) = v_value v @ [mo, fl]"
    "v_obj_id v = p_obj_id pr" "v_prop_id v = p_id pr" "b_acc env (p_obj_id pr) (p_security pr) 0x10 = 0"
proof -
  let ?k = "after p 2"
  obtain x b1 where g: "nw_get_prop_val env (uint (be16_at p 0)) (name_at p 2) (unat (p 2)) (int (unat (p ?k)))
      (name_at p (?k + 1)) (unat (p (?k + 1))) b = (x, b1)" by fastforce
  have r: "answer (fst (read_property env p b)) = (case x of Inr (vl, mo, fl) \<Rightarrow> vl @ [mo, fl] | Inl _ \<Rightarrow> [])"
    unfolding read_property_def Let_def g
    by (simp add: reply_ok_def reply_error_def reply_code_def split: sum.split prod.split)
  then obtain vl mo fl where x: "x = Inr (vl, mo, fl)" using assms(1) by (auto split: sum.splits)
  obtain i where i: "nw_get_prop_val_by_obj_id env i (int (unat (p ?k))) (name_at p (?k + 1)) (unat (p (?k + 1))) b1 =
      Inr (vl, mo, fl)" "props b1 = props b" "vals b1 = vals b"
    using g unfolding nw_get_prop_val_def x by (auto split: prod.splits if_splits dest: find_obj_id_result)
  from read_value [OF i(1) assms(2)] obtain pr v where "pr \<in> set (props b1)" "v \<in> set (vals b1)" "vl = v_value v"
    "v_obj_id v = i" "p_obj_id pr = i" "v_prop_id v = p_id pr" "b_acc env i (p_security pr) 0x10 = 0" .
  then show thesis using that r i(2,3) x by simp
qed

text \<open>C37. A value leaves the data base only with the right to read it: if a Read Property request is answered with
  bytes, they are those of a value whose property the connection may read: everybody (level 0), who is logged in (1),
  the object itself or a supervisor (2), a supervisor (3).  So a property of level 4, as the password, is told to
  nobody.\<close>

theorem read_value_needs_right:
  assumes "scans_complete (dbs ne)" and "unat (p 2) = 0x3d" and "answer (fst (handle_fxx ne a 0x17 task p st)) \<noteq> []"
  shows "\<exists>pr \<in> set (props (bind_db st)). \<exists>v \<in> set (vals (bind_db st)). \<exists>more flags.
    answer (fst (handle_fxx ne a 0x17 task p st)) = v_value v @ [more, flags] \<and> v_obj_id v = p_obj_id pr \<and>
    v_prop_id v = p_id pr \<and> may_read (act_c st a) pr"
proof -
  let ?q = "\<lambda>j. p (j + 3)" and ?env = "as_conn ne st a"
  have "handle_17 ne a task 0x3d ?q st = db_request (read_property ?env ?q) st"
    by (simp add: handle_17_def handle_conns_def handle_bindery_def)
  then have "answer (fst (handle_fxx ne a 0x17 task p st)) = answer (fst (read_property ?env ?q (bind_db st)))"
    using assms(2) by (simp add: handle_fxx_def db_request_def Let_def split_beta)
  moreover have "scans_complete ?env" using assms(1) by (simp add: scans_complete_def as_conn_def)
  ultimately show ?thesis using assms(3) read_property_answer [of ?env ?q "bind_db st"] read_acc [of ne st a]
    by (metis (no_types, lifting))
qed

lemma find_both: "find (\<lambda>x. P x \<and> Q x) xs = find Q (filter P xs)"
  by (induction xs) auto

text \<open>C38. Create Property does not ask for the right to write: on a property that exists it answers that it
  exists, and yet gives the property the security and the flags of the request, also where Change Property Security
  would be refused to everybody, as for a password.\<close>

theorem create_property_changes_security:
  assumes "bindery_ok b" and "scans_complete env" and "dbm_ok env FNPROP"
    and "pr \<in> set (props b)" and "p_name q = p_name pr"
  shows "\<exists>q' b'. nw_create_obj_prop env (p_obj_id pr) q b = (-0xed, q', b') \<and>
    pr\<lparr>p_security := p_security q, p_flags := p_flags q\<rparr> \<in> set (props b') \<and>
    (p_security pr = 0x44 \<and> acting env \<noteq> None \<and> literal (p_name pr) \<longrightarrow>
       loc_change_prop_security env (p_name pr) s (p_obj_id pr) b = (-0xff, b))"
proof -
  have d: "distinct (map n_key (props b))" "set (prop_order env (props b)) = set (props b)"
    using assms(1,2) by (auto simp: bindery_ok_def scans_complete_def dest: arg_cong [of _ _ set_mset] simp del: set_mset_mset)
  have c: "chain_find n_key (p_obj_id pr, p_name pr) (props b) = Some pr"
    using d(1) assms(4) by (simp add: chain_find_Some_iff n_key_def)
  then have f: "find (\<lambda>x. p_name x = p_name q) (filter (\<lambda>x. p_obj_id x = p_obj_id pr) (prop_order env (props b))) = Some pr"
    using find_by_name [OF d] assms(5) by simp
  have put: "x \<in> set (chain_put p_key x ps)" for x ps by (induction ps) auto
  have "find (\<lambda>x. p_obj_id x = p_obj_id pr \<and> name_match (p_name x) (p_name pr)) (prop_order env (props b)) = Some pr"
    if "literal (p_name pr)"
    using f assms(5) by (simp add: name_match_literal [OF that] find_both)
  moreover have "b_acc env (p_obj_id pr) 0x44 0x15 = -0xff" if "acting env \<noteq> None"
    using that by (auto simp: b_acc_def acc_error_def drop_bit_eq_div Let_def)
  moreover have "\<exists>q' b'. nw_create_obj_prop env (p_obj_id pr) q b = (-0xed, q', b') \<and>
      pr\<lparr>p_security := p_security q, p_flags := p_flags q\<rparr> \<in> set (props b')"
  proof (cases "p_security pr = p_security q \<and> p_flags pr = p_flags q")
    case True
    then have "pr\<lparr>p_security := p_security q, p_flags := p_flags q\<rparr> = pr" by (cases pr) simp
    then show ?thesis unfolding \<open>_ = pr\<close> using True assms(3,4) f by (simp add: nw_create_obj_prop_def)
  next
    case False
    then show ?thesis using assms(3) f put by (auto simp: nw_create_obj_prop_def)
  qed
  ultimately show ?thesis using assms(3) by (auto simp: loc_change_prop_security_def Let_def)
qed

end
