(* ===== verification/BindRuns.thy ===== *)
theory BindRuns
  imports BindLaws
begin

text \<open>The runs of \<^verbatim>\<open>nwbind\<close>: every packet that it receives is a step of the semaphores, or none, and a
  step of the queues, or none.  So what holds of the semaphores and of the queues in all their runs holds in
  \<^verbatim>\<open>nwbind\<close>.\<close>

section \<open>The semaphores in the connections\<close>

definition sema_view :: "bind_state \<Rightarrow> sema_sys" where
  "sema_view st = \<lparr>table = sema_tab st, conns = map cn_semas (connections st)\<rparr>"

lemma sema_view_upd [simp]:
  assumes "\<And>c. cn_semas (f c) = cn_semas c"
  shows "sema_view (upd_conn k f st) = sema_view st"
  using assms list_update_id [of "map cn_semas (connections st)" k]
  by (cases "k < length (connections st)") (simp_all add: sema_view_def upd_conn_def map_update list_update_beyond)

lemma sema_view_frame [simp]: "sema_view (emit e st) = sema_view st" "sema_view (st\<lparr>bind_db := b\<rparr>) = sema_view st"
  "sema_view (st\<lparr>bind_queues := q\<rparr>) = sema_view st"
  by (simp_all add: sema_view_def emit_def)

interpretation sema_view: conn_part sema_view by unfold_locales simp_all

lemma sema_view_logins [simp]:
  "sema_view (snd (finish_login ne a i r st)) = sema_view st" 
  by (simp add: finish_login_def build_login_response_def Let_def split_beta sema_view.look_emit)

lemma logins_17: "handle_17 ne a task 0x14 p st = login_plain ne a p st" "handle_17 ne a task 0x18 p st = login_keyed ne a p st"
  by (simp_all add: handle_17_def handle_conns_def)

lemma sema_view_17: "sema_view (snd (handle_17 ne a task ufunc p st)) = sema_view st"
proof -
  have logins: "sema_view (snd (login_plain ne a p st)) = sema_view st" "sema_view (snd (login_keyed ne a p st)) = sema_view st"
    by (auto simp: login_plain_def login_keyed_def Let_def sema_view.look_db dest!: sema_view.restrict_frame split: prod.splits)
  consider "ufunc = 0x14" | "ufunc = 0x18" | "ufunc \<noteq> 0x14" "ufunc \<noteq> 0x18" by blast
  then show ?thesis by cases (simp_all only: logins logins_17 sema_view.frame_17 not_False_eq_True)
qed

abbreviation sema_steps :: "sema_sys \<Rightarrow> sema_sys \<Rightarrow> bool" where
  "sema_steps s s' \<equiv> s' = s \<or> (\<exists>e. sema_step s e s')"

lemma sema_semaphore: "a < length (connections st) \<Longrightarrow> sema_steps (sema_view st) (sema_view (snd (semaphore_request a ufunc p st)))"
proof -
  assume a: "a < length (connections st)"
  obtain res d c t where h: "handle_func_0x20 (cn_semas (act_c st a)) p ufunc (sema_tab st) = (res, d, c, t)"
    by (metis prod_cases4)
  then have "sema_step (sema_view st) (Request a p ufunc) ((sema_view st)\<lparr>table := t, conns := (conns (sema_view st))[a := c]\<rparr>)"
    using a by (intro sema_step.request) (simp_all add: sema_view_def act_c_def)
  moreover have "sema_view (snd (semaphore_request a ufunc p st)) = (sema_view st)\<lparr>table := t, conns := (conns (sema_view st))[a := c]\<rparr>"
    by (simp add: semaphore_request_def h sema_view_def upd_conn_def map_update)
  ultimately show ?thesis by metis
qed

lemma sema_request: "a < length (connections st) \<Longrightarrow> sema_steps (sema_view st) (sema_view (snd (handle_fxx ne a func task p st)))"
proof -
  assume a: "a < length (connections st)"
  have "sema_view (snd (logout ne a st)) = sema_view st"
    by (simp add: logout_def sema_view.look_emit sema_view.look_queues)
  then show ?thesis using sema_semaphore [OF a]
    by (simp add: handle_fxx_state sema_view.message_requests sema_view_17 sema_view.end_of_job_frame)
qed

lemma sema_clear: "sema_steps (sema_view st) (sema_view (open_clear_connection conn act adr st))"
proof (cases "conn > 0 \<and> conn - 1 < int (length (connections st))")
  case True
  let ?k = "nat (conn - 1)"
  let ?c = "connections st ! ?k"
  have k: "?k < length (connections st)" using True by auto
  obtain c' t' where cl: "clear_conn_semas (cn_semas ?c) (sema_tab st) = (c', t')" by fastforce
  have "sema_step (sema_view st) (Clear ?k) ((sema_view st)\<lparr>table := t', conns := (conns (sema_view st))[?k := c']\<rparr>)"
    using k cl by (intro sema_step.clear) (simp_all add: sema_view_def)
  moreover have "sema_view (open_clear_connection conn act adr st) \<in>
      {sema_view st, (sema_view st)\<lparr>table := t', conns := (conns (sema_view st))[?k := c']\<rparr>}"
    using k True list_update_id [of "map cn_semas (connections st)" ?k]
    by (cases "if act then adr else None")
      (auto simp: open_clear_connection_def Let_def cl sema_view_def upd_conn_def map_update emit_def)
  ultimately show ?thesis by auto
next
  case False
  then have "open_clear_connection conn act adr st = st" unfolding open_clear_connection_def by (rule if_not_P)
  then show ?thesis by simp
qed

section \<open>The queues\<close>

interpretation queue_view: request_part bind_queues by unfold_locales simp_all

lemma queues_logins: "bind_queues (snd (login_plain ne a p st)) = bind_queues st" "bind_queues (snd (login_keyed ne a p st)) = bind_queues st"
  by (auto simp: login_plain_def login_keyed_def Let_def queue_part.finish_login dest!: queue_view.restrict_frame split: prod.splits)

lemma queues_reply [simp]: "bind_queues (snd (reply_job r st)) = snd (snd r)" "bind_queues (snd (queue_result r' st)) = snd r'"
  by (simp_all add: reply_job_def queue_result_def split: prod.split option.split)

lemma queues_bytes: "bind_queues (snd (case r of (x, y, q) \<Rightarrow> (f x y, st\<lparr>bind_queues := q\<rparr>))) = snd (snd r)"
  "bind_queues (snd (case r' of (x, q) \<Rightarrow> (g x, st\<lparr>bind_queues := q\<rparr>))) = snd r'"
  by (simp_all split: prod.split)

lemma queues_create: "queue_step (bind_queues st) (bind_queues (snd (create_queue ne a p st)))"
  "queue_step\<^sup>=\<^sup>= (bind_queues st) (bind_queues (snd (destroy_queue ne a p st)))"
  "queue_step\<^sup>=\<^sup>= (bind_queues st) (bind_queues (snd (set_queue_status a p st)))"
  "queue_step (bind_queues st) (bind_queues (snd (abort_job ne a p st)))"
proof -
  show "queue_step (bind_queues st) (bind_queues (snd (create_queue ne a p st)))"
    using queue_step.creat_queue [of "bind_queues st"] by (simp add: create_queue_def Let_def split_beta)
  show "queue_step\<^sup>=\<^sup>= (bind_queues st) (bind_queues (snd (destroy_queue ne a p st)))"
    using queue_step.destroy_queue [of "bind_queues st"] by (simp add: destroy_queue_def Let_def split_beta)
  show "queue_step\<^sup>=\<^sup>= (bind_queues st) (bind_queues (snd (set_queue_status a p st)))"
    using queue_step.set_status [of "bind_queues st"] by (simp add: set_queue_status_def)
  show "queue_step (bind_queues st) (bind_queues (snd (abort_job ne a p st)))"
    using queue_step.finish_abort [of "bind_queues st"] by (simp add: abort_job_def Let_def split_beta)
qed

definition queue_reply :: "bind_state \<Rightarrow> (reply \<times> bind_state) option \<Rightarrow> bool" where
  "queue_reply st r = (case r of None \<Rightarrow> True | Some x \<Rightarrow> queue_step\<^sup>=\<^sup>= (bind_queues st) (bind_queues (snd x)))"

lemma queue_reply_intros:
  "queue_reply st x \<Longrightarrow> queue_reply st y \<Longrightarrow> queue_reply st (if c then x else y)"
  "queue_reply st None" "bind_queues (snd r) = bind_queues st \<Longrightarrow> queue_reply st (Some r)"
  "queue_step (bind_queues st) (bind_queues (snd r)) \<Longrightarrow> queue_reply st (Some r)"
  "queue_step\<^sup>=\<^sup>= (bind_queues st) (bind_queues (snd r)) \<Longrightarrow> queue_reply st (Some r)"
  by (simp_all add: queue_reply_def)

lemma queues_request: "queue_reply st (handle_queues ne a task ufunc p st)"
  unfolding handle_queues_def Let_def
  by (intro queue_reply_intros(1,2); (rule queue_reply_intros(3), simp add: split_beta; fail)?;
      (rule queue_reply_intros(4), simp only: queues_reply queues_bytes, rule queue_step.intros)?;
      (rule queue_reply_intros(5), rule queues_create)?; (rule queue_reply_intros(4), rule queues_create)?)

lemma queues_17: "queue_step\<^sup>=\<^sup>= (bind_queues st) (bind_queues (snd (handle_17 ne a task ufunc p st)))"
proof -
  consider "ufunc = 0x14" | "ufunc = 0x18" | "ufunc \<noteq> 0x14" "ufunc \<noteq> 0x18" by blast
  then show ?thesis
  proof cases
    case 3
    then show ?thesis using queues_request [of st ne a task ufunc p]
      by (auto simp: handle_17_def queue_reply_def queue_view.conns_frame queue_view.db_requests split: option.splits)
  qed (simp_all only: logins_17 queues_logins sup2I2)
qed

lemma queues_fxx: "queue_step\<^sup>=\<^sup>= (bind_queues st) (bind_queues (snd (handle_fxx ne a func task p st)))"
proof -
  have "queue_step (bind_queues st) (nw_close_connection_jobs (que ne) c t (bind_queues st))" for c t
    by (rule queue_step.close_conn)
  then show ?thesis using queues_17 [of st]
    by (simp add: handle_fxx_state queue_part.message_requests end_of_job_def logout_def semaphore_request_def emit_def
        upd_conn_def Let_def split_beta)
qed

section \<open>Runs\<close>

text \<open>The state in which the main loop starts: all memory of the connections is zero, and the queues are those
  that the last run left on disk.\<close>

definition conn0 :: CONNECTION where
  "conn0 = \<lparr>client_adr = replicate 12 0, object_id = 0, id_flags = 0, crypt_key = replicate 8 0, t_login = 0, message = [],
     active = False, send_to_sock = 0, pid_nwconn = 0, request_nwconn = None, last_used_sequence = 0, cn_semas = init_conn\<rparr>"

definition nwbind_start :: "nat \<Rightarrow> bindery \<Rightarrow> qstate \<Rightarrow> bind_state" where
  "nwbind_start n b q =
     \<lparr>connections = replicate n conn0, bind_db = b, sema_tab = init_table, bind_queues = q, server_goes_down = 0, outs = []\<rparr>"

text \<open>What the process does in its loop: a packet, whatever it holds and from wherever it comes, a signal,
  and at the end the clearing of all connections and the saving of the queues.  Meanwhile files of jobs come and go.\<close>

inductive nwbind_step :: "bind_state \<Rightarrow> bind_state \<Rightarrow> bool" where
  packet: "nwbind_step st (snd (nwbind_receive ne fill local ncp pkt st))"
| hangup: "nwbind_step st (st\<lparr>bind_db := fill (bind_db st)\<rparr>)"
| usr2: "nwbind_step st (handle_usr2 ne st)"
| leave: "nwbind_step st (nwbind_exit st)"
| save_queues: "nwbind_step st (st\<lparr>bind_queues := exit_queues qe (bind_queues st)\<rparr>)"
| job_files: "nwbind_step st (st\<lparr>bind_queues := (bind_queues st)\<lparr>qfiles := f\<rparr>\<rparr>)"

definition sound_parts :: "nat \<Rightarrow> qstate \<Rightarrow> bind_state \<Rightarrow> bool" where
  "sound_parts n q st = (sema_reachable n (sema_view st) \<and> queue_step\<^sup>*\<^sup>* q (bind_queues st))"

lemma parts_step:
  "sound_parts n q st \<Longrightarrow> sema_steps (sema_view st) (sema_view st') \<Longrightarrow> queue_step\<^sup>=\<^sup>= (bind_queues st) (bind_queues st') \<Longrightarrow>
     sound_parts n q st'"
  by (auto simp: sound_parts_def intro: sema_reachable.step)

lemma queues_clear [simp]: "bind_queues (open_clear_connection conn act adr st) = bind_queues st"
  by (cases "if act then adr else None") (simp_all add: open_clear_connection_def Let_def split_beta upd_conn_def emit_def)

lemma parts_clear: "sound_parts n q st \<Longrightarrow> sound_parts n q (open_clear_connection conn act adr st)"
  by (erule parts_step [OF _ sema_clear]) simp

lemma parts_same: "sound_parts n q st \<Longrightarrow> sema_view st' = sema_view st \<Longrightarrow> bind_queues st' = bind_queues st \<Longrightarrow> sound_parts n q st'"
  by (simp add: sound_parts_def)

lemma parts_fold: "(\<And>k t. sound_parts n q t \<Longrightarrow> sound_parts n q (f k t)) \<Longrightarrow> sound_parts n q st \<Longrightarrow> sound_parts n q (fold f ks st)"
  by (induction ks arbitrary: st) auto

lemma parts_upd: "sound_parts n q st \<Longrightarrow> (\<And>c. cn_semas (f c) = cn_semas c) \<Longrightarrow> sound_parts n q (upd_conn k f st)"
  by (erule parts_same) (simp_all add: queue_part.look_conns)

lemma parts_emit: "sound_parts n q st \<Longrightarrow> sound_parts n q (emit e st)"
  by (erule parts_same) (simp_all add: queue_part.look_emit)

lemma parts_send: "sound_parts n q st \<Longrightarrow> sound_parts n q (send_request_to_nwconn ne c func d st)"
  by (simp add: send_request_to_nwconn_def Let_def parts_emit parts_upd)

lemma parts_ctrl: "sound_parts n q st \<Longrightarrow> sound_parts n q (handle_ctrl ne fill what st)"
proof (cases what)
  case ServerDown
  assume "sound_parts n q st"
  then have "sound_parts n q (st\<lparr>server_goes_down := server_goes_down st + 1\<rparr>)"
    by (rule parts_same) (simp_all add: sema_view_def)
  then show ?thesis unfolding ServerDown handle_ctrl_def ctrl.case sent_down_message_def
    by (rule parts_fold [rotated]) (simp add: parts_emit parts_upd)
qed (auto simp: handle_ctrl_def parts_clear intro: parts_same)

lemma parts_receive: "sound_parts n q st \<Longrightarrow> sound_parts n q (snd (nwbind_receive ne fill local ncp pkt st))"
proof (cases pkt)
  case (FromClient conn func task p)
  assume st: "sound_parts n q st"
  show ?thesis
  proof (cases "0 < conn \<and> conn \<le> int (length (connections st))")
    case True
    then have "nat (conn - 1) < length (connections st)" by auto
    with st have "sound_parts n q (snd (handle_fxx ne (nat (conn - 1)) func task p st))"
      by (rule parts_step [OF _ sema_request queues_fxx])
    with st show ?thesis by (simp add: FromClient nwbind_receive_def parts_emit split_beta)
  qed (use st in \<open>auto simp: FromClient nwbind_receive_def\<close>)
qed (simp_all add: nwbind_receive_def parts_upd parts_ctrl)

lemma parts_nwbind_step: "nwbind_step st st' \<Longrightarrow> sound_parts n q st \<Longrightarrow> sound_parts n q st'"
proof (induction rule: nwbind_step.induct)
  case (save_queues st qe)
  then show ?case using queue_step.exit by (auto intro!: parts_step [of n q st])
next
  case (job_files st f)
  then show ?case using queue_step.files by (auto intro!: parts_step [of n q st])
next
  case (leave st)
  then show ?case unfolding nwbind_exit_def by (rule parts_fold [rotated]) (rule parts_clear)
next
  case (usr2 st ne)
  then show ?case unfolding handle_usr2_def by (rule parts_fold [rotated]) (simp add: parts_send)
next
  case (hangup st fill)
  then show ?case by (rule parts_same) simp_all
qed (rule parts_receive)

text \<open>C8. \<^verbatim>\<open>nwbind\<close> runs its parts: whatever sequence of packets, signals and restarts of queues a run of
  the process consists of, its semaphores with the tables in the connections are in a state that the semaphore system
  reaches, and its queues in one that the queue system reaches.  So the invariants of both hold in every run of the
  process, with the requests of all clients interleaved in any order.\<close>

theorem nwbind_runs_its_parts:
  assumes "nwbind_step\<^sup>*\<^sup>* (nwbind_start n b (init_queues qe env b flags (queues0 files))) st"
  shows "sema_reachable n (sema_view st) \<and> queue_step\<^sup>*\<^sup>* (queues0 files) (bind_queues st) \<and> qstate_ok (bind_queues st)"
proof -
  have "sound_parts n (queues0 files) st" using assms
  proof (induction rule: rtranclp_induct)
    case base
    have "sema_reachable n (sema_view (nwbind_start n b q))" for q
      using sema_reachable.start [of n] by (simp add: sema_view_def nwbind_start_def conn0_def)
    then show ?case using queue_step.init by (auto simp: sound_parts_def nwbind_start_def)
  qed (rule parts_nwbind_step)
  then show ?thesis using queue_run_ok [of files "bind_queues st"] by (simp add: sound_parts_def)
qed

section \<open>A concrete server\<close>

definition ne0 :: nb_env where
  "ne0 = \<lparr>dbs = server_env, pwe = pw_env0, que = qe0, akttime = 100, tm_wday = (\<lambda>t. 1), new_key = [1, 2, 3, 4, 5, 6, 7, 8],
     entry8_flags = 0, my_nwname = cstr ''MARS'', tells_server_version = 0, max_nw_vols = 1, network_serial_nmbr = 1,
     network_appl_nmbr = 1, old_answer = replicate 280 0, outside = (\<lambda>k. conn0)\<rparr>"

definition packet_of :: "u8 list \<Rightarrow> buffer" where
  "packet_of l = (\<lambda>k. if k < length l then l ! k else 0)"

text \<open>GUEST may log in once; nobody is logged in on the first connection.\<close>

definition once :: LOGIN_CONTROL where
  "once = (lc_of_bytes (replicate 128 255))\<lparr>accountExpires := [0, 0, 0], accountExpired := 0, passwordExpiresYear := 0,
     maxConcurrentConnections := [0, 1]\<rparr>"

definition guest_db :: bindery where
  "guest_db = bindery0\<lparr>props := [\<lparr>p_obj_id = 2, p_id = 1, p_name = pn_login_control, p_flags = 0, p_security = 0x32\<rparr>],
     vals := [\<lparr>v_obj_id = 2, v_prop_id = 1, v_segment = 1, v_value = lc_to_bytes once @ replicate 42 0\<rparr>]\<rparr>"

definition bind_state0 :: "u32 \<Rightarrow> bind_state" where
  "bind_state0 i = (nwbind_start 2 guest_db (queues0 (\<lambda>f. None)))\<lparr>connections := [conn0\<lparr>active := True, object_id := i\<rparr>, conn0]\<rparr>"

lemma bind_state0 [simp]: "bind_db (bind_state0 i) = guest_db"
  "connections (bind_state0 i) = [conn0\<lparr>active := True, object_id := i\<rparr>, conn0]" "objs guest_db = [guest, everyone]"
  by (simp_all add: bind_state0_def nwbind_start_def guest_db_def bindery0_def)

lemma conn0 [simp]: "object_id conn0 = 0" "id_flags conn0 = 0" "\<not> active conn0"
  by (simp_all add: conn0_def)

text \<open>GUEST logs in with an empty password.\<close>

definition login_guest :: buffer where
  "login_guest = packet_of ([0, 16, 0x18] @ replicate 8 0 @ [0, 1, 5] @ cstr ''GUEST'')"

lemma guest_found:
  "find_obj_id (as_conn ne0 (bind_state0 0) 0) (obj_of 1 (cstr ''GUEST'')) guest_db = (0, guest, guest_db\<lparr>iobjs := [iobj_of guest]\<rparr>)"
  by code_simp

lemma login_guest_fields: "unat (login_guest 2) = 0x18" "be16_at (\<lambda>k. login_guest (k + 3)) 8 = 1"
  "upstr (take 47 (name_at (\<lambda>k. login_guest (k + 3)) 10)) = cstr ''GUEST''"
  by code_simp+

lemma guest_values: "nw_get_prop_val_str (internal ne0) 2 pn_password (guest_db\<lparr>iobjs := is\<rparr>) = (-0xfb, [])"
  "nw_get_login_control (internal ne0) 2 (guest_db\<lparr>iobjs := is\<rparr>) = Some once"
  unfolding same_values [of "guest_db\<lparr>iobjs := is\<rparr>" guest_db, simplified] by code_simp+

lemma guest_allowed: "nw_test_adr_access ne0 2 (replicate 12 0) (connections (bind_state0 0)) (guest_db\<lparr>iobjs := [iobj_of guest]\<rparr>) = 0"
  "fst (nw_test_time_access ne0 2 (guest_db\<lparr>iobjs := [iobj_of guest]\<rparr>)) = 0"
  by code_simp+

lemma no_scheme: "\<not> scheme_has (pwe ne0) k"
  by (simp add: ne0_def pw_env0_def scheme_has_def)

lemma guest_logged_in: "\<exists>x. idents (snd (handle_fxx ne0 0 0x17 0 login_guest (bind_state0 0))) = [(2, x), ident conn0]"
proof -
  let ?q = "\<lambda>k. login_guest (k + 3)" and ?st = "bind_state0 0"
  let ?b = "guest_db\<lparr>iobjs := [iobj_of guest]\<rparr>"
  have g: "o_id guest = 2" "o_type guest = 1" by (simp_all add: guest_def)
  have st: "bind_db ?st = guest_db" "client_adr (act_c ?st 0) = replicate 12 0"
    by (simp_all add: bind_state0_def nwbind_start_def act_c_def conn0_def)
  have t: "nw_test_passwd (internal ne0) (pwe ne0) 2 key ans ?b = 0" for key ans
    by (simp add: nw_test_passwd_def loc_nw_test_passwd_def guest_values Let_def no_scheme)
  obtain st1 where r: "restrict_login ne0 0 guest (?st\<lparr>bind_db := ?b\<rparr>) = (0, st1)" "idents st1 = idents ?st"
    using guest_allowed st
    by (cases "nw_test_time_access ne0 2 ?b") (simp add: restrict_login_def nw_test_adr_time_access_def g act_c_def)
  have "snd (handle_fxx ne0 0 0x17 0 login_guest ?st) = snd (finish_login ne0 0 2 0 st1)"
    by (simp add: handle_fxx_state login_guest_fields logins_17 login_keyed_def guest_found st g t r)
  moreover have "idents ?st = [ident (conn0\<lparr>active := True, object_id := 0\<rparr>), ident conn0]"
    by (simp add: idents_def bind_state0_def)
  ultimately show ?thesis using r(2) by (simp add: finish_login_idents)
qed


lemma guest_object: "object_id (connections (snd (handle_fxx ne0 0 0x17 0 login_guest (bind_state0 0))) ! 0) = 2"
proof -
  let ?st = "snd (handle_fxx ne0 0 0x17 0 login_guest (bind_state0 0))"
  obtain x where x: "idents ?st = [(2, x), ident conn0]" using guest_logged_in by blast
  have "length (connections ?st) = 2" using arg_cong [OF x, of length] by simp
  then show ?thesis using idents_nth [of 0 ?st] x by (simp add: ident_def)
qed


text \<open>GUEST, logged in, tries to delete EVERYONE, and to log in once more.\<close>

definition delete_everyone :: buffer where
  "delete_everyone = packet_of ([0, 12, 0x33, 0, 2, 8] @ cstr ''EVERYONE'')"

theorem only_supervisors_change_objects_witness:
  "objs (bind_db (snd (handle_fxx ne0 0 0x17 0 delete_everyone (bind_state0 2)))) = [guest, everyone]"
  using only_supervisors_change_objects [of "bind_state0 2" 0 ne0 "0x17" 0 delete_everyone]
  by (simp add: is_su_def act_c_def has_def)

text \<open>Everybody who is logged in reads the members of a group.\<close>

definition read_members :: buffer where
  "read_members = packet_of ([0, 30, 0x3d, 0, 2, 8] @ cstr ''EVERYONE'' @ [1, 13] @ cstr ''GROUP_MEMBERS'')"

theorem read_value_needs_right_witness:
  "may_read (act_c ((bind_state0 2)\<lparr>bind_db := bindery0\<rparr>) 0) group_members"
proof -
  let ?st = "(bind_state0 2)\<lparr>bind_db := bindery0\<rparr>"
  have "unat (read_members 2) = 0x3d" by code_simp
  moreover have "answer (fst (handle_fxx ne0 0 0x17 0 read_members ?st)) \<noteq> []" by code_simp
  moreover have "scans_complete (dbs ne0)" by (simp add: ne0_def)
  ultimately show ?thesis using read_value_needs_right [of ne0 read_members 0 0 ?st]
    by (simp add: bindery0_def)
qed

theorem create_property_changes_security_witness:
  "\<exists>q' b'. nw_create_obj_prop (server_env\<lparr>acting := Some (2, 0)\<rparr>) 3 (group_members\<lparr>p_security := 0\<rparr>) bindery0 = (-0xed, q', b') \<and>
     group_members\<lparr>p_security := 0\<rparr> \<in> set (props b')"
proof -
  have "scans_complete (server_env\<lparr>acting := Some (2, 0)\<rparr>)" "dbm_ok (server_env\<lparr>acting := Some (2, 0)\<rparr>) FNPROP"
    by (simp_all add: scans_complete_def server_env_def)
  moreover have "group_members \<in> set (props bindery0)" "p_obj_id group_members = 3"
    by (simp_all add: bindery0_def group_members_def)
  ultimately show ?thesis
    using create_property_changes_security [OF bindery0_ok, of "server_env\<lparr>acting := Some (2, 0)\<rparr>" group_members
      "group_members\<lparr>p_security := 0\<rparr>"] by fastforce
qed

text \<open>A client is announced, opens a semaphore, and the server goes down.\<close>

definition open_semaphore :: buffer where
  "open_semaphore = packet_of [0, 1, 1, 65]"

definition run0 :: bind_state where
  "run0 = snd (nwbind_receive ne0 id True True (FromNwserv ServerDown)
    (snd (nwbind_receive ne0 id True True (FromClient 1 0x20 0 open_semaphore)
      (snd (nwbind_receive ne0 id True True (FromNwserv (InsertConn 1 (replicate 18 1)))
        (nwbind_start 2 queue_bindery (init_queues qe0 server_env queue_bindery 0 (queues0 (\<lambda>f. None)))))))))"

theorem nwbind_runs_its_parts_witness:
  "sema_reachable 2 (sema_view run0) \<and> qstate_ok (bind_queues run0)"
proof -
  have "nwbind_step\<^sup>*\<^sup>* (nwbind_start 2 queue_bindery (init_queues qe0 server_env queue_bindery 0 (queues0 (\<lambda>f. None)))) run0"
    unfolding run0_def by (meson nwbind_step.packet converse_rtranclp_into_rtranclp rtranclp.rtrancl_refl)
  from nwbind_runs_its_parts [OF this] show ?thesis by simp
qed

end
