(* ===== verification/LoginLimit.thy ===== *)
theory LoginLimit
  imports BindRuns
begin

text \<open>The number of logins of a user in runs of \<^verbatim>\<open>nwbind\<close>.  The limit is a field of the property
  LOGIN\_CONTROL, which logins and changes of passwords write back with other fields changed; the theory shows that
  the limit outlives them, as long as nobody edits the bindery, and that with it the number of logins stays bounded.\<close>

section \<open>The limit in the store\<close>

definition login_limit :: "bindery \<Rightarrow> u32 \<Rightarrow> u16 option" where
  "login_limit b i =
     (case prop_value b i pn_login_control of
        Some v \<Rightarrow> Some (get_be16 (slice 12 2 v))
      | None \<Rightarrow> map_option (\<lambda>v. get_be16 (slice 8 2 v)) (prop_value b 1 pn_user_defaults))"

lemma login_limit_read:
  assumes "store_inv (env, b)"
  shows "login_limit b i = map_option (\<lambda>lc. get_be16 (maxConcurrentConnections lc)) (nw_get_login_control env i b)"
  by (rule get_prop_cases [OF assms pn_good(2), of i]; rule get_prop_cases [OF assms pn_good(5), of 1])
    (simp_all add: login_limit_def nw_get_login_control_def lc_of_bytes_def lc_of_defaults_def)

text \<open>The properties that the requests write, and the room that they need: a new property takes a number below 256.\<close>

definition own_names :: "cstring set" where
  "own_names = {pn_login_control, pn_password, pn_old_passwords, pn_unix_user}"

definition present :: "bindery \<Rightarrow> u32 \<Rightarrow> cstring \<Rightarrow> bool" where
  "present b ob n \<longleftrightarrow> chain_find n_key (ob, n) (props b) \<noteq> None"

definition missing :: "bindery \<Rightarrow> u32 \<Rightarrow> cstring set" where
  "missing b ob = {n \<in> own_names. \<not> present b ob n}"

definition roomy :: "bindery \<Rightarrow> bool" where
  "roomy b \<longleftrightarrow> (\<forall>ob. own_props b ob + card (missing b ob) < 255)"

lemma finite_missing [simp]: "finite (missing b ob)"
  by (rule finite_subset [of _ own_names]) (auto simp: missing_def own_names_def)

lemma own_good: "n \<in> own_names \<Longrightarrow> good_name n" "n \<in> own_names \<Longrightarrow> n \<noteq> pn_user_defaults"
proof -
  show "n \<in> own_names \<Longrightarrow> good_name n" by (auto simp: own_names_def pn_good)
  have "pn_user_defaults \<notin> own_names" by code_simp
  then show "n \<in> own_names \<Longrightarrow> n \<noteq> pn_user_defaults" by blast
qed

lemma roomy_start:
  assumes "\<And>ob. own_props b ob \<le> 250"
  shows "roomy b"
  unfolding roomy_def
proof
  fix ob
  have "card (missing b ob) \<le> card own_names" by (rule card_mono) (auto simp: missing_def own_names_def)
  also have "card own_names \<le> length [pn_login_control, pn_password, pn_old_passwords, pn_unix_user]"
    unfolding own_names_def by (rule order_trans [OF _ card_length]) simp
  finally show "own_props b ob + card (missing b ob) < 255" using assms [of ob] by simp
qed

section \<open>Writing a property\<close>

lemma length_filter_put_same:
  "(\<And>x. x \<in> set xs \<Longrightarrow> key x = key y \<Longrightarrow> P x = P y) \<Longrightarrow>
     length (filter P (chain_put key y xs)) = length (filter P xs) + (if key y \<in> key ` set xs then 0 else of_bool (P y))"
  by (induction xs) auto

lemma created_room:
  assumes env: "files_open env" "scans_complete env" and ok: "bindery_ok b" and few: "own_props b ob < 255"
    and c: "nw_create_obj_prop env ob p b = (r, p', b')"
  shows "own_props b' i \<le> own_props b i + (if i = ob \<and> \<not> present b ob (p_name p) then 1 else 0)"
    and "present b' i m \<longleftrightarrow> present b i m \<or> (i, m) = (ob, p_name p)"
proof -
  note N = create_named [OF env ok few c]
  show "present b' i m \<longleftrightarrow> present b i m \<or> (i, m) = (ob, p_name p)"
    using N [of i] by (cases "(i, m) = (ob, p_name p)") (auto simp: present_def)
  let ?own = "filter (\<lambda>q. p_obj_id q = ob) (prop_order env (props b))"
  have f: "find (\<lambda>q. p_name q = p_name p) ?own = chain_find n_key (ob, p_name p) (props b)"
    using find_by_name [of "props b"] env(2) ok by (simp add: bindery_ok_def)
  have put: "length (filter (\<lambda>q. p_obj_id q = i) (chain_put p_key y (props b))) \<le>
      own_props b i + (if p_key y \<in> p_key ` set (props b) then 0 else of_bool (p_obj_id y = i))" for y
    unfolding own_props_def by (subst length_filter_put_same) (auto simp: p_key_def)
  show "own_props b' i \<le> own_props b i + (if i = ob \<and> \<not> present b ob (p_name p) then 1 else 0)"
  proof (cases "chain_find n_key (ob, p_name p) (props b)")
    case None
    then obtain k where b': "b' = b\<lparr>props := chain_put p_key (p\<lparr>p_obj_id := ob, p_id := k\<rparr>) (props b)\<rparr>"
      using c f env(1) by (auto simp: nw_create_obj_prop_def Let_def)
    show ?thesis using put [of "p\<lparr>p_obj_id := ob, p_id := k\<rparr>"] None unfolding b'
      by (auto simp: present_def own_props_def split: if_splits)
  next
    case (Some q)
    let ?q = "q\<lparr>p_security := p_security p, p_flags := p_flags p\<rparr>"
    have "p_key ?q \<in> p_key ` set (props b)" using chain_find_key [OF Some] by (force simp: p_key_def)
    moreover have "b' = b \<or> b' = b\<lparr>props := chain_put p_key ?q (props b)\<rparr>"
      using c f Some env(1) by (auto simp: nw_create_obj_prop_def split: if_splits)
    ultimately show ?thesis using put [of ?q] by (auto simp: own_props_def)
  qed
qed

lemma props_ins_prop_val [simp]: "props (snd (ins_prop_val env i p s v e b)) = props b"
  by (auto simp: ins_prop_val_def Let_def)

lemma store_props:
  assumes "acting env = None" and "good_name n" and "v \<noteq> []"
  obtains r p' b' where "nw_create_obj_prop env ob \<lparr>p_obj_id = 0, p_id = 0, p_name = n, p_flags = 0, p_security = c\<rparr> b = (r, p', b')"
    "props (store_prop env ob n c v b) = props b'"
proof -
  obtain r p' b' where "nw_create_obj_prop env ob \<lparr>p_obj_id = 0, p_id = 0, p_name = n, p_flags = 0, p_security = c\<rparr> b = (r, p', b')"
    by (metis prod_cases3)
  then show thesis using that assms good_literal [of n]
    by (simp add: store_prop_def nw_new_obj_prop_def server_acc strmaxcpy_def Let_def)
qed

lemma roomy_store:
  assumes inv: "store_inv (env, b)" and room: "roomy b" and n: "n \<in> own_names" "v \<noteq> []"
  shows "roomy (store_prop env ob n c v b)"
  unfolding roomy_def
proof
  fix i
  obtain r p' b' where c: "nw_create_obj_prop env ob \<lparr>p_obj_id = 0, p_id = 0, p_name = n, p_flags = 0, p_security = c\<rparr> b = (r, p', b')"
    and b': "props (store_prop env ob n c v b) = props b'"
    using store_props [of env n v ob c b] inv n own_good(1) by (auto simp: store_inv_def)
  have few: "own_props b ob < 255" using room by (auto simp: roomy_def intro: le_less_trans [OF le_add1])
  have R: "own_props b' i \<le> own_props b i + (if i = ob \<and> \<not> present b ob n then 1 else 0)"
    "present b' i m \<longleftrightarrow> present b i m \<or> (i, m) = (ob, n)" for m
    using created_room [OF _ _ _ few c] inv by (auto simp: store_inv_def)
  have same: "own_props (store_prop env ob n c v b) i = own_props b' i" "missing (store_prop env ob n c v b) i = missing b' i"
    by (simp_all add: own_props_def missing_def present_def b')
  have "own_props b' i + card (missing b' i) \<le> own_props b i + card (missing b i)"
  proof (cases "i = ob \<and> \<not> present b ob n")
    case True
    then have "missing b' i = missing b i - {n}" "n \<in> missing b i" using R(2) n(1) by (auto simp: missing_def)
    then show ?thesis using R(1) True card_Suc_Diff1 [of "missing b i" n] by simp
  next
    case False
    then have "missing b' i = missing b i" using R(2) by (auto simp: missing_def)
    then show ?thesis using R(1) False by simp
  qed
  then show "own_props (store_prop env ob n c v b) i + card (missing (store_prop env ob n c v b) i) < 255"
    using room unfolding same roomy_def by (meson le_less_trans)
qed

lemma filter_named: "distinct (map n_key xs) \<Longrightarrow>
    length (filter (\<lambda>p. p_obj_id p = i) (filter (\<lambda>p. n_key p \<noteq> (ob, n)) xs)) +
      (if i = ob \<and> chain_find n_key (ob, n) xs \<noteq> None then 1 else 0) = length (filter (\<lambda>p. p_obj_id p = i) xs)"
proof (induction xs)
  case (Cons x xs)
  show ?case
  proof (cases "n_key x = (ob, n)")
    case True
    then have "(ob, n) \<notin> n_key ` set xs" using Cons.prems by simp
    then have "filter (\<lambda>p. n_key p \<noteq> (ob, n)) xs = xs" "chain_find n_key (ob, n) xs = None"
      by (force simp: filter_id_conv chain_find_None)+
    then show ?thesis using True by (auto simp: n_key_def simp del: filter_filter)
  qed (use Cons in \<open>auto simp del: filter_filter\<close>)
qed simp

lemma roomy_delete:
  assumes inv: "store_inv (env, b)" and room: "roomy b" and n: "n \<in> own_names"
  shows "roomy (snd (loc_delete_property env ob n 0 True b))"
  unfolding roomy_def
proof
  fix i
  let ?b = "snd (loc_delete_property env ob n 0 True b)"
  have p: "props ?b = filter (\<lambda>p. n_key p \<noteq> (ob, n)) (props b)" and d: "distinct (map n_key (props b))"
    using inv own_good(1) [OF n] by (auto simp: store_inv_def good_name_def bindery_ok_def intro!: deleted_props)
  have own: "own_props ?b i + (if i = ob \<and> present b ob n then 1 else 0) = own_props b i"
    using filter_named [OF d, of i ob n] by (simp add: own_props_def p present_def del: filter_filter)
  have pres: "present ?b i m \<longleftrightarrow> present b i m \<and> (i, m) \<noteq> (ob, n)" for m
    by (auto simp: present_def p chain_find_filter [OF d] dest: chain_find_key split: option.splits)
  have "own_props ?b i + card (missing ?b i) \<le> own_props b i + card (missing b i)"
  proof (cases "i = ob \<and> present b ob n")
    case True
    then have "missing ?b i = insert n (missing b i)" using pres n by (auto simp: missing_def)
    then show ?thesis using own True card_insert_le_m1 [of 1] by (simp add: card_insert_if)
  next
    case False
    then have "missing ?b i = missing b i" using pres by (auto simp: missing_def)
    then show ?thesis using own False by simp
  qed
  then show "own_props ?b i + card (missing ?b i) < 255" using room unfolding roomy_def by (meson le_less_trans)
qed

text \<open>A sound data base stays sound, keeps its objects, and keeps the limits of all users.\<close>

definition keeps_limits :: "bindery \<Rightarrow> bindery \<Rightarrow> bool" where
  "keeps_limits b b' \<longleftrightarrow> (bindery_ok b \<and> roomy b \<longrightarrow>
     bindery_ok b' \<and> roomy b' \<and> objs b' = objs b \<and> login_limit b' = login_limit b)"

lemma limits_refl [simp]: "keeps_limits b b"
  by (simp add: keeps_limits_def)

lemma limits_trans: "keeps_limits b b' \<Longrightarrow> keeps_limits b' b'' \<Longrightarrow> keeps_limits b b''"
  by (simp add: keeps_limits_def)

definition server_ok :: "bind_env \<Rightarrow> bool" where
  "server_ok env \<longleftrightarrow> files_open env \<and> scans_complete env \<and> acting env = None"

lemma server_inv: "server_ok env \<Longrightarrow> bindery_ok b \<Longrightarrow> store_inv (env, b)"
  by (simp add: server_ok_def store_inv_def)

lemma limits_store:
  assumes env: "server_ok env" and ob: "ob \<in> o_id ` set (objs b)" and n: "n \<in> own_names" "v \<noteq> []"
    and limit: "bindery_ok b \<Longrightarrow> n = pn_login_control \<Longrightarrow> login_limit b ob = Some (get_be16 (slice 12 2 (padded v)))"
  shows "keeps_limits b (store_prop env ob n c v b)"
  unfolding keeps_limits_def
proof (intro impI conjI; elim conjE)
  assume ok: "bindery_ok b" and room: "roomy b"
  let ?b = "store_prop env ob n c v b"
  have "own_props b ob < 255" using room by (auto simp: roomy_def intro: le_less_trans [OF le_add1])
  then have "0 < slots b ob" using ob by (simp add: slots_def)
  note S = store_prop_spec [OF _ _ _ ok this good_literal(2,3) [OF own_good(1) [OF n(1)]] n(2), of env]
  have S: "bindery_ok ?b" "prop_value ?b ob' n' = (if (ob', n') = (ob, n) then Some (padded v) else prop_value b ob' n')" for ob' n'
    using S env by (auto simp: server_ok_def)
  show "bindery_ok ?b" by (rule S(1))
  show "roomy ?b" by (rule roomy_store [OF server_inv [OF env ok] room n])
  show "objs ?b = objs b" by (simp add: store_prop_def)
  have "n \<noteq> pn_user_defaults" by (rule own_good(2) [OF n(1)])
  then show "login_limit ?b = login_limit b" using limit [OF ok]
    by (auto simp: fun_eq_iff login_limit_def [of ?b] S(2) split: option.split) (auto simp: login_limit_def split: option.splits)
qed

lemma keeps_delete:
  assumes "server_ok env" and n: "n \<in> own_names" "n \<noteq> pn_login_control"
  shows "keeps_limits b (snd (loc_delete_property env ob n 0 True b))"
  unfolding keeps_limits_def
proof (intro impI conjI; elim conjE)
  assume ok: "bindery_ok b" and room: "roomy b"
  let ?b = "snd (loc_delete_property env ob n 0 True b)"
  have D: "bindery_ok ?b" "prop_value ?b ob' n' = (if (ob', n') = (ob, n) then None else prop_value b ob' n')" for ob' n'
    using delete_prop_spec [OF _ _ ok good_literal(1) [OF own_good(1) [OF n(1)]], of env ob] assms(1) by (auto simp: server_ok_def)
  show "bindery_ok ?b" by (rule D(1))
  show "roomy ?b" by (rule roomy_delete [OF server_inv [OF assms(1) ok] room n(1)])
  show "objs ?b = objs b" by simp
  have "pn_user_defaults \<noteq> n" "pn_login_control \<noteq> n" using own_good(2) [OF n(1)] n(2) by auto
  then show "login_limit ?b = login_limit b" by (auto simp: fun_eq_iff login_limit_def D(2) split: option.split)
qed

section \<open>Writing LOGIN\_CONTROL\<close>

definition lc_shape :: "LOGIN_CONTROL \<Rightarrow> bool" where
  "lc_shape lc \<longleftrightarrow> length (accountExpires lc) = 3 \<and> length (expirationInterval lc) = 2 \<and>
     length (maxConcurrentConnections lc) = 2 \<and> length (timeBitMap lc) = 42 \<and> length (lastLoginDate lc) = 6 \<and>
     length (maxDiskBlocks lc) = 4 \<and> length (badLogin lc) = 18"

lemma lc_shape_get:
  assumes "store_inv (env, b)" and "nw_get_login_control env ob b = Some lc"
  shows "lc_shape lc"
  by (rule get_prop_cases [OF assms(1) pn_good(2), of ob]; rule get_prop_cases [OF assms(1) pn_good(5), of 1])
    (use assms(2) in \<open>auto simp: nw_get_login_control_def lc_of_bytes_def lc_of_defaults_def slice_def lc_shape_def\<close>)

lemma lc_bytes:
  assumes "lc_shape lc"
  shows "length (lc_to_bytes lc) = 86" "slice 12 2 (padded (lc_to_bytes lc)) = maxConcurrentConnections lc"
  using assms by (simp_all add: lc_shape_def lc_to_bytes_def padded_def slice_def)

lemma keeps_set_lc:
  assumes env: "server_ok env" and ob: "ob \<in> o_id ` set (objs b)" and lc: "nw_get_login_control env ob b = Some lc"
    and shape: "lc_shape lc \<Longrightarrow> lc_shape lc'" and same: "maxConcurrentConnections lc' = maxConcurrentConnections lc"
  shows "keeps_limits b (nw_set_login_control env ob lc' b)"
proof (cases "bindery_ok b")
  case True
  have s: "lc_shape lc'" using shape lc_shape_get [OF server_inv [OF env True] lc] by blast
  then have "lc_to_bytes lc' \<noteq> []" using lc_bytes(1) [OF s] by (intro notI) simp
  moreover have "login_limit b ob = Some (get_be16 (maxConcurrentConnections lc))"
    using login_limit_read [OF server_inv [OF env True]] lc by simp
  moreover have "pn_login_control \<in> own_names" by (simp add: own_names_def)
  ultimately have "keeps_limits b (store_prop env ob pn_login_control 0x32 (lc_to_bytes lc') b)"
    using lc_bytes(2) [OF s] same by (intro limits_store [OF env ob]) simp_all
  then show ?thesis by (simp add: nw_set_login_control_def store_prop_def lc_bytes(1) [OF s] sizeof_LOGIN_CONTROL_def)
qed (simp add: keeps_limits_def)

lemma shape_fields: "lc_shape lc \<Longrightarrow> lc_shape (lc\<lparr>passwordGraceLogins := g\<rparr>)"
  "lc_shape lc \<Longrightarrow> length d = 6 \<Longrightarrow> lc_shape (lc\<lparr>lastLoginDate := d\<rparr>)"
  "lc_shape lc \<Longrightarrow> lc_shape (lc\<lparr>passwordGraceLogins := g, passwordExpiresYear := y, passwordExpiresMonth := m, passwordExpiresDay := k\<rparr>)"
  by (simp_all add: lc_shape_def)

lemma keeps_last_login: "server_ok (internal ne) \<Longrightarrow> i \<in> o_id ` set (objs b) \<Longrightarrow> keeps_limits b (set_last_login ne i b)"
  by (auto simp: set_last_login_def Let_def shape_fields intro!: keeps_set_lc split: option.split)

lemma keeps_time_access:
  "server_ok (internal ne) \<Longrightarrow> i \<in> o_id ` set (objs b) \<Longrightarrow> keeps_limits b (snd (nw_test_time_access ne i b))"
  by (auto simp: nw_test_time_access_def Let_def shape_fields intro!: keeps_set_lc split: option.split)

lemma keeps_renew: "server_ok env \<Longrightarrow> i \<in> o_id ` set (objs b) \<Longrightarrow> keeps_limits b (renew_expiry env pe i b)"
  by (auto simp: renew_expiry_def shape_fields intro!: keeps_set_lc split: option.split prod.split)

lemma keeps_restrictions:
  assumes "server_ok (internal ne)" "i \<in> o_id ` set (objs b)"
  shows "keeps_limits b (snd (nw_test_adr_time_access ne i adr cs b))"
proof -
  have o: "objs (snd (nw_test_time_access ne i b)) = objs b"
    by (auto simp: nw_test_time_access_def Let_def split: option.splits)
  then have "keeps_limits b (set_last_login ne i (snd (nw_test_time_access ne i b)))"
    using limits_trans [OF keeps_time_access keeps_last_login] assms by simp
  then show ?thesis using keeps_last_login [OF assms] keeps_time_access [OF assms]
    by (auto simp: nw_test_adr_time_access_def Let_def split_beta)
qed

section \<open>Writing passwords\<close>

definition copies :: "pw_env \<Rightarrow> bool" where
  "copies pe \<longleftrightarrow> (\<forall>s t. length (memcpy_up pe s t) = length s)"

lemma keeps_new_prop:
  fixes sec :: u8
  assumes "server_ok env" "i \<in> o_id ` set (objs b)" "n \<in> own_names" "n \<noteq> pn_login_control" "v \<noteq> []" "length v = k"
  shows "keeps_limits b (snd (nw_new_obj_prop env i [] 0 0 0 n 0 (uint sec) v k True b))"
  using limits_store [OF assms(1-3,5), of sec] assms(4,6) by (simp add: store_prop_def)

lemma lc_distinct: "pn_password \<noteq> pn_login_control" "pn_old_passwords \<noteq> pn_login_control" "pn_unix_user \<noteq> pn_login_control"
  by code_simp+

lemma own: "pn_login_control \<in> own_names" "pn_password \<in> own_names" "pn_old_passwords \<in> own_names" "pn_unix_user \<in> own_names"
  by (simp_all add: own_names_def)

lemma keeps_old_passwords:
  assumes env: "server_ok env" and i: "i \<in> o_id ` set (objs b)" and "copies pe" and "length h = 16"
  shows "keeps_limits b (snd (nw_update_oldpasswd env pe i h b))"
proof (cases "bindery_ok b")
  case True
  show ?thesis
  proof (rule get_prop_cases [OF server_inv [OF env True] pn_good(4), of i])
    fix v mo fl
    assume v: "length v = 128" and g: "nw_get_prop_val_by_obj_id env i 1 pn_old_passwords (length pn_old_passwords) b = Inr (v, mo, fl)"
    have l: "length (take 16 h @ memcpy_up pe (take 112 v) (drop 16 v)) = 128" using v assms(3,4) by (simp add: copies_def)
    then have "take 16 h @ memcpy_up pe (take 112 v) (drop 16 v) \<noteq> []" by (intro notI) simp
    from keeps_new_prop [OF env i own(3) lc_distinct(2) this l, of "0x32"] show ?thesis using g
      by (auto simp: nw_update_oldpasswd_def)
  qed (simp add: nw_update_oldpasswd_def)
qed (simp add: keeps_limits_def)

lemma keeps_set_enpasswd:
  assumes env: "server_ok env" and i: "i \<in> o_id ` set (objs b)" and cp: "copies pe" and h: "h = [] \<or> length h = 16"
  shows "keeps_limits b (snd (nw_set_enpasswd env pe i h False b))"
proof (cases "h \<noteq> [] \<and> hd h \<noteq> 0")
  case True
  then have h: "h \<noteq> []" "length h = 16" "hd h \<noteq> 0" using h by auto
  obtain r b1 where u: "nw_update_oldpasswd env pe i h b = (r, b1)" by fastforce
  have 1: "keeps_limits b b1" "objs b1 = objs b"
    using keeps_old_passwords [OF env i cp h(2)] objs_set_passwd(1) [of env pe i h b] by (simp_all add: u)
  define b2 where "b2 = snd (nw_new_obj_prop env i [] 0 0 0 pn_password 0 0x44 h 16 True b1)"
  have 2: "keeps_limits b1 b2" "objs b2 = objs b"
    using keeps_new_prop [OF env _ own(2) lc_distinct(1) h(1,2), of i b1 "0x44"] i 1 by (simp_all add: b2_def)
  have 3: "keeps_limits b2 (renew_expiry env pe i b2)" using keeps_renew [OF env] i 2 by simp
  have "snd (nw_set_enpasswd env pe i h False b) \<in> {b1, renew_expiry env pe i b2}"
    using h by (simp add: nw_set_enpasswd_def u b2_def split_beta)
  then show ?thesis using 1(1) limits_trans [OF 1(1) limits_trans [OF 2(1) 3]] by auto
next
  case False
  define b1 where "b1 = snd (loc_delete_property env i pn_password 0 True b)"
  have 1: "keeps_limits b b1" "objs b1 = objs b" using keeps_delete [OF env own(2) lc_distinct(1)] by (simp_all add: b1_def)
  have "keeps_limits b1 (renew_expiry env pe i b1)" using keeps_renew [OF env] i 1(2) by simp
  then have "keeps_limits b (renew_expiry env pe i b1)" by (rule limits_trans [OF 1(1)])
  then show ?thesis using False by (auto simp: nw_set_enpasswd_def b1_def)
qed

lemma keeps_set_passwd:
  "server_ok env \<Longrightarrow> i \<in> o_id ` set (objs b) \<Longrightarrow> copies pe \<Longrightarrow> keeps_limits b (snd (nw_set_passwd env pe i w False b))"
  by (auto simp: nw_set_passwd_def intro!: keeps_set_enpasswd)

lemma length_decrypt_newpass [simp]: "length (snd (nw_decrypt_newpass old new)) = 8"
proof -
  have "(decrypt_round ^^ 16) x = decrypt_round ((decrypt_round ^^ 15) x)" for x by (simp add: numeral_eq_Suc)
  then show ?thesis by (simp add: nw_decrypt_newpass_def decrypt_round_def unsubst_nibbles_def Let_def split_beta)
qed

lemma keeps_keychange:
  assumes "server_ok env" "i \<in> o_id ` set (objs b)" "copies pe"
  shows "keeps_limits b (snd (nw_keychange_passwd env pe i key old l new fl b))"
proof -
  have "keeps_limits b (snd (nw_set_enpasswd env pe i (snd (nw_decrypt_newpass x y) @ snd (nw_decrypt_newpass x' y')) False b))" for x y x' y'
    by (rule keeps_set_enpasswd [OF assms]) simp
  then show ?thesis by (auto simp: nw_keychange_passwd_def Let_def split: prod.splits) (metis snd_conv)+
qed

lemma keeps_unx:
  "server_ok env \<Longrightarrow> i \<in> o_id ` set (objs b) \<Longrightarrow> keeps_limits b (add_user_2_unx env i n b)"
proof -
  assume "server_ok env" "i \<in> o_id ` set (objs b)"
  from keeps_new_prop [OF this own(4) lc_distinct(3) _ refl, of n "0x30"] show ?thesis
    by (simp add: add_user_2_unx_def pn_unix_user_def)
qed

section \<open>Requests\<close>

text \<open>Requests that fill the index at most.\<close>

lemma keeps_indexed: "find_obj_id env x b = (r, y, b') \<Longrightarrow> keeps_limits b b'"
proof -
  assume f: "find_obj_id env x b = (r, y, b')"
  have "props b' = props b" "vals b' = vals b" using find_obj_id_result [OF f] by auto
  then have same: "own_props b' = own_props b" "missing b' = missing b" "prop_value b' = prop_value b"
    by (simp_all add: fun_eq_iff own_props_def missing_def present_def prop_value_def split: option.split)
  have "login_limit b' = login_limit b" by (rule ext) (simp only: login_limit_def same)
  then show ?thesis using find_obj_id_ok [OF _ f] objs_find_obj_id [OF f]
    by (simp only: keeps_limits_def roomy_def same) blast
qed

lemma keeps_found [simp]: "keeps_limits b (snd (snd (find_obj_id env x b)))"
proof -
  obtain r y b' where f: "find_obj_id env x b = (r, y, b')" by (metis prod_cases3)
  then show ?thesis using keeps_indexed [OF f] by simp
qed

lemma found_exists: "find_obj_id env x b = (0, y, b') \<Longrightarrow> scans_complete env \<Longrightarrow> o_id y \<in> o_id ` set (objs b')"
  using find_obj_id_found objs_find_obj_id by (metis image_eqI)

lemma keeps_find_set: "find_set env x n m b = (r, b') \<Longrightarrow> keeps_limits b b'"
  by (auto simp: find_set_def Let_def split: prod.splits if_splits sum.splits dest!: keeps_indexed intro: limits_trans)

lemma keeps_reading:
  "keeps_limits b (snd (get_object_id env p b))" "keeps_limits b (snd (get_object_name env p b))"
  "keeps_limits b (snd (scan_object env p b))" "keeps_limits b (snd (scan_property env p b))"
  "keeps_limits b (snd (read_property env p b))" "keeps_limits b (snd (set_request (nw_is_obj_in_set env) p b))"
proof -
  show "keeps_limits b (snd (get_object_id env p b))" by (simp add: get_object_id_def split_beta)
  show "keeps_limits b (snd (get_object_name env p b))" by (simp add: get_object_name_def split: sum.split)
  show "keeps_limits b (snd (scan_object env p b))" by (simp add: scan_object_def split_beta)
  have "keeps_limits b (snd (nw_scan_property env t n l q m u b))" for t n l q m u
    by (simp add: nw_scan_property_def Let_def split_beta split: sum.split)
  then show "keeps_limits b (snd (scan_property env p b))" by (simp add: scan_property_def Let_def split_beta)
  have "keeps_limits b (snd (nw_get_prop_val env t n l k q m b))" for t n l k q m
    by (simp add: nw_get_prop_val_def Let_def split_beta)
  then show "keeps_limits b (snd (read_property env p b))"
    by (simp add: read_property_def Let_def split_beta split: sum.split)
  have "keeps_limits b (snd (nw_is_obj_in_set env t n l q m u v w b))" for t n l q m u v w
    by (auto simp: nw_is_obj_in_set_def split: prod.splits sum.splits dest: keeps_find_set)
  then show "keeps_limits b (snd (set_request (nw_is_obj_in_set env) p b))"
    by (simp add: set_request_def Let_def split_beta)
qed

text \<open>Requests on the state.  The files of the data base are open, scans see every record, and a copy has the length of what is
  copied.\<close>

definition calm :: "nb_env \<Rightarrow> bool" where
  "calm ne \<longleftrightarrow> files_open (dbs ne) \<and> scans_complete (dbs ne) \<and> copies (pwe ne)"

lemma files_env: "files_open (internal ne) = files_open (dbs ne)"
  unfolding files_open_def internal_def by simp

lemma scans_env: "scans_complete (internal ne) = scans_complete (dbs ne)" "scans_complete (as_conn ne st a) = scans_complete (dbs ne)"
  by (simp_all add: scans_complete_def internal_def as_conn_def)

lemma acting_internal: "acting (internal ne) = None"
  by (simp add: internal_def)

lemma calm_env: "calm ne \<Longrightarrow> server_ok (internal ne)" "calm ne \<Longrightarrow> scans_complete (as_conn ne st a)" "calm ne \<Longrightarrow> copies (pwe ne)"
  by (simp_all add: calm_def server_ok_def files_env scans_env acting_internal)

abbreviation keeps_db :: "bind_state \<Rightarrow> bind_state \<Rightarrow> bool" where
  "keeps_db st st' \<equiv> keeps_limits (bind_db st) (bind_db st')"

lemma keeps_restrict:
  "restrict_login ne a ob st = (r, st') \<Longrightarrow> calm ne \<Longrightarrow> o_id ob \<in> o_id ` set (objs (bind_db st)) \<Longrightarrow> keeps_db st st'"
  using keeps_restrictions [OF calm_env(1), of ne "o_id ob" "bind_db st" "client_adr (act_c st a)" "connections st"]
  by (auto simp: restrict_login_def split: if_splits prod.splits)

text \<open>The end of both logins: the object that was found, and what the test of its password gave.\<close>

lemma keeps_login:
  assumes calm: "calm ne" and f: "find_obj_id (as_conn ne st a) x (bind_db st) = (0, ob, b)"
  shows "keeps_db st (snd (let (r1, st2) = restrict_login ne a ob (st\<lparr>bind_db := b\<rparr>) in finish_login ne a (o_id ob) r1 st2))"
proof -
  obtain r1 st2 where r: "restrict_login ne a ob (st\<lparr>bind_db := b\<rparr>) = (r1, st2)" by fastforce
  have "o_id ob \<in> o_id ` set (objs b)" by (rule found_exists [OF f calm_env(2) [OF calm]])
  then have "keeps_limits b (bind_db st2)" using keeps_restrict [OF r calm] by simp
  then show ?thesis using limits_trans [OF keeps_indexed [OF f]] by (simp add: r db_part.finish_login)
qed

lemma keeps_logins:
  assumes "calm ne"
  shows "keeps_db st (snd (login_plain ne a p st))" "keeps_db st (snd (login_keyed ne a p st))"
proof -
  obtain r ob b where f: "find_obj_id (as_conn ne st a) (obj_of (be16_at p 0) (upstr (take 47 (name_at p 2)))) (bind_db st) = (r, ob, b)"
    by (metis prod_cases3)
  show "keeps_db st (snd (login_plain ne a p st))"
  proof (cases "r = 0")
    case True
    then show ?thesis using keeps_login [OF assms f [unfolded True]] keeps_indexed [OF f] f
      by (simp add: login_plain_def db_part.finish_login Let_def)
  qed (use keeps_indexed [OF f] f in \<open>simp add: login_plain_def db_part.finish_login Let_def\<close>)
next
  obtain r ob b where f: "find_obj_id (as_conn ne st a) (obj_of (be16_at p 8) (upstr (take 47 (name_at p 10)))) (bind_db st) = (r, ob, b)"
    by (metis prod_cases3)
  show "keeps_db st (snd (login_keyed ne a p st))"
  proof (cases "r = 0")
    case True
    then show ?thesis using keeps_login [OF assms f [unfolded True]] keeps_indexed [OF f] f
      by (simp add: login_keyed_def db_part.finish_login Let_def)
  next
    case False
    then have "\<not> r > -1" using find_obj_id_result [OF f] by auto
    then show ?thesis using False keeps_indexed [OF f] f by (simp add: login_keyed_def db_part.finish_login Let_def)
  qed
qed

lemma keeps_unx_user:
  assumes "calm ne" "i \<in> o_id ` set (objs (bind_db st))"
  shows "keeps_db st (test_ins_unx_user ne i st)"
proof -
  have "keeps_limits (bind_db st) (add_user_2_unx (internal ne) i n (bind_db st))" for n
    by (rule keeps_unx [OF calm_env(1)]) (use assms in auto)
  then show ?thesis by (auto simp: test_ins_unx_user_def Let_def split: sum.split option.split)
qed

lemma keeps_password_keyed: "calm ne \<Longrightarrow> keeps_db st (snd (change_password_keyed ne a p st))"
proof -
  assume calm: "calm ne"
  obtain r ob b where f: "find_obj_id (as_conn ne st a) (obj_of (be16_at p 8) (upstr (name_at p 10))) (bind_db st) = (r, ob, b)"
    by (metis prod_cases3)
  let ?i = "o_id ob"
  define r1 where "r1 = (if r \<noteq> 0 then r else if ?i \<noteq> 1 then test_allow_password_change (internal ne) ?i b else 0)"
  define w where "w = (if r1 = 0 then nw_keychange_passwd (internal ne) (pwe ne) ?i (crypt_key (act_c st a)) (bytes_at p 0 8) (p (after p 10))
                                        (bytes_at p (after p 10 + 1) 16) (id_flags (act_c st a)) b else (r1, b))"
  have c: "snd (change_password_keyed ne a p st) =
      (if fst w = 0 then test_ins_unx_user ne ?i (st\<lparr>bind_db := snd w\<rparr>) else st\<lparr>bind_db := snd w\<rparr>)"
    by (simp add: change_password_keyed_def f Let_def split_beta w_def r1_def)
  show ?thesis
  proof (cases "r = 0")
    case True
    have i: "?i \<in> o_id ` set (objs b)" by (rule found_exists [OF f [unfolded True] calm_env(2) [OF calm]])
    have "keeps_limits b (snd w)" "objs (snd w) = objs b"
      using keeps_keychange [OF calm_env(1) i calm_env(3)] calm objs_set_passwd(5) by (simp_all add: w_def)
    then have "keeps_limits (bind_db st) (snd w)" "?i \<in> o_id ` set (objs (snd w))" using limits_trans keeps_indexed [OF f] i by auto
    then show ?thesis using limits_trans keeps_unx_user [OF calm, of ?i "st\<lparr>bind_db := snd w\<rparr>"] by (simp add: c)
  next
    case False
    then have "w = (r, b)" "r \<noteq> 0" by (simp_all add: w_def r1_def)
    then show ?thesis using keeps_indexed [OF f] by (simp add: c)
  qed
qed

lemma keeps_password_plain: "calm ne \<Longrightarrow> keeps_db st (snd (change_password_plain ne a p st))"
proof -
  assume calm: "calm ne"
  obtain r ob b where f: "find_obj_id (as_conn ne st a) (obj_of (be16_at p 0) (upstr (take 47 (name_at p 2)))) (bind_db st) = (r, ob, b)"
    by (metis prod_cases3)
  have "keeps_limits b (snd (nw_set_passwd (internal ne) (pwe ne) (o_id ob) w False b))" if "r = 0" for w
    by (rule keeps_set_passwd [OF calm_env(1) [OF calm] _ calm_env(3) [OF calm]])
      (rule found_exists [OF f [unfolded that] calm_env(2) [OF calm]])
  then have "keeps_limits (bind_db st) (snd (nw_set_passwd (internal ne) (pwe ne) (o_id ob) w False b))" if "r = 0" for w
    using limits_trans [OF keeps_indexed [OF f]] that by blast
  then show ?thesis using keeps_indexed [OF f]
    by (simp add: change_password_plain_def f Let_def split_beta)
qed

lemma keeps_conns:
  assumes "calm ne" and "handle_conns ne a ufunc p st = Some r"
  shows "keeps_db st (snd r)"
proof -
  have s: "keeps_db st (snd (get_object_connections ne a p st))" "keeps_db st (snd (get_object_connections_new ne a p st))"
    "keeps_db st (snd (verify_password ne a p st))"
    by (auto simp: get_object_connections_def get_object_connections_new_def verify_password_def Let_def
        dest: keeps_indexed split: prod.split)
  show ?thesis using assms(2) unfolding handle_conns_def
    by (auto simp: s keeps_logins [OF assms(1)] keeps_password_keyed [OF assms(1)] keeps_password_plain [OF assms(1)]
        db_part.message_requests db_part.login_requests split: if_splits)
qed

text \<open>The requests that edit the bindery: they create, delete, rename objects, properties, members and queues, and write
  values.\<close>

definition edits_bindery :: "nat \<Rightarrow> nat \<Rightarrow> bool" where
  "edits_bindery func ufunc \<longleftrightarrow>
     func = 0x17 \<and> ufunc \<in> {0x32, 0x33, 0x34, 0x38, 0x39, 0x3a, 0x3b, 0x3e, 0x41, 0x42, 0x64, 0x65}"

lemma keeps_bindery:
  "handle_bindery env su ufunc p = Some f \<Longrightarrow> \<not> edits_bindery 0x17 ufunc \<Longrightarrow> keeps_limits b (snd (f b))"
  unfolding handle_bindery_def edits_bindery_def by (auto simp: keeps_reading split: if_splits)

lemma db_queues:
  "handle_queues ne a task ufunc p st = Some r \<Longrightarrow> \<not> edits_bindery 0x17 ufunc \<Longrightarrow> bind_db (snd r) = bind_db st"
  unfolding handle_queues_def edits_bindery_def
  by (auto simp: set_queue_status_def queue_result_def abort_job_def Let_def split: if_splits prod.splits)

lemma keeps_request:
  assumes "calm ne" and "\<not> edits_bindery func (unat (p 2))"
  shows "keeps_db st (snd (handle_fxx ne a func task p st))"
proof -
  have 17: "keeps_db st (snd (handle_17 ne a task u q st))" if u: "\<not> edits_bindery 0x17 u" for u q
  proof (cases "handle_conns ne a u q st")
    case None
    have "keeps_db st (snd (db_request f st))" if "handle_bindery (as_conn ne st a) (is_su st a) u q = Some f" for f
      using keeps_bindery [OF that u, of "bind_db st"] by (simp add: db_request_def split_beta)
    with None db_queues [OF _ u, of ne a task q st] show ?thesis by (auto simp: handle_17_def split: option.split)
  qed (use keeps_conns [OF assms(1)] in \<open>simp add: handle_17_def\<close>)
  have "func = 0x17 \<Longrightarrow> \<not> edits_bindery 0x17 (unat (p 2))" using assms(2) by simp
  then show ?thesis using 17 [of "unat (p 2)"]
    by (simp add: handle_fxx_state db_part.message_requests db_frames)
qed

section \<open>Runs\<close>

text \<open>A packet that does not edit the bindery: a request that is not of that kind, an answer of an \<^verbatim>\<open>nwconn\<close>, or
  an order that concerns connections.\<close>

fun edit_free :: "packet \<Rightarrow> bool" where
  "edit_free (FromClient conn func task p) = (\<not> edits_bindery func (unat (p 2)))"
| "edit_free (FromNwconn conn n) = True"
| "edit_free (FromNwserv (BindCall p)) = False"
| "edit_free (FromNwserv Reinit) = False"
| "edit_free (FromNwserv _) = True"

text \<open>The option that exempts the supervisor from the restrictions is off if \<open>i\<close> is the supervisor.\<close>

inductive login_step :: "u32 \<Rightarrow> bind_state \<Rightarrow> bind_state \<Rightarrow> bool" for i where
  packet: "calm ne \<Longrightarrow> i = 1 \<longrightarrow> entry8_flags ne AND 8 = 0 \<Longrightarrow> edit_free pkt \<Longrightarrow>
    login_step i st (snd (nwbind_receive ne fill local ncp pkt st))"
| usr2: "login_step i st (handle_usr2 ne st)"
| leave: "login_step i st (nwbind_exit st)"

definition limit_held :: "u32 \<Rightarrow> u16 \<Rightarrow> bind_state \<Rightarrow> bool" where
  "limit_held i w st \<longleftrightarrow> bindery_ok (bind_db st) \<and> roomy (bind_db st) \<and>
     (\<forall>x \<in> set (objs (bind_db st)). o_id x = i \<longrightarrow> o_type x = 1) \<and>
     login_limit (bind_db st) i = Some w \<and> count_logins (connections st) i \<le> unat w"

lemma limit_same: "limit_held i w st \<Longrightarrow> bind_db st' = bind_db st \<Longrightarrow> idents st' = idents st \<Longrightarrow> limit_held i w st'"
  by (simp add: limit_held_def count_idents)

lemma limit_fold: "(\<And>k t. limit_held i w t \<Longrightarrow> limit_held i w (f k t)) \<Longrightarrow> limit_held i w st \<Longrightarrow> limit_held i w (fold f ks st)"
  by (induction ks arbitrary: st) auto

lemma limit_clear: "i \<noteq> 0 \<Longrightarrow> limit_held i w st \<Longrightarrow> limit_held i w (open_clear_connection conn act adr st)"
proof (cases "conn > 0 \<and> conn - 1 < int (length (connections st))")
  case True
  assume i: "i \<noteq> 0" and l: "limit_held i w st"
  let ?st = "open_clear_connection conn act adr st"
  have x: "idents ?st = (idents st)[nat (conn - 1) := (0, 0, act)]" and d: "bind_db ?st = bind_db st"
    using True by (cases "if act then adr else None";
        simp add: open_clear_connection_def Let_def split_beta idents_def ident_def upd_conn_def map_update emit_def)+
  have "count_logins (connections ?st) i \<le> count_logins (connections st) i"
    using count_update [OF x, of i] i by (simp add: counts_def)
  then show ?thesis using l by (simp add: limit_held_def d)
next
  case False
  then have "open_clear_connection conn act adr st = st" unfolding open_clear_connection_def by (rule if_not_P)
  then show "limit_held i w st \<Longrightarrow> ?thesis" by simp
qed

lemma idents_sent [simp]: "idents (upd_conn k (\<lambda>c. c\<lparr>request_nwconn := r\<rparr>) st) = idents st"
  "idents (upd_conn k (\<lambda>c. c\<lparr>last_used_sequence := n, request_nwconn := r\<rparr>) st) = idents st"
  by (simp_all add: ident_def)

lemma limit_ctrl: "i \<noteq> 0 \<Longrightarrow> limit_held i w st \<Longrightarrow> edit_free (FromNwserv what) \<Longrightarrow> limit_held i w (handle_ctrl ne fill what st)"
proof (cases what)
  case ServerDown
  assume "limit_held i w st"
  then have "limit_held i w (st\<lparr>server_goes_down := server_goes_down st + 1\<rparr>)"
    by (rule limit_same) (simp_all add: idents_def)
  then show ?thesis unfolding ServerDown handle_ctrl_def ctrl.case sent_down_message_def
    by (rule limit_fold [rotated])
      (auto elim!: limit_same simp: db_part.look_emit db_part.look_conns)
qed (simp_all add: handle_ctrl_def limit_clear)

lemma limit_request:
  assumes l: "limit_held i w st" and i: "i \<noteq> 0" "i = 1 \<longrightarrow> entry8_flags ne AND 8 = 0" and w: "w \<noteq> 0"
    and "calm ne" "\<not> edits_bindery func (unat (p 2))"
  shows "limit_held i w (snd (handle_fxx ne a func task p st))"
proof -
  let ?st = "snd (handle_fxx ne a func task p st)"
  have k: "bindery_ok (bind_db ?st) \<and> roomy (bind_db ?st) \<and> objs (bind_db ?st) = objs (bind_db st) \<and> login_limit (bind_db ?st) = login_limit (bind_db st)"
    using keeps_request [OF assms(5), of func p st a task] assms(6) l by (simp add: keeps_limits_def limit_held_def)
  have ok: "bindery_ok (bind_db st)" "login_limit (bind_db st) i = Some w" using l by (simp_all add: limit_held_def)
  then obtain lc where lc: "nw_get_login_control (internal ne) i (bind_db st) = Some lc" "get_be16 (maxConcurrentConnections lc) = w"
    using login_limit_read [OF server_inv [OF calm_env(1) [OF assms(5)] ok(1)], of i] by auto
  have "scans_complete (dbs ne)" using assms(5) by (simp add: calm_def)
  then have "count_logins (connections ?st) i \<le> unat w"
    using l w lc(2) by (intro login_limit_step [OF _ _ i lc(1)]) (auto simp: limit_held_def unat_eq_zero)
  then show ?thesis using k l by (simp add: limit_held_def)
qed

lemma limit_step: "login_step i st st' \<Longrightarrow> i \<noteq> 0 \<Longrightarrow> w \<noteq> 0 \<Longrightarrow> limit_held i w st \<Longrightarrow> limit_held i w st'"
proof (induction rule: login_step.induct)
  case (packet ne pkt st fill local ncp)
  show ?case
  proof (cases pkt)
    case (FromClient conn func task p)
    then show ?thesis using packet limit_request [of i w st ne func p]
      by (auto simp: nwbind_receive_def split_beta db_part.look_emit elim!: limit_same)
  next
    case (FromNwconn conn n)
    then show ?thesis using packet by (auto simp: nwbind_receive_def db_part.look_conns elim!: limit_same)
  next
    case (FromNwserv what)
    then show ?thesis using packet limit_ctrl [of i w st what] by (simp add: nwbind_receive_def)
  qed
next
  case (usr2 st ne)
  then show ?case unfolding handle_usr2_def
    by (elim limit_fold [rotated])
      (auto simp: send_request_to_nwconn_def Let_def db_part.look_emit db_part.look_conns elim!: limit_same)
next
  case (leave st)
  then show ?case unfolding nwbind_exit_def by (elim limit_fold [rotated]) (rule limit_clear)
qed

text \<open>C36. The limit on the logins of a user is kept in every run.  In a run of \<^verbatim>\<open>nwbind\<close> in which nobody edits the
  bindery (logins, logouts, changes of passwords, messages, queue jobs, semaphores, new and cleared connections in
  any order), the limit that LOGIN\_CONTROL or, without it, USER\_DEFAULTS give a user stays what it was, though
  logins and changes of passwords rewrite LOGIN\_CONTROL; and a user who was logged in at most that often never is more
  often.  The supervisor is a user like others if the option that exempts him is off.  No object may have more than
  250 properties at the start: the code numbers a new one in a byte.\<close>

theorem login_limit_kept:
  assumes "(login_step i)\<^sup>*\<^sup>* st0 st" and "bindery_ok (bind_db st0)" and "\<forall>ob. own_props (bind_db st0) ob \<le> 250"
    and "\<forall>x \<in> set (objs (bind_db st0)). o_id x = i \<longrightarrow> o_type x = 1" and "i \<noteq> 0"
    and "login_limit (bind_db st0) i = Some limit" and "limit \<noteq> 0" and "count_logins (connections st0) i \<le> unat limit"
  shows "count_logins (connections st) i \<le> unat limit \<and> login_limit (bind_db st) i = Some limit"
proof -
  have "limit_held i limit st0" using assms roomy_start [of "bind_db st0"] by (simp add: limit_held_def)
  with assms(1) have "limit_held i limit st"
    by (induction rule: rtranclp_induct) (auto intro: limit_step [OF _ assms(5,7)])
  then show ?thesis by (simp add: limit_held_def)
qed

section \<open>GUEST logs in again\<close>

text \<open>GUEST is logged in on the first connection and may be so once; a second connection comes and tries.\<close>

definition second_login :: bind_state where
  "second_login = snd (nwbind_receive ne0 id True True (FromClient 2 0x17 0 login_guest)
     (snd (nwbind_receive ne0 id True True (FromNwserv (InsertConn 2 (replicate 18 1))) (bind_state0 2))))"

lemma calm0: "calm ne0"
  by (simp add: calm_def ne0_def copies_def cp0)

lemma run_second: "(login_step 2)\<^sup>*\<^sup>* (bind_state0 2) second_login"
proof -
  have "edit_free (FromClient 2 0x17 0 login_guest)" by (simp add: edits_bindery_def login_guest_fields)
  then have "login_step 2 st (snd (nwbind_receive ne0 id True True (FromClient 2 0x17 0 login_guest) st))" for st
    by (intro login_step.packet [OF calm0]) simp_all
  moreover have "login_step 2 st (snd (nwbind_receive ne0 id True True (FromNwserv (InsertConn 2 (replicate 18 1))) st))" for st
    by (intro login_step.packet [OF calm0]) simp_all
  ultimately show ?thesis unfolding second_login_def by (blast intro: rtranclp.rtrancl_into_rtrancl)
qed

lemma guest_db_ok: "bindery_ok guest_db"
  using bindery0_ok by (simp add: bindery_ok_def guest_db_def vals_ok_def p_key_def v_key_def n_key_def lc_to_bytes_def once_def
      lc_of_bytes_def slice_def) (simp add: bindery0_def guest_def)

theorem login_limit_kept_witness:
  "count_logins (connections second_login) 2 \<le> 1 \<and> login_limit (bind_db second_login) 2 = Some 1"
proof -
  have l: "login_limit (bind_db (bind_state0 2)) 2 = Some 1" unfolding bind_state0 by code_simp
  have p: "\<forall>ob. own_props (bind_db (bind_state0 2)) ob \<le> 250" unfolding bind_state0 by (simp add: own_props_def guest_db_def)
  show ?thesis using login_limit_kept [OF run_second _ p _ _ l] guest_db_ok
    by (simp add: guest_def everyone_def count_logins_def)
qed

end
