(* ===== verification/Ncpserv.thy ===== *)
theory Ncpserv
  imports Nwbind
begin

text \<open>The process \<^verbatim>\<open>ncpserv\<close> of \<^verbatim>\<open>src/ncpserv.c\<close>: it gives connection numbers to clients, starts one
  \<^verbatim>\<open>nwconn\<close> for each and hands it the packets of its client through a pipe
  (\<^verbatim>\<open>CALL_NWCONN_OVER_SOCKET\<close> is 0, as in \<^verbatim>\<open>config.h\<close>).  An address is its twelve bytes.  What
  \<^verbatim>\<open>pipe\<close> and \<^verbatim>\<open>fork\<close> return, the children that have ended and the station file are parameters; what leaves
  the process is a list of events, of which those to \<^verbatim>\<open>nwserv\<close> arrive in their order.\<close>

section \<open>State\<close>

record NCP_CONNECTION =
  c_fd :: int
  c_pid :: int
  c_client_adr :: "u8 list"
  c_sequence :: u8
  last_access :: int

text \<open>The messages of \<^verbatim>\<open>write_to_nwserv\<close>.\<close>

datatype wdog_msg = InsertWdog int "u8 list" | ModWdog int int | CloseWdog int | MsgWdog int | DownWdog

datatype ncp_event =
    ToNwserv wdog_msg
  | WriteNwconn int "u8 list"
  | Response u16 u8 u16 u8 u8 u8
  | CloseFd int
  | Signal int nat

record ncp_state =
  ncp_conns :: "NCP_CONNECTION list"
  count_connections :: nat
  ncp_goes_down :: int
  ncp_outs :: "ncp_event list"

definition ncp_emit :: "ncp_event \<Rightarrow> ncp_state \<Rightarrow> ncp_state" where
  "ncp_emit e s = s\<lparr>ncp_outs := ncp_outs s @ [e]\<rparr>"

definition upd_ncp :: "nat \<Rightarrow> (NCP_CONNECTION \<Rightarrow> NCP_CONNECTION) \<Rightarrow> ncp_state \<Rightarrow> ncp_state" where
  "upd_ncp k f s = s\<lparr>ncp_conns := (ncp_conns s)[k := f (ncp_conns s ! k)]\<rparr>"

abbreviation ncp_at :: "ncp_state \<Rightarrow> nat \<Rightarrow> NCP_CONNECTION" where
  "ncp_at s k \<equiv> ncp_conns s ! k"

definition is_free :: "NCP_CONNECTION \<Rightarrow> bool" where
  "is_free c = (c_fd c < 0 \<and> c_pid c < 0)"

section \<open>Connection numbers\<close>

definition new_conn_nr :: "ncp_state \<Rightarrow> nat \<times> ncp_state" where
  "new_conn_nr s =
     (if count_connections s = 0
      then (1, s\<lparr>ncp_conns := map (\<lambda>c. c\<lparr>c_fd := -1, c_pid := -1\<rparr>) (ncp_conns s), count_connections := 1\<rparr>)
      else case find (\<lambda>j. is_free (ncp_at s j)) [0..<length (ncp_conns s)] of
             Some j \<Rightarrow> (j + 1, s\<lparr>count_connections := max (count_connections s) (j + 1)\<rparr>)
           | None \<Rightarrow> (0, ncp_emit (ToNwserv (ModWdog 0 1)) s))"

definition free_conn_nr :: "nat \<Rightarrow> ncp_state \<Rightarrow> ncp_state" where
  "free_conn_nr nr s =
     (if nr \<noteq> 0 \<and> nr - 1 < count_connections s then upd_ncp (nr - 1) (\<lambda>c. c\<lparr>c_fd := -1, c_pid := -1\<rparr>) s else s)"

definition find_conn_nr :: "u8 list \<Rightarrow> ncp_state \<Rightarrow> nat" where
  "find_conn_nr addr s =
     (case find (\<lambda>j. c_fd (ncp_at s j) > -1 \<and> c_client_adr (ncp_at s j) = addr) [0..<count_connections s] of
        Some j \<Rightarrow> j + 1 | None \<Rightarrow> 0)"

definition SIGTERM :: nat where "SIGTERM = 15"
definition SIGKILL :: nat where "SIGKILL = 9"

definition clear_connection :: "int \<Rightarrow> ncp_state \<Rightarrow> ncp_state" where
  "clear_connection conn s =
     (let s1 = ncp_emit (ToNwserv (CloseWdog conn)) s; k = nat (conn - 1); c = ncp_at s k
      in if conn > 0 \<and> conn - 1 < int (count_connections s) \<and> c_fd c > -1
         then let s2 = upd_ncp k (\<lambda>c. c\<lparr>c_fd := -1\<rparr>) (ncp_emit (CloseFd (c_fd c)) s1)
              in if c_pid c > -1 then ncp_emit (Signal (c_pid c) SIGTERM) s2 else s2
         else s1)"

text \<open>\<open>pids\<close> are the children that \<^verbatim>\<open>waitpid\<close> reports.\<close>

definition clear_child :: "int \<Rightarrow> ncp_state \<Rightarrow> ncp_state" where
  "clear_child p s =
     fold (\<lambda>k t. if c_pid (ncp_at t k) = p then clear_connection (int k + 1) t else t) (rev [0..<count_connections s]) s"

definition kill_child :: "nat \<Rightarrow> ncp_state \<Rightarrow> ncp_state" where
  "kill_child k s =
     (let c = ncp_at s k
      in if c_fd c < 0 \<and> c_pid c > -1
         then upd_ncp k (\<lambda>c. c\<lparr>c_pid := -1\<rparr>) (ncp_emit (Signal (c_pid c) SIGKILL) s) else s)"

fun shrink_count :: "NCP_CONNECTION list \<Rightarrow> nat \<Rightarrow> nat" where
  "shrink_count cs 0 = 0"
| "shrink_count cs (Suc n) = (if is_free (cs ! n) then shrink_count cs n else Suc n)"

definition kill_connections :: "int list \<Rightarrow> ncp_state \<Rightarrow> ncp_state" where
  "kill_connections pids s =
     (let s1 = fold clear_child pids s;
          s2 = fold kill_child (rev [0..<count_connections s1]) s1
      in s2\<lparr>count_connections := shrink_count (ncp_conns s2) (count_connections s2)\<rparr>)"

text \<open>What starting an \<^verbatim>\<open>nwconn\<close> gives: the end of the pipe and the process.\<close>

datatype spawn = PipeFails | ForkFails | Spawned int int

definition SOCK_NCP :: u16 where "SOCK_NCP = 0x0451"

definition find_get_conn_nr :: "spawn \<Rightarrow> u8 list \<Rightarrow> ncp_state \<Rightarrow> nat \<times> ncp_state" where
  "find_get_conn_nr sp addr s =
     (let (connection, s1, ok) =
        (if find_conn_nr addr s \<noteq> 0 then (find_conn_nr addr s, s, True)
         else let (nr, t) = new_conn_nr s; t1 = upd_ncp (nr - 1) (\<lambda>c. c\<lparr>c_client_adr := addr\<rparr>) t
              in if nr = 0 then (0, t, True)
                 else case sp of
                   Spawned fd pid \<Rightarrow> (nr, upd_ncp (nr - 1) (\<lambda>c. c\<lparr>c_pid := pid, c_fd := fd\<rparr>) t1, True)
                 | _ \<Rightarrow> (nr, free_conn_nr nr t1, False))
      in if \<not> ok then (0, s1)
         else if connection > 0
         then (connection, ncp_emit (ToNwserv (InsertWdog (int connection)
                 (addr @ u16_to_be16 SOCK_NCP @ u32_to_be32 (word_of_int (c_pid (ncp_at s1 (connection - 1))))))) s1)
         else (0, s1))"

section \<open>Packets\<close>

text \<open>What the handler reads of a packet, beside the clock, the byte that the \<^verbatim>\<open>nwconn\<close> of a connection
  sets while it works, and whether the sender is on this server.\<close>

record ncp_packet =
  k_type :: u16
  k_sequence :: u8
  k_connection :: nat
  k_task :: u8
  k_function :: u8
  k_from :: "u8 list"
  k_bytes :: "u8 list"

record ncp_env =
  ncp_time :: int
  nwconn_busy :: "nat \<Rightarrow> bool"
  is_local :: bool
  station_restrictions :: int
  station_match :: "u8 list \<Rightarrow> bool"
  spawns :: spawn

definition ncp_response :: "u16 \<Rightarrow> u8 \<Rightarrow> nat \<Rightarrow> u8 \<Rightarrow> u8 \<Rightarrow> u8 \<Rightarrow> ncp_state \<Rightarrow> ncp_state" where
  "ncp_response ty sequence connection task compl cstat = ncp_emit (Response ty sequence (of_nat connection) task compl cstat)"

datatype ncp_ctrl = NcpClear int | NcpReinit | NcpDown

definition ncp_handle_ctrl :: "ncp_ctrl \<Rightarrow> ncp_state \<Rightarrow> ncp_state" where
  "ncp_handle_ctrl what s =
     (case what of
        NcpClear conn \<Rightarrow> clear_connection conn s
      | NcpReinit \<Rightarrow> s
      | NcpDown \<Rightarrow> s\<lparr>ncp_goes_down := ncp_goes_down s + 1\<rparr>)"

text \<open>A request for a connection that is not open for its sender is answered with the status that the
  connection is gone, but for a logout.\<close>

definition bad_connection :: "ncp_packet \<Rightarrow> ncp_state \<Rightarrow> ncp_state" where
  "bad_connection p =
     ncp_response 0x3333 (k_sequence p) (k_connection p) (if k_type p = 0x5555 then 0 else k_task p) 0
       (if k_type p = 0x5555 \<or> k_type p = 0x2222 \<and> k_function p = 0x19 then 0 else 1)"

definition handle_request :: "ncp_env \<Rightarrow> ncp_packet \<Rightarrow> ncp_state \<Rightarrow> ncp_state" where
  "handle_request ne p s =
     (let k = k_connection p - 1; c = ncp_at s k
      in if k_connection p > 0 \<and> k_connection p \<le> count_connections s \<and> k_from p = c_client_adr c \<and> c_fd c > -1 \<and>
            (k_type p = 0x2222 \<or> c_sequence c + 1 = k_sequence p)
         then if k_type p = 0x2222 then
                let s1 = upd_ncp k (\<lambda>c. c\<lparr>last_access := ncp_time ne\<rparr>) s;
                    s2 = (if ncp_time ne - last_access c > 50
                          then ncp_emit (ToNwserv (ModWdog (int (k_connection p)) 0)) s1 else s1)
                in if k_sequence p = c_sequence c \<and> nwconn_busy ne (k_connection p)
                   then ncp_response 0x9999 (k_sequence p) (k_connection p) (k_task p) 0 0 s2
                   else upd_ncp k (\<lambda>c. c\<lparr>c_sequence := k_sequence p\<rparr>) (ncp_emit (WriteNwconn (c_fd c) (k_bytes p)) s2)
              else ncp_response 0x3333 (k_sequence p) (k_connection p) 0 0 0 (clear_connection (int (k_connection p)) s)
         else bad_connection p s)"

definition give_connection :: "ncp_env \<Rightarrow> ncp_packet \<Rightarrow> ncp_state \<Rightarrow> ncp_state" where
  "give_connection ne p s =
     (let may = ncp_goes_down s = 0 \<and>
                (station_restrictions ne = 0 \<or> (station_restrictions ne = 1) \<noteq> station_match ne (k_from p));
          (connection, s1) = (if may then find_get_conn_nr (spawns ne) (k_from p) s else (0, s))
      in if connection \<noteq> 0
         then ncp_emit (WriteNwconn (c_fd (ncp_at s1 (connection - 1))) (k_bytes p))
                (upd_ncp (connection - 1) (\<lambda>c. c\<lparr>c_sequence := 0\<rparr>) s1)
         else ncp_response 0x3333 0 0 0 0xf9 0 s1)"

text \<open>\<open>ctrl\<close> is the order in a packet of type 0xeeee.\<close>

definition handle_ncp_request :: "ncp_env \<Rightarrow> ncp_ctrl \<Rightarrow> ncp_packet \<Rightarrow> ncp_state \<Rightarrow> ncp_state" where
  "handle_ncp_request ne what p s =
     (if k_type p = 0x2222 \<or> k_type p = 0x5555 then handle_request ne p s
      else if k_type p = 0x3333 \<and> is_local ne then
        (if k_connection p > 0 \<and> k_connection p \<le> count_connections s \<and> c_fd (ncp_at s (k_connection p - 1)) > -1
         then ncp_emit (WriteNwconn (c_fd (ncp_at s (k_connection p - 1))) (k_bytes p)) s else s)
      else if k_type p = 0x1111 then give_connection ne p s
      else if k_type p = 0xeeee \<and> is_local ne then ncp_handle_ctrl what s
      else ncp_response 0x3333 (k_sequence p) (k_connection p) 1 0xfb 0 s)"

definition close_all_conns :: "int list \<Rightarrow> int list \<Rightarrow> ncp_state \<Rightarrow> ncp_state" where
  "close_all_conns pids pids' s =
     (let clear = (\<lambda>t. fold (\<lambda>k. clear_connection (int k)) [1..<count_connections t + 1] t)
      in kill_connections pids' (clear (kill_connections pids (clear s))))"

end
