(* ===== verification/NcpLaws.thy ===== *)
theory NcpLaws
  imports Ncpserv
begin

text \<open>What \<^verbatim>\<open>ncpserv\<close> guarantees: a number belongs to one client and a client has one number; a packet
  reaches a \<^verbatim>\<open>nwconn\<close> only from its client; and who has which number is what the messages to \<^verbatim>\<open>nwserv\<close>
  say.\<close>

section \<open>Who is connected\<close>

type_synonym conn_view = "nat \<Rightarrow> u8 list option"

definition ncp_view :: "ncp_state \<Rightarrow> conn_view" where
  "ncp_view s k =
     (if k < count_connections s \<and> c_fd (ncp_at s k) > -1 then Some (c_client_adr (ncp_at s k)) else None)"

definition ncp_ok :: "ncp_state \<Rightarrow> bool" where
  "ncp_ok s \<longleftrightarrow> 0 < length (ncp_conns s) \<and> count_connections s \<le> length (ncp_conns s) \<and>
     (0 < count_connections s \<longrightarrow> (\<forall>k. count_connections s \<le> k \<and> k < length (ncp_conns s) \<longrightarrow> is_free (ncp_at s k))) \<and>
     (\<forall>i j. ncp_view s i \<noteq> None \<and> ncp_view s i = ncp_view s j \<longrightarrow> i = j)"

text \<open>What the messages say.\<close>

fun apply_msg :: "wdog_msg \<Rightarrow> conn_view \<Rightarrow> conn_view" where
  "apply_msg (InsertWdog conn buf) v = (if conn > 0 then v(nat (conn - 1) := Some (take 12 buf)) else v)"
| "apply_msg (CloseWdog conn) v = (if conn > 0 then v(nat (conn - 1) := None) else v)"
| "apply_msg _ v = v"

fun msg_of :: "ncp_event \<Rightarrow> wdog_msg list" where
  "msg_of (ToNwserv m) = [m]"
| "msg_of _ = []"

definition ncp_msgs :: "ncp_state \<Rightarrow> wdog_msg list" where
  "ncp_msgs s = concat (map msg_of (ncp_outs s))"

definition said :: "ncp_state \<Rightarrow> conn_view" where
  "said s = fold apply_msg (ncp_msgs s) (\<lambda>k. None)"

lemma said_emit [simp]: "said (ncp_emit e s) = (case e of ToNwserv m \<Rightarrow> apply_msg m (said s) | _ \<Rightarrow> said s)"
  by (simp add: said_def ncp_msgs_def ncp_emit_def split: ncp_event.split)

lemma said_frame [simp]: "said (upd_ncp k f s) = said s" "said (s\<lparr>ncp_conns := cs\<rparr>) = said s"
  "said (s\<lparr>count_connections := n\<rparr>) = said s" "said (s\<lparr>ncp_goes_down := d\<rparr>) = said s"
  by (simp_all add: said_def ncp_msgs_def upd_ncp_def)

lemma ncp_emit_frame [simp]: "ncp_conns (ncp_emit e s) = ncp_conns s" "count_connections (ncp_emit e s) = count_connections s"
  "ncp_view (ncp_emit e s) = ncp_view s" "ncp_goes_down (ncp_emit e s) = ncp_goes_down s"
  by (auto simp: ncp_emit_def ncp_view_def fun_eq_iff)

lemma ok_emit [simp]: "ncp_ok (ncp_emit e s) = ncp_ok s"
  by (simp add: ncp_ok_def)

lemma upd_frame [simp]: "count_connections (upd_ncp k f s) = count_connections s" "length (ncp_conns (upd_ncp k f s)) = length (ncp_conns s)"
  "k < length (ncp_conns s) \<Longrightarrow> ncp_at (upd_ncp k f s) k = f (ncp_at s k)" "j \<noteq> k \<Longrightarrow> ncp_at (upd_ncp k f s) j = ncp_at s j"
  by (simp_all add: upd_ncp_def)

lemma ncp_okI:
  assumes "0 < length (ncp_conns s)" "count_connections s \<le> length (ncp_conns s)"
    "\<And>k. 0 < count_connections s \<Longrightarrow> count_connections s \<le> k \<Longrightarrow> k < length (ncp_conns s) \<Longrightarrow> is_free (ncp_at s k)"
    "\<And>i j. ncp_view s i \<noteq> None \<Longrightarrow> ncp_view s i = ncp_view s j \<Longrightarrow> i = j"
  shows "ncp_ok s"
  using assms unfolding ncp_ok_def by blast

text \<open>A change of a connection in use.\<close>

lemma view_upd:
  "k < count_connections s \<Longrightarrow> k < length (ncp_conns s) \<Longrightarrow>
     ncp_view (upd_ncp k f s) = (ncp_view s)(k := (let c = f (ncp_at s k) in if c_fd c > -1 then Some (c_client_adr c) else None))"
  by (rule ext) (auto simp: ncp_view_def upd_ncp_def nth_list_update Let_def)

lemma ok_upd:
  assumes "ncp_ok s" "k < count_connections s" "\<And>j. j \<noteq> k \<Longrightarrow> ncp_view s j \<noteq> ncp_view (upd_ncp k f s) k \<or> ncp_view s j = None"
  shows "ncp_ok (upd_ncp k f s)"
proof (rule ncp_okI)
  have k: "k < length (ncp_conns s)" using assms(1,2) by (simp add: ncp_ok_def)
  note v = view_upd [OF assms(2) k, of f]
  fix i j assume ij: "ncp_view (upd_ncp k f s) i \<noteq> None" "ncp_view (upd_ncp k f s) i = ncp_view (upd_ncp k f s) j"
  have other: "ncp_view (upd_ncp k f s) j' = ncp_view s j'" if "j' \<noteq> k" for j' using that v by simp
  show "i = j"
  proof (cases "i = k \<or> j = k")
    case True
    then show ?thesis using ij assms(3) [of i] assms(3) [of j] other by metis
  next
    case False
    then show ?thesis using ij other assms(1) unfolding ncp_ok_def by metis
  qed
next
  fix j assume "0 < count_connections (upd_ncp k f s)" "count_connections (upd_ncp k f s) \<le> j" "j < length (ncp_conns (upd_ncp k f s))"
  then show "is_free (ncp_at (upd_ncp k f s) j)" using assms(1,2) by (simp add: ncp_ok_def)
qed (use assms in \<open>simp_all add: ncp_ok_def\<close>)

lemma same_upd:
  assumes "k < count_connections s" "ncp_ok s" "c_fd (f (ncp_at s k)) > -1 \<longleftrightarrow> c_fd (ncp_at s k) > -1"
    "c_fd (ncp_at s k) > -1 \<Longrightarrow> c_client_adr (f (ncp_at s k)) = c_client_adr (ncp_at s k)"
  shows "ncp_view (upd_ncp k f s) = ncp_view s \<and> ncp_ok (upd_ncp k f s)"
proof -
  have k: "k < length (ncp_conns s)" using assms(1,2) by (simp add: ncp_ok_def)
  have v: "ncp_view (upd_ncp k f s) = ncp_view s"
    using view_upd [OF assms(1) k, of f] assms(1,3,4) by (auto simp: ncp_view_def Let_def fun_eq_iff)
  moreover have "ncp_ok (upd_ncp k f s)"
    by (rule ok_upd [OF assms(2,1)]) (use v assms(2) in \<open>metis ncp_ok_def\<close>)
  ultimately show ?thesis ..
qed

section \<open>The operations\<close>

definition sound :: "ncp_state \<Rightarrow> bool" where
  "sound s = (ncp_ok s \<and> said s = ncp_view s)"

lemma sound_emit: "sound s \<Longrightarrow> (\<And>m. e \<noteq> ToNwserv m) \<Longrightarrow> sound (ncp_emit e s)"
  by (cases e) (auto simp: sound_def)

lemma sound_same:
  assumes "sound s" "k < count_connections s" "\<And>c. c_fd (f c) = c_fd c" "\<And>c. c_client_adr (f c) = c_client_adr c"
  shows "sound (upd_ncp k f s)"
  using same_upd [of k s f] assms by (simp add: sound_def)

lemma found_conn_nr: "find_conn_nr addr s = 0 \<Longrightarrow> ncp_view s k \<noteq> Some addr"
  "find_conn_nr addr s = Suc j \<Longrightarrow> ncp_view s j = Some addr \<and> j < count_connections s"
  by (auto simp: find_conn_nr_def ncp_view_def find_None_iff split: option.splits dest!: find_SomeD)

lemma new_conn:
  assumes "sound s" "new_conn_nr s = (nr, t)"
  shows "sound t \<and> ncp_view t = ncp_view s \<and> (nr \<noteq> 0 \<longrightarrow> nr - 1 < count_connections t \<and> is_free (ncp_at t (nr - 1)))"
proof (cases "count_connections s = 0")
  case True
  then have nr: "nr = 1" "t = s\<lparr>ncp_conns := map (\<lambda>c. c\<lparr>c_fd := -1, c_pid := -1\<rparr>) (ncp_conns s), count_connections := 1\<rparr>"
    using assms(2) by (auto simp: new_conn_nr_def)
  have len: "0 < length (ncp_conns s)" using assms(1) by (simp add: sound_def ncp_ok_def)
  have "ncp_view s = (\<lambda>k. None)" "ncp_view t = (\<lambda>k. None)" using True len by (auto simp: ncp_view_def nr(2) fun_eq_iff)
  moreover from this len have "ncp_ok t" by (intro ncp_okI) (auto simp: nr(2) is_free_def Suc_le_eq)
  ultimately show ?thesis using assms(1) len by (simp add: sound_def nr is_free_def)
next
  case False
  show ?thesis
  proof (cases "find (\<lambda>j. is_free (ncp_at s j)) [0..<length (ncp_conns s)]")
    case None
    then show ?thesis using False assms by (auto simp: new_conn_nr_def sound_def)
  next
    case (Some j)
    then have j: "nr = Suc j" "t = s\<lparr>count_connections := max (count_connections s) (Suc j)\<rparr>" "j < length (ncp_conns s)"
      "is_free (ncp_at s j)" using False assms(2) by (auto simp: new_conn_nr_def dest!: find_SomeD)
    have v: "ncp_view t = ncp_view s"
    proof
      fix k show "ncp_view t k = ncp_view s k"
      proof (cases "k < count_connections s")
        case beyond: False
        then have "k \<le> j \<Longrightarrow> is_free (ncp_at s k)" using assms(1) False j(3) by (simp add: sound_def ncp_ok_def)
        then show ?thesis using beyond by (auto simp: ncp_view_def j(2) is_free_def less_max_iff_disj)
      qed (simp add: ncp_view_def j(2) less_max_iff_disj)
    qed
    have "ncp_ok t" using assms(1) False j(3) v
      by (intro ncp_okI) (auto simp: j(2) sound_def ncp_ok_def split: if_splits)
    then show ?thesis using assms(1) j v by (simp add: sound_def)
  qed
qed


lemma free_view: "is_free (ncp_at s k) \<Longrightarrow> ncp_view s k = None"
  by (simp add: ncp_view_def is_free_def)

lemma sound_address: "sound s \<Longrightarrow> k < count_connections s \<Longrightarrow> is_free (ncp_at s k) \<Longrightarrow>
    sound (upd_ncp k (\<lambda>c. c\<lparr>c_client_adr := a\<rparr>) s) \<and> ncp_view (upd_ncp k (\<lambda>c. c\<lparr>c_client_adr := a\<rparr>) s) = ncp_view s"
  using same_upd [of k s "\<lambda>c. c\<lparr>c_client_adr := a\<rparr>"] by (auto simp: sound_def is_free_def)

lemma free_conn:
  assumes "sound s" "nr \<noteq> 0" "is_free (ncp_at s (nr - 1))"
  shows "sound (free_conn_nr nr s) \<and> ncp_view (free_conn_nr nr s) = ncp_view s"
  using assms same_upd [of "nr - 1" s "\<lambda>c. c\<lparr>c_fd := -1, c_pid := -1\<rparr>"]
  by (auto simp: free_conn_nr_def sound_def is_free_def)

lemma clear_conn:
  assumes "sound s"
  shows "sound (clear_connection conn s)"
    "ncp_view (clear_connection conn s) = (if conn > 0 then (ncp_view s)(nat (conn - 1) := None) else ncp_view s)"
proof -
  let ?k = "nat (conn - 1)"
  let ?c = "ncp_at s ?k" and ?s = "ncp_emit (CloseFd (c_fd (ncp_at s ?k))) (ncp_emit (ToNwserv (CloseWdog conn)) s)"
  have "sound (clear_connection conn s) \<and> ncp_view (clear_connection conn s) =
      (if conn > 0 then (ncp_view s)(?k := None) else ncp_view s)"
  proof (cases "conn > 0 \<and> conn - 1 < int (count_connections s) \<and> c_fd ?c > -1")
    case True
    let ?s1 = "upd_ncp ?k (\<lambda>c. c\<lparr>c_fd := -1\<rparr>) ?s"
    have k: "?k < count_connections ?s" "ncp_ok ?s" using True assms by (auto simp: sound_def)
    have "clear_connection conn s = (if c_pid ?c > -1 then ncp_emit (Signal (c_pid ?c) SIGTERM) ?s1 else ?s1)"
      using True by (simp add: clear_connection_def Let_def)
    moreover have v: "ncp_view ?s1 = (ncp_view s)(?k := None)"
      using view_upd [of ?k ?s] k by (simp add: ncp_ok_def)
    moreover have "ncp_ok ?s1" using v by (intro ok_upd [OF k(2,1)]) auto
    ultimately show ?thesis using True assms by (simp add: sound_def)
  next
    case False
    then have "clear_connection conn s = ncp_emit (ToNwserv (CloseWdog conn)) s" unfolding clear_connection_def Let_def by (rule if_not_P)
    moreover have "conn > 0 \<Longrightarrow> ncp_view s ?k = None" using False by (auto simp: ncp_view_def)
    ultimately show ?thesis using assms by (auto simp: sound_def fun_eq_iff)
  qed
  then show "sound (clear_connection conn s)"
    "ncp_view (clear_connection conn s) = (if conn > 0 then (ncp_view s)(nat (conn - 1) := None) else ncp_view s)" by simp_all
qed

lemma sound_fold: "(\<And>k t. sound t \<Longrightarrow> sound (f k t)) \<Longrightarrow> sound s \<Longrightarrow> sound (fold f ks s)"
  by (induction ks arbitrary: s) auto

lemma sound_clear_child: "sound s \<Longrightarrow> sound (clear_child p s)"
  unfolding clear_child_def by (rule sound_fold) (auto intro: clear_conn)

lemma sound_kill_child: "sound s \<Longrightarrow> k < count_connections s \<Longrightarrow> sound (kill_child k s)"
  by (auto simp: kill_child_def Let_def intro!: sound_same sound_emit)

lemma count_kill_child [simp]: "count_connections (kill_child k s) = count_connections s"
  by (simp add: kill_child_def Let_def)

lemma sound_kill_children: "sound s \<Longrightarrow> set ks \<subseteq> {..<count_connections s} \<Longrightarrow> sound (fold kill_child ks s)"
  by (induction ks arbitrary: s) (auto simp: sound_kill_child)

lemma shrunk_count: "shrink_count cs n \<le> n" "k < n \<Longrightarrow> shrink_count cs n \<le> k \<Longrightarrow> is_free (cs ! k)"
  by (induction n) (auto simp: less_Suc_eq split: if_splits)

lemma sound_shrink:
  assumes "sound s"
  shows "sound (s\<lparr>count_connections := shrink_count (ncp_conns s) (count_connections s)\<rparr>)" (is "sound ?t")
proof -
  note sh = shrunk_count(1) [of "ncp_conns s" "count_connections s"] shrunk_count(2) [of _ "count_connections s" "ncp_conns s"]
  have v: "ncp_view ?t = ncp_view s"
  proof
    fix k show "ncp_view ?t k = ncp_view s k"
      using sh(1) sh(2) [of k] by (cases "k < count_connections s") (auto simp: ncp_view_def is_free_def not_less)
  qed
  moreover have "ncp_ok ?t"
  proof (rule ncp_okI)
    fix k assume k: "0 < count_connections ?t" "count_connections ?t \<le> k" "k < length (ncp_conns ?t)"
    show "is_free (ncp_at ?t k)"
    proof (cases "k < count_connections s")
      case False
      then show ?thesis using assms k sh(1) by (auto simp: sound_def ncp_ok_def)
    qed (use k sh(2) in simp)
  qed (use assms v sh(1) in \<open>auto simp: sound_def ncp_ok_def\<close>)
  ultimately show ?thesis using assms by (simp add: sound_def)
qed

lemma sound_kill_connections: "sound s \<Longrightarrow> sound (kill_connections pids s)"
  unfolding kill_connections_def Let_def
  by (intro sound_shrink sound_kill_children sound_fold [of clear_child] sound_clear_child) auto


definition spawn_ok :: "spawn \<Rightarrow> bool" where
  "spawn_ok sp = (case sp of Spawned fd pid \<Rightarrow> 0 \<le> fd \<and> 0 < pid | _ \<Rightarrow> True)"

lemma connected:
  assumes "sound t" "nr \<noteq> 0" "nr - 1 < count_connections t" "is_free (ncp_at t (nr - 1))" "\<And>k. ncp_view t k \<noteq> Some addr"
    and "length addr = 12" "0 \<le> fd"
    and "t' = upd_ncp (nr - 1) (\<lambda>c. c\<lparr>c_pid := pid, c_fd := fd\<rparr>) (upd_ncp (nr - 1) (\<lambda>c. c\<lparr>c_client_adr := addr\<rparr>) t)"
  shows "sound (ncp_emit (ToNwserv (InsertWdog (int nr) (addr @ z))) t')" "ncp_view t' = (ncp_view t)(nr - 1 := Some addr)"
proof -
  let ?t1 = "upd_ncp (nr - 1) (\<lambda>c. c\<lparr>c_client_adr := addr\<rparr>) t"
  have t1: "sound ?t1" "ncp_view ?t1 = ncp_view t" using sound_address [OF assms(1,3,4)] by blast+
  have k: "nr - 1 < count_connections ?t1" "nr - 1 < length (ncp_conns ?t1)" using t1(1) assms(3) by (auto simp: sound_def ncp_ok_def)
  show v: "ncp_view t' = (ncp_view t)(nr - 1 := Some addr)"
    using view_upd [OF k, of "\<lambda>c. c\<lparr>c_pid := pid, c_fd := fd\<rparr>"] k assms(7) by (simp add: assms(8) t1(2) del: One_nat_def)
  have "ncp_ok t'" unfolding assms(8)
    using t1 assms(5) v by (intro ok_upd [OF _ k(1)]) (auto simp: sound_def assms(8))
  moreover have "said t' = ncp_view t" using t1 by (simp add: sound_def assms(8))
  moreover have "nat (int nr - 1) = nr - 1" by simp
  ultimately show "sound (ncp_emit (ToNwserv (InsertWdog (int nr) (addr @ z))) t')"
    using assms(2,6) v by (simp add: sound_def)
qed

lemma sound_find_get:
  assumes "sound s" "length addr = 12" "spawn_ok sp" "find_get_conn_nr sp addr s = (nr, t)"
  shows "sound t \<and> (nr \<noteq> 0 \<longrightarrow> ncp_view t (nr - 1) = Some addr)"
proof (cases "find_conn_nr addr s")
  case (Suc j)
  then have "ncp_view s j = Some addr" using found_conn_nr(2) by blast
  moreover from this have "(ncp_view s)(j := Some addr) = ncp_view s" by auto
  moreover have "nr = Suc j" "t = ncp_emit (ToNwserv (InsertWdog (int (Suc j))
      (addr @ u16_to_be16 SOCK_NCP @ u32_to_be32 (word_of_int (c_pid (ncp_at s j)))))) s"
    using assms(4) by (auto simp: find_get_conn_nr_def Suc)
  ultimately show ?thesis using assms(1,2) by (simp add: sound_def)
next
  case 0
  obtain m u where m: "new_conn_nr s = (m, u)" by fastforce
  note u = new_conn [OF assms(1) m]
  show ?thesis
  proof (cases "m = 0")
    case True
    then show ?thesis using u assms(4) 0 m by (simp add: find_get_conn_nr_def)
  next
    case False
    let ?u = "upd_ncp (m - 1) (\<lambda>c. c\<lparr>c_client_adr := addr\<rparr>) u"
    have free: "m - 1 < count_connections u" "is_free (ncp_at u (m - 1))" "sound u" using u False by blast+
    have none: "ncp_view u k \<noteq> Some addr" for k using u found_conn_nr(1) [OF 0] by simp
    show ?thesis
    proof (cases "\<exists>fd pid. sp = Spawned fd pid")
      case True
      then obtain fd pid where sp: "sp = Spawned fd pid" by blast
      define v where "v = upd_ncp (m - 1) (\<lambda>c. c\<lparr>c_pid := pid, c_fd := fd\<rparr>) ?u"
      have r: "nr = m" "\<exists>z. t = ncp_emit (ToNwserv (InsertWdog (int m) (addr @ z))) v"
        using assms(4) 0 m sp False by (auto simp: find_get_conn_nr_def v_def)
      from connected [OF free(3) False free(1,2) none assms(2) _ v_def] assms(3) r show ?thesis
        by (auto simp: sp spawn_ok_def)
    next
      case no: False
      then have "find_get_conn_nr sp addr s = (0, free_conn_nr m ?u)"
        using 0 m False by (cases sp) (auto simp: find_get_conn_nr_def)
      moreover have "is_free (ncp_at ?u (m - 1))" using free by (auto simp: sound_def ncp_ok_def is_free_def)
      ultimately show ?thesis using assms(4) free_conn [of ?u m] sound_address [OF free(3,1,2), of addr] False by simp
    qed
  qed
qed

lemma sound_response [simp]: "sound s \<Longrightarrow> sound (ncp_response ty q c ta co cs s)"
  by (simp add: ncp_response_def sound_emit)

lemma sound_mod: "sound s \<Longrightarrow> sound (ncp_emit (ToNwserv (ModWdog c m)) s)"
  by (simp add: sound_def)

lemma sound_request:
  assumes "sound s"
  shows "sound (handle_request ne p s)"
proof (cases "k_connection p > 0 \<and> k_connection p \<le> count_connections s")
  case True
  then have k: "k_connection p - 1 < count_connections s" by linarith
  then have "sound (upd_ncp (k_connection p - 1) (\<lambda>c. c\<lparr>last_access := ncp_time ne\<rparr>) s)"
    by (intro sound_same [OF assms]) auto
  moreover have "sound (upd_ncp (k_connection p - 1) (\<lambda>c. c\<lparr>c_sequence := q\<rparr>) t)" if "sound t" "count_connections t = count_connections s" for q t
    using k that by (intro sound_same) auto
  ultimately show ?thesis using assms
    by (simp add: handle_request_def Let_def bad_connection_def sound_mod sound_emit clear_conn(1))
next
  case False
  then have "handle_request ne p s = bad_connection p s" by (auto simp: handle_request_def Let_def)
  then show ?thesis using assms by (simp add: bad_connection_def)
qed

lemma sound_give:
  assumes "sound s" "length (k_from p) = 12" "spawn_ok (spawns ne)"
  shows "sound (give_connection ne p s)"
proof -
  obtain nr t where f: "find_get_conn_nr (spawns ne) (k_from p) s = (nr, t)" by fastforce
  note t = sound_find_get [OF assms f]
  have "sound (upd_ncp (nr - 1) (\<lambda>c. c\<lparr>c_sequence := 0\<rparr>) t)" if "nr \<noteq> 0"
    using t that by (intro sound_same) (auto simp: ncp_view_def split: if_splits)
  then show ?thesis using t assms(1) f by (auto simp: give_connection_def Let_def intro: sound_emit)
qed

lemma sound_handle:
  assumes "sound s" "length (k_from p) = 12" "spawn_ok (spawns ne)"
  shows "sound (handle_ncp_request ne what p s)"
proof -
  have "sound (s\<lparr>ncp_goes_down := d\<rparr>)" for d using assms(1)
    by (auto simp: sound_def ncp_ok_def ncp_view_def [abs_def])
  then have "sound (ncp_handle_ctrl what s)" using assms(1)
    by (simp add: ncp_handle_ctrl_def clear_conn(1) split: ncp_ctrl.split)
  then show ?thesis using assms
    by (simp add: handle_ncp_request_def sound_request sound_give sound_emit)
qed

lemma sound_close_all: "sound s \<Longrightarrow> sound (close_all_conns pids pids' s)"
  unfolding close_all_conns_def Let_def
  by (intro sound_kill_connections sound_fold [where f = "\<lambda>k. clear_connection (int k)"]) (auto intro: clear_conn(1))


section \<open>Runs\<close>

definition ncp_start :: "nat \<Rightarrow> ncp_state" where
  "ncp_start n =
     \<lparr>ncp_conns = replicate n \<lparr>c_fd = 0, c_pid = 0, c_client_adr = replicate 12 0, c_sequence = 0, last_access = 0\<rparr>,
      count_connections = 0, ncp_goes_down = 0, ncp_outs = []\<rparr>"

inductive ncp_step :: "ncp_state \<Rightarrow> ncp_state \<Rightarrow> bool" where
  packet: "length (k_from p) = 12 \<Longrightarrow> spawn_ok (spawns ne) \<Longrightarrow> ncp_step s (handle_ncp_request ne what p s)"
| children: "ncp_step s (kill_connections pids s)"
| leave: "ncp_step s (close_all_conns pids pids' s)"

lemma sound_start: "0 < n \<Longrightarrow> sound (ncp_start n)"
  by (auto simp: sound_def ncp_ok_def ncp_view_def said_def ncp_msgs_def ncp_start_def fun_eq_iff)

lemma sound_step: "ncp_step s s' \<Longrightarrow> sound s \<Longrightarrow> sound s'"
  by (induction rule: ncp_step.induct) (auto intro: sound_handle sound_kill_connections sound_close_all)

lemma sound_run: "ncp_step\<^sup>*\<^sup>* s s' \<Longrightarrow> sound s \<Longrightarrow> sound s'"
  by (induction rule: rtranclp_induct) (auto intro: sound_step)

text \<open>C10. In every run of \<^verbatim>\<open>ncpserv\<close> a connection number belongs to one client and a client has one
  connection number at most, and the messages that went to \<^verbatim>\<open>nwserv\<close> say, taken in their order, exactly which
  client has which number.\<close>

theorem connection_numbers_sound:
  assumes "0 < n" and "ncp_step\<^sup>*\<^sup>* (ncp_start n) s"
  shows "said s = ncp_view s \<and> (\<forall>i j. ncp_view s i \<noteq> None \<and> ncp_view s i = ncp_view s j \<longrightarrow> i = j)"
  using sound_run [OF assms(2) sound_start [OF assms(1)]] unfolding sound_def ncp_ok_def by blast

text \<open>A server with two places, and a client that attaches and sends a request.\<close>

definition client0 :: "u8 list" where "client0 = [0, 0, 0, 1, 0, 0, 0, 0, 0, 9, 0x40, 3]"

definition attach0 :: ncp_packet where
  "attach0 = \<lparr>k_type = 0x1111, k_sequence = 0, k_connection = 0, k_task = 1, k_function = 0,
     k_from = client0, k_bytes = [0x11, 0x11, 0, 0, 1, 0, 0]\<rparr>"

definition call0 :: ncp_packet where
  "call0 = \<lparr>k_type = 0x2222, k_sequence = 1, k_connection = 1, k_task = 1, k_function = 0x17,
     k_from = client0, k_bytes = [0x22, 0x22, 1, 1, 1, 0, 0x17]\<rparr>"

definition ncp_env0 :: ncp_env where
  "ncp_env0 = \<lparr>ncp_time = 100, nwconn_busy = (\<lambda>k. False), is_local = False, station_restrictions = 0,
     station_match = (\<lambda>a. False), spawns = Spawned 5 200\<rparr>"

definition attached0 :: ncp_state where
  "attached0 = handle_ncp_request ncp_env0 NcpReinit attach0 (ncp_start 2)"

lemma run_attached0: "ncp_step\<^sup>*\<^sup>* (ncp_start 2) attached0"
  unfolding attached0_def by (rule r_into_rtranclp, rule packet) (simp_all add: attach0_def client0_def ncp_env0_def spawn_ok_def)

lemma attached0_view: "ncp_view attached0 0 = Some client0" "c_fd (ncp_at attached0 0) = 5"
  by code_simp+

theorem connection_numbers_sound_witness:
  "said attached0 = ncp_view attached0 \<and> ncp_view attached0 0 = Some client0"
  using connection_numbers_sound [OF _ run_attached0] attached0_view(1) by simp

text \<open>The events of one step.\<close>

definition new_events :: "ncp_state \<Rightarrow> ncp_state \<Rightarrow> ncp_event list" where
  "new_events s s' = drop (length (ncp_outs s)) (ncp_outs s')"

fun is_write :: "ncp_event \<Rightarrow> bool" where
  "is_write (WriteNwconn fd d) = True"
| "is_write _ = False"

definition no_write :: "ncp_state \<Rightarrow> ncp_state \<Rightarrow> bool" where
  "no_write s s' = (\<exists>es. ncp_outs s' = ncp_outs s @ es \<and> list_all (\<lambda>e. \<not> is_write e) es)"

lemma no_write_refl [simp]: "no_write s s"
  by (simp add: no_write_def)

lemma no_write_emit: "no_write s t \<Longrightarrow> \<not> is_write e \<Longrightarrow> no_write s (ncp_emit e t)"
  by (auto simp: no_write_def ncp_emit_def)

lemma no_write_frame [simp]: "no_write s (upd_ncp k f t) = no_write s t"
  "no_write s (t\<lparr>ncp_conns := cs\<rparr>) = no_write s t" "no_write s (t\<lparr>count_connections := n\<rparr>) = no_write s t"
  "no_write s (t\<lparr>ncp_goes_down := d\<rparr>) = no_write s t"
  by (simp_all add: no_write_def upd_ncp_def)

lemma no_write_new: "no_write s t \<Longrightarrow> list_all (\<lambda>e. \<not> is_write e) (new_events s t)"
  by (auto simp: no_write_def new_events_def)

lemma no_write_then: "no_write s t \<Longrightarrow> e \<in> set (new_events s (ncp_emit w t)) \<Longrightarrow> is_write e \<Longrightarrow> e = w"
  by (auto simp: no_write_def new_events_def ncp_emit_def list_all_iff)

lemma no_write_clear: "no_write s t \<Longrightarrow> no_write s (clear_connection c t)"
  by (simp add: clear_connection_def Let_def no_write_emit)

lemma no_write_response [simp]: "no_write s t \<Longrightarrow> no_write s (ncp_response ty q c ta co cs t)"
  by (simp add: ncp_response_def no_write_emit)

lemma no_write_get: "find_get_conn_nr sp addr s = (nr, t) \<Longrightarrow> no_write s t"
  by (auto simp: find_get_conn_nr_def new_conn_nr_def free_conn_nr_def Let_def intro!: no_write_emit
      split: if_splits prod.splits option.splits spawn.splits)

text \<open>C9. A packet reaches only the \<^verbatim>\<open>nwconn\<close> of its sender.  For every packet but those of type 0x3333 that
  come from this server itself (the answers of \<^verbatim>\<open>nwbind\<close>): what \<^verbatim>\<open>ncpserv\<close> writes into a pipe is the packet
  itself, and the pipe is that of a connection whose client has the address of
  the sender; for a request it is the connection that the request names.  So no client acts on the connection of
  another by naming its number.\<close>

theorem packet_reaches_own_process:
  assumes "0 < n" and "ncp_step\<^sup>*\<^sup>* (ncp_start n) s" and "length (k_from p) = 12" and "spawn_ok (spawns ne)"
    and "\<not> (k_type p = 0x3333 \<and> is_local ne)" and "s' = handle_ncp_request ne what p s" and "WriteNwconn fd d \<in> set (new_events s s')"
  shows "\<exists>k. ncp_view s' k = Some (k_from p) \<and> c_fd (ncp_at s' k) = fd \<and> d = k_bytes p \<and>
    (k_type p = 0x2222 \<longrightarrow> k = k_connection p - 1)"
proof -
  have s: "sound s" by (rule sound_run [OF assms(2) sound_start [OF assms(1)]])
  then have s': "sound s'" using sound_handle [OF s assms(3,4)] assms(6) by simp
  have nw: "\<not> no_write s s'" using assms(7) no_write_new [of s s'] unfolding list_all_iff by (metis is_write.simps(1))
  show ?thesis
  proof (cases "k_type p = 0x2222 \<or> k_type p = 0x5555")
    case True
    let ?k = "k_connection p - 1"
    let ?c = "ncp_at s ?k"
    have h: "s' = handle_request ne p s" using True assms(6) by (auto simp: handle_ncp_request_def)
    let ?g = "k_connection p > 0 \<and> k_connection p \<le> count_connections s \<and> k_from p = c_client_adr ?c \<and> c_fd ?c > -1 \<and> k_type p = 0x2222"
    have "no_write s s'" if "\<not> ?g" using that True
      by (auto simp: h handle_request_def bad_connection_def no_write_clear Let_def)
    then have g: ?g using nw by blast
    then have k: "?k < count_connections s" by linarith
    define s1 where "s1 = upd_ncp ?k (\<lambda>c. c\<lparr>last_access := ncp_time ne\<rparr>) s"
    define t where "t = (if ncp_time ne - last_access ?c > 50
                         then ncp_emit (ToNwserv (ModWdog (int (k_connection p)) 0)) s1 else s1)"
    have t1: "no_write s t" "ncp_conns t = ncp_conns s1" "count_connections t = count_connections s"
      by (simp_all add: t_def s1_def no_write_emit)
    let ?t = "upd_ncp ?k (\<lambda>c. c\<lparr>c_sequence := k_sequence p\<rparr>) (ncp_emit (WriteNwconn (c_fd ?c) (k_bytes p)) t)"
    have "s' = (if k_sequence p = c_sequence ?c \<and> nwconn_busy ne (k_connection p)
                then ncp_response 0x9999 (k_sequence p) (k_connection p) (k_task p) 0 0 t else ?t)"
      unfolding h handle_request_def Let_def t_def s1_def using g by simp
    then have t: "no_write s t" "s' = ?t" "ncp_conns t = (ncp_conns s)[?k := ?c\<lparr>last_access := ncp_time ne\<rparr>]"
      "count_connections t = count_connections s" using nw t1 by (auto simp: s1_def upd_ncp_def split: if_splits)
    have "WriteNwconn fd d = WriteNwconn (c_fd ?c) (k_bytes p)"
      using assms(7) t(2) by (intro no_write_then [OF t(1)]) (auto simp: new_events_def upd_ncp_def)
    moreover have "?k < length (ncp_conns s)" using s k by (simp add: sound_def ncp_ok_def)
    ultimately show ?thesis using g k t(2-4) by (intro exI [of _ ?k]) (simp add: ncp_view_def upd_ncp_def)
  next
    case False
    then have h: "s' = give_connection ne p s" "k_type p = 0x1111"
      using nw assms(5,6) by (auto simp: handle_ncp_request_def ncp_handle_ctrl_def no_write_clear split: if_splits ncp_ctrl.splits)
    obtain nr t where f: "find_get_conn_nr (spawns ne) (k_from p) s = (nr, t)" by fastforce
    have t: "nr \<noteq> 0" "s' = ncp_emit (WriteNwconn (c_fd (ncp_at t (nr - 1))) (k_bytes p)) (upd_ncp (nr - 1) (\<lambda>c. c\<lparr>c_sequence := 0\<rparr>) t)"
      using nw no_write_get [OF f] f by (auto simp: h(1) give_connection_def Let_def split: if_splits)
    have "WriteNwconn fd d = WriteNwconn (c_fd (ncp_at t (nr - 1))) (k_bytes p)"
      using assms(7) no_write_get [OF f] unfolding t(2) by (intro no_write_then) auto
    moreover have v: "ncp_view t (nr - 1) = Some (k_from p)" "sound t" using sound_find_get [OF s assms(3,4) f] t(1) by auto
    moreover from v have "nr - 1 < count_connections t" "nr - 1 < length (ncp_conns t)" by (auto simp: ncp_view_def sound_def ncp_ok_def split: if_splits)
    ultimately show ?thesis using h(2) t(2) by (intro exI [of _ "nr - 1"]) (auto simp: ncp_view_def upd_ncp_def split: if_splits)
  qed
qed

theorem packet_reaches_own_process_witness:
  "\<exists>k. ncp_view (handle_ncp_request ncp_env0 NcpReinit call0 attached0) k = Some client0 \<and> k = 0"
proof -
  have "WriteNwconn 5 (k_bytes call0) \<in> set (new_events attached0 (handle_ncp_request ncp_env0 NcpReinit call0 attached0))"
    by code_simp
  then show ?thesis
    using packet_reaches_own_process [OF _ run_attached0 _ _ _ refl, where p = call0 and ne = ncp_env0 and what = NcpReinit and fd = 5 and d = "k_bytes call0"]
    by (auto simp: call0_def client0_def ncp_env0_def spawn_ok_def)
qed

end
