(* ===== verification/Watchdog.thy ===== *)
theory Watchdog
  imports Ncpserv BindRequests Nwroute
begin

text \<open>The watchdog of \<^verbatim>\<open>src/nwserv.c\<close> and the part of its main loop that serves it: the table of clients
  to watch, the packets that ask whether they are alive, and the orders that \<^verbatim>\<open>ncpserv\<close> and \<^verbatim>\<open>nwbind\<close>
  send through their pipes.\<close>

section \<open>State\<close>

record WDOG_CONNECTION =
  w_addr :: "u8 list"
  last_time :: int
  wcounter :: int

text \<open>What leaves \<^verbatim>\<open>nwserv\<close>: orders to its two sons, packets to clients (the connection, whether it asks
  or tells of a message), the broadcast of a shutdown.\<close>

datatype wd_event = ToNcpserv ncp_ctrl | ToNwbind ctrl | WdogPacket "u8 list" int | BcastPacket "u8 list" int | DownBroadcast

record wd_state =
  wd_conns :: "WDOG_CONNECTION list"
  hi_conn :: nat
  server_down_stamp :: int
  wd_outs :: "wd_event list"

text \<open>The clock of a round of the loop, and what \<^verbatim>\<open>dont_send_wdog\<close> looks at: the configuration and
  the devices of the router.\<close>

record wd_env =
  acttime :: int
  rcfg :: route_cfg
  routes :: route_state

definition zero_wdog :: WDOG_CONNECTION where
  "zero_wdog = \<lparr>w_addr = replicate 12 0, last_time = 0, wcounter = 0\<rparr>"

definition wd_emit :: "wd_event \<Rightarrow> wd_state \<Rightarrow> wd_state" where
  "wd_emit e s = s\<lparr>wd_outs := wd_outs s @ [e]\<rparr>"

definition upd_wd :: "nat \<Rightarrow> (WDOG_CONNECTION \<Rightarrow> WDOG_CONNECTION) \<Rightarrow> wd_state \<Rightarrow> wd_state" where
  "upd_wd k f s = s\<lparr>wd_conns := (wd_conns s)[k := f (wd_conns s ! k)]\<rparr>"

definition WDOG_TRIE_AFTER_SEC :: int where "WDOG_TRIE_AFTER_SEC = 60"
definition MAX_WDOG_TRIES :: int where "MAX_WDOG_TRIES = 3"

section \<open>The table\<close>

definition insert_wdog_conn :: "wd_env \<Rightarrow> int \<Rightarrow> u8 list \<Rightarrow> wd_state \<Rightarrow> wd_state" where
  "insert_wdog_conn we conn adr s =
     (if conn > 0 \<and> conn \<le> int (length (wd_conns s)) then
        let k = nat conn;
            s1 = s\<lparr>wd_conns := map (\<lambda>j. if hi_conn s \<le> j \<and> j < k then zero_wdog else wd_conns s ! j) [0..<length (wd_conns s)],
                   hi_conn := max (hi_conn s) k\<rparr>
        in upd_wd (k - 1) (\<lambda>c. c\<lparr>last_time := acttime we, wcounter := 0, w_addr := adr\<rparr>) s1
      else s)"

fun shrink_hi :: "WDOG_CONNECTION list \<Rightarrow> nat \<Rightarrow> nat" where
  "shrink_hi cs 0 = 0"
| "shrink_hi cs (Suc n) = (if last_time (cs ! n) = 0 then shrink_hi cs n else Suc n)"

definition modify_wdog_conn :: "wd_env \<Rightarrow> int \<Rightarrow> int \<Rightarrow> wd_state \<Rightarrow> wd_state" where
  "modify_wdog_conn we conn mode s =
     (let k = nat (conn - 1)
      in if conn > 0 \<and> conn - 1 < int (hi_conn s) then
           if mode < 99 then
             if mode = 1 then
               upd_wd k (\<lambda>c. let n = (if wcounter c = 0 then 1 else wcounter c)
                             in c\<lparr>wcounter := max n (MAX_WDOG_TRIES - 1), last_time := 1\<rparr>) s
             else upd_wd k (\<lambda>c. c\<lparr>wcounter := 0, last_time := acttime we\<rparr>) s
           else if mode = 99 then
             let s1 = upd_wd k (\<lambda>c. zero_wdog) s
             in if k + 1 = hi_conn s then s1\<lparr>hi_conn := shrink_hi (wd_conns s1) (hi_conn s1)\<rparr> else s1
           else s
         else s)"

section \<open>Asking the clients\<close>

text \<open>The socket of an address plus a number; and the address as the router has it.\<close>

definition next_sock :: "u16 \<Rightarrow> u8 list \<Rightarrow> u8 list" where
  "next_sock d adr = take 10 adr @ u16_to_be16 (get_be16 (drop 10 adr) + d)"

definition ipx_of :: "u8 list \<Rightarrow> ipxAddr_t" where
  "ipx_of adr = \<lparr>ia_net = take 4 adr, ia_node = take 6 (drop 4 adr), ia_sock = take 2 (drop 10 adr)\<rparr>"

definition send_wdog_packet :: "wd_env \<Rightarrow> u8 list \<Rightarrow> int \<Rightarrow> wd_state \<Rightarrow> wd_state" where
  "send_wdog_packet we adr conn s =
     (if dont_send_wdog (rcfg we) (ipx_of adr) (routes we) then modify_wdog_conn we conn 0 s
      else wd_emit (WdogPacket adr conn) s)"

text \<open>One client in a round; the loop goes from the last to the first.\<close>

definition wdog_client :: "wd_env \<Rightarrow> nat \<Rightarrow> wd_state \<Rightarrow> wd_state" where
  "wdog_client we k s =
     (let c = wd_conns s ! k; t_diff = acttime we - last_time c
      in if last_time c \<noteq> 0 \<and> (wcounter c \<noteq> 0 \<and> t_diff > 50 \<or> t_diff > WDOG_TRIE_AFTER_SEC) then
           let s1 = (if wcounter c > MAX_WDOG_TRIES then wd_emit (ToNcpserv (NcpClear (int k + 1))) s
                     else send_wdog_packet we (next_sock 1 (w_addr c)) (int k + 1)
                            (upd_wd k (\<lambda>c. c\<lparr>last_time := acttime we\<rparr>) s))
           in upd_wd k (\<lambda>c. c\<lparr>wcounter := wcounter c + 1\<rparr>) s1
         else s)"

definition send_wdogs :: "wd_env \<Rightarrow> wd_state \<Rightarrow> wd_state" where
  "send_wdogs we s = fold (wdog_client we) (rev [0..<hi_conn s]) s"

definition send_bcasts :: "int \<Rightarrow> wd_state \<Rightarrow> wd_state" where
  "send_bcasts conn s =
     (if conn > 0 \<and> conn - 1 < int (hi_conn s)
      then wd_emit (BcastPacket (next_sock 2 (w_addr (wd_conns s ! nat (conn - 1)))) conn) s else s)"

text \<open>A client answers \<^verbatim>\<open>'Y'\<close>: with less than 256 connections by its number, else by its node.  A
  server that goes down does not listen.\<close>

definition wdog_answer :: "wd_env \<Rightarrow> u8 \<Rightarrow> u8 list \<Rightarrow> wd_state \<Rightarrow> wd_state" where
  "wdog_answer we connid source s =
     (if server_down_stamp s \<noteq> 0 then s
      else if length (wd_conns s) < 256 then modify_wdog_conn we (int (unat connid)) 0 s
      else case find (\<lambda>k. take 6 (drop 4 (w_addr (wd_conns s ! k))) = take 6 (drop 4 source)) [0..<hi_conn s] of
             Some k \<Rightarrow> modify_wdog_conn we (int k + 1) 0 s
           | None \<Rightarrow> s)"

section \<open>Orders of the sons\<close>

definition down_server_wd :: "wd_env \<Rightarrow> wd_state \<Rightarrow> wd_state" where
  "down_server_wd we s =
     (if server_down_stamp s = 0
      then (wd_emit DownBroadcast (wd_emit (ToNwbind ServerDown) (wd_emit (ToNcpserv NcpDown) s)))\<lparr>server_down_stamp := acttime we\<rparr>
      else s)"

text \<open>One message out of a pipe; the result says whether the watchdogs are to be sent at once.  An insertion
  must have the length of an address, a socket and a process id.\<close>

definition read_pipe :: "wd_env \<Rightarrow> wdog_msg \<Rightarrow> wd_state \<Rightarrow> bool \<times> wd_state" where
  "read_pipe we msg s =
     (case msg of
        InsertWdog conn buf \<Rightarrow>
          (False, if length buf = 18 then wd_emit (ToNwbind (InsertConn conn buf)) (insert_wdog_conn we conn (take 12 buf) s) else s)
      | ModWdog conn what \<Rightarrow>
          if what = 1 then (True, fold (\<lambda>k. modify_wdog_conn we (int k) 1) [nat conn + 1..<hi_conn s + 1] s)
          else (False, if what = 0 then modify_wdog_conn we conn 0 s else s)
      | CloseWdog conn \<Rightarrow> (False, wd_emit (ToNwbind (ClearConn conn)) (modify_wdog_conn we conn 99 s))
      | MsgWdog conn \<Rightarrow> (False, send_bcasts conn s)
      | DownWdog \<Rightarrow> (False, down_server_wd we s))"

text \<open>The end of a round: \<open>due\<close> says that the time of the next broadcast has come, \<open>call_wdog\<close> that a
  message of this round asked for the watchdogs.\<close>

definition wdog_round :: "wd_env \<Rightarrow> bool \<Rightarrow> bool \<Rightarrow> wd_state \<Rightarrow> wd_state" where
  "wdog_round we due call_wdog s = (if server_down_stamp s = 0 \<and> (due \<or> call_wdog) then send_wdogs we s else s)"

end
