(* ===== verification/WatchdogLaws.thy ===== *)
theory WatchdogLaws
  imports Watchdog
begin

text \<open>What the watchdog of \<^verbatim>\<open>nwserv\<close> does to a client: no client is given up before it has left two
  packets unanswered, whatever the order of the rounds, answers and orders; and a client that is silent is given up
  in the fifth round, after four packets.\<close>

section \<open>Runs\<close>

inductive wd_step :: "wd_state \<Rightarrow> wd_state \<Rightarrow> bool" where
  message: "wd_step s (snd (read_pipe we msg s))"
| answer: "wd_step s (wdog_answer we connid source s)"
| round: "wd_step s (wdog_round we due call_wdog s)"

definition wd_start :: "nat \<Rightarrow> wd_state" where
  "wd_start n = \<lparr>wd_conns = replicate n zero_wdog, hi_conn = 0, server_down_stamp = 0, wd_outs = []\<rparr>"

section \<open>Packets that ask a client\<close>

fun asks :: "nat \<Rightarrow> wd_event \<Rightarrow> bool" where
  "asks k (WdogPacket adr conn) = (conn = int k + 1)"
| "asks k _ = False"

fun gives_up :: "nat \<Rightarrow> wd_event \<Rightarrow> bool" where
  "gives_up k (ToNcpserv (NcpClear conn)) = (conn = int k + 1)"
| "gives_up k _ = False"

definition asked :: "nat \<Rightarrow> wd_state \<Rightarrow> nat" where
  "asked k s = length (filter (asks k) (wd_outs s))"

abbreviation wd_at :: "wd_state \<Rightarrow> nat \<Rightarrow> WDOG_CONNECTION" where
  "wd_at s k \<equiv> wd_conns s ! k"

lemma upd_wd_simps [simp]: "length (wd_conns (upd_wd k f s)) = length (wd_conns s)" "hi_conn (upd_wd k f s) = hi_conn s"
  "wd_outs (upd_wd k f s) = wd_outs s" "asked j (upd_wd k f s) = asked j s"
  "server_down_stamp (upd_wd k f s) = server_down_stamp s"
  "k < length (wd_conns s) \<Longrightarrow> wd_at (upd_wd k f s) j = (if j = k then f (wd_at s k) else wd_at s j)"
  by (simp_all add: upd_wd_def asked_def nth_list_update)

lemma wd_emit_simps [simp]: "wd_conns (wd_emit e s) = wd_conns s" "hi_conn (wd_emit e s) = hi_conn s"
  "wd_outs (wd_emit e s) = wd_outs s @ [e]" "asked k (wd_emit e s) = asked k s + (if asks k e then 1 else 0)"
  "server_down_stamp (wd_emit e s) = server_down_stamp s"
  by (simp_all add: wd_emit_def asked_def)

lemma asked_frame [simp]: "asked k (s\<lparr>wd_conns := c\<rparr>) = asked k s" "asked k (s\<lparr>hi_conn := h\<rparr>) = asked k s"
  "asked k (s\<lparr>server_down_stamp := d\<rparr>) = asked k s"
  by (simp_all add: asked_def)

section \<open>No client is given up too early\<close>

abbreviation packets :: "nat \<Rightarrow> wd_event list \<Rightarrow> nat" where
  "packets k es \<equiv> length (filter (asks k) es)"

definition patient :: "nat \<Rightarrow> wd_event list \<Rightarrow> bool" where
  "patient k es = (\<forall>i < length es. gives_up k (es ! i) \<longrightarrow> 2 \<le> packets k (take i es))"

lemma zero_wdog_counter [simp]: "wcounter zero_wdog = 0"
  by (simp add: zero_wdog_def)

lemma patient_Nil [simp]: "patient k []"
  by (simp add: patient_def)

lemma patient_snoc [simp]: "patient k (es @ [e]) \<longleftrightarrow> patient k es \<and> (gives_up k e \<longrightarrow> 2 \<le> packets k es)"
  by (auto simp: patient_def nth_append less_Suc_eq)

text \<open>What holds since a state \<open>s0\<close> in which client \<open>k\<close> had just been heard of.\<close>

definition counted :: "nat \<Rightarrow> wd_state \<Rightarrow> wd_state \<Rightarrow> bool" where
  "counted k s0 s \<longleftrightarrow> hi_conn s \<le> length (wd_conns s) \<and> k < length (wd_conns s) \<and>
     (\<exists>es. wd_outs s = wd_outs s0 @ es \<and> patient k es \<and> min 4 (wcounter (wd_at s k)) \<le> int (packets k es) + 2)"

lemma counted_emit: "counted k s0 s \<Longrightarrow> \<not> gives_up k e \<or> 3 < wcounter (wd_at s k) \<Longrightarrow> counted k s0 (wd_emit e s)"
  unfolding counted_def by (elim conjE exE, intro conjI, simp_all) (auto simp: min_def split: if_splits)

lemma counted_upd:
  assumes "counted k s0 s" "wcounter (f (wd_at s k)) \<le> max 2 (wcounter (wd_at s k)) \<or> 3 < wcounter (wd_at s k) \<or> j \<noteq> k"
  shows "counted k s0 (upd_wd j f s)"
proof (cases "j = k")
  case True
  then show ?thesis using assms unfolding counted_def
    by (elim conjE exE, intro conjI, simp_all) (auto simp: min_def max_def split: if_splits)
next
  case False
  then have "wd_at (upd_wd j f s) k = wd_at s k" by (simp add: upd_wd_def)
  then show ?thesis using assms(1) by (simp add: counted_def)
qed

lemma counted_hi: "counted k s0 s \<Longrightarrow> h \<le> length (wd_conns s) \<Longrightarrow> counted k s0 (s\<lparr>hi_conn := h\<rparr>)"
  by (simp add: counted_def)

lemma counted_down: "counted k s0 s \<Longrightarrow> counted k s0 (s\<lparr>server_down_stamp := d\<rparr>)"
  by (simp add: counted_def)

lemma shrink_hi_le: "shrink_hi cs n \<le> n"
  by (induction n) auto

lemma counted_modify: "counted k s0 s \<Longrightarrow> counted k s0 (modify_wdog_conn we conn mode s)"
proof -
  assume c: "counted k s0 s"
  note u = counted_upd [OF c]
  have hi: "hi_conn s \<le> length (wd_conns s)" using c by (simp add: counted_def)
  have z: "counted k s0 (upd_wd j (\<lambda>c. zero_wdog) s)" for j by (rule u) (simp add: le_max_iff_disj)
  have "counted k s0 ((upd_wd j (\<lambda>c. zero_wdog) s)\<lparr>hi_conn := shrink_hi cs (hi_conn s)\<rparr>)" for j cs
    by (rule counted_hi [OF z]) (use hi shrink_hi_le [of cs "hi_conn s"] in simp)
  with z show ?thesis using c unfolding modify_wdog_conn_def Let_def
    by (auto simp: MAX_WDOG_TRIES_def le_max_iff_disj intro!: u split: if_splits)
qed

lemma counted_insert: "counted k s0 s \<Longrightarrow> counted k s0 (insert_wdog_conn we conn adr s)"
proof (cases "conn > 0 \<and> conn \<le> int (length (wd_conns s))")
  case True
  assume c: "counted k s0 s"
  let ?s1 = "s\<lparr>wd_conns := map (\<lambda>j. if hi_conn s \<le> j \<and> j < nat conn then zero_wdog else wd_conns s ! j) [0..<length (wd_conns s)],
                   hi_conn := max (hi_conn s) (nat conn)\<rparr>"
  have "counted k s0 ?s1" using c True unfolding counted_def
    by (elim conjE exE, intro conjI, simp_all) (auto split: if_splits)
  then show ?thesis using True by (simp add: insert_wdog_conn_def Let_def counted_upd le_max_iff_disj)
next
  case False
  assume "counted k s0 s"
  then show ?thesis unfolding insert_wdog_conn_def using False by auto
qed

text \<open>One client in a round: a packet and the counter go up together.\<close>

lemma counted_asked:
  assumes "counted k s0 s" "asks k e" "\<not> gives_up k e"
  shows "counted k s0 (upd_wd k (\<lambda>c. c\<lparr>wcounter := wcounter c + 1\<rparr>) (wd_emit e s))"
  using assms unfolding counted_def
  by (elim conjE exE, intro conjI, simp_all)

lemma counted_client: "counted k s0 s \<Longrightarrow> j < hi_conn s \<Longrightarrow> counted k s0 (wdog_client we j s)"
proof -
  assume c: "counted k s0 s"
  let ?c = "wd_at s j" and ?t = "upd_wd j (\<lambda>c. c\<lparr>last_time := acttime we\<rparr>) s"
  let ?e = "WdogPacket (next_sock 1 (w_addr (wd_at s j))) (int j + 1)"
  have k: "k < length (wd_conns s)" using c by (simp add: counted_def)
  have t: "counted k s0 ?t" by (rule counted_upd [OF c]) simp
  have give: "counted k s0 (upd_wd j (\<lambda>c. c\<lparr>wcounter := wcounter c + 1\<rparr>) (wd_emit (ToNcpserv (NcpClear (int j + 1))) s))"
    if "3 < wcounter ?c"
    using that by (cases "j = k") (auto intro!: counted_upd counted_emit c)
  have ask: "counted k s0 (upd_wd j (\<lambda>c. c\<lparr>wcounter := wcounter c + 1\<rparr>) (wd_emit ?e ?t))"
  proof (cases "j = k")
    case True
    then show ?thesis using counted_asked [OF t, of ?e] by simp
  next
    case False
    then show ?thesis by (intro counted_upd counted_emit t) auto
  qed
  have skip: "counted k s0 (upd_wd j (\<lambda>c. c\<lparr>wcounter := wcounter c + 1\<rparr>) (modify_wdog_conn we (int j + 1) 0 ?t))"
    if "j < hi_conn s"
    by (rule counted_upd [OF counted_modify [OF t]]) (use that k in \<open>auto simp: modify_wdog_conn_def Let_def\<close>)
  show "j < hi_conn s \<Longrightarrow> counted k s0 (wdog_client we j s)"
    unfolding wdog_client_def send_wdog_packet_def Let_def
    using give ask skip c by (auto simp: MAX_WDOG_TRIES_def)
qed

lemma hi_conn_client [simp]: "hi_conn (wdog_client we j s) = hi_conn s"
  by (simp add: wdog_client_def send_wdog_packet_def modify_wdog_conn_def Let_def)

lemma counted_wdogs: "counted k s0 s \<Longrightarrow> counted k s0 (send_wdogs we s)"
proof -
  have "counted k s0 (fold (wdog_client we) js t)" if "counted k s0 t" "set js \<subseteq> {..<hi_conn t}" for js t
    using that by (induction js arbitrary: t) (simp_all add: counted_client)
  then show "counted k s0 s \<Longrightarrow> counted k s0 (send_wdogs we s)" by (simp add: send_wdogs_def lessThan_atLeast0)
qed

lemma counted_read_pipe: "counted k s0 s \<Longrightarrow> counted k s0 (snd (read_pipe we msg s))"
proof (cases msg)
  case (ModWdog conn what)
  have "counted k s0 (fold (\<lambda>j. modify_wdog_conn we (int j) 1) js t)" if "counted k s0 t" for js t
    using that by (induction js arbitrary: t) (auto intro: counted_modify)
  then show "counted k s0 s \<Longrightarrow> ?thesis" by (auto simp: read_pipe_def ModWdog intro: counted_modify)
qed (auto simp: read_pipe_def send_bcasts_def down_server_wd_def
    intro!: counted_emit counted_modify counted_insert counted_down)

lemma counted_step: "wd_step s s' \<Longrightarrow> counted k s0 s \<Longrightarrow> counted k s0 s'"
proof (induction rule: wd_step.induct)
  case (answer s we connid source)
  then show ?case by (auto simp: wdog_answer_def intro: counted_modify split: option.split)
qed (auto simp: wdog_round_def intro: counted_read_pipe counted_wdogs)

lemma counted_run: "wd_step\<^sup>*\<^sup>* s s' \<Longrightarrow> counted k s0 s \<Longrightarrow> counted k s0 s'"
  by (induction rule: rtranclp_induct) (auto intro: counted_step)

lemma table_start: "hi_conn s \<le> length (wd_conns s) \<Longrightarrow> k < length (wd_conns s) \<Longrightarrow> wcounter (wd_at s k) \<le> 0 \<Longrightarrow> counted k s s"
  by (auto simp: counted_def)

text \<open>The table keeps its size.\<close>

definition tabled :: "nat \<Rightarrow> wd_state \<Rightarrow> bool" where
  "tabled n s \<longleftrightarrow> length (wd_conns s) = n \<and> hi_conn s \<le> n"

lemma tabled_simps [simp]: "tabled n (upd_wd k f s) = tabled n s" "tabled n (wd_emit e s) = tabled n s"
  "tabled n (s\<lparr>server_down_stamp := d\<rparr>) = tabled n s"
  by (simp_all add: tabled_def)

lemma tabled_modify: "tabled n s \<Longrightarrow> tabled n (modify_wdog_conn we conn mode s)"
  using le_trans [OF shrink_hi_le, of "hi_conn s" n]
  by (simp add: modify_wdog_conn_def Let_def) (simp add: tabled_def)

lemma tabled_client: "tabled n s \<Longrightarrow> tabled n (wdog_client we j s)"
  by (simp add: wdog_client_def send_wdog_packet_def Let_def tabled_modify)

lemma fold_keeps: "(\<And>x t. P t \<Longrightarrow> P (f x t)) \<Longrightarrow> P s \<Longrightarrow> P (fold f xs s)"
  by (induction xs arbitrary: s) auto

lemma tabled_step: "wd_step s s' \<Longrightarrow> tabled n s \<Longrightarrow> tabled n s'"
proof (induction rule: wd_step.induct)
  case (message s we msg)
  have "tabled n (insert_wdog_conn we conn adr s)" for conn adr
    using message by (simp add: insert_wdog_conn_def Let_def) (auto simp: tabled_def)
  then show ?case using message
    by (auto simp: read_pipe_def send_bcasts_def down_server_wd_def intro: tabled_modify fold_keeps split: wdog_msg.split)
next
  case (answer s we connid source)
  then show ?case by (auto simp: wdog_answer_def intro: tabled_modify split: option.split)
qed (auto simp: wdog_round_def send_wdogs_def intro: tabled_client fold_keeps)

lemma tabled_run: "wd_step\<^sup>*\<^sup>* s s' \<Longrightarrow> tabled n s \<Longrightarrow> tabled n s'"
  by (induction rule: rtranclp_induct) (auto intro: tabled_step)

lemma tabled_start: "tabled n (wd_start n)"
  by (simp add: tabled_def wd_start_def)

text \<open>The moments at which the server hears of the client of connection \<open>k + 1\<close>: it gets the connection, a
  request of it makes \<^verbatim>\<open>ncpserv\<close> report it, or it answers the watchdog.  With 256 connections or more an answer
  counts for the first connection of its node only.\<close>

inductive heard :: "nat \<Rightarrow> wd_state \<Rightarrow> wd_state \<Rightarrow> bool" for k where
  attached: "k < length (wd_conns s) \<Longrightarrow> length buf = 18 \<Longrightarrow> heard k s (snd (read_pipe we (InsertWdog (int k + 1) buf) s))"
| requested: "k < hi_conn s \<Longrightarrow> heard k s (snd (read_pipe we (ModWdog (int k + 1) 0) s))"
| answered: "server_down_stamp s = 0 \<Longrightarrow> length (wd_conns s) < 256 \<Longrightarrow> k < hi_conn s \<Longrightarrow> unat connid = k + 1 \<Longrightarrow>
    heard k s (wdog_answer we connid source s)"
| answered_node: "server_down_stamp s = 0 \<Longrightarrow> 256 \<le> length (wd_conns s) \<Longrightarrow> k < hi_conn s \<Longrightarrow>
    take 6 (drop 4 (w_addr (wd_conns s ! k))) = take 6 (drop 4 source) \<Longrightarrow>
    (\<And>j. j < k \<Longrightarrow> take 6 (drop 4 (w_addr (wd_conns s ! j))) \<noteq> take 6 (drop 4 source)) \<Longrightarrow>
    heard k s (wdog_answer we connid source s)"

lemma heard_step: "heard k s t \<Longrightarrow> wd_step s t"
  by (induction rule: heard.induct) (blast intro: wd_step.intros)+

lemma find_first: "k < n \<Longrightarrow> P k \<Longrightarrow> (\<And>j. j < k \<Longrightarrow> \<not> P j) \<Longrightarrow> find P [0..<n] = Some k"
  by (auto simp: find_Some_iff intro!: exI [of _ k])

text \<open>Then its counter is zero.\<close>

lemma modify_contact: "k < hi_conn s \<Longrightarrow> hi_conn s \<le> length (wd_conns s) \<Longrightarrow>
    wcounter (wd_at (modify_wdog_conn we (int k + 1) 0 s) k) = 0"
  by (simp add: modify_wdog_conn_def Let_def)

lemma heard_counter: "heard k s t \<Longrightarrow> tabled n s \<Longrightarrow> wcounter (wd_at t k) = 0"
proof (induction rule: heard.induct)
  case (attached s buf we)
  then show ?case by (simp add: read_pipe_def insert_wdog_conn_def Let_def nat_add_distrib)
next
  case (requested s we)
  then show ?case by (simp add: read_pipe_def tabled_def modify_contact)
next
  case (answered s connid we source)
  then show ?case using modify_contact [of k s we] by (simp add: wdog_answer_def tabled_def add.commute [of 1])
next
  case (answered_node s source we connid)
  let ?P = "\<lambda>k. take 6 (drop 4 (w_addr (wd_conns s ! k))) = take 6 (drop 4 source)"
  have "find ?P [0..<hi_conn s] = Some k" using answered_node by (intro find_first) auto
  then show ?case using answered_node modify_contact [of k s we] by (simp add: wdog_answer_def tabled_def)
qed

text \<open>The answer of a second client of a node is lost when there are 256 connections or more.\<close>

lemma second_of_node_unheard:
  assumes "256 \<le> length (wd_conns s)" "j < k" "j < hi_conn s"
    and "take 6 (drop 4 (w_addr (wd_conns s ! j))) = take 6 (drop 4 source)"
  shows "wd_at (wdog_answer we connid source s) k = wd_at s k"
proof -
  let ?P = "\<lambda>k. take 6 (drop 4 (w_addr (wd_conns s ! k))) = take 6 (drop 4 source)"
  have "\<exists>i\<le>j. find ?P [0..<hi_conn s] = Some i"
  proof -
    define i where "i = (LEAST i. ?P i)"
    have i: "?P i" "i \<le> j" "\<And>l. l < i \<Longrightarrow> \<not> ?P l" unfolding i_def using assms(4)
      by (auto intro: LeastI [of ?P] Least_le dest: not_less_Least)
    then show ?thesis using assms(3) by (intro exI [of _ i] conjI find_first) auto
  qed
  then show ?thesis using assms(1,2) by (auto simp: wdog_answer_def modify_wdog_conn_def Let_def upd_wd_def)
qed

text \<open>C39. No client is given up too early.  Take any moment of a run at which the server hears of a client:
  it gets its connection, a request of it is reported, or it answers the watchdog (with 256 connections or more the
  answer must come from the first connection of its node: for a second one the code keeps counting).  In whatever
  order rounds, answers and messages follow, the order to clear the connection leaves \<^verbatim>\<open>nwserv\<close> only after two
  more packets have asked the client.\<close>

theorem no_client_given_up_early:
  assumes "wd_step\<^sup>*\<^sup>* (wd_start n) s" and "k < n" and "heard k s s0" and "wd_step\<^sup>*\<^sup>* s0 s'"
    and "wd_outs s' = wd_outs s0 @ es @ ToNcpserv (NcpClear (int k + 1)) # es'"
  shows "2 \<le> length (filter (asks k) es)"
proof -
  have t: "tabled n s" "tabled n s0" using tabled_run [OF assms(1) tabled_start] tabled_step [OF heard_step [OF assms(3)]] by auto
  then have "counted k s0 s'" using assms(2) heard_counter [OF assms(3) t(1)]
    by (intro counted_run [OF assms(4)] table_start) (simp_all add: tabled_def)
  then have "patient k (es @ ToNcpserv (NcpClear (int k + 1)) # es')" using assms(5) by (auto simp: counted_def)
  then show ?thesis unfolding patient_def by (elim allE [of _ "length es"]) simp
qed

section \<open>A silent client is given up\<close>

text \<open>Rounds with nothing between them; what one round does to one client.\<close>

definition rounds :: "wd_env list \<Rightarrow> wd_state \<Rightarrow> wd_state" where
  "rounds wes s = fold send_wdogs wes s"

definition about :: "nat \<Rightarrow> wd_state \<Rightarrow> wd_event list" where
  "about k s = filter (\<lambda>e. asks k e \<or> gives_up k e) (wd_outs s)"

lemma about_simps [simp]: "about k (upd_wd j f s) = about k s" 
  "about k (wd_emit e s) = about k s @ (if asks k e \<or> gives_up k e then [e] else [])"
  by (simp_all add: about_def)

lemma client_others: "j \<noteq> k \<Longrightarrow> wd_at (wdog_client we j s) k = wd_at s k \<and> about k (wdog_client we j s) = about k s"
  by (auto simp: wdog_client_def send_wdog_packet_def modify_wdog_conn_def Let_def upd_wd_def about_def)

lemma clients_others: "k \<notin> set js \<Longrightarrow> wd_at (fold (wdog_client we) js s) k = wd_at s k \<and> about k (fold (wdog_client we) js s) = about k s"
  by (induction js arbitrary: s) (auto simp: client_others)

lemma hi_conn_clients [simp]: "hi_conn (fold (wdog_client we) js s) = hi_conn s"
  by (induction js arbitrary: s) auto

lemma tabled_clients: "tabled n s \<Longrightarrow> tabled n (fold (wdog_client we) js s)"
  by (rule fold_keeps) (auto intro: tabled_client)

lemma round_client:
  assumes "tabled n s" "k < hi_conn s"
  shows "\<exists>s1. wd_at s1 k = wd_at s k \<and> about k s1 = about k s \<and> tabled n s1 \<and> hi_conn s1 = hi_conn s \<and>
    wd_at (send_wdogs we s) k = wd_at (wdog_client we k s1) k \<and> about k (send_wdogs we s) = about k (wdog_client we k s1)"
proof -
  let ?s1 = "fold (wdog_client we) (rev [Suc k..<hi_conn s]) s"
  have "[0..<hi_conn s] = [0..<k] @ k # [Suc k..<hi_conn s]"
    using assms(2) by (metis le_add1 le_add_same_cancel1 less_imp_le upt_add_eq_append upt_conv_Cons add_diff_inverse_nat not_less)
  then have "send_wdogs we s = fold (wdog_client we) (rev [0..<k]) (wdog_client we k ?s1)"
    by (simp add: send_wdogs_def)
  then show ?thesis using clients_others [of k "rev [Suc k..<hi_conn s]" we s] clients_others [of k "rev [0..<k]" we "wdog_client we k ?s1"]
    tabled_clients [OF assms(1)] by (intro exI [of _ ?s1]) simp
qed

text \<open>A client that the router lets the watchdog ask, late by more than a minute.\<close>

definition late :: "wd_env \<Rightarrow> WDOG_CONNECTION \<Rightarrow> bool" where
  "late we c \<longleftrightarrow> last_time c \<noteq> 0 \<and> acttime we - last_time c > WDOG_TRIE_AFTER_SEC \<and>
     \<not> dont_send_wdog (rcfg we) (ipx_of (next_sock 1 (w_addr c))) (routes we)"

lemma round_late:
  assumes "tabled n s" "k < hi_conn s" "late we (wd_at s k)"
  shows "about k (send_wdogs we s) = about k s @
      [if wcounter (wd_at s k) > MAX_WDOG_TRIES then ToNcpserv (NcpClear (int k + 1))
       else WdogPacket (next_sock 1 (w_addr (wd_at s k))) (int k + 1)]"
    "wd_at (send_wdogs we s) k = (wd_at s k)\<lparr>wcounter := wcounter (wd_at s k) + 1,
       last_time := (if wcounter (wd_at s k) > MAX_WDOG_TRIES then last_time (wd_at s k) else acttime we)\<rparr>"
    "tabled n (send_wdogs we s)" "hi_conn (send_wdogs we s) = hi_conn s"
proof -
  obtain s1 where s1: "wd_at s1 k = wd_at s k" "about k s1 = about k s" "tabled n s1" "hi_conn s1 = hi_conn s"
    "wd_at (send_wdogs we s) k = wd_at (wdog_client we k s1) k" "about k (send_wdogs we s) = about k (wdog_client we k s1)"
    using round_client [OF assms(1,2)] by blast
  have k: "k < length (wd_conns s1)" using assms(2) s1(3,4) by (simp add: tabled_def)
  note d = wdog_client_def send_wdog_packet_def Let_def
  show "about k (send_wdogs we s) = about k s @
      [if wcounter (wd_at s k) > MAX_WDOG_TRIES then ToNcpserv (NcpClear (int k + 1))
       else WdogPacket (next_sock 1 (w_addr (wd_at s k))) (int k + 1)]"
    using assms(3) s1 k by (auto simp: d late_def)
  show "wd_at (send_wdogs we s) k = (wd_at s k)\<lparr>wcounter := wcounter (wd_at s k) + 1,
       last_time := (if wcounter (wd_at s k) > MAX_WDOG_TRIES then last_time (wd_at s k) else acttime we)\<rparr>"
    using assms(3) s1 k by (auto simp: d late_def)
  show "tabled n (send_wdogs we s)" unfolding send_wdogs_def by (rule tabled_clients [OF assms(1)])
  show "hi_conn (send_wdogs we s) = hi_conn s" by (simp add: send_wdogs_def)
qed

text \<open>Rounds more than a minute apart.\<close>

fun spaced :: "int \<Rightarrow> wd_env list \<Rightarrow> bool" where
  "spaced t [] = True"
| "spaced t (we # wes) = (acttime we - t > WDOG_TRIE_AFTER_SEC \<and> spaced (acttime we) wes)"

abbreviation may_ask :: "u8 list \<Rightarrow> wd_env \<Rightarrow> bool" where
  "may_ask adr we \<equiv> \<not> dont_send_wdog (rcfg we) (ipx_of adr) (routes we)"

lemma rounds_late:
  assumes "tabled n s" "k < hi_conn s" "0 < last_time (wd_at s k)" "last_time (wd_at s k) \<le> t" "spaced t wes"
    "list_all (may_ask (next_sock 1 (w_addr (wd_at s k)))) wes"
  shows "about k (rounds wes s) = about k s @
    map (\<lambda>i. if wcounter (wd_at s k) + int i > MAX_WDOG_TRIES then ToNcpserv (NcpClear (int k + 1))
             else WdogPacket (next_sock 1 (w_addr (wd_at s k))) (int k + 1)) [0..<length wes]"
  using assms
proof (induction wes arbitrary: s t)
  case (Cons we wes)
  have "late we (wd_at s k)" using Cons.prems by (simp add: late_def WDOG_TRIE_AFTER_SEC_def)
  note r = round_late [OF Cons.prems(1,2) this]
  have t: "0 < acttime we" "last_time (wd_at s k) \<le> acttime we" using Cons.prems by (auto simp: WDOG_TRIE_AFTER_SEC_def)
  have IH: "about k (rounds wes (send_wdogs we s)) = about k (send_wdogs we s) @
    map (\<lambda>i. if wcounter (wd_at (send_wdogs we s) k) + int i > MAX_WDOG_TRIES then ToNcpserv (NcpClear (int k + 1))
             else WdogPacket (next_sock 1 (w_addr (wd_at (send_wdogs we s) k))) (int k + 1)) [0..<length wes]"
    by (rule Cons.IH [where t = "acttime we"]) (use r Cons.prems t in simp_all)
  have "[0..<Suc (length wes)] = 0 # map Suc [0..<length wes]" by (simp add: map_Suc_upt upt_conv_Cons del: upt_Suc)
  then show ?case unfolding rounds_def
    using IH r(1,2) by (simp add: rounds_def add.assoc del: upt_Suc)
qed (simp add: rounds_def)

text \<open>C40. A client that is silent is given up, if the configuration lets the watchdog ask it at all (the clients that
  \<^verbatim>\<open>dont_send_wdog\<close> exempts are neither asked nor cleared).  It has just been heard of, and from then on the rounds looked
  at come more than 60 seconds apart (the rounds of a server come about every 31 seconds by default, and not
  every one asks): each of the first four sends it one packet on the socket after its own, and every round
  from the fifth on sends \<^verbatim>\<open>ncpserv\<close> the order to clear its connection.\<close>

theorem silent_client_given_up:
  assumes "wd_step\<^sup>*\<^sup>* (wd_start n) s" and "k < hi_conn s" and "wcounter (wd_conns s ! k) = 0"
    and "0 < last_time (wd_conns s ! k)" and "spaced (last_time (wd_conns s ! k)) wes"
    and "list_all (may_ask (next_sock 1 (w_addr (wd_conns s ! k)))) wes"
  shows "about k (rounds wes s) = about k s @
    map (\<lambda>i. if i < 4 then WdogPacket (next_sock 1 (w_addr (wd_conns s ! k))) (int k + 1)
             else ToNcpserv (NcpClear (int k + 1))) [0..<length wes]"
  using rounds_late [OF tabled_run [OF assms(1) tabled_start] assms(2,4) order_refl assms(5,6)] assms(3)
  by (auto simp: MAX_WDOG_TRIES_def intro!: map_cong)

section \<open>A client at work\<close>

text \<open>Two places; a client gets the first, is asked, and falls silent.\<close>

definition silent_addr :: "u8 list" where "silent_addr = [0, 0, 0, 1, 0, 0, 0, 0, 0, 9, 0x40, 3]"

definition wd_env0 :: "int \<Rightarrow> wd_env" where
  "wd_env0 t = \<lparr>acttime = t, rcfg = \<lparr>internal_net = 1, my_server_adr = zero_addr, auto_detect_interfaces = False,
     wdogs_till_tics = 0, handle_all_sap_typs = False, nearest_request_flag = 0\<rparr>, routes = route_start []\<rparr>"

definition attached_wd :: wd_state where
  "attached_wd = snd (read_pipe (wd_env0 100) (InsertWdog 1 (silent_addr @ [0, 0, 0, 0, 0, 0])) (wd_start 2))"

definition silent_rounds :: "wd_env list" where
  "silent_rounds = map wd_env0 [170, 240, 310, 380, 450]"

definition given_up_wd :: wd_state where
  "given_up_wd = rounds silent_rounds attached_wd"

lemma run_attached_wd: "wd_step\<^sup>*\<^sup>* (wd_start 2) attached_wd"
  unfolding attached_wd_def by (rule r_into_rtranclp, rule message)

lemma down_modify [simp]: "server_down_stamp (modify_wdog_conn we conn mode s) = server_down_stamp s"
  by (simp add: modify_wdog_conn_def Let_def)

lemma down_wdogs [simp]: "server_down_stamp (send_wdogs we s) = server_down_stamp s"
proof -
  have "server_down_stamp (wdog_client we k t) = server_down_stamp t" for k t
    by (simp add: wdog_client_def send_wdog_packet_def Let_def)
  then show ?thesis unfolding send_wdogs_def
    by (intro fold_keeps [where P = "\<lambda>t. server_down_stamp t = server_down_stamp s"]) simp_all
qed

lemma rounds_run: "server_down_stamp s = 0 \<Longrightarrow> wd_step\<^sup>*\<^sup>* s (rounds wes s)"
proof (induction wes arbitrary: s)
  case (Cons we wes)
  have "wd_step s (send_wdogs we s)" using wd_step.round [of s we True True] Cons.prems by (simp add: wdog_round_def)
  with Cons show ?case by (simp add: rounds_def converse_rtranclp_into_rtranclp)
qed (simp add: rounds_def)

lemmas wd_defs = attached_wd_def given_up_wd_def silent_rounds_def rounds_def send_wdogs_def wdog_client_def
  send_wdog_packet_def read_pipe_def insert_wdog_conn_def upd_wd_def wd_emit_def wd_start_def wd_env0_def
  dont_send_wdog_def WDOG_TRIE_AFTER_SEC_def MAX_WDOG_TRIES_def zero_wdog_def

lemma attached_wd_facts: "hi_conn attached_wd = 1" "wd_conns attached_wd ! 0 = \<lparr>w_addr = silent_addr, last_time = 100, wcounter = 0\<rparr>"
  "about 0 attached_wd = []" "server_down_stamp attached_wd = 0"
  by (simp_all add: wd_defs about_def silent_addr_def Let_def upt_rec)

theorem silent_client_given_up_witness:
  "about 0 given_up_wd = [WdogPacket (next_sock 1 silent_addr) 1, WdogPacket (next_sock 1 silent_addr) 1,
     WdogPacket (next_sock 1 silent_addr) 1, WdogPacket (next_sock 1 silent_addr) 1, ToNcpserv (NcpClear 1)]"
proof -
  have "spaced 100 silent_rounds" "list_all (may_ask a) silent_rounds" "length silent_rounds = 5" for a
    by (simp_all add: silent_rounds_def wd_env0_def dont_send_wdog_def WDOG_TRIE_AFTER_SEC_def)
  then show ?thesis
    using silent_client_given_up [OF run_attached_wd, of 0 silent_rounds] attached_wd_facts
    by (simp add: given_up_wd_def upt_rec)
qed

theorem no_client_given_up_early_witness:
  "\<exists>es es'. wd_outs given_up_wd = wd_outs attached_wd @ es @ ToNcpserv (NcpClear 1) # es' \<and> 2 \<le> length (filter (asks 0) es)"
proof -
  let ?p = "WdogPacket (next_sock 1 silent_addr) 1"
  have s: "heard 0 (wd_start 2) attached_wd" unfolding attached_wd_def
    using heard.attached [where k = 0 and s = "wd_start 2" and we = "wd_env0 100"] by (simp add: wd_start_def silent_addr_def)
  have o: "wd_outs given_up_wd = wd_outs attached_wd @ [?p, ?p, ?p, ?p] @ ToNcpserv (NcpClear (int 0 + 1)) # []"
    by (simp add: wd_defs silent_addr_def Let_def upt_rec)
  have "2 \<le> length (filter (asks 0) [?p, ?p, ?p, ?p])"
    by (rule no_client_given_up_early [OF rtranclp.rtrancl_refl _ s rounds_run [OF attached_wd_facts(4), of silent_rounds, folded given_up_wd_def] o]) simp
  with o show ?thesis by (intro exI [of _ "[?p, ?p, ?p, ?p]"] exI [of _ "[]"]) simp
qed

end
