(* ===== verification/Server.thy ===== *)
theory Server
  imports NcpLaws WatchdogLaws BindRuns
begin

text \<open>The three processes of the server together: \<^verbatim>\<open>ncpserv\<close> tells \<^verbatim>\<open>nwserv\<close> through a pipe which
  client has which connection, \<^verbatim>\<open>nwserv\<close> keeps its watchdog table and tells \<^verbatim>\<open>nwbind\<close>.  The messages
  arrive in their order, but any time may pass and anything else may happen before they are read.  The orders that
  \<^verbatim>\<open>nwserv\<close> sends to \<^verbatim>\<open>nwbind\<close> over a local socket arrive exactly once and in their order here: the
  code waits for an answer to each, sends it again if none comes, and gives it up at last; these retries
  (\<^verbatim>\<open>write_wdata\<close>, \<^verbatim>\<open>send_own_data\<close>) are not modelled, so what is shown is for a server on which no
  order is given up and none is executed twice.\<close>

section \<open>Whom nwbind takes a connection for\<close>

definition bind_view :: "bind_state \<Rightarrow> conn_view" where
  "bind_view st k =
     (if k < length (connections st) \<and> active (connections st ! k) then Some (client_adr (connections st ! k)) else None)"

definition who :: "bind_state \<Rightarrow> (bool \<times> u8 list) list" where
  "who st = map (\<lambda>c. (active c, client_adr c)) (connections st)"

lemma who_upd [simp]:
  assumes "\<And>c. active (f c) = active c" "\<And>c. client_adr (f c) = client_adr c"
  shows "who (upd_conn k f st) = who st"
  using assms list_update_id [of "who st" k]
  by (cases "k < length (connections st)") (simp_all add: who_def upd_conn_def map_update list_update_beyond)

lemma who_frame [simp]: "who (Nwbind.emit e st) = who st" "who (st\<lparr>bind_db := b\<rparr>) = who st"
  "who (st\<lparr>bind_queues := q\<rparr>) = who st" "who (st\<lparr>sema_tab := t\<rparr>) = who st" "who (st\<lparr>server_goes_down := d\<rparr>) = who st"
  by (simp_all add: who_def Nwbind.emit_def)

lemma bind_view_who: "bind_view st = (\<lambda>k. if k < length (who st) \<and> fst (who st ! k) then Some (snd (who st ! k)) else None)"
proof
  fix k show "bind_view st k = (if k < length (who st) \<and> fst (who st ! k) then Some (snd (who st ! k)) else None)"
    by (cases "k < length (connections st)") (simp_all add: bind_view_def who_def)
qed

lemma view_who: "who st' = who st \<Longrightarrow> bind_view st' = bind_view st \<and> length (connections st') = length (connections st)"
proof -
  assume w: "who st' = who st"
  have "length (connections st') = length (connections st)" using arg_cong [OF w, of length] by (simp add: who_def)
  with w show ?thesis by (simp only: bind_view_who w simp_thms)
qed

interpretation who_part: conn_part who by unfold_locales simp_all

lemma who_logins [simp]: "who (snd (finish_login ne a i r st)) = who st"
  by (simp add: finish_login_def build_login_response_def Let_def split_beta)

lemma who_17: "who (snd (handle_17 ne a task ufunc p st)) = who st"
proof -
  have logins: "who (snd (login_plain ne a p st)) = who st" "who (snd (login_keyed ne a p st)) = who st"
    by (auto simp: login_plain_def login_keyed_def Let_def dest!: who_part.restrict_frame split: prod.splits)
  consider "ufunc = 0x14" | "ufunc = 0x18" | "ufunc \<noteq> 0x14" "ufunc \<noteq> 0x18" by blast
  then show ?thesis by cases (simp_all only: logins logins_17 who_part.frame_17 not_False_eq_True)
qed

lemma who_request: "who (snd (handle_fxx ne a func task p st)) = who st"
proof -
  have "who (snd (logout ne a st)) = who st" "who (snd (semaphore_request a u q st)) = who st" for u q
    by (simp_all add: logout_def semaphore_request_def Let_def split_beta)
  then show ?thesis
    by (simp add: handle_fxx_state who_part.message_requests who_17 who_part.end_of_job_frame)
qed

lemma who_fold: "(\<And>k t. who (f k t) = who t) \<Longrightarrow> who (fold f ks st) = who st"
  by (induction ks arbitrary: st) auto

lemma who_usr2: "who (handle_usr2 ne st) = who st"
  unfolding handle_usr2_def by (rule who_fold) (simp add: send_request_to_nwconn_def Let_def)

lemma who_client: "(\<forall>what. pkt \<noteq> FromNwserv what) \<Longrightarrow> who (snd (nwbind_receive ne fill local ncp pkt st)) = who st"
  by (cases pkt) (simp_all add: nwbind_receive_def who_request split_beta)

text \<open>The orders of \<^verbatim>\<open>nwserv\<close>.\<close>

fun apply_ctrl :: "nat \<Rightarrow> ctrl \<Rightarrow> conn_view \<Rightarrow> conn_view" where
  "apply_ctrl n (InsertConn conn buf) v = (if 0 < conn \<and> conn \<le> int n then v(nat (conn - 1) := Some (take 12 buf)) else v)"
| "apply_ctrl n (ClearConn conn) v = (if 0 < conn \<and> conn \<le> int n then v(nat (conn - 1) := None) else v)"
| "apply_ctrl n _ v = v"

lemma who_open_clear:
  assumes "conn > 0" "conn - 1 < int (length (connections st))"
  shows "who (open_clear_connection conn True (Some buf) st) = (who st)[nat (conn - 1) := (True, take 12 buf)]"
    "who (open_clear_connection conn False None st) =
       (who st)[nat (conn - 1) := (False, client_adr (connections st ! nat (conn - 1)))]"
  using assms
  by (simp_all add: open_clear_connection_def Let_def split_beta, simp_all add: who_def upd_conn_def map_update Nwbind.emit_def)

lemma open_clear_view:
  assumes "length (connections st) = n"
  shows "bind_view (open_clear_connection conn True (Some buf) st) = apply_ctrl n (InsertConn conn buf) (bind_view st)"
    "bind_view (open_clear_connection conn False None st) = apply_ctrl n (ClearConn conn) (bind_view st)"
    "length (who (open_clear_connection conn True (Some buf) st)) = n" "length (who (open_clear_connection conn False None st)) = n"
proof -
  have n: "length (who st) = n" using assms by (simp add: who_def)
  have c: "conn > 0 \<and> conn \<le> int n \<longleftrightarrow> conn > 0 \<and> conn - 1 < int n" "conn > 0 \<and> conn - 1 < int n \<Longrightarrow> nat (conn - 1) < n" by auto
  have "\<not> (conn > 0 \<and> conn - 1 < int n) \<Longrightarrow> open_clear_connection conn act adr st = st" for act adr
    using assms unfolding open_clear_connection_def by auto
  then show "bind_view (open_clear_connection conn True (Some buf) st) = apply_ctrl n (InsertConn conn buf) (bind_view st)"
    "bind_view (open_clear_connection conn False None st) = apply_ctrl n (ClearConn conn) (bind_view st)"
    "length (who (open_clear_connection conn True (Some buf) st)) = n" "length (who (open_clear_connection conn False None st)) = n"
    using who_open_clear [of conn st] assms n c
    by (cases "conn > 0 \<and> conn - 1 < int n"; auto simp: bind_view_who fun_eq_iff nth_list_update)+
qed

lemma view_db: "bind_view (st\<lparr>bind_db := b\<rparr>) = bind_view st"
  by (simp add: bind_view_def fun_eq_iff)

lemma order_view:
  assumes "length (connections st) = n"
  shows "bind_view (handle_ctrl ne fill what st) = apply_ctrl n what (bind_view st)"
    "length (connections (handle_ctrl ne fill what st)) = n"
proof -
  have "bind_view (handle_ctrl ne fill what st) = apply_ctrl n what (bind_view st) \<and> length (who (handle_ctrl ne fill what st)) = n"
  proof (cases what)
    case ServerDown
    have "who (sent_down_message st) = who st" unfolding sent_down_message_def by (subst who_fold) simp_all
    moreover from this have "bind_view (sent_down_message st) = bind_view st" by (simp only: bind_view_who)
    moreover have "length (who st) = n" using assms by (simp add: who_def)
    ultimately show ?thesis by (simp add: handle_ctrl_def ServerDown)
  qed (use assms in \<open>simp_all add: handle_ctrl_def open_clear_view view_db\<close>, simp_all add: who_def)
  then show "bind_view (handle_ctrl ne fill what st) = apply_ctrl n what (bind_view st)"
    "length (connections (handle_ctrl ne fill what st)) = n" by (simp_all add: who_def)
qed

section \<open>The messages to nwserv\<close>

text \<open>The insertions that \<^verbatim>\<open>ncpserv\<close> sends name a connection of the table, and have the length that
  \<^verbatim>\<open>nwserv\<close> asks for.\<close>

fun msg_ok :: "nat \<Rightarrow> wdog_msg \<Rightarrow> bool" where
  "msg_ok n (InsertWdog conn buf) = (0 < conn \<and> conn \<le> int n \<and> length buf = 18)"
| "msg_ok n _ = True"

definition msgs_ok :: "nat \<Rightarrow> ncp_state \<Rightarrow> bool" where
  "msgs_ok n s \<longleftrightarrow> length (ncp_conns s) = n \<and> list_all (msg_ok n) (ncp_msgs s)"

lemma msgs_ok_simps [simp]: "msgs_ok n (upd_ncp k f s) = msgs_ok n s" "msgs_ok n (s\<lparr>count_connections := c\<rparr>) = msgs_ok n s"
  "msgs_ok n (s\<lparr>ncp_goes_down := d\<rparr>) = msgs_ok n s"
  "msgs_ok n (ncp_emit e s) = (msgs_ok n s \<and> (case e of ToNwserv m \<Rightarrow> msg_ok n m | _ \<Rightarrow> True))"
  by (auto simp: msgs_ok_def ncp_msgs_def upd_ncp_def ncp_emit_def split: ncp_event.split)

lemma msgs_ok_conns: "msgs_ok n s \<Longrightarrow> length cs = n \<Longrightarrow> msgs_ok n (s\<lparr>ncp_conns := cs\<rparr>)"
  by (simp add: msgs_ok_def ncp_msgs_def)

lemma msgs_ok_basic:
  assumes "msgs_ok n s"
  shows "msgs_ok n (clear_connection conn s)" "msgs_ok n (ncp_response ty q c ta co cs s)" "msgs_ok n (free_conn_nr nr s)"
    "msgs_ok n (snd (new_conn_nr s))"
  using assms msgs_ok_conns [OF assms, of "map f (ncp_conns s)" for f]
  by (auto simp: clear_connection_def ncp_response_def free_conn_nr_def new_conn_nr_def Let_def split: option.split)
     (auto simp: msgs_ok_def ncp_msgs_def)

lemma msgs_ok_fold: "(\<And>k t. msgs_ok n t \<Longrightarrow> msgs_ok n (f k t)) \<Longrightarrow> msgs_ok n s \<Longrightarrow> msgs_ok n (fold f ks s)"
  by (induction ks arbitrary: s) auto

lemma msgs_ok_kill: "msgs_ok n s \<Longrightarrow> msgs_ok n (kill_connections pids s)"
proof -
  assume s: "msgs_ok n s"
  have "msgs_ok n t \<Longrightarrow> msgs_ok n (clear_child p t)" for p t
    unfolding clear_child_def by (rule msgs_ok_fold) (simp_all add: msgs_ok_basic)
  from msgs_ok_fold [of n clear_child, OF this s] have 1: "msgs_ok n (fold clear_child pids s)" .
  have "msgs_ok n t \<Longrightarrow> msgs_ok n (kill_child k t)" for k t by (simp add: kill_child_def Let_def)
  from msgs_ok_fold [of n kill_child, OF this 1] show ?thesis by (simp add: kill_connections_def Let_def)
qed

lemma msgs_ok_close_all: "msgs_ok n s \<Longrightarrow> msgs_ok n (close_all_conns pids pids' s)"
proof -
  have "msgs_ok n t \<Longrightarrow> msgs_ok n (fold (\<lambda>k. clear_connection (int k)) ks t)" for ks t
    by (rule msgs_ok_fold) (simp_all add: msgs_ok_basic)
  then show "msgs_ok n s \<Longrightarrow> msgs_ok n (close_all_conns pids pids' s)" by (simp add: close_all_conns_def Let_def msgs_ok_kill)
qed

lemma msgs_ok_get:
  assumes "msgs_ok n s" "sound s" "length addr = 12" "spawn_ok sp"
  shows "msgs_ok n (snd (find_get_conn_nr sp addr s))"
proof -
  obtain m u where m: "new_conn_nr s = (m, u)" by fastforce
  have u: "msgs_ok n u" "sound u" "m \<noteq> 0 \<Longrightarrow> m - 1 < count_connections u"
    using msgs_ok_basic(4) [OF assms(1)] new_conn [OF assms(2) m] m by auto
  have le: "count_connections t \<le> n" if "msgs_ok n t" "sound t" for t using that by (simp add: msgs_ok_def sound_def ncp_ok_def)
  have "m \<le> n" using le [OF u(1,2)] u(3) by (cases "m = 0") auto
  moreover have "find_conn_nr addr s \<le> n" using found_conn_nr(2) [of addr s] le [OF assms(1,2)] by (cases "find_conn_nr addr s") force+
  ultimately show ?thesis using u(1) assms(1,3) m msgs_ok_basic(3)
    by (auto simp: find_get_conn_nr_def u16_to_be16_def Let_def split: spawn.split)
qed

lemma msgs_ok_step: "ncp_step s s' \<Longrightarrow> sound s \<Longrightarrow> msgs_ok n s \<Longrightarrow> msgs_ok n s'"
proof (induction rule: ncp_step.induct)
  case (packet p ne s what)
  have "msgs_ok n (handle_request ne p s)" using packet msgs_ok_basic
    by (simp add: handle_request_def bad_connection_def Let_def)
  moreover have "msgs_ok n (give_connection ne p s)" using packet msgs_ok_get [of n s "k_from p" "spawns ne"] msgs_ok_basic(2)
    by (simp add: give_connection_def Let_def split_beta)
  ultimately show ?case using packet msgs_ok_basic
    by (simp add: handle_ncp_request_def ncp_handle_ctrl_def split: ncp_ctrl.split)
qed (auto intro: msgs_ok_kill msgs_ok_close_all)

section \<open>The three processes\<close>

record server =
  sv_ncp :: ncp_state
  sv_wd :: wd_state
  sv_bind :: bind_state
  sv_read :: nat
  sv_done :: nat

text \<open>\<open>sv_read\<close> messages of \<^verbatim>\<open>ncpserv\<close> have been read by \<^verbatim>\<open>nwserv\<close>, \<open>sv_done\<close> of its orders by
  \<^verbatim>\<open>nwbind\<close>.\<close>

fun order_of :: "wd_event \<Rightarrow> ctrl list" where
  "order_of (ToNwbind what) = [what]"
| "order_of _ = []"

definition orders :: "wd_state \<Rightarrow> ctrl list" where
  "orders s = concat (map order_of (wd_outs s))"

fun moves_conn :: "wdog_msg \<Rightarrow> bool" where
  "moves_conn (InsertWdog _ _) = True"
| "moves_conn (CloseWdog _) = True"
| "moves_conn _ = False"

fun conn_order :: "ctrl \<Rightarrow> bool" where
  "conn_order (InsertConn _ _) = True"
| "conn_order (ClearConn _) = True"
| "conn_order _ = False"

text \<open>The messages of \<^verbatim>\<open>nwbind\<close> to \<^verbatim>\<open>nwserv\<close> reset a watchdog, announce a message or end the server;
  \<^verbatim>\<open>nwserv\<close> gives \<^verbatim>\<open>nwbind\<close> other orders too.\<close>

inductive server_step :: "server \<Rightarrow> server \<Rightarrow> bool" where
  ncp: "ncp_step (sv_ncp s) t \<Longrightarrow> server_step s (s\<lparr>sv_ncp := t\<rparr>)"
| pipe: "sv_read s < length (ncp_msgs (sv_ncp s)) \<Longrightarrow> 0 < acttime we \<Longrightarrow>
     server_step s (s\<lparr>sv_wd := snd (read_pipe we (ncp_msgs (sv_ncp s) ! sv_read s) (sv_wd s)), sv_read := sv_read s + 1\<rparr>)"
| from_bind: "\<not> moves_conn msg \<Longrightarrow> 0 < acttime we \<Longrightarrow> server_step s (s\<lparr>sv_wd := snd (read_pipe we msg (sv_wd s))\<rparr>)"
| answer: "0 < acttime we \<Longrightarrow> server_step s (s\<lparr>sv_wd := wdog_answer we connid source (sv_wd s)\<rparr>)"
| round: "0 < acttime we \<Longrightarrow> server_step s (s\<lparr>sv_wd := wdog_round we due call_wdog (sv_wd s)\<rparr>)"
| order: "\<not> conn_order what \<Longrightarrow> server_step s (s\<lparr>sv_wd := wd_emit (ToNwbind what) (sv_wd s)\<rparr>)"
| deliver: "sv_done s < length (orders (sv_wd s)) \<Longrightarrow>
     server_step s (s\<lparr>sv_bind := snd (nwbind_receive ne fill True ncp (FromNwserv (orders (sv_wd s) ! sv_done s)) (sv_bind s)),
       sv_done := sv_done s + 1\<rparr>)"
| client: "\<forall>what. pkt \<noteq> FromNwserv what \<Longrightarrow> server_step s (s\<lparr>sv_bind := snd (nwbind_receive ne fill local ncp pkt (sv_bind s))\<rparr>)"
| usr2: "server_step s (s\<lparr>sv_bind := handle_usr2 ne (sv_bind s)\<rparr>)"

definition server_start :: "nat \<Rightarrow> bindery \<Rightarrow> qstate \<Rightarrow> server" where
  "server_start n b q =
     \<lparr>sv_ncp = ncp_start n, sv_wd = wd_start n, sv_bind = nwbind_start n b q, sv_read = 0, sv_done = 0\<rparr>"

definition no_conns :: conn_view where "no_conns = (\<lambda>k. None)"

fun ctrls_of :: "wdog_msg \<Rightarrow> ctrl list" where
  "ctrls_of (InsertWdog conn buf) = [InsertConn conn buf]"
| "ctrls_of (CloseWdog conn) = [ClearConn conn]"
| "ctrls_of _ = []"

definition read_msgs :: "server \<Rightarrow> wdog_msg list" where
  "read_msgs s = take (sv_read s) (ncp_msgs (sv_ncp s))"

section \<open>What the processes know\<close>

text \<open>The watchdog watches the clients that it has been told of.\<close>

definition watches :: "wd_state \<Rightarrow> conn_view \<Rightarrow> bool" where
  "watches t v = (\<forall>k adr. v k = Some adr \<longrightarrow> k < hi_conn t \<and> w_addr (wd_conns t ! k) = adr \<and> last_time (wd_conns t ! k) \<noteq> 0)"

definition agrees :: "nat \<Rightarrow> server \<Rightarrow> bool" where
  "agrees n s \<longleftrightarrow> sound (sv_ncp s) \<and> msgs_ok n (sv_ncp s) \<and> sv_read s \<le> length (ncp_msgs (sv_ncp s)) \<and>
     tabled n (sv_wd s) \<and> sv_done s \<le> length (orders (sv_wd s)) \<and>
     filter conn_order (orders (sv_wd s)) = concat (map ctrls_of (read_msgs s)) \<and>
     watches (sv_wd s) (fold apply_msg (read_msgs s) no_conns) \<and>
     length (connections (sv_bind s)) = n \<and>
     bind_view (sv_bind s) = fold (apply_ctrl n) (take (sv_done s) (orders (sv_wd s))) no_conns"

subsection \<open>The watchdog table\<close>

lemma watches_upd:
  assumes "watches t v" "\<And>c. w_addr (f c) = w_addr c" "\<And>c. last_time c \<noteq> 0 \<Longrightarrow> last_time (f c) \<noteq> 0"
  shows "watches (upd_wd k f t) v"
  using assms by (cases "k < length (wd_conns t)") (auto simp: watches_def, auto simp: upd_wd_def list_update_beyond)

lemma watches_frame [simp]: "watches (wd_emit e t) v = watches t v" "watches (t\<lparr>server_down_stamp := d\<rparr>) v = watches t v"
  by (simp_all add: watches_def)

lemma watches_modify:
  assumes "watches t v" "0 < acttime we" "mode < 99"
  shows "watches (modify_wdog_conn we conn mode t) v"
  using assms by (auto simp: modify_wdog_conn_def Let_def intro!: watches_upd)

lemma kept_hi: "last_time (cs ! k) \<noteq> 0 \<Longrightarrow> k < n \<Longrightarrow> k < shrink_hi cs n"
  by (induction n) (auto simp: less_Suc_eq)

lemma watches_remove:
  assumes "watches t v" "0 < conn"
  shows "watches (modify_wdog_conn we conn 99 t) (v(nat (conn - 1) := None))"
proof (cases "conn - 1 < int (hi_conn t)")
  case True
  let ?t = "upd_wd (nat (conn - 1)) (\<lambda>c. zero_wdog) t"
  have t: "watches ?t (v(nat (conn - 1) := None))" using assms(1) by (auto simp: watches_def upd_wd_def)
  then have "watches (?t\<lparr>hi_conn := shrink_hi (wd_conns ?t) (hi_conn ?t)\<rparr>) (v(nat (conn - 1) := None))"
    unfolding watches_def by (auto intro!: kept_hi simp del: upd_wd_simps)
  with t True assms(2) show ?thesis by (simp add: modify_wdog_conn_def Let_def)
next
  case False
  then show ?thesis using assms by (auto simp: modify_wdog_conn_def watches_def Let_def)
qed

lemma watches_insert:
  assumes "watches t v" "tabled n t" "0 < conn" "conn \<le> int n" "0 < acttime we"
  shows "watches (insert_wdog_conn we conn adr t) (v(nat (conn - 1) := Some adr))"
proof -
  let ?t = "t\<lparr>wd_conns := map (\<lambda>j. if hi_conn t \<le> j \<and> j < nat conn then zero_wdog else wd_conns t ! j) [0..<length (wd_conns t)],
                   hi_conn := max (hi_conn t) (nat conn)\<rparr>"
  have "watches ?t v" unfolding watches_def
  proof (intro allI impI)
    fix k a assume "v k = Some a"
    then have k: "k < hi_conn t" "w_addr (wd_at t k) = a" "last_time (wd_at t k) \<noteq> 0"
      using assms(1) by (auto simp: watches_def)
    then have "k < length (wd_conns t)" using assms(2) by (simp add: tabled_def)
    with k show "k < hi_conn ?t \<and> w_addr (wd_at ?t k) = a \<and> last_time (wd_at ?t k) \<noteq> 0" by (simp add: less_max_iff_disj)
  qed
  moreover have "nat (conn - 1) < length (wd_conns ?t)" "nat (conn - 1) < hi_conn ?t" using assms(2-4) by (auto simp: tabled_def)
  ultimately have "watches (upd_wd (nat (conn - 1)) (\<lambda>c. c\<lparr>last_time := acttime we, wcounter := 0, w_addr := adr\<rparr>) ?t)
      (v(nat (conn - 1) := Some adr))"
    using assms(5) unfolding watches_def by simp
  then show ?thesis using assms(2-4) by (simp add: insert_wdog_conn_def Let_def tabled_def nat_diff_distrib)
qed

lemma watches_client: "watches t v \<Longrightarrow> 0 < acttime we \<Longrightarrow> watches (wdog_client we k t) v"
  by (auto simp: wdog_client_def send_wdog_packet_def Let_def intro!: watches_upd watches_modify)

lemma watches_wdogs: "watches t v \<Longrightarrow> 0 < acttime we \<Longrightarrow> watches (send_wdogs we t) v"
  unfolding send_wdogs_def by (rule fold_keeps [where P = "\<lambda>t. watches t v"]) (auto intro: watches_client)

lemma watches_read:
  assumes "watches t v" "0 < acttime we" "msg_ok n msg" "tabled n t"
  shows "watches (snd (read_pipe we msg t)) (apply_msg msg v)"
proof (cases msg)
  case (ModWdog conn what)
  have "watches (fold (\<lambda>k. modify_wdog_conn we (int k) 1) ks t) v" for ks
    by (rule fold_keeps [where P = "\<lambda>t. watches t v"]) (use assms watches_modify in auto)
  then show ?thesis using assms by (auto simp: read_pipe_def ModWdog intro: watches_modify)
next
  case (CloseWdog conn)
  show ?thesis
  proof (cases "0 < conn")
    case False
    then have "modify_wdog_conn we conn 99 t = t" by (simp add: modify_wdog_conn_def Let_def)
    then show ?thesis using False assms(1) by (simp add: read_pipe_def CloseWdog)
  qed (use assms watches_remove in \<open>simp add: read_pipe_def CloseWdog\<close>)
qed (use assms watches_insert in \<open>auto simp: read_pipe_def send_bcasts_def down_server_wd_def\<close>)

subsection \<open>The orders of nwserv\<close>

lemma orders_simps [simp]: "orders (upd_wd k f t) = orders t" "orders (wd_emit e t) = orders t @ order_of e"
  "orders (t\<lparr>server_down_stamp := d\<rparr>) = orders t"  "orders (t\<lparr>hi_conn := h\<rparr>) = orders t" "orders (t\<lparr>wd_conns := c\<rparr>) = orders t"
  by (simp_all add: orders_def upd_wd_def wd_emit_def)

lemma orders_modify [simp]: "orders (modify_wdog_conn we conn mode t) = orders t"
  by (simp add: modify_wdog_conn_def Let_def)

lemma orders_wdogs [simp]: "orders (send_wdogs we t) = orders t"
proof -
  have "orders (wdog_client we k u) = orders u" for k u by (simp add: wdog_client_def send_wdog_packet_def Let_def)
  then show ?thesis unfolding send_wdogs_def by (intro fold_keeps [where P = "\<lambda>u. orders u = orders t"]) simp_all
qed

lemma orders_answer [simp]: "orders (wdog_answer we connid source t) = orders t"
  by (simp add: wdog_answer_def split: option.split)

lemma orders_read: "msg_ok n msg \<Longrightarrow> \<exists>os. orders (snd (read_pipe we msg t)) = orders t @ os \<and> filter conn_order os = ctrls_of msg"
proof (cases msg)
  case (ModWdog conn what)
  have "orders (fold (\<lambda>k. modify_wdog_conn we (int k) 1) ks t) = orders t" for ks
    by (intro fold_keeps [where P = "\<lambda>u. orders u = orders t"]) simp_all
  then show ?thesis by (auto simp: read_pipe_def ModWdog)
qed (auto simp: read_pipe_def send_bcasts_def down_server_wd_def insert_wdog_conn_def Let_def)

subsection \<open>The messages of ncpserv\<close>

definition grows :: "ncp_state \<Rightarrow> ncp_state \<Rightarrow> bool" where
  "grows s t = (\<exists>es. ncp_outs t = ncp_outs s @ es)"

lemma grows_basic [simp]: "grows s s" "grows s (upd_ncp k f t) = grows s t" "grows s (t\<lparr>count_connections := c\<rparr>) = grows s t"
  "grows s (t\<lparr>ncp_goes_down := d\<rparr>) = grows s t" "grows s (t\<lparr>ncp_conns := cs\<rparr>) = grows s t"
  by (simp_all add: grows_def upd_ncp_def)

lemma grows_emit [simp]: "grows s t \<Longrightarrow> grows s (ncp_emit e t)"
  by (auto simp: grows_def ncp_emit_def)

lemma grows_clear [simp]: "grows s t \<Longrightarrow> grows s (clear_connection conn t)" "grows s t \<Longrightarrow> grows s (ncp_response ty q c ta co cs t)"
  by (simp_all add: clear_connection_def ncp_response_def Let_def)

lemma grows_fold: "(\<And>k t. grows s t \<Longrightarrow> grows s (f k t)) \<Longrightarrow> grows s t \<Longrightarrow> grows s (fold f ks t)"
  by (induction ks arbitrary: t) auto

lemma grows_kill: "grows s t \<Longrightarrow> grows s (kill_connections pids t)"
proof -
  assume t: "grows s t"
  have "grows s u \<Longrightarrow> grows s (clear_child p u)" for p u unfolding clear_child_def by (rule grows_fold) simp_all
  from grows_fold [of s clear_child, OF this t] have 1: "grows s (fold clear_child pids t)" .
  have "grows s u \<Longrightarrow> grows s (kill_child k u)" for k u by (simp add: kill_child_def Let_def)
  from grows_fold [of s kill_child, OF this 1] show ?thesis by (simp add: kill_connections_def Let_def)
qed

lemma grows_get: "grows s (snd (find_get_conn_nr sp addr s))"
  by (simp add: find_get_conn_nr_def new_conn_nr_def free_conn_nr_def Let_def split_beta split: option.split spawn.split)

lemma grows_step: "ncp_step s t \<Longrightarrow> grows s t"
proof (induction rule: ncp_step.induct)
  case (packet p ne s what)
  have "grows s (handle_request ne p s)" by (simp add: handle_request_def bad_connection_def Let_def)
  moreover have "grows s (give_connection ne p s)" using grows_get [of s "spawns ne" "k_from p"]
    by (auto simp: give_connection_def Let_def split_beta)
  ultimately show ?case by (simp add: handle_ncp_request_def ncp_handle_ctrl_def split: ncp_ctrl.split)
next
  case (leave s pids pids')
  have "grows s u \<Longrightarrow> grows s (fold (\<lambda>k. clear_connection (int k)) ks u)" for ks u by (rule grows_fold) simp_all
  then show ?case by (simp add: close_all_conns_def Let_def grows_kill)
qed (rule grows_kill, simp)

lemma msgs_step: "ncp_step s t \<Longrightarrow> \<exists>ms. ncp_msgs t = ncp_msgs s @ ms"
  using grows_step [of s t] by (auto simp: grows_def ncp_msgs_def)

section \<open>The processes agree\<close>

lemma agrees_start: "0 < n \<Longrightarrow> agrees n (server_start n b q)"
proof -
  assume n: "0 < n"
  have "ncp_msgs (ncp_start n) = []" "orders (wd_start n) = []" "bind_view (nwbind_start n b q) = no_conns"
    by (auto simp: ncp_msgs_def ncp_start_def orders_def wd_start_def bind_view_def nwbind_start_def conn0_def no_conns_def)
  then show ?thesis using sound_start [OF n] tabled_start [of n]
    by (simp add: agrees_def server_start_def msgs_ok_def read_msgs_def watches_def no_conns_def)
      (simp add: ncp_start_def nwbind_start_def)
qed

text \<open>A change of the watchdog that reads no message of a connection.\<close>

lemma agrees_wd:
  assumes "agrees n s" "watches t (fold apply_msg (read_msgs s) no_conns)" "tabled n t"
    "orders t = orders (sv_wd s) @ os" "filter conn_order os = []"
  shows "agrees n (s\<lparr>sv_wd := t\<rparr>)"
  using assms by (simp add: agrees_def read_msgs_def)

lemma agrees_bind: "agrees n s \<Longrightarrow> who st = who (sv_bind s) \<Longrightarrow> agrees n (s\<lparr>sv_bind := st\<rparr>)"
  using view_who [of st "sv_bind s"] by (simp add: agrees_def read_msgs_def)

lemma quiet_msg: "\<not> moves_conn msg \<Longrightarrow> msg_ok n msg \<and> ctrls_of msg = [] \<and> apply_msg msg v = v"
  by (cases msg) auto

lemma agrees_step: "server_step s s' \<Longrightarrow> agrees n s \<Longrightarrow> agrees n s'"
proof (induction rule: server_step.induct)
  case (ncp s t)
  then obtain ms where "ncp_msgs t = ncp_msgs (sv_ncp s) @ ms" using msgs_step by blast
  with ncp show ?case by (auto simp: agrees_def read_msgs_def intro: sound_step msgs_ok_step)
next
  case (pipe s we)
  let ?m = "ncp_msgs (sv_ncp s) ! sv_read s"
  have m: "msg_ok n ?m" using pipe by (auto simp: agrees_def msgs_ok_def list_all_length)
  have r: "take (sv_read s + 1) (ncp_msgs (sv_ncp s)) = read_msgs s @ [?m]"
    using pipe(1) by (simp add: read_msgs_def take_Suc_conv_app_nth)
  obtain os where os: "orders (snd (read_pipe we ?m (sv_wd s))) = orders (sv_wd s) @ os" "filter conn_order os = ctrls_of ?m"
    using orders_read [OF m] by blast
  have w: "watches (snd (read_pipe we ?m (sv_wd s))) (apply_msg ?m (fold apply_msg (read_msgs s) no_conns))"
    by (rule watches_read [OF _ pipe(2) m]) (use pipe in \<open>simp_all add: agrees_def\<close>)
  have "tabled n (snd (read_pipe we ?m (sv_wd s)))"
    by (rule tabled_step [OF wd_step.message]) (use pipe in \<open>simp add: agrees_def\<close>)
  then show ?case using pipe os r w by (simp add: agrees_def read_msgs_def)
next
  case (from_bind msg we s)
  note q = quiet_msg [OF from_bind(1), of n]
  obtain os where os: "orders (snd (read_pipe we msg (sv_wd s))) = orders (sv_wd s) @ os" "filter conn_order os = ctrls_of msg"
    using orders_read [of n msg] q by blast
  show ?case
    by (rule agrees_wd [OF from_bind(3) _ tabled_step [OF wd_step.message] os(1)])
      (use from_bind os(2) watches_read [OF _ from_bind(2), of "sv_wd s" _ n msg] q in \<open>auto simp: agrees_def\<close>)
next
  case (answer we s connid source)
  have "watches (wdog_answer we connid source (sv_wd s)) v" if "watches (sv_wd s) v" for v
    using that answer(1) by (auto simp: wdog_answer_def watches_modify split: option.split)
  then show ?case
    by (intro agrees_wd [OF answer(2), where os = "[]"] tabled_step [OF wd_step.answer]) (use answer in \<open>simp_all add: agrees_def\<close>)
next
  case (round we s due call_wdog)
  show ?case
    by (intro agrees_wd [OF round(2), where os = "[]"] tabled_step [OF wd_step.round])
      (use round in \<open>simp_all add: agrees_def wdog_round_def watches_wdogs\<close>)
next
  case (order what s)
  show ?case
    by (rule agrees_wd [OF order(2), where os = "[what]"]) (use order in \<open>simp_all add: agrees_def\<close>)
next
  case (deliver s ne fill ncp)
  then show ?case using order_view [of "sv_bind s" n]
    by (simp add: agrees_def read_msgs_def nwbind_receive_def take_Suc_conv_app_nth)
next
  case (client pkt s ne fill local ncp)
  show ?case by (rule agrees_bind [OF client(2) who_client [OF client(1)]])
next
  case (usr2 s ne)
  show ?case by (rule agrees_bind [OF usr2 who_usr2])
qed

lemma fold_conn_orders: "fold (apply_ctrl n) os v = fold (apply_ctrl n) (filter conn_order os) v"
proof (induction os arbitrary: v)
  case (Cons what os)
  then show ?case by (cases what) simp_all
qed simp

lemma fold_orders_msgs:
  "list_all (msg_ok n) ms \<Longrightarrow> \<forall>k \<ge> n. v k = None \<Longrightarrow> fold (apply_ctrl n) (concat (map ctrls_of ms)) v = fold apply_msg ms v"
proof (induction ms arbitrary: v)
  case (Cons m ms)
  show ?case
  proof (cases m)
    case (InsertWdog conn buf)
    then have c: "0 < conn" "conn \<le> int n" using Cons.prems by auto
    then have "nat (conn - 1) < n" by linarith
    then have "\<forall>k \<ge> n. (v(nat (conn - 1) := Some (take 12 buf))) k = None" using Cons.prems(2) by auto
    then show ?thesis using Cons InsertWdog c by simp
  next
    case (CloseWdog conn)
    have "\<not> conn \<le> int n \<Longrightarrow> v(nat (conn - 1) := None) = v" using Cons.prems(2) by (intro fun_upd_idem) simp
    then show ?thesis using Cons CloseWdog by simp
  qed (use Cons in simp_all)
qed simp

lemma prefix_of_orders: "xs @ ys = concat (map ctrls_of ms) \<Longrightarrow> \<exists>m \<le> length ms. xs = concat (map ctrls_of (take m ms))"
proof (induction ms arbitrary: xs)
  case (Cons a ms)
  show ?case
  proof (cases "xs = []")
    case False
    obtain zs where z: "xs = ctrls_of a @ zs" "zs @ ys = concat (map ctrls_of ms)"
      using Cons.prems False by (cases a; cases xs) auto
    obtain m where "m \<le> length ms" "zs = concat (map ctrls_of (take m ms))" using Cons.IH [OF z(2)] by blast
    then show ?thesis using z(1) by (intro exI [of _ "Suc m"]) simp
  qed (auto intro: exI [of _ 0])
qed simp

lemma agrees_run: "server_step\<^sup>*\<^sup>* s s' \<Longrightarrow> agrees n s \<Longrightarrow> agrees n s'"
  by (induction rule: rtranclp_induct) (auto intro: agrees_step)

text \<open>C1. The three processes agree about who is connected.  In every interleaving of their work, of the
  requests of clients, of watchdog rounds and of other orders, \<^verbatim>\<open>nwbind\<close> takes each connection for the client
  that \<^verbatim>\<open>ncpserv\<close> has told of at some point in its messages, none of them left out or changed in order; and
  as soon as no message is under way it takes exactly the connections of \<^verbatim>\<open>ncpserv\<close> for exactly their clients,
  and the watchdog asks each of these clients at its own address.\<close>

theorem processes_agree:
  assumes "0 < n" and "server_step\<^sup>*\<^sup>* (server_start n b q) s"
  shows "\<exists>m \<le> sv_read s. bind_view (sv_bind s) = fold apply_msg (take m (ncp_msgs (sv_ncp s))) (\<lambda>k. None) \<and>
    (sv_read s = length (ncp_msgs (sv_ncp s)) \<and> sv_done s = length (orders (sv_wd s)) \<longrightarrow>
       bind_view (sv_bind s) = ncp_view (sv_ncp s) \<and>
       (\<forall>k adr. ncp_view (sv_ncp s) k = Some adr \<longrightarrow> k < hi_conn (sv_wd s) \<and> w_addr (wd_conns (sv_wd s) ! k) = adr))"
proof -
  let ?msgs = "ncp_msgs (sv_ncp s)" and ?os = "orders (sv_wd s)"
  have a: "agrees n s" by (rule agrees_run [OF assms(2) agrees_start [OF assms(1)]])
  have fm: "fold (apply_ctrl n) (concat (map ctrls_of (take m ?msgs))) no_conns = fold apply_msg (take m ?msgs) no_conns" for m
    using a by (intro fold_orders_msgs) (auto simp: agrees_def msgs_ok_def no_conns_def list_all_iff dest: in_set_takeD)
  have view: "bind_view (sv_bind s) = fold (apply_ctrl n) (filter conn_order (take (sv_done s) ?os)) no_conns"
    using a fold_conn_orders by (simp add: agrees_def)
  have "filter conn_order (take (sv_done s) ?os) @ filter conn_order (drop (sv_done s) ?os) = concat (map ctrls_of (read_msgs s))"
    using a by (simp add: agrees_def flip: filter_append)
  then obtain m where m: "m \<le> length (read_msgs s)" "filter conn_order (take (sv_done s) ?os) = concat (map ctrls_of (take m (read_msgs s)))"
    using prefix_of_orders by blast
  have tm: "take m (read_msgs s) = take m ?msgs" "m \<le> sv_read s" using m(1) by (auto simp: read_msgs_def min_def split: if_splits)
  have "bind_view (sv_bind s) = ncp_view (sv_ncp s) \<and>
       (\<forall>k adr. ncp_view (sv_ncp s) k = Some adr \<longrightarrow> k < hi_conn (sv_wd s) \<and> w_addr (wd_conns (sv_wd s) ! k) = adr)"
    if "sv_read s = length ?msgs" "sv_done s = length ?os"
  proof -
    have all: "read_msgs s = ?msgs" using that by (simp add: read_msgs_def)
    have "fold apply_msg ?msgs no_conns = ncp_view (sv_ncp s)" using a by (simp add: agrees_def sound_def said_def no_conns_def)
    moreover from this have "bind_view (sv_bind s) = ncp_view (sv_ncp s)"
      using view that(2) a all fm [of "length ?msgs"] by (simp add: agrees_def)
    ultimately show ?thesis using a all by (auto simp: agrees_def watches_def)
  qed
  moreover have "bind_view (sv_bind s) = fold apply_msg (take m ?msgs) (\<lambda>k. None)"
    using view m(2) fm [of m] tm(1) by (simp add: no_conns_def)
  ultimately show ?thesis using tm(2) by blast
qed

section \<open>A client arrives\<close>

text \<open>A client attaches, \<^verbatim>\<open>nwserv\<close> reads the message, \<^verbatim>\<open>nwbind\<close> carries out the order.\<close>

definition arrival1 :: server where
  "arrival1 = (server_start 2 bindery0 (queues0 (\<lambda>f. None)))\<lparr>sv_ncp := attached0\<rparr>"

definition arrival2 :: server where
  "arrival2 = arrival1\<lparr>sv_wd := snd (read_pipe (wd_env0 100) (ncp_msgs attached0 ! 0) (wd_start 2)), sv_read := 1\<rparr>"

definition arrival3 :: server where
  "arrival3 = arrival2\<lparr>sv_bind := snd (nwbind_receive ne0 (\<lambda>b. b) True True (FromNwserv (orders (sv_wd arrival2) ! sv_done arrival2)) (sv_bind arrival2)),
     sv_done := sv_done arrival2 + 1\<rparr>"

lemma arrival_messages: "length (ncp_msgs attached0) = 1" "length (orders (sv_wd arrival2)) = 1"
  by code_simp+

lemma arrival_run: "server_step\<^sup>*\<^sup>* (server_start 2 bindery0 (queues0 (\<lambda>f. None))) arrival3"
proof -
  have "ncp_step (ncp_start 2) attached0"
    unfolding attached0_def by (rule ncp_step.packet) (simp_all add: attach0_def client0_def ncp_env0_def spawn_ok_def)
  then have 1: "server_step (server_start 2 bindery0 (queues0 (\<lambda>f. None))) arrival1"
    unfolding arrival1_def by (intro server_step.ncp) (simp add: server_start_def)
  have 2: "server_step arrival1 arrival2"
    using server_step.pipe [of arrival1 "wd_env0 100"] arrival_messages(1)
    by (simp add: arrival1_def arrival2_def server_start_def wd_env0_def)
  have 3: "server_step arrival2 arrival3"
    unfolding arrival3_def
    by (rule server_step.deliver) (simp add: arrival_messages(2), simp add: arrival2_def arrival1_def server_start_def)
  show ?thesis using 1 2 3 by (meson converse_rtranclp_into_rtranclp rtranclp.rtrancl_refl)
qed

theorem processes_agree_witness: "bind_view (sv_bind arrival3) 0 = Some client0 \<and> w_addr (wd_conns (sv_wd arrival3) ! 0) = client0"
proof -
  have "sv_ncp arrival3 = attached0" "sv_read arrival3 = 1" "sv_done arrival3 = 1" "sv_wd arrival3 = sv_wd arrival2"
    by (simp_all add: arrival3_def arrival2_def arrival1_def server_start_def)
  then show ?thesis using processes_agree [OF _ arrival_run] arrival_messages attached0_view(1) by auto
qed

end
