(* ===== verification/Spec2Isabelle.thy ===== *)
theory Spec2Isabelle
  imports Prelude Nwcrypt Sema Nwshare Nwlock Strings Volume Trustee Nwattrib Nwroute Bindery BinderyLaws BinderySound Password Nwqueue QueueLaws Nwbind BindRequests BindLaws BindRuns LoginLimit Server
begin

text \<open>
  Verification of mars\_nwe, a NetWare server for Unix.

  The program.  \<^verbatim>\<open>nwserv\<close> (\<^verbatim>\<open>src/nwserv.c\<close>) is the router and starts the others: \<^verbatim>\<open>ncpserv\<close>
  (\<^verbatim>\<open>src/ncpserv.c\<close>) accepts connections, \<^verbatim>\<open>nwbind\<close> (\<^verbatim>\<open>src/nwbind.c\<close>, \<^verbatim>\<open>nwdbm.c\<close>, \<^verbatim>\<open>nwqueue.c\<close>,
  \<^verbatim>\<open>sema.c\<close>) keeps the bindery, the print queues and the semaphores, and one \<^verbatim>\<open>nwconn\<close> per client
  (\<^verbatim>\<open>src/nwconn.c\<close>, \<^verbatim>\<open>connect.c\<close>, \<^verbatim>\<open>namspace.c\<close>, \<^verbatim>\<open>nwvolume.c\<close>, \<^verbatim>\<open>trustee.c\<close>, \<^verbatim>\<open>nwattrib.c\<close>,
  \<^verbatim>\<open>nwfile.c\<close>, \<^verbatim>\<open>nwshare.c\<close>) executes the file requests with the client's Unix identity.  The
  processes of two clients meet only in the kernel: in advisory locks, in symbolic links that hold
  trustees and attributes, and in the tables of \<^verbatim>\<open>nwbind\<close>.

  What is modelled, and where.
  \<^item> \<open>Prelude\<close>: the byte-order macros of \<^verbatim>\<open>include/net.h\<close>, lemmas on arrays and chains, and the
    interfaces \<open>round_cipher\<close> (interpreted in \<open>Nwcrypt\<close>) and \<open>refcounted\<close> (in \<open>Sema\<close>).
  \<^item> \<open>Strings\<close>: the string routines of \<^verbatim>\<open>src/tools.c\<close>, the reader of \<^verbatim>\<open>nwserv.conf\<close>
    (\<open>get_ini_entry\<close>) and the character tables of \<^verbatim>\<open>src/nwfname.c\<close>.  The wildcard match agrees with
    the usual meaning of the pattern, except for a pattern that ends in two stars; a configuration line
    is read back.
  \<^item> \<open>Nwcrypt\<close>: the login hash and the new-password cipher of \<^verbatim>\<open>src/nwcrypt.c\<close>.  Decryption inverts
    encryption; which bytes of a password matter.
  \<^item> \<open>Sema\<close>: the semaphores of \<^verbatim>\<open>src/sema.c\<close>, from the request buffer to the table, with the tables
    of all connections.  The handles that a connection holds are live, the open counts are the sum of
    what the connections hold, and closing a connection gives back exactly its own references.
  \<^item> \<open>Nwshare\<close>: sharing of files between processes (\<^verbatim>\<open>src/nwshare.c\<close>) by one-byte locks of the kernel.
    The modes that two clients hold exclude each other, and the counters of every process agree
    with the locks the kernel has granted.
  \<^item> \<open>Nwlock\<close>: the byte-range locks and lock sets of \<^verbatim>\<open>src/nwshare.c\<close> and the logical records of
    \<^verbatim>\<open>src/nwfile.c\<close>.  Exclusive ranges of one file are disjoint; what overlaps the code misses.
  \<^item> \<open>Volume\<close>: the volume table of \<^verbatim>\<open>src/nwvolume.c\<close>.  It stays well formed through configuration and
    login, and a handle keeps naming the inode it was given for.
  \<^item> \<open>Trustee\<close>: all of \<^verbatim>\<open>src/trustee.c\<close>, with the cache of nodes as pointers into a heap, and the
    rights a user has from Unix (\<^verbatim>\<open>src/connect.c\<close>).  The rights found along a path are those of an
    inheritance specification; what may be written; limits of the Unix rights.
  \<^item> \<open>Nwattrib\<close>: all of \<^verbatim>\<open>src/nwattrib.c\<close>.  Attributes are read back if the kernel
    lets their link be written (the code does not look), and need the modify right.
  \<^item> \<open>Nwroute\<close>: \<^verbatim>\<open>src/nwroute.c\<close> and the packets it exchanges with other servers, with
    \<open>handle_sap\<close> of \<^verbatim>\<open>src/nwserv.c\<close> and the interface list of \<^verbatim>\<open>src/emutli1.c\<close>.  The tables stay
    sound in every run, the route table implements a best-route specification, what is told in RIP
    packets is learned by the receiver, a shutdown leaves no route, and the nearest server is named.
    The interface \<open>slot_search\<close> is interpreted on the searches of the route and the server table.
  \<^item> \<open>Bindery\<close>, \<open>BinderyLaws\<close>, \<open>BinderySound\<close>: the bindery of \<^verbatim>\<open>src/nwdbm.c\<close>, its three data
    bases (objects, properties, values in segments of 128 bytes) and every operation on them, with the
    access check \<open>b_acc\<close> of \<^verbatim>\<open>src/nwbind.c\<close>.  \<open>bindery_ok\<close> says that keys are unique, that names
    are unique among the objects of a type and the properties of an object, and that no property or
    value outlives what it belongs to; every operation keeps it.  The segments of a set property
    implement a set of object ids.
  \<^item> \<open>Password\<close>: passwords, key changes and login restrictions in the bindery.  What is set is what
    opens the account; a change needs the old password, or a supervisor.  The interface \<open>prop_store\<close> (what a
    property holds after it is written) is interpreted on the bindery.
  \<^item> \<open>Nwqueue\<close>, \<open>QueueLaws\<close>: all of \<^verbatim>\<open>src/nwqueue.c\<close>, the print queues with their jobs, clients and
    queue servers.  In every run the jobs of a queue have different ids and positions counted from 1; a
    ready job is served after at most as many requests as jobs wait before it; a served job stays with
    its server; a restart loses no job.
  \<^item> \<open>Nwbind\<close>, \<open>BindRequests\<close>: the process \<^verbatim>\<open>nwbind\<close> of \<^verbatim>\<open>src/nwbind.c\<close>: its connections, login
    restrictions, every case of \<open>handle_fxx\<close>, the orders of \<open>handle_ctrl\<close> and the main loop.
    \<open>BindLaws\<close>: a connection becomes an object only by its password, only a supervisor changes objects,
    a value is read only with the right to.  The interfaces
    \<open>message_part\<close>, \<open>state_part\<close>, \<open>request_part\<close> and \<open>conn_part\<close> say which requests leave a view of
    the state alone; they are interpreted on the data base, the queues, the identities of the
    connections and the semaphores.  \<open>BindRuns\<close>: a run of \<^verbatim>\<open>nwbind\<close> is a run of its semaphores
    and of its queues.  \<open>LoginLimit\<close>: the limit on the logins of a user outlives the requests that rewrite
    LOGIN\_CONTROL, and the number of logins stays within it, in every run in which nobody edits the bindery.
  \<^item> \<open>Ncpserv\<close>, \<open>NcpLaws\<close>: the process \<^verbatim>\<open>ncpserv\<close> of \<^verbatim>\<open>src/ncpserv.c\<close>, from the numbers of
    connections to every kind of packet.  A number belongs to one client; a packet reaches only the
    \<^verbatim>\<open>nwconn\<close> of its sender.  \<open>Watchdog\<close>, \<open>WatchdogLaws\<close>: the watchdog of \<^verbatim>\<open>src/nwserv.c\<close> and
    the part of its main loop that serves the two sons.  No client is given up before two packets stay
    unanswered, a silent one after four, if it may be asked.  \<open>Server\<close>: \<^verbatim>\<open>ncpserv\<close>, \<^verbatim>\<open>nwserv\<close> and \<^verbatim>\<open>nwbind\<close> with
    the messages between them; they agree about who is connected, provided that every order reaches
    \<^verbatim>\<open>nwbind\<close> once (retries and orders that are given up are not modelled).

  How the code is rendered.  Records, enumerations and functions keep their C names.  A static table
  is a field of a state record that every operation takes and returns; a pointer that may be
  \<^verbatim>\<open>NULL\<close> is an option or, where nodes are shared, an address into a heap; a return code is an
  integer as in C; words keep their width where arithmetic can wrap.  Calls to the kernel are
  parameters (\<open>fsview\<close> for the file system, outcomes of \<^verbatim>\<open>fcntl\<close>, \<^verbatim>\<open>chmod\<close>, the lines of
  \<^verbatim>\<open>/proc/net/ipx_interface\<close>) or, when only their order matters, events that are recorded.
  Loops are recursive functions with a termination proof; no fuel is used.

  A dbm file is the list of its records; the order in which \<^verbatim>\<open>dbm_firstkey\<close> and
  \<^verbatim>\<open>dbm_nextkey\<close> visit them and whether a file can be opened are parameters (\<open>env\<close>).  The
  connection on whose behalf the bindery acts is the argument \<open>acting\<close>: \<open>None\<close> for the server's own
  calls, else the object id and the flags of the connection.

  Bounds.  Path buffers are taken as long enough; \<^verbatim>\<open>int\<close> counters that only count table entries are
  unbounded.  \<^verbatim>\<open>uint32\<close> is 32 bits wide, as its name says.  Allocation does not fail: \<^verbatim>\<open>xmalloc\<close>
  ends the process.

  Not modelled.  Directory handles and path building (\<^verbatim>\<open>connect.c\<close>), name spaces
  (\<^verbatim>\<open>namspace.c\<close>), file handles (the rest of \<^verbatim>\<open>nwfile.c\<close>), the request loop of a client
  (\<^verbatim>\<open>nwconn.c\<close>) and the job files (\<^verbatim>\<open>nwqconn.c\<close>) work on the Unix file system at every step:
  open, stat, readdir, rename.  Their results are those of the kernel, of which this development has
  a model only where the code relies on it alone (locks, links with trustees and attributes).  In
  \<^verbatim>\<open>nwdbm.c\<close> the standard objects of the configuration, export and import, the set-up of print queues
  and the check of Unix user directories are sequences of the operations that are modelled, with text
  files and directories.  In \<^verbatim>\<open>nwserv.c\<close> and \<^verbatim>\<open>ncpserv.c\<close> start-up, configuration and signals.
  The report of the routing tables (\<open>print_routing_info\<close>), logging, the socket layer
  (\<^verbatim>\<open>emutli.c\<close>, \<^verbatim>\<open>net1.c\<close>, \<^verbatim>\<open>ipxif.c\<close>), the tools, the DOS programs under \<^verbatim>\<open>dosutils\<close> and the
  mail and option scripts only move data in and out of the kernel or run on other machines.
\<close>

end
